(* ===== verification/LF_Prelude.thy ===== *)
theory LF_Prelude
  imports Complex_Main "HOL-Library.AList" "HOL-Library.Char_ord" "HOL-Library.List_Lexorder"
begin

text \<open>
  Shared ground of the development: results of code that may raise, Python dicts as
  association lists, the pieces of Python's \<open>str\<close> that the modelled code calls (over ASCII
  text), signed sums over filtered lists, and the collections of facts the component
  theories extend. Nothing here models a file of the repository; every component theory
  imports it.
\<close>

named_theorems result_simps \<open>how sequencing of results that may raise unfolds\<close>
named_theorems frame_simps \<open>which tables an operation leaves alone\<close>
named_theorems effect_simps \<open>what an operation does to the table it writes\<close>

section \<open>Results of code that may raise\<close>

text \<open>A call that may raise returns \<open>Inl\<close> of the exception or \<open>Inr\<close> of its value.\<close>

definition bind_r :: "'e + 'a \<Rightarrow> ('a \<Rightarrow> 'e + 'b) \<Rightarrow> 'e + 'b" where
  "bind_r m f = (case m of Inl e \<Rightarrow> Inl e | Inr x \<Rightarrow> f x)"

lemma bind_r_simps [simp]:
  "bind_r (Inl e) f = Inl e"
  "bind_r (Inr x) f = f x"
  by (simp_all add: bind_r_def)

lemma bind_r_Inr_iff [result_simps]:
  "bind_r m f = Inr y \<longleftrightarrow> (\<exists>x. m = Inr x \<and> f x = Inr y)"
  by (cases m) auto

lemma bind_r_Inl_iff [result_simps]:
  "bind_r m f = Inl e \<longleftrightarrow> m = Inl e \<or> (\<exists>x. m = Inr x \<and> f x = Inl e)"
  by (cases m) auto

text \<open>\<open>raise_if\<close> is the guard \<open>if c: raise e\<close> in front of the rest of a body.\<close>

definition raise_if :: "bool \<Rightarrow> 'e \<Rightarrow> 'e + 'a \<Rightarrow> 'e + 'a" where
  "raise_if c e m = (if c then Inl e else m)"

lemma raise_if_simps [simp]:
  "raise_if True e m = Inl e"
  "raise_if False e m = m"
  by (simp_all add: raise_if_def)

lemma raise_if_Inr_iff [result_simps]: "raise_if c e m = Inr y \<longleftrightarrow> \<not> c \<and> m = Inr y"
  by (simp add: raise_if_def)

text \<open>A comprehension whose body may raise: the first exception ends it.\<close>

fun map_r :: "('a \<Rightarrow> 'e + 'b) \<Rightarrow> 'a list \<Rightarrow> 'e + 'b list" where
  "map_r f [] = Inr []"
| "map_r f (x # xs) = bind_r (f x) (\<lambda>y. bind_r (map_r f xs) (\<lambda>ys. Inr (y # ys)))"

lemma map_r_Inr_iff: "map_r f xs = Inr ys \<longleftrightarrow> list_all2 (\<lambda>x y. f x = Inr y) xs ys"
  by (induction xs arbitrary: ys) (auto simp: bind_r_Inr_iff list_all2_Cons1)

lemma list_all2_setD2: "list_all2 P xs ys \<Longrightarrow> y \<in> set ys \<Longrightarrow> \<exists>x \<in> set xs. P x y"
  by (induction rule: list_all2_induct) auto

lemma map_r_all_Inr: "(\<And>x. x \<in> set xs \<Longrightarrow> f x = Inr (g x)) \<Longrightarrow> map_r f xs = Inr (map g xs)"
  by (induction xs) auto

section \<open>Dicts\<close>

text \<open>
  A Python dict keeps insertion order and replaces a value in place: an association list
  with \<open>AList.update\<close>. \<open>dget\<close> is \<open>d.get(k)\<close>.
\<close>

type_synonym ('k, 'v) dict = "('k \<times> 'v) list"

abbreviation dget :: "('k, 'v) dict \<Rightarrow> 'k \<Rightarrow> 'v option" where
  "dget d k \<equiv> map_of d k"

abbreviation dset :: "'k \<Rightarrow> 'v \<Rightarrow> ('k, 'v) dict \<Rightarrow> ('k, 'v) dict" where
  "dset \<equiv> AList.update"

text \<open>\<open>d[k] = d.get(k, 0) + n\<close>, the counting idiom.\<close>

definition dbump :: "'k \<Rightarrow> int \<Rightarrow> ('k, int) dict \<Rightarrow> ('k, int) dict" where
  "dbump k n d = dset k ((case dget d k of None \<Rightarrow> 0 | Some v \<Rightarrow> v) + n) d"

definition dval :: "('k, int) dict \<Rightarrow> 'k \<Rightarrow> int" where
  "dval d k = (case dget d k of None \<Rightarrow> 0 | Some v \<Rightarrow> v)"

lemma dval_Nil [simp]: "dval [] k = 0"
  by (simp add: dval_def)

lemma dval_dbump [simp]: "dval (dbump k n d) k' = dval d k' + (if k = k' then n else 0)"
  by (auto simp: dval_def dbump_def update_conv' split: option.splits)

lemma dval_nonzero_iff:
  assumes "distinct (map fst d)"
  shows "(\<exists>(k, v) \<in> set d. v \<noteq> 0) \<longleftrightarrow> (\<exists>k. dval d k \<noteq> 0)"
proof
  assume "\<exists>(k, v) \<in> set d. v \<noteq> 0"
  then obtain k v where "(k, v) \<in> set d" "v \<noteq> 0" by blast
  then have "dval d k \<noteq> 0" using assms by (simp add: dval_def)
  then show "\<exists>k. dval d k \<noteq> 0" by blast
next
  assume "\<exists>k. dval d k \<noteq> 0"
  then obtain k where "dval d k \<noteq> 0" by blast
  then obtain v where "dget d k = Some v" "v \<noteq> 0"
    by (auto simp: dval_def split: option.splits)
  then show "\<exists>(k, v) \<in> set d. v \<noteq> 0" by (blast dest: map_of_SomeD)
qed

lemma dbump_keys: "fst ` set (dbump k n d) = insert k (fst ` set d)"
  using dom_update [of k "(case dget d k of None \<Rightarrow> 0 | Some v \<Rightarrow> v) + n" d]
  by (simp add: dbump_def dom_map_of_conv_image_fst [symmetric])

lemma distinct_dset: "distinct (map fst d) \<Longrightarrow> distinct (map fst (dset k v d))"
  by (rule distinct_update)

lemma distinct_dbump: "distinct (map fst d) \<Longrightarrow> distinct (map fst (dbump k n d))"
  by (simp add: dbump_def distinct_update)

section \<open>Signed sums over filtered lists\<close>

lemma sum_list_append_filter:
  "sum_list (map f (filter P (xs @ ys))) = sum_list (map f (filter P xs)) + sum_list (map f (filter P ys))"
  for f :: "'a \<Rightarrow> int"
  by simp

lemma sum_list_filter_if:
  "sum_list (map f (filter P xs)) = (\<Sum>x\<leftarrow>xs. if P x then f x else 0)" for f :: "'a \<Rightarrow> int"
  by (induction xs) auto

lemma sum_list_map_uminus: "(\<Sum>x\<leftarrow>xs. - f x) = - (\<Sum>x\<leftarrow>xs. f x)" for f :: "'a \<Rightarrow> int"
  by (induction xs) auto

lemma filter_cutoff_append:
  "sum_list (map f (filter P xs)) = sum_list (map f (filter (\<lambda>x. P x \<and> k x \<le> n) xs))
     + sum_list (map f (filter (\<lambda>x. P x \<and> n < k x) xs))"
  for f :: "'a \<Rightarrow> int" and k :: "'a \<Rightarrow> nat"
  by (induction xs) auto

text \<open>A sum over a list is the sum, over a set of groups that covers it, of the groups' sums.\<close>

lemma sum_list_group:
  fixes f :: "'a \<Rightarrow> int"
  assumes "finite S" "k ` set xs \<subseteq> S"
  shows "(\<Sum>x\<leftarrow>xs. f x) = (\<Sum>i \<in> S. \<Sum>x\<leftarrow>filter (\<lambda>x. k x = i) xs. f x)"
  using assms(2)
proof (induction xs)
  case Nil
  then show ?case by simp
next
  case (Cons x xs)
  have "(\<Sum>i \<in> S. \<Sum>y\<leftarrow>filter (\<lambda>y. k y = i) (x # xs). f y)
      = (\<Sum>i \<in> S. (if i = k x then f x else 0) + (\<Sum>y\<leftarrow>filter (\<lambda>y. k y = i) xs. f y))"
    by (rule sum.cong) auto
  also have "\<dots> = f x + (\<Sum>i \<in> S. \<Sum>y\<leftarrow>filter (\<lambda>y. k y = i) xs. f y)"
    using Cons.prems assms(1) by (simp add: sum.distrib)
  finally show ?case using Cons by simp
qed

end
