(* ===== verification/Errors.thy ===== *)
theory Errors
  imports LF_Prelude
begin

text \<open>
  The exceptions of the program as one datatype: the domain's own (\<open>domain/money.py\<close>,
  \<open>domain/ledger.py\<close>, \<open>domain/posting.py\<close>), the application's (\<open>application/errors.py\<close>, each
  with the HTTP shape it produces), the database's constraint violations and the Python
  built-ins the code lets escape. Message texts are not modelled; the structured payload of an
  application error (its \<open>extra\<close> fields) is.
\<close>

datatype money_error = MoneyError | CurrencyMismatch | UnsupportedCurrency | PrecisionError

datatype ledger_error = LedgerError | UnbalancedTransaction | InvalidEntry | UnknownPostingKind

datatype py_error = ValueError | OverflowError | InvalidOperation | KeyError | TypeError | AttributeError | StopIteration | OSError

datatype db_error = UniqueViolation | ForeignKeyViolation | CheckViolation | RestrictViolation
  | NumericOutOfRange | LockNotAvailable | UndefinedFunction | NotNullViolation

text \<open>The payload \<open>TransactionDeclined\<close> carries in \<open>extra\<close>.\<close>

record decline =
  dc_message :: string
  dc_rule :: string
  dc_score :: real
  dc_account :: string
  dc_amount :: int
  dc_txn_count :: int
  dc_max_amount :: int

datatype app_error =
    LedgerFlowError "string option"  \<comment> \<open>param\<close>
  | AuthenticationError
  | PermissionDenied
  | NotFound "string option"       \<comment> \<open>param\<close>
  | AccountNotFound
  | InsufficientFunds string int int  \<comment> \<open>account, available, required\<close>
  | CurrencyMismatchError string      \<comment> \<open>param: the role\<close>
  | ConflictError
  | IdempotencyKeyReuse
  | RequestInFlight
  | AlreadyReversed
  | TransactionDeclined decline
  | RateLimited int                   \<comment> \<open>retry_after\<close>

datatype exn =
    MoneyExn money_error
  | LedgerExn ledger_error
  | AppExn app_error
  | DbExn db_error
  | PyExn py_error
  | PoisonMessage                     \<comment> \<open>\<open>workers/runner.py\<close>\<close>

fun status_code :: "app_error \<Rightarrow> nat" where
  "status_code AuthenticationError = 401"
| "status_code PermissionDenied = 403"
| "status_code (NotFound _) = 404"
| "status_code AccountNotFound = 404"
| "status_code ConflictError = 409"
| "status_code IdempotencyKeyReuse = 409"
| "status_code RequestInFlight = 409"
| "status_code AlreadyReversed = 409"
| "status_code (TransactionDeclined _) = 402"
| "status_code (RateLimited _) = 429"
| "status_code _ = 400"

fun error_type :: "app_error \<Rightarrow> string" where
  "error_type AuthenticationError = ''authentication_error''"
| "error_type PermissionDenied = ''permission_error''"
| "error_type (NotFound _) = ''not_found_error''"
| "error_type AccountNotFound = ''not_found_error''"
| "error_type ConflictError = ''conflict_error''"
| "error_type IdempotencyKeyReuse = ''conflict_error''"
| "error_type RequestInFlight = ''conflict_error''"
| "error_type AlreadyReversed = ''conflict_error''"
| "error_type (TransactionDeclined _) = ''card_error''"
| "error_type (RateLimited _) = ''rate_limit_error''"
| "error_type _ = ''invalid_request_error''"

fun error_code :: "app_error \<Rightarrow> string" where
  "error_code (LedgerFlowError _) = ''invalid_request''"
| "error_code AuthenticationError = ''invalid_api_key''"
| "error_code PermissionDenied = ''permission_denied''"
| "error_code (NotFound _) = ''resource_missing''"
| "error_code AccountNotFound = ''account_not_found''"
| "error_code (InsufficientFunds _ _ _) = ''insufficient_funds''"
| "error_code (CurrencyMismatchError _) = ''currency_mismatch''"
| "error_code ConflictError = ''conflict''"
| "error_code IdempotencyKeyReuse = ''idempotency_key_reuse''"
| "error_code RequestInFlight = ''request_in_flight''"
| "error_code AlreadyReversed = ''transaction_already_reversed''"
| "error_code (TransactionDeclined _) = ''transaction_declined''"
| "error_code (RateLimited _) = ''rate_limit_exceeded''"

text \<open>The \<open>param\<close> each raise passes.\<close>

fun error_param :: "app_error \<Rightarrow> string option" where
  "error_param (LedgerFlowError p) = p"
| "error_param (NotFound p) = p"
| "error_param AccountNotFound = Some ''account''"
| "error_param (InsufficientFunds _ _ _) = Some ''amount''"
| "error_param (CurrencyMismatchError role) = Some role"
| "error_param IdempotencyKeyReuse = Some ''Idempotency-Key''"
| "error_param RequestInFlight = Some ''Idempotency-Key''"
| "error_param (TransactionDeclined _) = Some ''accounts''"
| "error_param _ = None"

text \<open>\<open>extra["retry_after"]\<close>.\<close>

fun retry_after :: "app_error \<Rightarrow> int option" where
  "retry_after RequestInFlight = Some 1"
| "retry_after (RateLimited n) = Some n"
| "retry_after _ = None"

end
