(* ===== verification/Op_Monad.thy ===== *)
theory Op_Monad
  imports Errors
begin

text \<open>
  Statements that read and write a state and may raise: a function from the state to a result
  (\<open>Inl\<close> the exception, \<open>Inr\<close> the value) and the state it leaves, also when it raises. The
  repositories run over their own tables, the services over the whole database; \<open>zoom\<close> runs the
  former inside the latter. The facts in \<open>result_simps\<close> take a run apart; the predicate
  \<open>keeps\<close> and its rules carry invariants and frames through a body, \<open>spares\<close> which exceptions it cannot raise.
\<close>

type_synonym ('s, 'a) op = "'s \<Rightarrow> (exn + 'a) \<times> 's"

definition ret_op :: "'a \<Rightarrow> ('s, 'a) op" where
  "ret_op x = (\<lambda>s. (Inr x, s))"

definition raise_op :: "exn \<Rightarrow> ('s, 'a) op" where
  "raise_op e = (\<lambda>s. (Inl e, s))"

definition bind_op :: "('s, 'a) op \<Rightarrow> ('a \<Rightarrow> ('s, 'b) op) \<Rightarrow> ('s, 'b) op" where
  "bind_op m f = (\<lambda>s. case m s of (Inl e, s') \<Rightarrow> (Inl e, s') | (Inr x, s') \<Rightarrow> f x s')"

definition lift_op :: "exn + 'a \<Rightarrow> ('s, 'a) op" where
  "lift_op r = (\<lambda>s. (r, s))"

definition reads :: "('s \<Rightarrow> 'a) \<Rightarrow> ('s, 'a) op" where
  "reads f = (\<lambda>s. (Inr (f s), s))"

definition reads_r :: "('s \<Rightarrow> exn + 'a) \<Rightarrow> ('s, 'a) op" where
  "reads_r f = (\<lambda>s. (f s, s))"

definition writes :: "('s \<Rightarrow> 's) \<Rightarrow> ('s, unit) op" where
  "writes f = (\<lambda>s. (Inr (), f s))"

definition guard_op :: "bool \<Rightarrow> exn \<Rightarrow> ('s, unit) op" where
  "guard_op c e = (if c then raise_op e else ret_op ())"

fun map_op :: "('x \<Rightarrow> ('s, 'a) op) \<Rightarrow> 'x list \<Rightarrow> ('s, 'a list) op" where
  "map_op f [] = ret_op []"
| "map_op f (x # xs) = bind_op (f x) (\<lambda>y. bind_op (map_op f xs) (\<lambda>ys. ret_op (y # ys)))"

fun each_op :: "('x \<Rightarrow> ('s, unit) op) \<Rightarrow> 'x list \<Rightarrow> ('s, unit) op" where
  "each_op f [] = ret_op ()"
| "each_op f (x # xs) = bind_op (f x) (\<lambda>_. each_op f xs)"

definition zoom :: "('s \<Rightarrow> 't) \<Rightarrow> ('t \<Rightarrow> 's \<Rightarrow> 's) \<Rightarrow> ('t, 'a) op \<Rightarrow> ('s, 'a) op" where
  "zoom get put m = (\<lambda>s. case m (get s) of (r, t) \<Rightarrow> (r, put t s))"

section \<open>Runs\<close>

lemma bind_op_Inr_iff [result_simps]:
  "bind_op m f s = (Inr y, s'') \<longleftrightarrow> (\<exists>x s'. m s = (Inr x, s') \<and> f x s' = (Inr y, s''))"
  by (auto simp: bind_op_def split: prod.splits sum.splits)

lemma bind_op_Inl_iff [result_simps]:
  "bind_op m f s = (Inl e, s'') \<longleftrightarrow>
     m s = (Inl e, s'') \<or> (\<exists>x s'. m s = (Inr x, s') \<and> f x s' = (Inl e, s''))"
  by (auto simp: bind_op_def split: prod.splits sum.splits)

lemma bind_opE:
  assumes "bind_op m f s = (Inr y, s'')"
  obtains x s' where "m s = (Inr x, s')" "f x s' = (Inr y, s'')"
  using assms by (auto simp: bind_op_Inr_iff)

lemma basic_op_iff [result_simps]:
  "ret_op x s = (r, s') \<longleftrightarrow> r = Inr x \<and> s' = s"
  "raise_op e s = (r, s') \<longleftrightarrow> r = Inl e \<and> s' = s"
  "lift_op q s = (r, s') \<longleftrightarrow> r = q \<and> s' = s"
  "reads f s = (r, s') \<longleftrightarrow> r = Inr (f s) \<and> s' = s"
  "reads_r h s = (r, s') \<longleftrightarrow> r = h s \<and> s' = s"
  by (auto simp: ret_op_def raise_op_def lift_op_def reads_def reads_r_def)

lemma writes_iff [result_simps]: "writes f s = (r, s') \<longleftrightarrow> r = Inr () \<and> s' = f s"
  by (auto simp: writes_def)

lemma guard_op_iff [result_simps]:
  "guard_op c e s = (Inr u, s') \<longleftrightarrow> \<not> c \<and> s' = s"
  "guard_op c e s = (Inl e', s') \<longleftrightarrow> c \<and> e' = e \<and> s' = s"
  by (auto simp: guard_op_def ret_op_def raise_op_def)

lemma zoom_iff [result_simps]:
  "zoom g p m s = (r, s') \<longleftrightarrow> (\<exists>t. m (g s) = (r, t) \<and> s' = p t s)"
  by (auto simp: zoom_def split: prod.splits)

text \<open>Running forward on a concrete state.\<close>

lemma op_run [simp]:
  "ret_op x s = (Inr x, s)"
  "raise_op e s = (Inl e, s)"
  "lift_op q s = (q, s)"
  "reads f s = (Inr (f s), s)"
  "reads_r h s = (h s, s)"
  "writes k s = (Inr (), k s)"
  by (simp_all add: ret_op_def raise_op_def lift_op_def reads_def reads_r_def writes_def)

lemma bind_op_run:
  "m s = (Inr x, s') \<Longrightarrow> bind_op m f s = f x s'"
  "m s = (Inl e, s') \<Longrightarrow> bind_op m f s = (Inl e, s')"
  by (simp_all add: bind_op_def)

section \<open>Invariants of a body\<close>

text \<open>\<open>keeps I m\<close>: \<open>m\<close> takes states of \<open>I\<close> to states of \<open>I\<close>, also when it raises.\<close>

definition keeps :: "('s \<Rightarrow> bool) \<Rightarrow> ('s, 'a) op \<Rightarrow> bool" where
  "keeps I m \<longleftrightarrow> (\<forall>s. I s \<longrightarrow> I (snd (m s)))"

named_theorems keeps_intros \<open>rules that carry an invariant through a body\<close>

lemma keepsD: "keeps I m \<Longrightarrow> I s \<Longrightarrow> m s = (r, s') \<Longrightarrow> I s'"
  unfolding keeps_def by (metis snd_conv)

lemma keepsI: "(\<And>s r s'. I s \<Longrightarrow> m s = (r, s') \<Longrightarrow> I s') \<Longrightarrow> keeps I m"
  unfolding keeps_def by (metis prod.collapse)

lemma keeps_bind [keeps_intros]:
  "keeps I m \<Longrightarrow> (\<And>x. keeps I (f x)) \<Longrightarrow> keeps I (bind_op m f)"
  unfolding keeps_def bind_op_def by (fastforce split: prod.splits sum.splits)

lemma keeps_basic [keeps_intros]:
  "keeps I (ret_op x)" "keeps I (raise_op e)" "keeps I (lift_op r)" "keeps I (reads f)"
  "keeps I (reads_r h)" "keeps I (guard_op c e)"
  by (simp_all add: keeps_def guard_op_def)

lemma keeps_writes [keeps_intros]: "(\<And>s. I s \<Longrightarrow> I (f s)) \<Longrightarrow> keeps I (writes f)"
  by (simp add: keeps_def)

lemma keeps_if [keeps_intros]: "keeps I a \<Longrightarrow> keeps I b \<Longrightarrow> keeps I (if c then a else b)"
  by simp

lemma keeps_option [keeps_intros]:
  "keeps I a \<Longrightarrow> (\<And>x. keeps I (f x)) \<Longrightarrow> keeps I (case v of None \<Rightarrow> a | Some x \<Rightarrow> f x)"
  by (cases v) simp_all

lemma keeps_prod [keeps_intros]: "(\<And>x y. keeps I (f x y)) \<Longrightarrow> keeps I (case p of (x, y) \<Rightarrow> f x y)"
  by (cases p) simp

lemma keeps_Let [keeps_intros]: "(\<And>x. keeps I (f x)) \<Longrightarrow> keeps I (Let v f)"
  by (simp add: Let_def)

lemma keeps_map [keeps_intros]: "(\<And>x. keeps I (f x)) \<Longrightarrow> keeps I (map_op f xs)"
  by (induction xs) (auto intro!: keeps_intros)

lemma keeps_each [keeps_intros]: "(\<And>x. keeps I (f x)) \<Longrightarrow> keeps I (each_op f xs)"
  by (induction xs) (auto intro!: keeps_intros)

lemma keeps_zoom [keeps_intros]:
  assumes "\<And>s0. keeps (\<lambda>t. I (p t s0)) m" "\<And>s. p (g s) s = s"
  shows "keeps I (zoom g p m)"
  unfolding keeps_def
proof (intro allI impI)
  fix s
  assume "I s"
  then have "I (p (g s) s)" by (simp add: assms(2))
  with assms(1) have "I (p (snd (m (g s))) s)" by (simp add: keeps_def)
  then show "I (snd (zoom g p m s))" by (simp add: zoom_def split_beta)
qed

section \<open>What a body cannot raise\<close>

text \<open>\<open>spares P m\<close>: no exception of \<open>P\<close> comes out of \<open>m\<close>.\<close>

definition spares :: "(exn \<Rightarrow> bool) \<Rightarrow> ('s, 'a) op \<Rightarrow> bool" where
  "spares P m \<longleftrightarrow> (\<forall>s e s'. m s = (Inl e, s') \<longrightarrow> \<not> P e)"

named_theorems spares_intros \<open>rules that show which exceptions a body cannot raise\<close>

lemma sparesD: "spares P m \<Longrightarrow> m s = (Inl e, s') \<Longrightarrow> \<not> P e"
  by (auto simp: spares_def)

lemma spares_bind [spares_intros]:
  "spares P m \<Longrightarrow> (\<And>x. spares P (f x)) \<Longrightarrow> spares P (bind_op m f)"
  unfolding spares_def bind_op_Inl_iff by blast

lemma spares_basic [spares_intros]:
  "spares P (ret_op x)" "spares P (reads f)" "spares P (writes k)"
  "\<not> P e \<Longrightarrow> spares P (raise_op e)" "\<not> P e \<Longrightarrow> spares P (guard_op c e)"
  "(\<And>e. r = Inl e \<Longrightarrow> \<not> P e) \<Longrightarrow> spares P (lift_op r)"
  "(\<And>s e. h s = Inl e \<Longrightarrow> \<not> P e) \<Longrightarrow> spares P (reads_r h)"
  by (auto simp: spares_def guard_op_def)

lemma spares_if [spares_intros]: "spares P a \<Longrightarrow> spares P b \<Longrightarrow> spares P (if c then a else b)"
  by simp

lemma spares_option [spares_intros]:
  "spares P a \<Longrightarrow> (\<And>x. spares P (f x)) \<Longrightarrow> spares P (case v of None \<Rightarrow> a | Some x \<Rightarrow> f x)"
  by (cases v) simp_all

lemma spares_Let [spares_intros]: "(\<And>x. spares P (f x)) \<Longrightarrow> spares P (Let v f)"
  by (simp add: Let_def)

lemma spares_map [spares_intros]: "(\<And>x. spares P (f x)) \<Longrightarrow> spares P (map_op f xs)"
  by (induction xs) (auto intro!: spares_intros)

lemma spares_each [spares_intros]: "(\<And>x. spares P (f x)) \<Longrightarrow> spares P (each_op f xs)"
  by (induction xs) (auto intro!: spares_intros)

lemma spares_zoom [spares_intros]: "spares P m \<Longrightarrow> spares P (zoom g p m)"
  by (auto simp: spares_def zoom_iff)

end
