(* ===== verification/Py_Decimal.thy ===== *)
theory Py_Decimal
  imports Py_String Errors
begin

text \<open>
  The part of Python's \<open>decimal\<close> module that \<open>Money\<close> relies on: the literal grammar of
  \<open>Decimal(str)\<close>, \<open>scaleb\<close> with the default context's rounding to 28 digits (half even) and its
  exponent range, \<open>to_integral_value\<close>, and the conversion back to text. A finite number is a
  sign, a coefficient and an exponent, as in the module itself.
\<close>

datatype decimal = Finite bool nat int | Infinite bool | NaN | SNaN

definition dec_prec :: nat where "dec_prec = 28"
definition dec_emax :: int where "dec_emax = 999999"
definition dec_etiny :: int where "dec_etiny = - 999999 - 28 + 1"
definition dec_etop :: int where "dec_etop = 999999 - 28 + 1"

definition ndigits :: "nat \<Rightarrow> nat" where
  "ndigits c = length (show_nat c)"

text \<open>Rounding a coefficient to drop its last \<open>k\<close> digits, ties to even.\<close>

definition round_half_even :: "nat \<Rightarrow> nat \<Rightarrow> nat" where
  "round_half_even c k =
     (let q = c div 10 ^ k; r = c mod 10 ^ k in
      if 2 * r < 10 ^ k \<or> (2 * r = 10 ^ k \<and> even q) then q else q + 1)"

text \<open>\<open>_fix\<close>: fit a finite result into the context; \<open>Overflow\<close> is trapped by default.\<close>

definition dec_fix :: "bool \<Rightarrow> nat \<Rightarrow> int \<Rightarrow> exn + decimal" where
  "dec_fix s c e =
     (if c = 0 then Inr (Finite s 0 (min (max e dec_etiny) dec_emax))
      else
        let exp_min = int (ndigits c) + e - int dec_prec in
        if dec_etop < exp_min then Inl (PyExn OverflowError)
        else
          let em = max exp_min dec_etiny in
          if em \<le> e then Inr (Finite s c e)
          else
            let c' = round_half_even c (nat (em - e));
                (c'', em') = (if ndigits c' > dec_prec then (c' div 10, em + 1) else (c', em))
            in if dec_etop < em' then Inl (PyExn OverflowError) else Inr (Finite s c'' em'))"

fun scaleb :: "decimal \<Rightarrow> int \<Rightarrow> exn + decimal" where
  "scaleb (Finite s c e) n = dec_fix s c (e + n)"
| "scaleb (Infinite s) n = Inr (Infinite s)"
| "scaleb NaN n = Inr NaN"
| "scaleb SNaN n = Inl (PyExn InvalidOperation)"

text \<open>\<open>d != d.to_integral_value()\<close>; a quiet NaN differs from everything.\<close>

fun not_integral :: "decimal \<Rightarrow> bool" where
  "not_integral (Finite s c e) = (e < 0 \<and> c mod 10 ^ nat (- e) \<noteq> 0)"
| "not_integral (Infinite s) = False"
| "not_integral NaN = True"
| "not_integral SNaN = True"

definition with_sign :: "bool \<Rightarrow> nat \<Rightarrow> int" where
  "with_sign s n = (if s then - int n else int n)"

text \<open>\<open>int(d)\<close>: truncation.\<close>

fun dec_int :: "decimal \<Rightarrow> exn + int" where
  "dec_int (Finite s c e) =
     Inr (with_sign s (if e < 0 then c div 10 ^ nat (- e) else c * 10 ^ nat e))"
| "dec_int (Infinite s) = Inl (PyExn OverflowError)"
| "dec_int NaN = Inl (PyExn ValueError)"
| "dec_int SNaN = Inl (PyExn ValueError)"

text \<open>The literal grammar: sign, digits with an optional point, optional exponent; or a special.\<close>

definition take_digits :: "string \<Rightarrow> string \<times> string" where
  "take_digits s = (takeWhile is_digit s, dropWhile is_digit s)"

definition nat_of_digits :: "string \<Rightarrow> nat" where
  "nat_of_digits s = foldl (\<lambda>n c. n * 10 + nat (digit_value c)) 0 s"

fun parse_exponent :: "string \<Rightarrow> int option" where
  "parse_exponent [] = Some 0"
| "parse_exponent (x # xs) =
     (if lower_char x = CHR ''e'' then
        (case xs of
           [] \<Rightarrow> None
         | c # cs \<Rightarrow>
             (let neg = (c = CHR ''-'');
                  body = (if c = CHR ''-'' \<or> c = CHR ''+'' then cs else c # cs)
              in if body \<noteq> [] \<and> list_all is_digit body
                 then Some (with_sign neg (nat_of_digits body)) else None))
      else None)"

definition parse_special :: "bool \<Rightarrow> string \<Rightarrow> decimal option" where
  "parse_special s t =
     (let l = py_lower t in
      if l = ''inf'' \<or> l = ''infinity'' then Some (Infinite s)
      else if starts_with ''nan'' l \<and> list_all is_digit (drop 3 l) then Some NaN
      else if starts_with ''snan'' l \<and> list_all is_digit (drop 4 l) then Some SNaN
      else None)"

definition parse_unsigned :: "bool \<Rightarrow> string \<Rightarrow> decimal option" where
  "parse_unsigned s t =
     (let (ip, r1) = take_digits t;
          (fp, r2) = (case r1 of c # cs \<Rightarrow> (if c = CHR ''.'' then take_digits cs else ([], r1))
                               | [] \<Rightarrow> ([], []))
      in if ip = [] \<and> fp = [] then parse_special s t
         else map_option (\<lambda>e. Finite s (nat_of_digits (ip @ fp)) (e - int (length fp)))
                (parse_exponent r2))"

definition parse_decimal :: "string \<Rightarrow> decimal option" where
  "parse_decimal text =
     (case filter (\<lambda>c. c \<noteq> CHR ''_'') (py_strip text) of
        [] \<Rightarrow> None
      | c # cs \<Rightarrow>
          if c = CHR ''-'' then parse_unsigned True cs
          else if c = CHR ''+'' then parse_unsigned False cs
          else parse_unsigned False (c # cs))"

text \<open>\<open>str(d)\<close> of a finite decimal: positional when the exponent is not positive and the number
  is not tiny, scientific otherwise.\<close>

definition show_signed :: "int \<Rightarrow> string" where
  "show_signed n = (if n < 0 then show_int n else CHR ''+'' # show_int n)"

fun show_decimal :: "decimal \<Rightarrow> string" where
  "show_decimal (Finite s c e) =
     (let ds = show_nat c;
          left = e + int (length ds);
          dot = (if e \<le> 0 \<and> - 6 < left then left else 1);
          ip = (if dot \<le> 0 then ''0''
                else take (nat dot) ds @ replicate (nat dot - length ds) (CHR ''0''));
          fp = (if dot \<le> 0 then CHR ''.'' # replicate (nat (- dot)) (CHR ''0'') @ ds
                else if int (length ds) \<le> dot then [] else CHR ''.'' # drop (nat dot) ds);
          ex = (if left = dot then [] else CHR ''E'' # show_signed (left - dot))
      in (if s then ''-'' else []) @ ip @ fp @ ex)"
| "show_decimal (Infinite s) = (if s then ''-Infinity'' else ''Infinity'')"
| "show_decimal NaN = ''NaN''"
| "show_decimal SNaN = ''sNaN''"

text \<open>The rational value of a finite decimal.\<close>

fun dec_value :: "decimal \<Rightarrow> rat" where
  "dec_value (Finite s c e) =
     of_int (with_sign s c) * (if 0 \<le> e then 10 ^ nat e else 1 / 10 ^ nat (- e))"
| "dec_value _ = 0"

section \<open>Exactness inside the context\<close>

text \<open>A finite decimal the default context represents without rounding.\<close>

definition dec_exact :: "nat \<Rightarrow> int \<Rightarrow> bool" where
  "dec_exact c e = (ndigits c \<le> dec_prec \<and> dec_etiny \<le> e \<and> e \<le> dec_etop)"

lemma dec_fix_exact:
  assumes "dec_exact c e" "int (ndigits c) + e - int dec_prec \<le> dec_etop"
  shows "dec_fix s c e = Inr (Finite s c e)"
proof (cases "c = 0")
  case True
  with assms show ?thesis
    by (simp add: dec_fix_def dec_exact_def dec_etop_def dec_emax_def)
next
  case False
  with assms show ?thesis
    by (simp add: dec_fix_def dec_exact_def Let_def)
qed

lemma not_integral_value:
  "\<not> not_integral (Finite s c e) \<Longrightarrow>
   dec_int (Finite s c e) = Inr n \<Longrightarrow> of_int n = dec_value (Finite s c e)"
proof -
  assume a: "\<not> not_integral (Finite s c e)" and b: "dec_int (Finite s c e) = Inr n"
  show ?thesis
  proof (cases "e < 0")
    case False
    with b show ?thesis by (auto simp: with_sign_def)
  next
    case True
    let ?k = "10 ^ nat (- e) :: nat"
    from a True have "c mod ?k = 0" by simp
    then have c: "c = c div ?k * ?k" by (metis add.right_neutral div_mult_mod_eq)
    have "(of_nat c :: rat) = of_nat (c div ?k) * of_nat ?k"
      by (subst c) (simp only: of_nat_mult)
    then have "(of_nat c :: rat) / 10 ^ nat (- e) = of_nat (c div ?k)" by simp
    with b True show ?thesis by (auto simp: with_sign_def)
  qed
qed

section \<open>Printing and parsing a fixed-point number\<close>

lemma nat_of_digits_append:
  "nat_of_digits (a @ b) = foldl (\<lambda>n c. n * 10 + nat (digit_value c)) (nat_of_digits a) b"
  by (simp add: nat_of_digits_def)

lemma nat_of_digits_snoc: "nat_of_digits (a @ [c]) = nat_of_digits a * 10 + nat (digit_value c)"
  by (simp add: nat_of_digits_def)

lemma nat_of_digits_show_nat [simp]: "nat_of_digits (show_nat n) = n"
proof (induction n rule: show_nat.induct)
  case (1 n)
  show ?case
  proof (cases "n < 10")
    case True
    then show ?thesis by (subst show_nat.simps) (simp add: nat_of_digits_def)
  next
    case False
    with 1 show ?thesis by (subst show_nat.simps) (simp add: nat_of_digits_snoc)
  qed
qed

lemma nat_of_digits_zeros [simp]: "nat_of_digits (replicate k (CHR ''0'') @ ds) = nat_of_digits ds"
  by (induction k) (simp_all add: nat_of_digits_def digit_value_def)

lemma nat_of_digits_zero_Cons [simp]: "nat_of_digits (CHR ''0'' # ds) = nat_of_digits ds"
  by (simp add: nat_of_digits_def digit_value_def)

lemma ndigits_le_iff: "0 < d \<Longrightarrow> ndigits c \<le> d \<longleftrightarrow> c < 10 ^ d"
proof (induction c arbitrary: d rule: show_nat.induct)
  case (1 n)
  show ?case
  proof (cases "n < 10")
    case True
    have "(10::nat) ^ 1 \<le> 10 ^ d" by (rule power_increasing) (use 1 in auto)
    with True have "n < 10 ^ d" by simp
    with True 1 show ?thesis by (simp add: ndigits_def show_nat.simps)
  next
    case False
    have step: "ndigits n = Suc (ndigits (n div 10))"
      using False by (simp add: ndigits_def show_nat.simps [of n])
    show ?thesis
    proof (cases "d = 1")
      case True
      with False step show ?thesis by (simp add: ndigits_def)
    next
      case d: False
      with 1 obtain d' where d': "d = Suc d'" "0 < d'" by (cases d) auto
      have "n div 10 < 10 ^ d' \<longleftrightarrow> n < 10 ^ d' * 10"
        by (rule div_less_iff_less_mult) simp
      with 1 False d' step show ?thesis by (simp add: mult.commute)
    qed
  qed
qed

lemma digit_not_special:
  "is_digit c \<Longrightarrow> \<not> is_space c \<and> c \<noteq> CHR ''_'' \<and> c \<noteq> CHR ''.'' \<and> c \<noteq> CHR ''-'' \<and> c \<noteq> CHR ''+''"
  by (auto simp: is_digit_def is_space_def Let_def)

lemma py_strip_no_space: "\<forall>c \<in> set t. \<not> is_space c \<Longrightarrow> py_strip t = t"
proof -
  assume a: "\<forall>c \<in> set t. \<not> is_space c"
  then have "dropWhile is_space t = t" by (cases t) auto
  moreover from a have "dropWhile is_space (rev t) = rev t"
    by (metis dropWhile_eq_self_iff hd_in_set set_rev)
  ultimately show ?thesis by (simp add: py_strip_def)
qed

text \<open>The shape of a printed fixed-point number: whole digits, and \<open>k\<close> digits after the point.\<close>

lemma show_decimal_shape:
  assumes "k < 6"
  obtains ip fr where
    "show_decimal (Finite s c (- int k))
       = (if s then ''-'' else []) @ ip @ (if k = 0 then [] else CHR ''.'' # fr)"
    "ip \<noteq> []" "\<forall>x \<in> set ip. is_digit x" "\<forall>x \<in> set fr. is_digit x"
    "length fr = k" "nat_of_digits (ip @ fr) = c"
proof -
  let ?ds = "show_nat c"
  have len: "0 < length ?ds" by simp
  have zero: "is_digit (CHR ''0'')" by (simp add: is_digit_def)
  show thesis
  proof (cases "length ?ds \<le> k")
    case True
    let ?fr = "replicate (k - length ?ds) (CHR ''0'') @ ?ds"
    from True len have kpos: "0 < k" by linarith
    from True kpos assms have "show_decimal (Finite s c (- int k))
        = (if s then ''-'' else []) @ ''0'' @ (if k = 0 then [] else CHR ''.'' # ?fr)"
      by (auto simp: Let_def nat_diff_distrib')
    then show thesis
      by (rule that) (use True zero show_nat_digits in auto)
  next
    case False
    let ?n = "length ?ds - k"
    from False len assms have "show_decimal (Finite s c (- int k))
        = (if s then ''-'' else []) @ take ?n ?ds @ (if k = 0 then [] else CHR ''.'' # drop ?n ?ds)"
      by (auto simp: Let_def nat_diff_distrib')
    then show thesis
      by (rule that) (use False show_nat_digits [of c] in \<open>auto dest: in_set_takeD in_set_dropD\<close>)
  qed
qed

lemma takeWhile_digits:
  "\<forall>x \<in> set ip. is_digit x \<Longrightarrow> take_digits (ip @ CHR ''.'' # fr) = (ip, CHR ''.'' # fr)"
  "\<forall>x \<in> set ip. is_digit x \<Longrightarrow> take_digits ip = (ip, [])"
  by (simp_all add: take_digits_def takeWhile_eq_all_conv dropWhile_eq_Nil_conv
      takeWhile_append dropWhile_append) (auto simp: is_digit_def)

lemma parse_unsigned_shape:
  assumes "ip \<noteq> []" "\<forall>x \<in> set ip. is_digit x" "\<forall>x \<in> set fr. is_digit x" "length fr = k"
  shows "parse_unsigned s (ip @ (if k = 0 then [] else CHR ''.'' # fr))
           = Some (Finite s (nat_of_digits (ip @ fr)) (- int k))"
proof (cases "k = 0")
  case True
  with assms show ?thesis by (simp add: parse_unsigned_def takeWhile_digits)
next
  case False
  with assms show ?thesis by (simp add: parse_unsigned_def takeWhile_digits)
qed

theorem parse_show_decimal:
  assumes "k < 6"
  shows "parse_decimal (show_decimal (Finite s c (- int k))) = Some (Finite s c (- int k))"
proof -
  obtain ip fr where sh: "show_decimal (Finite s c (- int k))
       = (if s then ''-'' else []) @ ip @ (if k = 0 then [] else CHR ''.'' # fr)"
    and ip: "ip \<noteq> []" "\<forall>x \<in> set ip. is_digit x" and fr: "\<forall>x \<in> set fr. is_digit x" "length fr = k"
    and c: "nat_of_digits (ip @ fr) = c"
    using show_decimal_shape [OF assms] by blast
  let ?t = "show_decimal (Finite s c (- int k))"
  have sp: "\<not> is_space (CHR ''.'')" "\<not> is_space (CHR ''-'')" by (simp_all add: is_space_def)
  have digs: "\<forall>x \<in> set ip. \<not> is_space x \<and> x \<noteq> CHR ''_''" "\<forall>x \<in> set fr. \<not> is_space x \<and> x \<noteq> CHR ''_''"
    using ip(2) fr(1) digit_not_special by blast+
  have plain: "\<forall>x \<in> set ?t. \<not> is_space x \<and> x \<noteq> CHR ''_''"
    unfolding sh using digs sp by (cases "k = 0") auto
  then have t: "filter (\<lambda>x. x \<noteq> CHR ''_'') (py_strip ?t) = ?t"
    by (simp add: py_strip_no_space)
  obtain d ds where d: "ip = d # ds" "is_digit d" using ip by (cases ip) auto
  from parse_unsigned_shape [OF ip fr, of s] c
  have "parse_unsigned s (ip @ (if k = 0 then [] else CHR ''.'' # fr)) = Some (Finite s c (- int k))"
    by simp
  with d show ?thesis
    unfolding parse_decimal_def t unfolding sh by (auto dest: digit_not_special)
qed

section \<open>The edges of the exponent range\<close>

lemma dec_fix_in_range:
  assumes "c = 0 \<or> ndigits c \<le> dec_prec \<and> dec_etiny \<le> e \<and> int (ndigits c) + e - int dec_prec \<le> dec_etop"
  obtains e' where "dec_fix s c e = Inr (Finite s c e')" "c \<noteq> 0 \<Longrightarrow> e' = e"
  using assms by (cases "c = 0") (auto simp: dec_fix_def Let_def)

lemma round_to_zero: "0 < j \<Longrightarrow> round_half_even c j = 0 \<longleftrightarrow> 2 * c \<le> 10 ^ j"
proof -
  assume j: "0 < j"
  show ?thesis
  proof (cases "c < 10 ^ j")
    case True
    then show ?thesis by (auto simp: round_half_even_def Let_def)
  next
    case False
    then have "0 < c div 10 ^ j" by (simp add: div_greater_zero_iff)
    then have "round_half_even c j \<noteq> 0" by (simp add: round_half_even_def Let_def)
    moreover have "(0::nat) < 10 ^ j" by simp
    then have "\<not> 2 * c \<le> 10 ^ j" using False by linarith
    ultimately show ?thesis by simp
  qed
qed

lemma round_le: "0 < c \<Longrightarrow> round_half_even c j \<le> c"
proof (cases "c div 10 ^ j = 0")
  case True
  assume "0 < c"
  with True show ?thesis by (auto simp: round_half_even_def Let_def)
next
  case False
  show ?thesis
  proof (cases "j = 0")
    case True
    then show ?thesis by (simp add: round_half_even_def)
  next
    case j: False
    have "(2::nat) \<le> 10 ^ j" using j self_le_power [of "10::nat" j] by linarith
    then have "2 * (c div 10 ^ j) \<le> c" by (metis div_times_less_eq_dividend le_trans mult.commute mult_le_mono2)
    with False have "c div 10 ^ j + 1 \<le> c" by linarith
    then show ?thesis by (auto simp: round_half_even_def Let_def)
  qed
qed

text \<open>Below the smallest exponent the context rounds to a multiple of its smallest number.\<close>

lemma dec_fix_underflow:
  assumes "c \<noteq> 0" "ndigits c \<le> dec_prec" "e < dec_etiny"
  defines "r \<equiv> round_half_even c (nat (dec_etiny - e))"
  shows "dec_fix s c e = Inr (Finite s r dec_etiny)" "not_integral (Finite s r dec_etiny) \<longleftrightarrow> r \<noteq> 0"
proof -
  have "r \<le> c" unfolding r_def by (rule round_le) (use assms(1) in simp)
  have "c < 10 ^ dec_prec" using assms(2) by (subst (asm) ndigits_le_iff) (simp_all add: dec_prec_def)
  with \<open>r \<le> c\<close> have r: "r < 10 ^ dec_prec" by linarith
  then have nd: "ndigits r \<le> dec_prec" by (subst ndigits_le_iff) (simp_all add: dec_prec_def)
  have m: "max (int (ndigits c) + e - int dec_prec) dec_etiny = dec_etiny" "dec_etiny \<le> dec_etop"
    using assms(2,3) by (auto simp: dec_etiny_def dec_etop_def)
  have "\<not> dec_etop < int (ndigits c) + e - int dec_prec" using m assms(3) by linarith
  then show "dec_fix s c e = Inr (Finite s r dec_etiny)"
    using assms(1,3) nd m unfolding dec_fix_def Let_def m r_def by simp
  have "dec_prec \<le> nat (- dec_etiny)" by (simp add: dec_prec_def dec_etiny_def)
  then have "(10::nat) ^ dec_prec \<le> 10 ^ nat (- dec_etiny)" by (rule power_increasing) simp
  then have "r < 10 ^ nat (- dec_etiny)" by (rule order.strict_trans2 [OF r])
  then have "r mod 10 ^ nat (- dec_etiny) = r" by (rule mod_less)
  moreover have "dec_etiny < 0" by (simp add: dec_etiny_def)
  ultimately show "not_integral (Finite s r dec_etiny) \<longleftrightarrow> r \<noteq> 0" by simp
qed

lemma dec_int_zero: "dec_int (Finite s 0 e) = Inr 0"
  by (simp add: with_sign_def)

lemma dec_fix_overflow:
  "c \<noteq> 0 \<Longrightarrow> dec_etop < int (ndigits c) + e - int dec_prec \<Longrightarrow> dec_fix s c e = Inl (PyExn OverflowError)"
  by (simp add: dec_fix_def Let_def)

end
