(* ===== verification/Money.thy ===== *)
theory Money
  imports Py_Decimal
begin

text \<open>
  \<open>domain/money.py\<close>: an amount of integer minor units with a currency. Every construction goes
  through \<open>mk_money\<close> (\<open>__post_init__\<close>: the currency is lower-cased and must be supported), every
  binary operation through the check \<open>_same\<close> that refuses to mix currencies.
\<close>

record money =
  minor :: int
  currency :: string

definition EXPONENTS :: "(string, nat) dict" where
  "EXPONENTS = [(''usd'', 2), (''eur'', 2), (''gbp'', 2), (''jpy'', 0)]"

text \<open>\<open>Money(minor, currency)\<close>. The dynamic test that \<open>minor\<close> is an \<open>int\<close> is the type here.\<close>

definition mk_money :: "int \<Rightarrow> string \<Rightarrow> exn + money" where
  "mk_money m cur =
     (let normalized = py_lower cur in
      case dget EXPONENTS normalized of
        None \<Rightarrow> Inl (MoneyExn UnsupportedCurrency)
      | Some _ \<Rightarrow> Inr \<lparr>minor = m, currency = normalized\<rparr>)"

text \<open>What \<open>Money.parse\<close> accepts as an amount.\<close>

datatype amount_in = AStr string | AInt int | ADecimal decimal | AFloat | AOther

fun amount_decimal :: "amount_in \<Rightarrow> decimal option" where
  "amount_decimal (AStr t) = parse_decimal t"
| "amount_decimal (AInt i) = Some (Finite (i < 0) (nat \<bar>i\<bar>) 0)"
| "amount_decimal (ADecimal d) = Some d"
| "amount_decimal AFloat = None"
| "amount_decimal AOther = None"

definition money_parse :: "amount_in \<Rightarrow> string \<Rightarrow> exn + money" where
  "money_parse amount cur =
     (let code = py_lower cur in
      case dget EXPONENTS code of
        None \<Rightarrow> Inl (MoneyExn UnsupportedCurrency)
      | Some exponent \<Rightarrow>
          if amount = AFloat then Inl (MoneyExn PrecisionError)
          else (case amount_decimal amount of
              None \<Rightarrow> Inl (MoneyExn MoneyError)
            | Some value \<Rightarrow>
                bind_r (scaleb value (int exponent)) (\<lambda>shifted.
                if not_integral shifted then Inl (MoneyExn PrecisionError)
                else bind_r (dec_int shifted) (\<lambda>n. mk_money n code))))"

definition money_zero :: "string \<Rightarrow> exn + money" where
  "money_zero cur = mk_money 0 cur"

definition same_currency :: "money \<Rightarrow> money \<Rightarrow> exn + unit" where
  "same_currency a b =
     (if currency a \<noteq> currency b then Inl (MoneyExn CurrencyMismatch) else Inr ())"

definition money_add :: "money \<Rightarrow> money \<Rightarrow> exn + money" where
  "money_add a b = bind_r (same_currency a b) (\<lambda>_. mk_money (minor a + minor b) (currency a))"

definition money_sub :: "money \<Rightarrow> money \<Rightarrow> exn + money" where
  "money_sub a b = bind_r (same_currency a b) (\<lambda>_. mk_money (minor a - minor b) (currency a))"

definition money_neg :: "money \<Rightarrow> exn + money" where
  "money_neg a = mk_money (- minor a) (currency a)"

definition money_abs :: "money \<Rightarrow> exn + money" where
  "money_abs a = mk_money \<bar>minor a\<bar> (currency a)"

definition money_lt :: "money \<Rightarrow> money \<Rightarrow> exn + bool" where
  "money_lt a b = bind_r (same_currency a b) (\<lambda>_. Inr (minor a < minor b))"

definition money_le :: "money \<Rightarrow> money \<Rightarrow> exn + bool" where
  "money_le a b = bind_r (same_currency a b) (\<lambda>_. Inr (minor a \<le> minor b))"

definition money_gt :: "money \<Rightarrow> money \<Rightarrow> exn + bool" where
  "money_gt a b = bind_r (same_currency a b) (\<lambda>_. Inr (minor b < minor a))"

definition money_ge :: "money \<Rightarrow> money \<Rightarrow> exn + bool" where
  "money_ge a b = bind_r (same_currency a b) (\<lambda>_. Inr (minor b \<le> minor a))"

definition is_zero :: "money \<Rightarrow> bool" where
  "is_zero a \<longleftrightarrow> minor a = 0"

definition is_positive :: "money \<Rightarrow> bool" where
  "is_positive a \<longleftrightarrow> 0 < minor a"

text \<open>\<open>EXPONENTS[self.currency]\<close> cannot fail for a constructed value; the model keeps the lookup.\<close>

definition to_decimal :: "money \<Rightarrow> exn + decimal" where
  "to_decimal a =
     (case dget EXPONENTS (currency a) of
        None \<Rightarrow> Inl (PyExn KeyError)
      | Some k \<Rightarrow> scaleb (Finite (minor a < 0) (nat \<bar>minor a\<bar>) 0) (- int k))"

definition upper_char :: "char \<Rightarrow> char" where
  "upper_char c = (let n = of_char c :: nat in if 97 \<le> n \<and> n \<le> 122 then char_of (n - 32) else c)"

definition py_upper :: "string \<Rightarrow> string" where
  "py_upper s = map upper_char s"

definition money_str :: "money \<Rightarrow> exn + string" where
  "money_str a = bind_r (to_decimal a) (\<lambda>d. Inr (show_decimal d @ '' '' @ py_upper (currency a)))"

section \<open>Well-formed amounts\<close>

definition money_ok :: "money \<Rightarrow> bool" where
  "money_ok a \<longleftrightarrow> py_lower (currency a) = currency a \<and> dget EXPONENTS (currency a) \<noteq> None"

lemma money_ok_currencies:
  "money_ok a \<longleftrightarrow> currency a \<in> {''usd'', ''eur'', ''gbp'', ''jpy''}"
  by (auto simp: money_ok_def EXPONENTS_def py_lower_def lower_char_def Let_def split: if_splits)

lemma mk_money_ok: "mk_money m c = Inr a \<Longrightarrow> money_ok a"
  by (auto simp: mk_money_def money_ok_def Let_def split: option.splits)

lemma mk_money_Inr_iff:
  "mk_money m c = Inr a \<longleftrightarrow> dget EXPONENTS (py_lower c) \<noteq> None \<and> a = \<lparr>minor = m, currency = py_lower c\<rparr>"
  by (auto simp: mk_money_def Let_def split: option.splits)

lemma mk_money_same [simp]:
  "money_ok a \<Longrightarrow> mk_money m (currency a) = Inr \<lparr>minor = m, currency = currency a\<rparr>"
  by (auto simp: mk_money_def money_ok_def Let_def split: option.splits)

lemma money_add_Inr:
  "money_ok a \<Longrightarrow> currency b = currency a \<Longrightarrow>
   money_add a b = Inr \<lparr>minor = minor a + minor b, currency = currency a\<rparr>"
  by (simp add: money_add_def same_currency_def)

lemma money_add_Inr_iff:
  "money_ok a \<Longrightarrow>
   money_add a b = Inr c \<longleftrightarrow>
     currency b = currency a \<and> c = \<lparr>minor = minor a + minor b, currency = currency a\<rparr>"
  by (auto simp: money_add_def same_currency_def)

lemma money_neg_Inr: "money_ok a \<Longrightarrow> money_neg a = Inr \<lparr>minor = - minor a, currency = currency a\<rparr>"
  by (simp add: money_neg_def)

section \<open>Parsing is exact, and inverse to printing\<close>











lemma EXPONENTS_small: "dget EXPONENTS cur = Some k \<Longrightarrow> k \<le> 2"
  by (auto simp: EXPONENTS_def split: if_splits)

text \<open>
  Printing and parsing agree: the decimal of any amount below \<open>10 ^ 28\<close> minor units, printed
  and parsed back in the same currency, is the amount.
\<close>

theorem money_print_parse:
  assumes "money_ok a" "\<bar>minor a\<bar> < 10 ^ 28"
  shows "\<exists>d. to_decimal a = Inr d \<and> money_parse (AStr (show_decimal d)) (currency a) = Inr a"
proof -
  obtain k where k: "dget EXPONENTS (currency a) = Some k" and low: "py_lower (currency a) = currency a"
    using assms(1) by (auto simp: money_ok_def)
  have k2: "k \<le> 2" using k by (rule EXPONENTS_small)
  let ?c = "nat \<bar>minor a\<bar>" and ?s = "minor a < 0"
  have "?c < 10 ^ dec_prec" using assms(2) by (simp add: dec_prec_def nat_less_iff)
  then have nd: "ndigits ?c \<le> dec_prec"
    using ndigits_le_iff [of dec_prec ?c] by (simp add: dec_prec_def)
  then have ex: "dec_exact ?c (- int k)" "dec_exact ?c 0"
    using k2 by (auto simp: dec_exact_def dec_etiny_def dec_etop_def)
  have fixed: "dec_fix ?s ?c (- int k) = Inr (Finite ?s ?c (- int k))"
      "dec_fix ?s ?c 0 = Inr (Finite ?s ?c 0)"
    using nd ex by (auto intro!: dec_fix_exact simp: dec_etop_def)
  then have d: "to_decimal a = Inr (Finite ?s ?c (- int k))"
    by (simp add: to_decimal_def k)
  have "parse_decimal (show_decimal (Finite ?s ?c (- int k))) = Some (Finite ?s ?c (- int k))"
    by (rule parse_show_decimal) (use k2 in simp)
  then have "money_parse (AStr (show_decimal (Finite ?s ?c (- int k)))) (currency a)
      = mk_money (with_sign ?s ?c) (currency a)"
    using fixed(2) by (simp add: money_parse_def low k del: show_decimal.simps)
  also have "with_sign ?s ?c = minor a" by (simp add: with_sign_def)
  also have "mk_money (minor a) (currency a) = Inr a" using assms(1) by simp
  finally show ?thesis using d by blast
qed

theorem money_print_parse_witness:
  "\<exists>d. to_decimal \<lparr>minor = -5, currency = ''usd''\<rparr> = Inr d
       \<and> money_parse (AStr (show_decimal d)) ''usd'' = Inr \<lparr>minor = -5, currency = ''usd''\<rparr>"
proof -
  have "money_ok \<lparr>minor = -5, currency = ''usd''\<rparr>" by (simp add: money_ok_currencies)
  from money_print_parse [OF this] show ?thesis by simp
qed

text \<open>
  Beyond the context's 28 digits \<open>Money.parse\<close> does round: \<open>scaleb\<close> applies the decimal
  context before the integrality test runs, so an amount with three decimal places is accepted
  for a currency that has two.
\<close>

theorem money_parse_rounds_long_amounts:
  "money_parse (AStr ''12345678901234567890123456789.125'') ''usd''
     = Inr \<lparr>minor = 1234567890123456789012345679000, currency = ''usd''\<rparr>"
proof -
  have p: "parse_decimal ''12345678901234567890123456789.125''
      = Some (Finite False 12345678901234567890123456789125 (-3))"
    by (simp add: parse_decimal_def py_strip_def is_space_def parse_unsigned_def take_digits_def
        is_digit_def nat_of_digits_def digit_value_def)
  have n: "ndigits 12345678901234567890123456789125 = 32"
    by (simp add: ndigits_def show_nat.simps)
  have n': "ndigits 1234567890123456789012345679 = 28"
    by (simp add: ndigits_def show_nat.simps)
  have r: "round_half_even 12345678901234567890123456789125 4 = 1234567890123456789012345679"
    by (simp add: round_half_even_def)
  have f: "dec_fix False 12345678901234567890123456789125 (-1)
      = Inr (Finite False 1234567890123456789012345679 3)"
    by (simp add: dec_fix_def n n' r Let_def dec_prec_def dec_etop_def dec_etiny_def)
  show ?thesis
    by (simp add: money_parse_def p f EXPONENTS_def py_lower_def lower_char_def with_sign_def
        mk_money_def)
qed

end
