(* ===== verification/Ledger.thy ===== *)
theory Ledger
  imports Money
begin

text \<open>
  \<open>domain/ledger.py\<close>: accounts, entries and balanced transactions. The dataclasses are records
  built through checking constructors (\<open>mk_entry\<close>, \<open>mk_journal\<close>: the two \<open>__post_init__\<close>); a
  \<open>datetime\<close> is a number of microseconds that is either timezone-aware or naive.
\<close>

datatype direction = DEBIT | CREDIT

fun opposite :: "direction \<Rightarrow> direction" where
  "opposite CREDIT = DEBIT"
| "opposite DEBIT = CREDIT"

datatype account_type = ASSET | LIABILITY | EQUITY | REVENUE | EXPENSE

definition normal_balance :: "account_type \<Rightarrow> direction" where
  "normal_balance t = (if t \<in> {ASSET, EXPENSE} then DEBIT else CREDIT)"

datatype datetime = Aware int | Naive int

fun tz_aware :: "datetime \<Rightarrow> bool" where
  "tz_aware (Aware _) = True"
| "tz_aware (Naive _) = False"

fun instant :: "datetime \<Rightarrow> int" where
  "instant (Aware t) = t"
| "instant (Naive t) = t"

text \<open>The earliest \<open>datetime\<close>: the year 1.\<close>

definition min_datetime :: int where
  "min_datetime = - 62135596800 * 1000000"

record entry =
  ent_account :: string
  ent_direction :: direction
  ent_amount :: money

record account =
  acc_id :: string
  acc_name :: string
  acc_type :: account_type
  acc_currency :: string
  acc_minimum :: "money option"

type_synonym metadata = "(string, string) dict"

record journal =
  j_id :: string
  j_kind :: string
  j_effective :: datetime
  j_entries :: "entry list"
  j_metadata :: metadata
  j_reverses :: "string option"

text \<open>\<open>Entry.__post_init__\<close>: the amount is positive, the sign lives in the direction.\<close>

definition mk_entry :: "string \<Rightarrow> direction \<Rightarrow> money \<Rightarrow> exn + entry" where
  "mk_entry a d m =
     raise_if (\<not> is_positive m) (LedgerExn InvalidEntry)
       (Inr \<lparr>ent_account = a, ent_direction = d, ent_amount = m\<rparr>)"

definition reversed :: "entry \<Rightarrow> exn + entry" where
  "reversed e = mk_entry (ent_account e) (opposite (ent_direction e)) (ent_amount e)"

definition acc_normal_balance :: "account \<Rightarrow> direction" where
  "acc_normal_balance a = normal_balance (acc_type a)"

definition signed :: "account \<Rightarrow> entry \<Rightarrow> exn + money" where
  "signed a e =
     raise_if (ent_account e \<noteq> acc_id a) (LedgerExn InvalidEntry)
     (raise_if (currency (ent_amount e) \<noteq> acc_currency a) (MoneyExn CurrencyMismatch)
       (if ent_direction e = acc_normal_balance a then Inr (ent_amount e)
        else money_neg (ent_amount e)))"

text \<open>The per-currency drift (debits minus credits), accumulated entry by entry.\<close>

definition entry_sign :: "direction \<Rightarrow> int" where
  "entry_sign d = (if d = DEBIT then 1 else - 1)"

definition drift_of :: "entry list \<Rightarrow> (string, int) dict" where
  "drift_of es =
     foldl (\<lambda>d e. dbump (currency (ent_amount e))
                        (entry_sign (ent_direction e) * minor (ent_amount e)) d) [] es"

definition mk_journal ::
  "string \<Rightarrow> string \<Rightarrow> datetime \<Rightarrow> entry list \<Rightarrow> metadata \<Rightarrow> string option \<Rightarrow> exn + journal" where
  "mk_journal i k tm es md rv =
     raise_if (length es < 2) (LedgerExn UnbalancedTransaction)
     (raise_if (\<not> tz_aware tm) (LedgerExn LedgerError)
     (raise_if (\<exists>(c, delta) \<in> set (drift_of es). delta \<noteq> 0) (LedgerExn UnbalancedTransaction)
       (Inr \<lparr>j_id = i, j_kind = k, j_effective = tm, j_entries = es,
             j_metadata = md, j_reverses = rv\<rparr>)))"

definition account_ids :: "journal \<Rightarrow> string set" where
  "account_ids j = set (map ent_account (j_entries j))"

text \<open>\<open>total(direction)\<close>: what moved, per currency.\<close>

fun total_from :: "(string, money) dict \<Rightarrow> direction \<Rightarrow> entry list \<Rightarrow> exn + (string, money) dict" where
  "total_from acc d [] = Inr acc"
| "total_from acc d (e # es) =
     (if ent_direction e = d then
        (case dget acc (currency (ent_amount e)) of
           None \<Rightarrow> total_from (dset (currency (ent_amount e)) (ent_amount e) acc) d es
         | Some cur \<Rightarrow>
             bind_r (money_add cur (ent_amount e)) (\<lambda>m.
             total_from (dset (currency (ent_amount e)) m acc) d es))
      else total_from acc d es)"

definition total :: "journal \<Rightarrow> direction \<Rightarrow> exn + (string, money) dict" where
  "total j d = total_from [] d (j_entries j)"

text \<open>The correcting transaction. A reversal is not reversed again.\<close>

definition reverse_journal :: "journal \<Rightarrow> string \<Rightarrow> datetime option \<Rightarrow> exn + journal" where
  "reverse_journal j new_id tm =
     raise_if (j_reverses j \<noteq> None) (LedgerExn LedgerError)
     (bind_r (map_r reversed (j_entries j)) (\<lambda>es.
      mk_journal new_id (j_kind j @ ''.reversal'')
        (case tm of None \<Rightarrow> j_effective j | Some t \<Rightarrow> t) es (j_metadata j) (Some (j_id j))))"

text \<open>The reference balance: fold the account's entries in their signed sense.\<close>

fun balance_from :: "account \<Rightarrow> money \<Rightarrow> entry list \<Rightarrow> exn + money" where
  "balance_from a tot [] = Inr tot"
| "balance_from a tot (e # es) =
     (if ent_account e \<noteq> acc_id a then balance_from a tot es
      else bind_r (signed a e) (\<lambda>m. bind_r (money_add tot m) (\<lambda>tot'. balance_from a tot' es)))"

definition balance_of :: "account \<Rightarrow> entry list \<Rightarrow> exn + money" where
  "balance_of a es = bind_r (money_zero (acc_currency a)) (\<lambda>z. balance_from a z es)"

section \<open>Well-formed entries and journals\<close>

definition entry_ok :: "entry \<Rightarrow> bool" where
  "entry_ok e \<longleftrightarrow> is_positive (ent_amount e) \<and> money_ok (ent_amount e)"

text \<open>Debits and credits of one currency, and the accounting identity.\<close>

definition side_total :: "direction \<Rightarrow> string \<Rightarrow> entry list \<Rightarrow> int" where
  "side_total d c es =
     (\<Sum>e \<leftarrow> filter (\<lambda>e. ent_direction e = d \<and> currency (ent_amount e) = c) es. minor (ent_amount e))"

definition balanced :: "entry list \<Rightarrow> bool" where
  "balanced es \<longleftrightarrow> (\<forall>c. side_total DEBIT c es = side_total CREDIT c es)"

lemma side_total_simps [simp]:
  "side_total d c [] = 0"
  "side_total d c (e # es) =
     (if ent_direction e = d \<and> currency (ent_amount e) = c then minor (ent_amount e) else 0)
       + side_total d c es"
  "side_total d c (es @ fs) = side_total d c es + side_total d c fs"
  by (simp_all add: side_total_def)

lemma opposite_simps [simp]:
  "opposite d \<noteq> d" "d \<noteq> opposite d" "opposite (opposite d) = d"
  "opposite d = DEBIT \<longleftrightarrow> d = CREDIT" "opposite d = CREDIT \<longleftrightarrow> d = DEBIT"
  by (cases d; simp)+

lemma opposite_eq_iff: "opposite d = e \<longleftrightarrow> d = opposite e"
  by (cases d; cases e) simp_all

lemma mk_entry_Inr_iff [result_simps]:
  "mk_entry a d m = Inr e \<longleftrightarrow>
     is_positive m \<and> e = \<lparr>ent_account = a, ent_direction = d, ent_amount = m\<rparr>"
  by (auto simp: mk_entry_def raise_if_def)

lemma reversed_ok:
  "entry_ok e \<Longrightarrow> reversed e = Inr (e\<lparr>ent_direction := opposite (ent_direction e)\<rparr>)"
  by (simp add: reversed_def mk_entry_def entry_ok_def)

abbreviation flip :: "entry \<Rightarrow> entry" where
  "flip e \<equiv> e\<lparr>ent_direction := opposite (ent_direction e)\<rparr>"

lemma map_reversed_ok: "\<forall>e \<in> set es. entry_ok e \<Longrightarrow> map_r reversed es = Inr (map flip es)"
  by (rule map_r_all_Inr) (simp add: reversed_ok)

lemma side_total_flip: "side_total d c (map flip es) = side_total (opposite d) c es"
  by (induction es) (simp_all add: opposite_eq_iff)

lemma balanced_flip: "balanced (map flip es) = balanced es"
  by (auto simp: balanced_def side_total_flip)

lemma drift_of_snoc:
  "drift_of (es @ [e]) =
     dbump (currency (ent_amount e)) (entry_sign (ent_direction e) * minor (ent_amount e)) (drift_of es)"
  by (simp add: drift_of_def)

lemma drift_of_value: "dval (drift_of es) c = side_total DEBIT c es - side_total CREDIT c es"
proof (induction es rule: rev_induct)
  case Nil
  then show ?case by (simp add: drift_of_def)
next
  case (snoc e es)
  then show ?case by (cases "ent_direction e") (auto simp: drift_of_snoc entry_sign_def)
qed

lemma drift_of_distinct: "distinct (map fst (drift_of es))"
proof (induction es rule: rev_induct)
  case Nil
  then show ?case by (simp add: drift_of_def)
next
  case (snoc e es)
  then show ?case by (simp add: drift_of_snoc distinct_dbump)
qed

lemma drift_free_iff: "(\<exists>(c, delta) \<in> set (drift_of es). delta \<noteq> 0) \<longleftrightarrow> \<not> balanced es"
  using dval_nonzero_iff [OF drift_of_distinct, of es]
  by (simp add: drift_of_value balanced_def)

lemma mk_journal_eq:
  "mk_journal i k tm es md rv =
     (if length es < 2 then Inl (LedgerExn UnbalancedTransaction)
      else if \<not> tz_aware tm then Inl (LedgerExn LedgerError)
      else if \<not> balanced es then Inl (LedgerExn UnbalancedTransaction)
      else Inr \<lparr>j_id = i, j_kind = k, j_effective = tm, j_entries = es,
                j_metadata = md, j_reverses = rv\<rparr>)"
  by (simp add: mk_journal_def drift_free_iff raise_if_def)

text \<open>What every journal built by the code satisfies.\<close>

definition journal_ok :: "journal \<Rightarrow> bool" where
  "journal_ok j \<longleftrightarrow> 2 \<le> length (j_entries j) \<and> tz_aware (j_effective j) \<and> balanced (j_entries j)
     \<and> (\<forall>e \<in> set (j_entries j). entry_ok e)"


lemma mk_journal_Inr_iff [result_simps]:
  "mk_journal i k tm es md rv = Inr j \<longleftrightarrow>
     2 \<le> length es \<and> tz_aware tm \<and> balanced es
     \<and> j = \<lparr>j_id = i, j_kind = k, j_effective = tm, j_entries = es, j_metadata = md, j_reverses = rv\<rparr>"
  by (auto simp: mk_journal_eq)

section \<open>Balances\<close>

text \<open>The effect of an entry on the balance of an account whose normal side is \<open>n\<close>.\<close>

definition effect :: "direction \<Rightarrow> entry \<Rightarrow> int" where
  "effect n e = (if ent_direction e = n then minor (ent_amount e) else - minor (ent_amount e))"

definition net :: "direction \<Rightarrow> string \<Rightarrow> entry list \<Rightarrow> int" where
  "net n a es = (\<Sum>e \<leftarrow> filter (\<lambda>e. ent_account e = a) es. effect n e)"

lemma net_simps [simp]:
  "net n a [] = 0"
  "net n a (e # es) = (if ent_account e = a then effect n e else 0) + net n a es"
  "net n a (es @ fs) = net n a es + net n a fs"
  by (simp_all add: net_def)

lemma effect_flip [simp]: "effect n (flip e) = - effect n e"
  by (cases "ent_direction e"; cases n) (simp_all add: effect_def)

lemma net_flip: "net n a (map flip es) = - net n a es"
  by (induction es) simp_all

lemma signed_Inr:
  assumes "entry_ok e" "ent_account e = acc_id a" "currency (ent_amount e) = acc_currency a"
  shows "signed a e = Inr \<lparr>minor = effect (acc_normal_balance a) e, currency = acc_currency a\<rparr>"
  using assms by (auto simp: signed_def effect_def entry_ok_def money_neg_Inr)

lemma balance_from_net:
  assumes "money_ok tot" "currency tot = acc_currency a" "\<forall>e \<in> set es. entry_ok e"
    and "\<forall>e \<in> set es. ent_account e = acc_id a \<longrightarrow> currency (ent_amount e) = acc_currency a"
  shows "balance_from a tot es = Inr (tot\<lparr>minor := minor tot + net (acc_normal_balance a) (acc_id a) es\<rparr>)"
  using assms
proof (induction es arbitrary: tot)
  case Nil
  then show ?case by simp
next
  case (Cons e es)
  show ?case
  proof (cases "ent_account e = acc_id a")
    case False
    with Cons show ?thesis by simp
  next
    case True
    let ?v = "effect (acc_normal_balance a) e"
    from True Cons.prems have s: "signed a e = Inr \<lparr>minor = ?v, currency = acc_currency a\<rparr>"
      by (simp add: signed_Inr)
    from Cons.prems have m: "money_add tot \<lparr>minor = ?v, currency = acc_currency a\<rparr>
        = Inr (tot\<lparr>minor := minor tot + ?v\<rparr>)"
      by (simp add: money_add_Inr)
    have ok: "money_ok (tot\<lparr>minor := minor tot + ?v\<rparr>)"
      using Cons.prems(1) by (simp add: money_ok_def)
    from Cons.IH [OF ok] Cons.prems True s m show ?thesis by (simp add: add.assoc)
  qed
qed

lemma balance_of_net:
  assumes "dget EXPONENTS (acc_currency a) \<noteq> None" "py_lower (acc_currency a) = acc_currency a"
    and "\<forall>e \<in> set es. entry_ok e"
    and "\<forall>e \<in> set es. ent_account e = acc_id a \<longrightarrow> currency (ent_amount e) = acc_currency a"
  shows "balance_of a es
           = Inr \<lparr>minor = net (acc_normal_balance a) (acc_id a) es, currency = acc_currency a\<rparr>"
proof -
  let ?z = "\<lparr>minor = 0, currency = acc_currency a\<rparr>"
  have z: "money_zero (acc_currency a) = Inr ?z" and ok: "money_ok ?z"
    using assms by (auto simp: money_zero_def mk_money_def money_ok_def)
  show ?thesis
    unfolding balance_of_def using balance_from_net [OF ok _ assms(3,4)] z by simp
qed

text \<open>What \<open>total\<close> returns: one positive amount per currency moved on that side.\<close>

definition totals_ok :: "(string, money) dict \<Rightarrow> bool" where
  "totals_ok t \<longleftrightarrow> (\<forall>c m. dget t c = Some m \<longrightarrow> money_ok m \<and> currency m = c \<and> 0 < minor m)"

definition tval :: "(string, money) dict \<Rightarrow> string \<Rightarrow> int" where
  "tval t c = (case dget t c of None \<Rightarrow> 0 | Some m \<Rightarrow> minor m)"

lemma totals_ok_dset:
  "totals_ok t \<Longrightarrow> money_ok m \<Longrightarrow> 0 < minor m \<Longrightarrow> c = currency m \<Longrightarrow> totals_ok (dset c m t)"
  by (simp add: totals_ok_def update_conv')

lemma tval_dset: "tval (dset c m t) c' = (if c' = c then minor m else tval t c')"
  by (simp add: tval_def update_conv')

lemma tval_eq_dget: "totals_ok t \<Longrightarrow> totals_ok u \<Longrightarrow> tval t c = tval u c \<Longrightarrow> dget t c = dget u c"
  unfolding tval_def totals_ok_def by (cases "dget t c"; cases "dget u c") fastforce+

lemma total_from_side:
  assumes "\<forall>e \<in> set es. entry_ok e" "totals_ok acc"
  shows "\<exists>t. total_from acc d es = Inr t \<and> totals_ok t
           \<and> (\<forall>c. tval t c = tval acc c + side_total d c es)"
  using assms
proof (induction es arbitrary: acc)
  case Nil
  then show ?case by simp
next
  case (Cons e es)
  let ?c = "currency (ent_amount e)"
  have e: "money_ok (ent_amount e)" "0 < minor (ent_amount e)"
    using Cons.prems(1) by (auto simp: entry_ok_def is_positive_def)
  show ?case
  proof (cases "ent_direction e = d")
    case False
    with Cons show ?thesis by simp
  next
    case True
    define m where "m = (case dget acc ?c of None \<Rightarrow> ent_amount e
        | Some cur \<Rightarrow> \<lparr>minor = minor cur + minor (ent_amount e), currency = ?c\<rparr>)"
    have m: "money_ok m" "0 < minor m" "?c = currency m" "minor m = tval acc ?c + minor (ent_amount e)"
      using Cons.prems(2) e
      by (auto simp: m_def totals_ok_def tval_def money_ok_def split: option.splits) fastforce+
    have step: "total_from acc d (e # es) = total_from (dset ?c m acc) d es"
      using True Cons.prems(2) by (auto simp: m_def totals_ok_def money_add_Inr split: option.splits)
    have "totals_ok (dset ?c m acc)" by (rule totals_ok_dset [OF Cons.prems(2) m(1,2,3)])
    from Cons.IH [OF _ this] Cons.prems(1) obtain t where
      "total_from (dset ?c m acc) d es = Inr t" "totals_ok t"
      "\<forall>c. tval t c = tval (dset ?c m acc) c + side_total d c es" by auto
    then show ?thesis using step True m(4) by (intro exI [of _ t]) (auto simp: tval_dset)
  qed
qed

section \<open>Properties\<close>

text \<open>
  C11. A journal transaction can be constructed exactly when it has at least two entries, a
  timezone-aware time, and equal debits and credits within every currency.
\<close>

theorem journal_constructs_iff_balanced:
  "(\<exists>j. mk_journal i k tm es md rv = Inr j) \<longleftrightarrow>
     2 \<le> length es \<and> tz_aware tm \<and> (\<forall>c. side_total DEBIT c es = side_total CREDIT c es)"
  by (auto simp: mk_journal_Inr_iff balanced_def)

text \<open>
  Debits and credits of a constructed journal agree as \<open>total\<close> reports them: both calls
  succeed and, for every currency, return the same amount.
\<close>

theorem totals_agree:
  assumes "mk_journal i k tm es md rv = Inr j" "\<forall>e \<in> set es. entry_ok e"
  shows "\<exists>d cr. total j DEBIT = Inr d \<and> total j CREDIT = Inr cr \<and> (\<forall>c. dget d c = dget cr c)"
proof -
  have j: "j_entries j = es" "balanced es" using assms(1) by (auto simp: mk_journal_Inr_iff)
  have nil: "totals_ok []" "tval [] c = 0" for c by (simp_all add: totals_ok_def tval_def)
  obtain d where d: "total j DEBIT = Inr d" "totals_ok d" "\<forall>c. tval d c = side_total DEBIT c es"
    using total_from_side [OF assms(2) nil(1)] by (auto simp: total_def j nil)
  obtain cr where cr: "total j CREDIT = Inr cr" "totals_ok cr" "\<forall>c. tval cr c = side_total CREDIT c es"
    using total_from_side [OF assms(2) nil(1)] by (auto simp: total_def j nil)
  from d cr j(2) have "dget d c = dget cr c" for c
    by (intro tval_eq_dget) (simp_all add: balanced_def)
  with d(1) cr(1) show ?thesis by blast
qed

text \<open>
  A reversal undoes its original and nothing else: reversing a constructed journal succeeds,
  gives a balanced journal that points back at the original, leaves every account's reference
  balance where it was before the original, and cannot itself be reversed.
\<close>

theorem reversal_restores_balances:
  assumes "journal_ok j" "j_reverses j = None" "tz_aware tm"
  shows "\<exists>r. reverse_journal j nid (Some tm) = Inr r \<and> journal_ok r \<and> j_reverses r = Some (j_id j)
           \<and> reverse_journal r nid' (Some tm') = Inl (LedgerExn LedgerError)
           \<and> (\<forall>a before. money_ok \<lparr>minor = 0, currency = acc_currency a\<rparr> \<longrightarrow>
                (\<forall>e \<in> set (before @ j_entries j). entry_ok e \<and>
                   (ent_account e = acc_id a \<longrightarrow> currency (ent_amount e) = acc_currency a)) \<longrightarrow>
                balance_of a (before @ j_entries j @ j_entries r) = balance_of a before)"
proof -
  let ?es = "map flip (j_entries j)"
  have ok: "\<forall>e \<in> set (j_entries j). entry_ok e" and two: "2 \<le> length (j_entries j)"
    and bal: "balanced (j_entries j)" using assms(1) by (simp_all add: journal_ok_def)
  let ?r = "\<lparr>j_id = nid, j_kind = j_kind j @ ''.reversal'', j_effective = tm, j_entries = ?es,
             j_metadata = j_metadata j, j_reverses = Some (j_id j)\<rparr>"
  have r: "reverse_journal j nid (Some tm) = Inr ?r"
    using two bal assms(2,3) by (simp add: reverse_journal_def map_reversed_ok [OF ok] mk_journal_eq balanced_flip)
  have "journal_ok ?r"
    using two bal assms(3) ok by (auto simp: journal_ok_def balanced_flip entry_ok_def)
  moreover have "reverse_journal ?r nid' (Some tm') = Inl (LedgerExn LedgerError)"
    by (simp add: reverse_journal_def)
  moreover have "balance_of a (before @ j_entries j @ ?es) = balance_of a before"
    if cur: "money_ok \<lparr>minor = 0, currency = acc_currency a\<rparr>"
      and es: "\<forall>e \<in> set (before @ j_entries j). entry_ok e \<and>
                 (ent_account e = acc_id a \<longrightarrow> currency (ent_amount e) = acc_currency a)" for a before
  proof -
    have c: "dget EXPONENTS (acc_currency a) \<noteq> None" "py_lower (acc_currency a) = acc_currency a"
      using cur by (simp_all add: money_ok_def)
    have all: "\<forall>e \<in> set (before @ j_entries j @ ?es). entry_ok e \<and>
                 (ent_account e = acc_id a \<longrightarrow> currency (ent_amount e) = acc_currency a)"
      using es by (auto simp: entry_ok_def)
    then show ?thesis
      using balance_of_net [OF c, of "before @ j_entries j @ ?es"] balance_of_net [OF c, of before]
      by (simp add: net_flip ball_Un)
  qed
  ultimately show ?thesis using r by (intro exI [of _ ?r]) simp
qed

definition demo_journal :: journal where
  "demo_journal =
     \<lparr>j_id = ''t1'', j_kind = ''transfer'', j_effective = Aware 5,
      j_entries = [\<lparr>ent_account = ''a'', ent_direction = DEBIT, ent_amount = \<lparr>minor = 7, currency = ''usd''\<rparr>\<rparr>,
                   \<lparr>ent_account = ''b'', ent_direction = CREDIT, ent_amount = \<lparr>minor = 7, currency = ''usd''\<rparr>\<rparr>],
      j_metadata = [], j_reverses = None\<rparr>"

lemma demo_journal_ok: "journal_ok demo_journal" "j_reverses demo_journal = None"
  by (simp_all add: demo_journal_def journal_ok_def balanced_def entry_ok_def is_positive_def
      money_ok_currencies)

theorem totals_agree_witness:
  "\<exists>d cr. total demo_journal DEBIT = Inr d \<and> total demo_journal CREDIT = Inr cr
     \<and> dget cr ''usd'' = Some \<lparr>minor = 7, currency = ''usd''\<rparr>"
proof -
  have m: "mk_journal ''t1'' ''transfer'' (Aware 5) (j_entries demo_journal) [] None = Inr demo_journal"
    by (simp add: mk_journal_eq balanced_def demo_journal_def)
  have ok: "\<forall>e \<in> set (j_entries demo_journal). entry_ok e"
    using demo_journal_ok(1) by (simp add: journal_ok_def)
  have deb: "total demo_journal DEBIT = Inr [(''usd'', \<lparr>minor = 7, currency = ''usd''\<rparr>)]"
    by (simp add: total_def demo_journal_def)
  obtain d cr where t: "total demo_journal DEBIT = Inr d" "total demo_journal CREDIT = Inr cr"
    and eq: "dget d ''usd'' = dget cr ''usd''" using totals_agree [OF m ok] by blast
  from t(1) deb have "dget d ''usd'' = Some \<lparr>minor = 7, currency = ''usd''\<rparr>" by auto
  with t eq show ?thesis by metis
qed

theorem reversal_restores_balances_witness:
  "\<exists>r. reverse_journal demo_journal ''t2'' (Some (Aware 9)) = Inr r
     \<and> balance_of \<lparr>acc_id = ''a'', acc_name = [], acc_type = ASSET, acc_currency = ''usd'', acc_minimum = None\<rparr>
         (j_entries demo_journal @ j_entries r) = Inr \<lparr>minor = 0, currency = ''usd''\<rparr>"
proof -
  let ?a = "\<lparr>acc_id = ''a'', acc_name = [], acc_type = ASSET, acc_currency = ''usd'', acc_minimum = None\<rparr>"
  have t: "tz_aware (Aware 9)" by simp
  from reversal_restores_balances [OF demo_journal_ok t, of "''t2''"] obtain r where
    r: "reverse_journal demo_journal ''t2'' (Some (Aware 9)) = Inr r"
    and b: "\<forall>a before. money_ok \<lparr>minor = 0, currency = acc_currency a\<rparr> \<longrightarrow>
                (\<forall>e \<in> set (before @ j_entries demo_journal). entry_ok e \<and>
                   (ent_account e = acc_id a \<longrightarrow> currency (ent_amount e) = acc_currency a)) \<longrightarrow>
                balance_of a (before @ j_entries demo_journal @ j_entries r) = balance_of a before"
    by blast
  have cur: "money_ok \<lparr>minor = 0, currency = acc_currency ?a\<rparr>" by (simp add: money_ok_currencies)
  have es: "\<forall>e \<in> set ([] @ j_entries demo_journal). entry_ok e \<and>
      (ent_account e = acc_id ?a \<longrightarrow> currency (ent_amount e) = acc_currency ?a)"
    by (simp add: demo_journal_def money_ok_currencies entry_ok_def is_positive_def)
  from b cur es have "balance_of ?a ([] @ j_entries demo_journal @ j_entries r) = balance_of ?a []"
    by blast
  then have "balance_of ?a (j_entries demo_journal @ j_entries r) = balance_of ?a []" by simp
  also have "\<dots> = Inr \<lparr>minor = 0, currency = ''usd''\<rparr>"
    by (simp add: balance_of_def money_zero_def mk_money_def EXPONENTS_def py_lower_def lower_char_def)
  finally show ?thesis using r by blast
qed

end
