(* ===== verification/Posting.thy ===== *)
theory Posting
  imports Ledger
begin

text \<open>
  \<open>domain/posting.py\<close>: the registry of posting rules, each a map from a business event to ledger
  entries, and \<open>build_transaction\<close>, which looks a rule up and hands its entries to the checking
  journal constructor. The abstract class \<open>PostingRule\<close> is the locale \<open>posting_contract\<close>,
  interpreted on every registered rule.
\<close>

record posting_request =
  pr_amount :: money
  pr_effective :: datetime
  pr_accounts :: "(string, string) dict"
  pr_metadata :: metadata

definition request_account :: "posting_request \<Rightarrow> string \<Rightarrow> exn + string" where
  "request_account r role =
     (case dget (pr_accounts r) role of
        None \<Rightarrow> Inl (LedgerExn LedgerError)
      | Some a \<Rightarrow> Inr a)"

record posting_rule =
  rule_kind :: string
  rule_description :: string
  rule_shape :: "string \<times> string"
  rule_build :: "posting_request \<Rightarrow> exn + entry list"

text \<open>The two-legged posting most rules are.\<close>

definition simple_posting :: "string \<Rightarrow> string \<Rightarrow> posting_request \<Rightarrow> exn + entry list" where
  "simple_posting debit credit r =
     bind_r (request_account r debit) (\<lambda>d.
     bind_r (mk_entry d DEBIT (pr_amount r)) (\<lambda>e1.
     bind_r (request_account r credit) (\<lambda>c.
     bind_r (mk_entry c CREDIT (pr_amount r)) (\<lambda>e2.
     Inr [e1, e2]))))"

definition CardPurchase :: posting_rule where
  "CardPurchase = \<lparr>rule_kind = ''card_purchase'',
     rule_description = ''Money leaves a funding account and becomes an expense.'',
     rule_shape = (''expense'', ''funding''),
     rule_build = simple_posting ''expense'' ''funding''\<rparr>"

definition Deposit :: posting_rule where
  "Deposit = \<lparr>rule_kind = ''deposit'',
     rule_description = ''Income arrives in an asset account.'',
     rule_shape = (''destination'', ''income''),
     rule_build = simple_posting ''destination'' ''income''\<rparr>"

definition OpeningBalance :: posting_rule where
  "OpeningBalance = \<lparr>rule_kind = ''opening_balance'',
     rule_description = ''What an account was worth when the books were opened.'',
     rule_shape = (''destination'', ''equity''),
     rule_build = simple_posting ''destination'' ''equity''\<rparr>"

definition build_transfer :: "posting_request \<Rightarrow> exn + entry list" where
  "build_transfer r =
     bind_r (request_account r ''source'') (\<lambda>s.
     bind_r (request_account r ''destination'') (\<lambda>d.
     raise_if (s = d) (LedgerExn LedgerError)
       (simple_posting ''destination'' ''source'' r)))"

definition Transfer :: posting_rule where
  "Transfer = \<lparr>rule_kind = ''transfer'',
     rule_description = ''Money moves between two accounts under the same tenant.'',
     rule_shape = (''destination'', ''source''),
     rule_build = build_transfer\<rparr>"

definition Fee :: posting_rule where
  "Fee = \<lparr>rule_kind = ''fee'',
     rule_description = ''A charge we levy; expense to the customer, revenue to us.'',
     rule_shape = (''fee_expense'', ''funding''),
     rule_build = simple_posting ''fee_expense'' ''funding''\<rparr>"

definition Refund :: posting_rule where
  "Refund = \<lparr>rule_kind = ''refund'',
     rule_description = ''A purchase comes back: the mirror of card_purchase.'',
     rule_shape = (''funding'', ''expense''),
     rule_build = simple_posting ''funding'' ''expense''\<rparr>"

text \<open>One part of the split metadata, \<open>role:minor\<close>, as a debit leg.\<close>

definition split_leg :: "posting_request \<Rightarrow> string \<Rightarrow> exn + entry" where
  "split_leg r part =
     (let (role, num) = py_partition (CHR '':'') part in
      case py_int num of
        None \<Rightarrow> Inl (PyExn ValueError)
      | Some n \<Rightarrow>
          bind_r (mk_money n (currency (pr_amount r))) (\<lambda>amount.
          bind_r (request_account r (py_strip role)) (\<lambda>a.
          mk_entry a DEBIT amount)))"

definition build_split :: "posting_request \<Rightarrow> exn + entry list" where
  "build_split r =
     (let legs = sort (filter (starts_with ''expense_'') (map fst (pr_accounts r))) in
      raise_if (legs = []) (LedgerExn LedgerError)
      (case dget (pr_metadata r) ''split'' of
         None \<Rightarrow> Inl (LedgerExn LedgerError)
       | Some raw \<Rightarrow>
           raise_if (raw = []) (LedgerExn LedgerError)
           (bind_r (map_r (split_leg r) (split_on (CHR '','') raw)) (\<lambda>entries.
            let allocated = (\<Sum>e \<leftarrow> entries. minor (ent_amount e)) in
            raise_if (allocated \<noteq> minor (pr_amount r)) (LedgerExn LedgerError)
            (bind_r (request_account r ''funding'') (\<lambda>f.
             bind_r (mk_entry f CREDIT (pr_amount r)) (\<lambda>e.
             Inr (entries @ [e]))))))))"

definition SplitPurchase :: posting_rule where
  "SplitPurchase = \<lparr>rule_kind = ''split_purchase'',
     rule_description = ''One charge across several expense categories -- the case that proves ''
       @ ''a transaction is N entries, not two.'',
     rule_shape = (''expense_*'', ''funding''),
     rule_build = build_split\<rparr>"

text \<open>The class decorator registers an instance under its kind and refuses a duplicate.\<close>

type_synonym registry = "(string, posting_rule) dict"

definition register_rule :: "posting_rule \<Rightarrow> registry \<Rightarrow> exn + registry" where
  "register_rule rule reg =
     raise_if (dget reg (rule_kind rule) \<noteq> None) (LedgerExn LedgerError)
       (Inr (dset (rule_kind rule) rule reg))"

fun register_all :: "posting_rule list \<Rightarrow> registry \<Rightarrow> exn + registry" where
  "register_all [] reg = Inr reg"
| "register_all (r # rs) reg = bind_r (register_rule r reg) (register_all rs)"

definition posting_rules :: "posting_rule list" where
  "posting_rules = [CardPurchase, Deposit, OpeningBalance, Transfer, Fee, Refund, SplitPurchase]"

definition REGISTRY :: registry where
  "REGISTRY = (case register_all posting_rules [] of Inr reg \<Rightarrow> reg | Inl _ \<Rightarrow> [])"

definition build_transaction :: "string \<Rightarrow> string \<Rightarrow> posting_request \<Rightarrow> exn + journal" where
  "build_transaction txn_id kind r =
     (case dget REGISTRY kind of
        None \<Rightarrow> Inl (LedgerExn UnknownPostingKind)
      | Some rule \<Rightarrow>
          bind_r (rule_build rule r) (\<lambda>entries.
          mk_journal txn_id kind (pr_effective r) entries (pr_metadata r) None))"

text \<open>Sorted by kind; the kinds are distinct, so the other components never decide.\<close>

definition describe_rules :: "(string \<times> string \<times> string \<times> string) list" where
  "describe_rules =
     sort_key fst (map (\<lambda>r. (rule_kind r, fst (rule_shape r), snd (rule_shape r), rule_description r))
       (map snd REGISTRY))"

section \<open>The registry\<close>

lemmas rule_defs = CardPurchase_def Deposit_def OpeningBalance_def Transfer_def Fee_def Refund_def
  SplitPurchase_def

lemma registration_succeeds:
  "register_all posting_rules [] = Inr (map (\<lambda>r. (rule_kind r, r)) posting_rules)"
  by (simp add: posting_rules_def register_rule_def rule_defs)

lemma REGISTRY_eq: "REGISTRY = map (\<lambda>r. (rule_kind r, r)) posting_rules"
  by (simp add: REGISTRY_def registration_succeeds)

lemma rule_kinds:
  "map rule_kind posting_rules = [''card_purchase'', ''deposit'', ''opening_balance'', ''transfer'',
     ''fee'', ''refund'', ''split_purchase'']"
  by (simp add: posting_rules_def rule_defs)

lemma registered: "rule \<in> set posting_rules \<Longrightarrow> dget REGISTRY (rule_kind rule) = Some rule"
  unfolding REGISTRY_eq
  by (rule map_of_is_SomeI) (auto simp: comp_def rule_kinds)

lemma REGISTRY_lookup: "dget REGISTRY kind = Some rule \<Longrightarrow> rule \<in> set posting_rules \<and> rule_kind rule = kind"
  unfolding REGISTRY_eq by (auto dest: map_of_SomeD)

section \<open>The contract of a posting rule\<close>

text \<open>
  What \<open>build_transaction\<close> relies on: a rule that succeeds on a well-formed amount returns at least
  two positive entries in the amount's currency whose debits and credits both come to the amount.
\<close>

definition moves :: "money \<Rightarrow> entry list \<Rightarrow> bool" where
  "moves m es \<longleftrightarrow> 2 \<le> length es
     \<and> (\<forall>e \<in> set es. entry_ok e \<and> currency (ent_amount e) = currency m)
     \<and> side_total DEBIT (currency m) es = minor m \<and> side_total CREDIT (currency m) es = minor m"

lemma side_total_other_currency:
  "\<forall>e \<in> set es. currency (ent_amount e) = c \<Longrightarrow> c' \<noteq> c \<Longrightarrow> side_total d c' es = 0"
  by (induction es) auto

lemma moves_balanced: "moves m es \<Longrightarrow> balanced es"
  unfolding moves_def balanced_def using side_total_other_currency [of es "currency m"]
  by metis

locale posting_contract =
  fixes build :: "posting_request \<Rightarrow> exn + entry list"
  assumes build_moves: "money_ok (pr_amount r) \<Longrightarrow> build r = Inr es \<Longrightarrow> moves (pr_amount r) es"
begin

lemma journal_of_build:
  assumes "money_ok (pr_amount r)" "build r = Inr es"
  shows "mk_journal i k (pr_effective r) es md rv =
     (if tz_aware (pr_effective r)
      then Inr \<lparr>j_id = i, j_kind = k, j_effective = pr_effective r, j_entries = es,
                j_metadata = md, j_reverses = rv\<rparr>
      else Inl (LedgerExn LedgerError))"
  using build_moves [OF assms] moves_balanced [of "pr_amount r" es]
  by (simp add: mk_journal_eq moves_def)

lemma journal_ok_of_build:
  assumes "money_ok (pr_amount r)" "build r = Inr es"
    and "mk_journal i k (pr_effective r) es md rv = Inr j"
  shows "journal_ok j" "j_entries j = es"
  using build_moves [OF assms(1,2)] assms(3)
  by (auto simp: mk_journal_Inr_iff journal_ok_def moves_def)

end

lemma simple_posting_Inr_iff:
  "simple_posting debit credit r = Inr es \<longleftrightarrow>
     is_positive (pr_amount r) \<and>
     (\<exists>d c. dget (pr_accounts r) debit = Some d \<and> dget (pr_accounts r) credit = Some c
        \<and> es = [\<lparr>ent_account = d, ent_direction = DEBIT, ent_amount = pr_amount r\<rparr>,
                \<lparr>ent_account = c, ent_direction = CREDIT, ent_amount = pr_amount r\<rparr>])"
  by (auto simp: simple_posting_def request_account_def result_simps split: option.splits)

lemma simple_posting_moves:
  "money_ok (pr_amount r) \<Longrightarrow> simple_posting debit credit r = Inr es \<Longrightarrow> moves (pr_amount r) es"
  by (auto simp: simple_posting_Inr_iff moves_def entry_ok_def)

lemma build_transfer_Inr_iff:
  "build_transfer r = Inr es \<longleftrightarrow>
     simple_posting ''destination'' ''source'' r = Inr es
     \<and> dget (pr_accounts r) ''source'' \<noteq> dget (pr_accounts r) ''destination''"
  by (auto simp: build_transfer_def request_account_def simple_posting_Inr_iff result_simps
      split: option.splits)

lemma split_leg_Inr:
  assumes "money_ok (pr_amount r)" "split_leg r part = Inr e"
  shows "entry_ok e" "ent_direction e = DEBIT" "currency (ent_amount e) = currency (pr_amount r)"
    "\<exists>role num n. py_partition (CHR '':'') part = (role, num) \<and> py_int num = Some n
       \<and> minor (ent_amount e) = n \<and> dget (pr_accounts r) (py_strip role) = Some (ent_account e)"
  using assms
  by (auto simp: split_leg_def request_account_def result_simps entry_ok_def money_ok_def
      split: prod.splits option.splits)

lemma build_split_Inr:
  assumes "money_ok (pr_amount r)" "build_split r = Inr es"
  obtains raw legs f where
    "dget (pr_metadata r) ''split'' = Some raw" "raw \<noteq> []"
    "list_all2 (\<lambda>p e. split_leg r p = Inr e) (split_on (CHR '','') raw) legs"
    "(\<Sum>e \<leftarrow> legs. minor (ent_amount e)) = minor (pr_amount r)"
    "dget (pr_accounts r) ''funding'' = Some f" "is_positive (pr_amount r)"
    "es = legs @ [\<lparr>ent_account = f, ent_direction = CREDIT, ent_amount = pr_amount r\<rparr>]"
  using assms that
  by (auto simp: build_split_def request_account_def result_simps Let_def map_r_Inr_iff
      split: option.splits)

lemma debit_legs_total:
  "\<forall>e \<in> set es. ent_direction e = DEBIT \<and> currency (ent_amount e) = c \<Longrightarrow>
   side_total DEBIT c es = (\<Sum>e \<leftarrow> es. minor (ent_amount e)) \<and> side_total CREDIT c es = 0"
  by (induction es) auto

lemma build_split_moves:
  assumes "money_ok (pr_amount r)" "build_split r = Inr es"
  shows "moves (pr_amount r) es"
proof -
  from build_split_Inr [OF assms] obtain raw legs f where
    legs: "list_all2 (\<lambda>p e. split_leg r p = Inr e) (split_on (CHR '','') raw) legs"
    and sum: "(\<Sum>e \<leftarrow> legs. minor (ent_amount e)) = minor (pr_amount r)"
    and pos: "is_positive (pr_amount r)"
    and es: "es = legs @ [\<lparr>ent_account = f, ent_direction = CREDIT, ent_amount = pr_amount r\<rparr>]"
    by blast
  have each: "\<forall>e \<in> set legs. entry_ok e \<and> ent_direction e = DEBIT
      \<and> currency (ent_amount e) = currency (pr_amount r)"
    using split_leg_Inr(1-3) [OF assms(1)] list_all2_setD2 [OF legs] by blast
  have "legs \<noteq> []" using legs split_on_nonempty by (metis list_all2_Nil2)
  then have "2 \<le> length es" using es by (cases legs) auto
  then show ?thesis
    using each sum pos assms(1) debit_legs_total [of legs "currency (pr_amount r)"]
    by (auto simp: es moves_def entry_ok_def)
qed

interpretation card_purchase: posting_contract "rule_build CardPurchase"
  by unfold_locales (simp add: CardPurchase_def simple_posting_moves)

interpretation deposit: posting_contract "rule_build Deposit"
  by unfold_locales (simp add: Deposit_def simple_posting_moves)

interpretation opening_balance: posting_contract "rule_build OpeningBalance"
  by unfold_locales (simp add: OpeningBalance_def simple_posting_moves)

interpretation transfer: posting_contract "rule_build Transfer"
  by unfold_locales (auto simp: Transfer_def build_transfer_Inr_iff intro: simple_posting_moves)

interpretation fee: posting_contract "rule_build Fee"
  by unfold_locales (simp add: Fee_def simple_posting_moves)

interpretation refund: posting_contract "rule_build Refund"
  by unfold_locales (simp add: Refund_def simple_posting_moves)

interpretation split_purchase: posting_contract "rule_build SplitPurchase"
  by unfold_locales (simp add: SplitPurchase_def build_split_moves)

lemma registered_contract: "dget REGISTRY kind = Some rule \<Longrightarrow> posting_contract (rule_build rule)"
  using REGISTRY_lookup [of kind rule] card_purchase.posting_contract_axioms
    deposit.posting_contract_axioms opening_balance.posting_contract_axioms
    transfer.posting_contract_axioms fee.posting_contract_axioms refund.posting_contract_axioms
    split_purchase.posting_contract_axioms
  by (auto simp: posting_rules_def)

lemma built_journal:
  assumes "money_ok (pr_amount r)" "build_transaction i kind r = Inr j"
  shows "journal_ok j \<and> j_reverses j = None \<and> j_kind j = kind
       \<and> side_total DEBIT (currency (pr_amount r)) (j_entries j) = minor (pr_amount r)
       \<and> side_total CREDIT (currency (pr_amount r)) (j_entries j) = minor (pr_amount r)
       \<and> (\<forall>e \<in> set (j_entries j). currency (ent_amount e) = currency (pr_amount r))"
proof -
  from assms(2) obtain rule es where rule: "dget REGISTRY kind = Some rule"
    and es: "rule_build rule r = Inr es"
    and j: "mk_journal i kind (pr_effective r) es (pr_metadata r) None = Inr j"
    by (auto simp: build_transaction_def result_simps split: option.splits)
  have c: "posting_contract (rule_build rule)" using rule by (rule registered_contract)
  have "moves (pr_amount r) es" by (rule posting_contract.build_moves [OF c assms(1) es])
  moreover have "journal_ok j" "j_entries j = es"
    by (rule posting_contract.journal_ok_of_build [OF c assms(1) es j])+
  ultimately show ?thesis using j by (auto simp: moves_def mk_journal_Inr_iff)
qed

section \<open>Properties\<close>

text \<open>
  C12. Whatever the event kind, a posting that is built is a balanced journal of positive entries
  that moves exactly the requested amount: debits and credits in its currency both equal it.
\<close>

theorem build_transaction_moves_amount:
  assumes "money_ok (pr_amount r)" "build_transaction i kind r = Inr j"
  shows "journal_ok j \<and> j_reverses j = None \<and> j_kind j = kind
       \<and> side_total DEBIT (currency (pr_amount r)) (j_entries j) = minor (pr_amount r)
       \<and> side_total CREDIT (currency (pr_amount r)) (j_entries j) = minor (pr_amount r)
       \<and> (\<forall>e \<in> set (j_entries j). currency (ent_amount e) = currency (pr_amount r))"
  by (rule built_journal [OF assms])

text \<open>
  Every two-legged kind debits and credits exactly the roles of its documented shape: the
  posting is built if and only if both roles are given, the amount is positive, the time is aware
  and, for a transfer, the two accounts differ; and then its entries are that debit and that credit.
\<close>

theorem two_legged_posting_shape:
  assumes "rule \<in> set posting_rules" "rule_kind rule \<noteq> ''split_purchase''" "money_ok (pr_amount r)"
  shows "build_transaction i (rule_kind rule) r = Inr j \<longleftrightarrow>
     (\<exists>d c. dget (pr_accounts r) (fst (rule_shape rule)) = Some d
          \<and> dget (pr_accounts r) (snd (rule_shape rule)) = Some c
          \<and> is_positive (pr_amount r) \<and> tz_aware (pr_effective r)
          \<and> (rule_kind rule = ''transfer'' \<longrightarrow> c \<noteq> d)
          \<and> j = \<lparr>j_id = i, j_kind = rule_kind rule, j_effective = pr_effective r,
                 j_entries = [\<lparr>ent_account = d, ent_direction = DEBIT, ent_amount = pr_amount r\<rparr>,
                              \<lparr>ent_account = c, ent_direction = CREDIT, ent_amount = pr_amount r\<rparr>],
                 j_metadata = pr_metadata r, j_reverses = None\<rparr>)"
proof -
  have look: "dget REGISTRY (rule_kind rule) = Some rule"
    using assms(1) by (rule registered)
  have c: "posting_contract (rule_build rule)" using look by (rule registered_contract)
  have built: "rule_build rule r = Inr es \<longleftrightarrow>
      simple_posting (fst (rule_shape rule)) (snd (rule_shape rule)) r = Inr es
      \<and> (rule_kind rule = ''transfer'' \<longrightarrow>
           dget (pr_accounts r) (snd (rule_shape rule)) \<noteq> dget (pr_accounts r) (fst (rule_shape rule)))" for es
    using assms(1,2) by (auto simp: posting_rules_def rule_defs build_transfer_Inr_iff)
  have "build_transaction i (rule_kind rule) r = Inr j \<longleftrightarrow>
      (\<exists>es. rule_build rule r = Inr es
         \<and> mk_journal i (rule_kind rule) (pr_effective r) es (pr_metadata r) None = Inr j)"
    by (simp add: build_transaction_def look result_simps)
  also have "\<dots> \<longleftrightarrow> (\<exists>es. rule_build rule r = Inr es \<and> tz_aware (pr_effective r)
         \<and> j = \<lparr>j_id = i, j_kind = rule_kind rule, j_effective = pr_effective r, j_entries = es,
                j_metadata = pr_metadata r, j_reverses = None\<rparr>)"
    using posting_contract.journal_of_build [OF c assms(3)] by (auto split: if_splits)
  finally show ?thesis by (auto simp: built simple_posting_Inr_iff)
qed

text \<open>
  C13. A split purchase that is built debits, part by part in the order of its \<open>split\<close> entry, the
  account and the number of minor units the part names, the parts add up to the charge, and the
  funding account is credited with the whole charge in a single last entry.
\<close>

theorem split_purchase_allocates_exactly:
  assumes "money_ok (pr_amount r)" "build_transaction i ''split_purchase'' r = Inr j"
  shows "\<exists>raw legs f. dget (pr_metadata r) ''split'' = Some raw
       \<and> j_entries j = legs @ [\<lparr>ent_account = f, ent_direction = CREDIT, ent_amount = pr_amount r\<rparr>]
       \<and> dget (pr_accounts r) ''funding'' = Some f
       \<and> (\<Sum>e \<leftarrow> legs. minor (ent_amount e)) = minor (pr_amount r)
       \<and> list_all2 (\<lambda>part e. ent_direction e = DEBIT \<and> 0 < minor (ent_amount e)
            \<and> py_int (snd (py_partition (CHR '':'') part)) = Some (minor (ent_amount e))
            \<and> dget (pr_accounts r) (py_strip (fst (py_partition (CHR '':'') part))) = Some (ent_account e))
           (split_on (CHR '','') raw) legs"
proof -
  from assms(2) obtain es where es: "build_split r = Inr es" and j: "j_entries j = es"
    by (auto simp: build_transaction_def REGISTRY_eq posting_rules_def rule_defs result_simps)
  from build_split_Inr [OF assms(1) es] obtain raw legs f where
    raw: "dget (pr_metadata r) ''split'' = Some raw"
    and legs: "list_all2 (\<lambda>p e. split_leg r p = Inr e) (split_on (CHR '','') raw) legs"
    and rest: "(\<Sum>e \<leftarrow> legs. minor (ent_amount e)) = minor (pr_amount r)"
      "dget (pr_accounts r) ''funding'' = Some f"
      "es = legs @ [\<lparr>ent_account = f, ent_direction = CREDIT, ent_amount = pr_amount r\<rparr>]"
    by blast
  have leg: "ent_direction e = DEBIT \<and> 0 < minor (ent_amount e)
            \<and> py_int (snd (py_partition (CHR '':'') p)) = Some (minor (ent_amount e))
            \<and> dget (pr_accounts r) (py_strip (fst (py_partition (CHR '':'') p))) = Some (ent_account e)"
    if "split_leg r p = Inr e" for p e
    using split_leg_Inr [OF assms(1) that] by (auto simp: entry_ok_def is_positive_def)
  have "list_all2 (\<lambda>part e. ent_direction e = DEBIT \<and> 0 < minor (ent_amount e)
            \<and> py_int (snd (py_partition (CHR '':'') part)) = Some (minor (ent_amount e))
            \<and> dget (pr_accounts r) (py_strip (fst (py_partition (CHR '':'') part))) = Some (ent_account e))
           (split_on (CHR '','') raw) legs"
    using legs by (rule list_all2_mono) (rule leg)
  moreover have "j_entries j = legs @ [\<lparr>ent_account = f, ent_direction = CREDIT, ent_amount = pr_amount r\<rparr>]"
    using j rest(3) by simp
  ultimately show ?thesis
    using raw rest(1,2) by (intro exI [of _ raw] exI [of _ legs] exI [of _ f] conjI)
qed

definition demo_split :: posting_request where
  "demo_split = \<lparr>pr_amount = \<lparr>minor = 30, currency = ''usd''\<rparr>, pr_effective = Aware 1,
     pr_accounts = [(''expense_a'', ''A''), (''funding'', ''F'')],
     pr_metadata = [(''split'', ''expense_a:20,funding:10'')]\<rparr>"

lemma demo_split_parts:
  "split_on (CHR '','') ''expense_a:20,funding:10'' = [''expense_a:20'', ''funding:10'']"
  "py_partition (CHR '':'') ''expense_a:20'' = (''expense_a'', ''20'')"
  "py_partition (CHR '':'') ''funding:10'' = (''funding'', ''10'')"
  "py_int ''20'' = Some 20" "py_int ''10'' = Some 10"
  "py_strip ''expense_a'' = ''expense_a''" "py_strip ''funding'' = ''funding''"
  "starts_with ''expense_'' ''expense_a''"
  by (simp_all add: py_partition_def py_int_def py_strip_def is_space_def unsigned_int_def
      is_digit_def digit_value_def starts_with_def)

text \<open>
  The legs of a split purchase need not be expense accounts: only the presence of some
  \<open>expense_*\<close> role is checked, so a \<open>split\<close> entry that names another role is posted, here debiting
  the very account that funds the purchase.
\<close>

theorem split_may_debit_any_role:
  "\<exists>j. build_transaction ''t'' ''split_purchase'' demo_split = Inr j
     \<and> map (\<lambda>e. (ent_account e, ent_direction e, minor (ent_amount e))) (j_entries j)
         = [(''A'', DEBIT, 20), (''F'', DEBIT, 10), (''F'', CREDIT, 30)]"
  by (simp add: build_transaction_def REGISTRY_eq posting_rules_def rule_defs build_split_def
      demo_split_def demo_split_parts split_leg_def request_account_def mk_money_def EXPONENTS_def
      py_lower_def lower_char_def mk_entry_def is_positive_def mk_journal_eq balanced_def)

lemma demo_split_built:
  "\<exists>j. build_transaction ''t'' ''split_purchase'' demo_split = Inr j"
  by (simp add: build_transaction_def REGISTRY_eq posting_rules_def rule_defs build_split_def
      demo_split_def demo_split_parts split_leg_def request_account_def mk_money_def EXPONENTS_def
      py_lower_def lower_char_def mk_entry_def is_positive_def mk_journal_eq balanced_def)

theorem build_transaction_moves_amount_witness:
  "\<exists>j. build_transaction ''t'' ''split_purchase'' demo_split = Inr j
     \<and> side_total DEBIT ''usd'' (j_entries j) = 30 \<and> side_total CREDIT ''usd'' (j_entries j) = 30"
proof -
  obtain j where j: "build_transaction ''t'' ''split_purchase'' demo_split = Inr j"
    using demo_split_built by blast
  have "money_ok (pr_amount demo_split)" by (simp add: demo_split_def money_ok_currencies)
  from build_transaction_moves_amount [OF this j] j show ?thesis by (auto simp: demo_split_def)
qed

theorem two_legged_posting_shape_witness:
  "\<exists>j. build_transaction ''t'' ''refund''
          \<lparr>pr_amount = \<lparr>minor = 9, currency = ''eur''\<rparr>, pr_effective = Aware 1,
           pr_accounts = [(''expense'', ''A''), (''funding'', ''F'')], pr_metadata = []\<rparr> = Inr j
     \<and> map ent_account (j_entries j) = [''F'', ''A'']"
proof -
  let ?r = "\<lparr>pr_amount = \<lparr>minor = 9, currency = ''eur''\<rparr>, pr_effective = Aware 1,
             pr_accounts = [(''expense'', ''A''), (''funding'', ''F'')], pr_metadata = []\<rparr>"
  have a: "Refund \<in> set posting_rules" "rule_kind Refund \<noteq> ''split_purchase''"
      "money_ok (pr_amount ?r)"
    by (simp_all add: posting_rules_def Refund_def money_ok_currencies)
  have k: "rule_kind Refund = ''refund''" "rule_shape Refund = (''funding'', ''expense'')"
    by (simp_all add: Refund_def)
  show ?thesis
    using two_legged_posting_shape [OF a, of "''t''"] by (simp add: k is_positive_def)
qed

theorem split_purchase_allocates_exactly_witness:
  "\<exists>j legs. build_transaction ''t'' ''split_purchase'' demo_split = Inr j
     \<and> j_entries j = legs @ [\<lparr>ent_account = ''F'', ent_direction = CREDIT,
                               ent_amount = \<lparr>minor = 30, currency = ''usd''\<rparr>\<rparr>]
     \<and> (\<Sum>e \<leftarrow> legs. minor (ent_amount e)) = 30"
proof -
  obtain j where j: "build_transaction ''t'' ''split_purchase'' demo_split = Inr j"
    using demo_split_built by blast
  have "money_ok (pr_amount demo_split)" by (simp add: demo_split_def money_ok_currencies)
  from split_purchase_allocates_exactly [OF this j] j show ?thesis
    by (auto simp: demo_split_def)
qed

end
