(* ===== verification/Json.thy ===== *)
theory Json
  imports Py_String Errors "HOL-Library.Product_Lexorder"
begin

text \<open>
  JSON values as Python holds them, and \<open>json.dumps(v, separators=(",", ":"))\<close>, with or without
  \<open>sort_keys\<close>: the canonical text the idempotency fingerprint is computed from, and the body of a
  webhook. A Python float is the real number it denotes; the text of one is a parameter
  (\<open>float.__repr__\<close>). The first occurrence of a key in an object is the one that counts.
\<close>

datatype json = JNull | JBool bool | JInt int | JReal real | JStr string
  | JArr "json list" | JObj "(string \<times> json) list"

abbreviation jopt :: "('a \<Rightarrow> json) \<Rightarrow> 'a option \<Rightarrow> json" where
  "jopt f v \<equiv> case_option JNull f v"

definition jstr_dict :: "(string \<times> string) list \<Rightarrow> json" where
  "jstr_dict d = JObj (map (\<lambda>(k, v). (k, JStr v)) d)"

definition hex_digit :: "nat \<Rightarrow> char" where
  "hex_digit n = ''0123456789abcdef'' ! (n mod 16)"

text \<open>One character inside a JSON string, with \<open>ensure_ascii\<close>.\<close>

definition escape_char :: "char \<Rightarrow> string" where
  "escape_char c =
     (let n = of_char c :: nat in
      if n = 34 then [CHR 92, CHR 34]
      else if n = 92 then [CHR 92, CHR 92]
      else if n = 10 then [CHR 92, CHR ''n'']
      else if n = 13 then [CHR 92, CHR ''r'']
      else if n = 9 then [CHR 92, CHR ''t'']
      else if n = 8 then [CHR 92, CHR ''b'']
      else if n = 12 then [CHR 92, CHR ''f'']
      else if 32 \<le> n \<and> n \<le> 126 then [c]
      else CHR 92 # ''u00'' @ [hex_digit (n div 16), hex_digit n])"

definition dump_string :: "string \<Rightarrow> string" where
  "dump_string s = CHR 34 # concat (map escape_char s) @ [CHR 34]"

text \<open>\<open>dumps sort_keys fl\<close>: an object's members in key order, or as they were inserted.\<close>

fun dumps :: "bool \<Rightarrow> (real \<Rightarrow> string) \<Rightarrow> json \<Rightarrow> string" where
  "dumps sort_keys fl JNull = ''null''"
| "dumps sort_keys fl (JBool b) = (if b then ''true'' else ''false'')"
| "dumps sort_keys fl (JInt i) = show_int i"
| "dumps sort_keys fl (JReal r) = fl r"
| "dumps sort_keys fl (JStr s) = dump_string s"
| "dumps sort_keys fl (JArr xs) = CHR ''['' # py_join '','' (map (dumps sort_keys fl) xs) @ '']''"
| "dumps sort_keys fl (JObj d) =
     (let members = map (\<lambda>(k, v). (k, dump_string k @ '':'' @ dumps sort_keys fl v)) d in
      CHR ''{'' # py_join '','' (map snd (if sort_keys then sort_key fst members else members)) @ ''}'')"

text \<open>\<open>payload[key]\<close> and \<open>payload.get(key, default)\<close> on a value that should be an object.\<close>

fun jindex :: "json \<Rightarrow> string \<Rightarrow> py_error + json" where
  "jindex (JObj d) k = (case map_of d k of None \<Rightarrow> Inl KeyError | Some v \<Rightarrow> Inr v)"
| "jindex _ k = Inl TypeError"

fun jget :: "json \<Rightarrow> string \<Rightarrow> json \<Rightarrow> py_error + json" where
  "jget (JObj d) k otherwise = Inr (case map_of d k of None \<Rightarrow> otherwise | Some v \<Rightarrow> v)"
| "jget _ k otherwise = Inl AttributeError"

end
