(* ===== verification/Repo_Ledger.thy ===== *)
theory Repo_Ledger
  imports Op_Monad Posting Json
begin

text \<open>
  The ledger's tables (\<open>migrations/001_core.sql\<close>) and the repositories over them in
  \<open>adapters/repositories.py\<close>: \<open>AccountRepository\<close>, \<open>TransactionRepository\<close> and
  \<open>EntryRepository\<close>. A table is the list of its rows in insertion order, a row a record with
  typed columns; an SQL statement is the function it computes, its constraint failures are
  \<open>DbExn\<close> errors. \<open>now\<close> is the transaction's timestamp.
\<close>

datatype api_mode = TEST | LIVE
datatype account_status = OPEN | FROZEN | CLOSED
datatype txn_status = POSTED | REVERSED

record account_row =
  a_id :: string
  a_tenant :: string
  a_mode :: api_mode
  a_external :: "string option"
  a_name :: string
  a_type :: account_type
  a_normal :: direction
  a_currency :: string
  a_status :: account_status
  a_minimum :: "int option"
  a_metadata :: "(string \<times> json) list"
  a_created :: int

record txn_row =
  t_id :: string
  t_tenant :: string
  t_mode :: api_mode
  t_kind :: string
  t_status :: txn_status
  t_effective :: int
  t_recorded :: int
  t_reverses :: "string option"
  t_metadata :: metadata

record entry_row =
  e_id :: nat
  e_txn :: string
  e_account :: string
  e_direction :: direction
  e_amount :: int
  e_currency :: string
  e_effective :: int
  e_recorded :: int

record snapshot_row =
  s_account :: string
  s_up_to :: nat
  s_balance :: int
  s_currency :: string
  s_taken :: int

record ledger_tables =
  tenants :: "string list"
  accounts :: "account_row list"
  transactions :: "txn_row list"
  entries :: "entry_row list"
  snapshots :: "snapshot_row list"
  entry_seq :: nat  \<comment> \<open>the next value of \<open>entries_id_seq\<close>\<close>

text \<open>The range of \<open>BIGINT\<close>, and the cast \<open>::bigint\<close> of a \<open>numeric\<close>.\<close>

definition in_bigint :: "int \<Rightarrow> bool" where
  "in_bigint n \<longleftrightarrow> - (2 ^ 63) \<le> n \<and> n < 2 ^ 63"

definition to_bigint :: "int \<Rightarrow> exn + int" where
  "to_bigint n = (if in_bigint n then Inr n else Inl (DbExn NumericOutOfRange))"

section \<open>AccountRepository\<close>

definition account_create ::
  "int \<Rightarrow> string \<Rightarrow> string \<Rightarrow> api_mode \<Rightarrow> string \<Rightarrow> account_type \<Rightarrow> string \<Rightarrow> string option
   \<Rightarrow> int option \<Rightarrow> (string \<times> json) list \<Rightarrow> (ledger_tables, account_row) op" where
  "account_create now i tenant mode name ty cur ext minimum md =
     bind_op (reads id) (\<lambda>l.
     let row = \<lparr>a_id = i, a_tenant = tenant, a_mode = mode, a_external = ext, a_name = name,
                a_type = ty, a_normal = normal_balance ty, a_currency = py_lower cur,
                a_status = OPEN, a_minimum = minimum, a_metadata = md, a_created = now\<rparr> in
     bind_op (guard_op (\<not> (case minimum of None \<Rightarrow> True | Some n \<Rightarrow> in_bigint n))
                (DbExn NumericOutOfRange)) (\<lambda>_.
     bind_op (guard_op (\<exists>a \<in> set (accounts l). a_id a = i) (DbExn UniqueViolation)) (\<lambda>_.
     bind_op (guard_op (ext \<noteq> None \<and> (\<exists>a \<in> set (accounts l).
                a_tenant a = tenant \<and> a_mode a = mode \<and> a_external a = ext))
                (DbExn UniqueViolation)) (\<lambda>_.
     bind_op (guard_op (tenant \<notin> set (tenants l)) (DbExn ForeignKeyViolation)) (\<lambda>_.
     bind_op (writes (\<lambda>l. l\<lparr>accounts := accounts l @ [row]\<rparr>)) (\<lambda>_.
     ret_op row))))))"

definition account_get :: "string \<Rightarrow> string \<Rightarrow> api_mode \<Rightarrow> ledger_tables \<Rightarrow> account_row option" where
  "account_get i tenant mode l =
     List.find (\<lambda>a. a_id a = i \<and> a_tenant a = tenant \<and> a_mode a = mode) (accounts l)"

definition account_get_by_external ::
  "string \<Rightarrow> string \<Rightarrow> api_mode \<Rightarrow> ledger_tables \<Rightarrow> account_row option" where
  "account_get_by_external ext tenant mode l =
     List.find (\<lambda>a. a_external a = Some ext \<and> a_tenant a = tenant \<and> a_mode a = mode) (accounts l)"

text \<open>\<open>ORDER BY (id = ref) DESC LIMIT 1\<close>: false sorts before true, so descending puts our id first.\<close>

definition account_resolve :: "string \<Rightarrow> string \<Rightarrow> api_mode \<Rightarrow> ledger_tables \<Rightarrow> account_row option" where
  "account_resolve ref tenant mode l =
     (case sort_key (\<lambda>a. a_id a \<noteq> ref)
             (filter (\<lambda>a. a_tenant a = tenant \<and> a_mode a = mode
                        \<and> (a_id a = ref \<or> a_external a = Some ref)) (accounts l)) of
        [] \<Rightarrow> None
      | a # _ \<Rightarrow> Some a)"

definition account_list :: "string \<Rightarrow> api_mode \<Rightarrow> nat \<Rightarrow> ledger_tables \<Rightarrow> account_row list" where
  "account_list tenant mode limit l =
     take limit (sort_key a_id (filter (\<lambda>a. a_tenant a = tenant \<and> a_mode a = mode) (accounts l)))"

text \<open>\<open>SELECT ... FOR UPDATE\<close>: the row; operations here run one at a time, so the lock is free.\<close>

definition account_lock :: "string \<Rightarrow> ledger_tables \<Rightarrow> account_row option" where
  "account_lock i l = List.find (\<lambda>a. a_id a = i) (accounts l)"

definition account_to_domain :: "account_row \<Rightarrow> exn + account" where
  "account_to_domain row =
     bind_r (case a_minimum row of
               None \<Rightarrow> Inr None
             | Some n \<Rightarrow> bind_r (mk_money n (a_currency row)) (\<lambda>m. Inr (Some m))) (\<lambda>floor.
     Inr \<lparr>acc_id = a_id row, acc_name = a_name row, acc_type = a_type row,
          acc_currency = a_currency row, acc_minimum = floor\<rparr>)"

text \<open>\<open>CASE WHEN e.direction = a.normal_balance THEN amount ELSE -amount END\<close> and its sum.\<close>

definition signed_minor :: "direction \<Rightarrow> entry_row \<Rightarrow> int" where
  "signed_minor side e = (if e_direction e = side then e_amount e else - e_amount e)"

definition sum_signed :: "direction \<Rightarrow> entry_row list \<Rightarrow> int" where
  "sum_signed side es = (\<Sum>e \<leftarrow> es. signed_minor side e)"

definition max_id :: "nat \<Rightarrow> entry_row list \<Rightarrow> nat" where
  "max_id d es = foldl (\<lambda>m e. max m (e_id e)) d es"

definition newest_snapshot :: "string \<Rightarrow> ledger_tables \<Rightarrow> snapshot_row option" where
  "newest_snapshot acct l =
     (case sort_key s_up_to (filter (\<lambda>s. s_account s = acct) (snapshots l)) of
        [] \<Rightarrow> None
      | ss \<Rightarrow> Some (last ss))"

record balance_view =
  b_currency :: string
  b_balance :: int
  b_snapshot_cursor :: "nat option"  \<comment> \<open>absent from the default row\<close>
  b_cursor :: nat

definition account_balance :: "string \<Rightarrow> ledger_tables \<Rightarrow> exn + balance_view" where
  "account_balance acct l =
     (let snap = newest_snapshot acct l;
          base = (case snap of None \<Rightarrow> 0 | Some s \<Rightarrow> s_balance s);
          from = (case snap of None \<Rightarrow> 0 | Some s \<Rightarrow> s_up_to s);
          tail = filter (\<lambda>e. e_account e = acct \<and> from < e_id e) (entries l)
      in case List.find (\<lambda>a. a_id a = acct) (accounts l) of
           None \<Rightarrow> Inr \<lparr>b_currency = ''usd'', b_balance = 0, b_snapshot_cursor = None, b_cursor = 0\<rparr>
         | Some a \<Rightarrow>
             bind_r (to_bigint (base + sum_signed (a_normal a) tail)) (\<lambda>b.
             Inr \<lparr>b_currency = a_currency a, b_balance = b, b_snapshot_cursor = Some from,
                  b_cursor = max_id from tail\<rparr>))"

text \<open>The bitemporal balance; a missing bound is \<open>'infinity'\<close>.\<close>

definition no_later :: "int option \<Rightarrow> int \<Rightarrow> bool" where
  "no_later bound t = (case bound of None \<Rightarrow> True | Some b \<Rightarrow> t \<le> b)"

definition account_balance_at ::
  "string \<Rightarrow> int option \<Rightarrow> int option \<Rightarrow> ledger_tables \<Rightarrow> exn + string \<times> int" where
  "account_balance_at acct as_of known l =
     (case List.find (\<lambda>a. a_id a = acct) (accounts l) of
        None \<Rightarrow> Inr (''usd'', 0)
      | Some a \<Rightarrow>
          bind_r (to_bigint (sum_signed (a_normal a)
             (filter (\<lambda>e. e_account e = acct \<and> no_later as_of (e_effective e) \<and> no_later known (e_recorded e))
                (entries l)))) (\<lambda>b.
          Inr (a_currency a, b)))"

text \<open>Folding everything into a snapshot; an account without entries gets none, an existing
  cursor is left alone.\<close>

definition write_snapshot :: "int \<Rightarrow> string \<Rightarrow> (ledger_tables, snapshot_row option) op" where
  "write_snapshot now acct =
     bind_op (reads id) (\<lambda>l.
     case List.find (\<lambda>a. a_id a = acct) (accounts l) of
       None \<Rightarrow> ret_op None
     | Some a \<Rightarrow>
         let mine = filter (\<lambda>e. e_account e = acct) (entries l); up = max_id 0 mine in
         bind_op (lift_op (to_bigint (sum_signed (a_normal a) mine))) (\<lambda>b.
         if up = 0 then ret_op None
         else if \<exists>s \<in> set (snapshots l). s_account s = acct \<and> s_up_to s = up then ret_op None
         else
           let row = \<lparr>s_account = acct, s_up_to = up, s_balance = b, s_currency = a_currency a,
                      s_taken = now\<rparr> in
           bind_op (writes (\<lambda>l. l\<lparr>snapshots := snapshots l @ [row]\<rparr>)) (\<lambda>_. ret_op (Some row))))"

text \<open>Rounding a quotient to the nearest integer, ties to even (\<open>make_interval\<close> on microseconds).\<close>

definition div_round :: "int \<Rightarrow> int \<Rightarrow> int" where
  "div_round n d =
     (let q = n div d; r = n mod d in
      if 2 * r < d \<or> (2 * r = d \<and> even q) then q else q + 1)"

definition buckets :: "int \<Rightarrow> int \<Rightarrow> nat \<Rightarrow> int list" where
  "buckets start end points =
     (let step = max 1000000 (div_round (end - start) (int points)) in
      if end < start then []
      else map (\<lambda>k. start + int k * step) [0 ..< nat ((end - start) div step) + 1])"

record history_row =
  h_id :: string
  h_name :: string
  h_type :: account_type
  h_at :: int
  h_balance :: int

definition balance_history ::
  "string \<Rightarrow> api_mode \<Rightarrow> int \<Rightarrow> int \<Rightarrow> nat \<Rightarrow> account_type list \<Rightarrow> string option
   \<Rightarrow> ledger_tables \<Rightarrow> exn + history_row list" where
  "balance_history tenant mode start end points types acct l =
     bind_r (map_r (\<lambda>(a, t).
        bind_r (to_bigint (sum_signed (a_normal a)
           (filter (\<lambda>e. e_account e = a_id a \<and> e_effective e \<le> t) (entries l)))) (\<lambda>b.
        Inr \<lparr>h_id = a_id a, h_name = a_name a, h_type = a_type a, h_at = t, h_balance = b\<rparr>))
       (List.product
          (filter (\<lambda>a. a_tenant a = tenant \<and> a_mode a = mode \<and> a_type a \<in> set types
                     \<and> (case acct of None \<Rightarrow> True | Some i \<Rightarrow> i = [] \<or> a_id a = i)) (accounts l))
          (buckets start end (max 2 points)))) (\<lambda>rows.
     Inr (sort_key (\<lambda>h. (h_name h, h_at h)) rows))"

record mismatch_row =
  m_account :: string
  m_recomputed :: int
  m_cached :: int
  m_up_to :: nat
  m_delta :: int

text \<open>The reconciliation: every cached balance against the recomputed one.\<close>

definition reconcile_account :: "ledger_tables \<Rightarrow> account_row \<Rightarrow> exn + mismatch_row list" where
  "reconcile_account l a =
     bind_r (to_bigint (sum_signed (a_normal a) (filter (\<lambda>e. e_account e = a_id a) (entries l)))) (\<lambda>truth.
     case newest_snapshot (a_id a) l of
       None \<Rightarrow> Inr []
     | Some c \<Rightarrow>
         bind_r (to_bigint (sum_signed (a_normal a)
            (filter (\<lambda>e. e_account e = a_id a \<and> s_up_to c < e_id e) (entries l)))) (\<lambda>delta.
         Inr (if truth \<noteq> s_balance c + delta
              then [\<lparr>m_account = a_id a, m_recomputed = truth, m_cached = s_balance c,
                     m_up_to = s_up_to c, m_delta = delta\<rparr>] else [])))"

definition reconcile :: "ledger_tables \<Rightarrow> exn + mismatch_row list" where
  "reconcile l = bind_r (map_r (reconcile_account l) (accounts l)) (\<lambda>rs. Inr (concat rs))"

definition currency_drift :: "string \<Rightarrow> ledger_tables \<Rightarrow> int" where
  "currency_drift cur l = sum_signed DEBIT (filter (\<lambda>e. e_currency e = cur) (entries l))"

definition global_drift :: "ledger_tables \<Rightarrow> exn + (string \<times> int) list" where
  "global_drift l =
     map_r (\<lambda>cur. bind_r (to_bigint (currency_drift cur l)) (\<lambda>d. Inr (cur, d)))
       (filter (\<lambda>cur. currency_drift cur l \<noteq> 0) (remdups (map e_currency (entries l))))"

section \<open>TransactionRepository\<close>

definition txn_insert ::
  "int \<Rightarrow> journal \<Rightarrow> string \<Rightarrow> api_mode \<Rightarrow> (ledger_tables, txn_row) op" where
  "txn_insert now j tenant mode =
     bind_op (reads id) (\<lambda>l.
     let row = \<lparr>t_id = j_id j, t_tenant = tenant, t_mode = mode, t_kind = j_kind j,
                t_status = POSTED, t_effective = instant (j_effective j), t_recorded = now,
                t_reverses = j_reverses j, t_metadata = j_metadata j\<rparr> in
     bind_op (guard_op (\<exists>t \<in> set (transactions l). t_id t = j_id j) (DbExn UniqueViolation)) (\<lambda>_.
     bind_op (guard_op (j_reverses j \<noteq> None \<and> (\<exists>t \<in> set (transactions l). t_reverses t = j_reverses j))
                (DbExn UniqueViolation)) (\<lambda>_.
     bind_op (guard_op (tenant \<notin> set (tenants l)
                \<or> (case j_reverses j of None \<Rightarrow> False
                   | Some r \<Rightarrow> r \<noteq> j_id j \<and> r \<notin> t_id ` set (transactions l)))
                (DbExn ForeignKeyViolation)) (\<lambda>_.
     bind_op (writes (\<lambda>l. l\<lparr>transactions := transactions l @ [row]\<rparr>)) (\<lambda>_.
     ret_op row)))))"

definition txn_get :: "string \<Rightarrow> string \<Rightarrow> api_mode \<Rightarrow> ledger_tables \<Rightarrow> txn_row option" where
  "txn_get i tenant mode l =
     List.find (\<lambda>t. t_id t = i \<and> t_tenant t = tenant \<and> t_mode t = mode) (transactions l)"

definition mark_reversed :: "string \<Rightarrow> (ledger_tables, unit) op" where
  "mark_reversed i =
     writes (\<lambda>l. l\<lparr>transactions :=
        map (\<lambda>t. if t_id t = i then t\<lparr>t_status := REVERSED\<rparr> else t) (transactions l)\<rparr>)"

section \<open>EntryRepository\<close>

text \<open>One row of the multi-row insert. \<open>nextval\<close> is taken before the row's checks.\<close>

definition entry_insert :: "int \<Rightarrow> journal \<Rightarrow> int option \<Rightarrow> entry \<Rightarrow> (ledger_tables, entry_row) op" where
  "entry_insert now j recorded e =
     bind_op (reads id) (\<lambda>l.
     let row = \<lparr>e_id = entry_seq l, e_txn = j_id j, e_account = ent_account e,
                e_direction = ent_direction e, e_amount = minor (ent_amount e),
                e_currency = currency (ent_amount e), e_effective = instant (j_effective j),
                e_recorded = (case recorded of None \<Rightarrow> now | Some r \<Rightarrow> r)\<rparr> in
     bind_op (writes (\<lambda>l. l\<lparr>entry_seq := entry_seq l + 1\<rparr>)) (\<lambda>_.
     bind_op (guard_op (\<not> in_bigint (e_amount row)) (DbExn NumericOutOfRange)) (\<lambda>_.
     bind_op (guard_op (e_amount row \<le> 0) (DbExn CheckViolation)) (\<lambda>_.
     bind_op (guard_op (e_txn row \<notin> t_id ` set (transactions l)
                \<or> e_account row \<notin> a_id ` set (accounts l)) (DbExn ForeignKeyViolation)) (\<lambda>_.
     bind_op (writes (\<lambda>l. l\<lparr>entries := entries l @ [row]\<rparr>)) (\<lambda>_.
     ret_op row))))))"

definition entries_insert_many ::
  "int \<Rightarrow> journal \<Rightarrow> int option \<Rightarrow> (ledger_tables, entry_row list) op" where
  "entries_insert_many now j recorded = map_op (entry_insert now j recorded) (j_entries j)"

definition entries_for_transaction :: "string \<Rightarrow> ledger_tables \<Rightarrow> entry_row list" where
  "entries_for_transaction i l = sort_key e_id (filter (\<lambda>e. e_txn e = i) (entries l))"

definition entries_list ::
  "string option \<Rightarrow> nat \<Rightarrow> nat \<Rightarrow> ledger_tables \<Rightarrow> (entry_row \<times> string \<times> metadata) list" where
  "entries_list acct since limit l =
     take limit (sort_key (\<lambda>r. e_id (fst r))
       (concat (map (\<lambda>e. map (\<lambda>t. (e, t_kind t, t_metadata t))
                            (filter (\<lambda>t. t_id t = e_txn e) (transactions l)))
          (filter (\<lambda>e. since < e_id e
                     \<and> (case acct of None \<Rightarrow> True | Some i \<Rightarrow> i = [] \<or> e_account e = i))
             (entries l)))))"

definition entry_to_domain :: "entry_row \<Rightarrow> exn + entry" where
  "entry_to_domain row =
     bind_r (mk_money (e_amount row) (e_currency row)) (\<lambda>m.
     mk_entry (e_account row) (e_direction row) m)"

text \<open>The deferred trigger \<open>assert_transaction_balanced\<close> for one transaction.\<close>

definition rows_total :: "direction \<Rightarrow> string \<Rightarrow> entry_row list \<Rightarrow> int" where
  "rows_total d cur es = (\<Sum>e \<leftarrow> filter (\<lambda>e. e_direction e = d \<and> e_currency e = cur) es. e_amount e)"

definition transaction_balanced :: "ledger_tables \<Rightarrow> string \<Rightarrow> bool" where
  "transaction_balanced l i =
     (let es = filter (\<lambda>e. e_txn e = i) (entries l) in
      list_all (\<lambda>cur. rows_total DEBIT cur es = rows_total CREDIT cur es) (map e_currency es))"

end
