(* ===== verification/Ledger_Store.thy ===== *)
theory Ledger_Store
  imports Repo_Ledger
begin

text \<open>
  What holds of the ledger's tables: the structural invariant \<open>ledger_ok\<close> that every statement
  of the ledger repositories keeps, the exactness of the snapshot cache, conservation of money
  across balanced transactions, and the round trip of a journal through its rows.
\<close>

section \<open>The invariant of the tables\<close>

definition entries_of :: "string \<Rightarrow> ledger_tables \<Rightarrow> entry_row list" where
  "entries_of acct l = filter (\<lambda>e. e_account e = acct) (entries l)"

text \<open>A snapshot row is the fold of its account's entries up to and including its cursor.\<close>

definition snapshot_ok :: "ledger_tables \<Rightarrow> snapshot_row \<Rightarrow> bool" where
  "snapshot_ok l s \<longleftrightarrow>
     (\<exists>a \<in> set (accounts l). a_id a = s_account s
        \<and> s_balance s = sum_signed (a_normal a) (filter (\<lambda>e. e_id e \<le> s_up_to s) (entries_of (s_account s) l)))
     \<and> (\<exists>e \<in> set (entries_of (s_account s) l). e_id e = s_up_to s)"

definition entry_row_ok :: "ledger_tables \<Rightarrow> entry_row \<Rightarrow> bool" where
  "entry_row_ok l e \<longleftrightarrow> 0 < e_id e \<and> e_id e < entry_seq l \<and> 0 < e_amount e
     \<and> e_account e \<in> a_id ` set (accounts l) \<and> e_txn e \<in> t_id ` set (transactions l)"

definition ledger_ok :: "ledger_tables \<Rightarrow> bool" where
  "ledger_ok l \<longleftrightarrow> 0 < entry_seq l
     \<and> distinct (map a_id (accounts l)) \<and> (\<forall>a \<in> set (accounts l). a_normal a = normal_balance (a_type a))
     \<and> distinct (map t_id (transactions l))
     \<and> sorted_wrt (<) (map e_id (entries l)) \<and> (\<forall>e \<in> set (entries l). entry_row_ok l e)
     \<and> (\<forall>s \<in> set (snapshots l). snapshot_ok l s)"

definition all_balanced :: "ledger_tables \<Rightarrow> bool" where
  "all_balanced l \<longleftrightarrow> (\<forall>i. transaction_balanced l i)"

lemma sum_signed_simps [simp]:
  "sum_signed d [] = 0"
  "sum_signed d (e # es) = signed_minor d e + sum_signed d es"
  "sum_signed d (es @ fs) = sum_signed d es + sum_signed d fs"
  by (simp_all add: sum_signed_def)

lemma signed_minor_opposite: "signed_minor (opposite d) e = - signed_minor d e"
  by (cases d; cases "e_direction e") (simp_all add: signed_minor_def)

lemma sum_signed_opposite: "sum_signed (opposite d) es = - sum_signed d es"
  by (induction es) (simp_all add: signed_minor_opposite)

lemma find_key: "distinct (map k xs) \<Longrightarrow> x \<in> set xs \<Longrightarrow> List.find (\<lambda>y. k y = k x) xs = Some x"
proof (induction xs)
  case Nil
  then show ?case by simp
next
  case (Cons y ys)
  show ?case
  proof (cases "k y = k x")
    case True
    with Cons.prems have "y = x" by (auto simp: image_iff)
    then show ?thesis by simp
  next
    case False
    with Cons show ?thesis by auto
  qed
qed

lemma find_account:
  "distinct (map a_id (accounts l)) \<Longrightarrow> a \<in> set (accounts l) \<Longrightarrow>
   List.find (\<lambda>b. a_id b = a_id a) (accounts l) = Some a"
  by (rule find_key)

lemma find_accountD: "List.find (\<lambda>a. a_id a = acct) (accounts l) = Some a \<Longrightarrow>
    a \<in> set (accounts l) \<and> a_id a = acct"
  by (auto simp: find_Some_iff)

lemma max_id_step: "max_id d (e # es) = max_id (max d (e_id e)) es"
  by (simp add: max_id_def)

lemma max_id_start: "d \<le> max_id d es"
proof (induction es arbitrary: d)
  case Nil
  then show ?case by (simp add: max_id_def)
next
  case (Cons x es)
  from Cons [of "max d (e_id x)"] show ?case by (simp add: max_id_step)
qed

lemma max_id_ge: "x \<in> set es \<Longrightarrow> e_id x \<le> max_id d es"
proof (induction es arbitrary: d)
  case Nil
  then show ?case by simp
next
  case (Cons y es)
  then show ?case using max_id_start [of "max d (e_id y)" es] by (auto simp: max_id_step)
qed

lemma max_id_mem: "max_id d es = d \<or> (\<exists>e \<in> set es. e_id e = max_id d es)"
proof (induction es arbitrary: d)
  case Nil
  then show ?case by (simp add: max_id_def)
next
  case (Cons x es)
  from Cons [of "max d (e_id x)"] show ?case by (auto simp: max_id_step max_def split: if_splits)
qed

lemma max_id_eqI:
  assumes "d \<le> n" "\<forall>e \<in> set es. e_id e \<le> n" "d = n \<or> n \<in> e_id ` set es"
  shows "max_id d es = n"
proof (rule antisym)
  from max_id_mem [of d es] assms(1,2) show "max_id d es \<le> n" by auto
  from assms(3) show "n \<le> max_id d es"
  proof
    assume "n \<in> e_id ` set es"
    then obtain e where "e \<in> set es" "e_id e = n" by blast
    with max_id_ge [of e es d] show ?thesis by simp
  qed (use max_id_start [of d es] in simp)
qed

section \<open>Every statement keeps the invariant\<close>

lemma accounts_grow_ok:
  assumes "ledger_ok l" "a_id r \<notin> a_id ` set (accounts l)" "a_normal r = normal_balance (a_type r)"
  shows "ledger_ok (l\<lparr>accounts := accounts l @ [r]\<rparr>)"
  using assms by (auto simp: ledger_ok_def entry_row_ok_def snapshot_ok_def entries_of_def)

lemma account_create_Inr:
  assumes "account_create now i tenant mode name ty cur ext minimum md l = (Inr row, l')"
  shows "row = \<lparr>a_id = i, a_tenant = tenant, a_mode = mode, a_external = ext, a_name = name,
                a_type = ty, a_normal = normal_balance ty, a_currency = py_lower cur,
                a_status = OPEN, a_minimum = minimum, a_metadata = md, a_created = now\<rparr>"
    "l' = l\<lparr>accounts := accounts l @ [row]\<rparr>" "i \<notin> a_id ` set (accounts l)" "tenant \<in> set (tenants l)"
    "ext = None \<or> (\<forall>a \<in> set (accounts l). a_tenant a = tenant \<and> a_mode a = mode \<longrightarrow> a_external a \<noteq> ext)"
    "case minimum of None \<Rightarrow> True | Some n \<Rightarrow> in_bigint n"
  using assms unfolding account_create_def Let_def
  by (auto simp: result_simps image_iff simp del: op_run)

lemma account_create_Inl:
  "account_create now i tenant mode name ty cur ext minimum md l = (Inl e, l') \<Longrightarrow> l' = l"
  unfolding account_create_def Let_def by (auto simp: result_simps simp del: op_run)

lemma keeps_account_create [keeps_intros]:
  "keeps ledger_ok (account_create now i tenant mode name ty cur ext minimum md)"
proof (rule keepsI)
  fix l r l'
  assume ok: "ledger_ok l" and run: "account_create now i tenant mode name ty cur ext minimum md l = (r, l')"
  show "ledger_ok l'"
  proof (cases r)
    case (Inl e)
    with ok run account_create_Inl show ?thesis by blast
  next
    case (Inr row)
    note run = account_create_Inr [OF run [unfolded Inr]]
    show ?thesis unfolding run(2) by (rule accounts_grow_ok [OF ok]) (use run(1,3) in auto)
  qed
qed

lemma transactions_grow_ok:
  assumes "ledger_ok l" "t_id r \<notin> t_id ` set (transactions l)"
  shows "ledger_ok (l\<lparr>transactions := transactions l @ [r]\<rparr>)"
  using assms by (auto simp: ledger_ok_def entry_row_ok_def snapshot_ok_def entries_of_def)

lemma txn_insert_Inr:
  assumes "txn_insert now j tenant mode l = (Inr row, l')"
  shows "row = \<lparr>t_id = j_id j, t_tenant = tenant, t_mode = mode, t_kind = j_kind j,
                t_status = POSTED, t_effective = instant (j_effective j), t_recorded = now,
                t_reverses = j_reverses j, t_metadata = j_metadata j\<rparr>"
    "l' = l\<lparr>transactions := transactions l @ [row]\<rparr>" "j_id j \<notin> t_id ` set (transactions l)"
    "tenant \<in> set (tenants l)"
    "j_reverses j = None \<or> (\<forall>t \<in> set (transactions l). t_reverses t \<noteq> j_reverses j)"
  using assms unfolding txn_insert_def Let_def
  by (auto simp: result_simps image_iff simp del: op_run)

lemma txn_insert_Inl: "txn_insert now j tenant mode l = (Inl e, l') \<Longrightarrow> l' = l"
  unfolding txn_insert_def Let_def by (auto simp: result_simps simp del: op_run)

lemma keeps_txn_insert [keeps_intros]: "keeps ledger_ok (txn_insert now j tenant mode)"
proof (rule keepsI)
  fix l r l'
  assume ok: "ledger_ok l" and run: "txn_insert now j tenant mode l = (r, l')"
  show "ledger_ok l'"
  proof (cases r)
    case (Inl e)
    with ok run txn_insert_Inl show ?thesis by blast
  next
    case (Inr row)
    note run = txn_insert_Inr [OF run [unfolded Inr]]
    show ?thesis unfolding run(2) by (rule transactions_grow_ok [OF ok]) (use run(1,3) in auto)
  qed
qed

lemma map_t_id_mark: "map t_id (map (\<lambda>t. if t_id t = i then t\<lparr>t_status := s\<rparr> else t) ts) = map t_id ts"
  by (induction ts) auto

lemma transactions_same_ids_ok:
  assumes "ledger_ok l" "map t_id ts = map t_id (transactions l)"
  shows "ledger_ok (l\<lparr>transactions := ts\<rparr>)"
proof -
  have "t_id ` set ts = t_id ` set (transactions l)" using assms(2) by (metis list.set_map)
  then have "entry_row_ok (l\<lparr>transactions := ts\<rparr>) e = entry_row_ok l e" for e
    by (simp add: entry_row_ok_def)
  moreover have "snapshot_ok (l\<lparr>transactions := ts\<rparr>) s = snapshot_ok l s" for s
    by (simp add: snapshot_ok_def entries_of_def)
  ultimately show ?thesis using assms by (simp add: ledger_ok_def)
qed

lemma keeps_mark_reversed [keeps_intros]: "keeps ledger_ok (mark_reversed i)"
  unfolding mark_reversed_def by (rule keeps_writes) (rule transactions_same_ids_ok, assumption, rule map_t_id_mark)

lemma entry_seq_ok: "ledger_ok l \<Longrightarrow> ledger_ok (l\<lparr>entry_seq := entry_seq l + 1\<rparr>)"
  by (auto simp: ledger_ok_def entry_row_ok_def snapshot_ok_def entries_of_def)

text \<open>A new entry has an id above every id and every snapshot cursor.\<close>

lemma entries_grow_ok:
  assumes ok: "ledger_ok l" and new: "e_id r = entry_seq l" "0 < e_amount r"
    "e_account r \<in> a_id ` set (accounts l)" "e_txn r \<in> t_id ` set (transactions l)"
  shows "ledger_ok (l\<lparr>entry_seq := entry_seq l + 1, entries := entries l @ [r]\<rparr>)"
proof -
  let ?l = "l\<lparr>entry_seq := entry_seq l + 1, entries := entries l @ [r]\<rparr>"
  have old: "\<forall>e \<in> set (entries l). entry_row_ok l e" using ok by (simp add: ledger_ok_def)
  have snap: "snapshot_ok ?l s" if s: "s \<in> set (snapshots l)" for s
  proof -
    from ok s have s': "snapshot_ok l s" by (simp add: ledger_ok_def)
    then obtain e where "e \<in> set (entries l)" "e_id e = s_up_to s"
      by (auto simp: snapshot_ok_def entries_of_def)
    with old new(1) have "\<not> e_id r \<le> s_up_to s" by (auto simp: entry_row_ok_def)
    then have "filter (\<lambda>e. e_id e \<le> s_up_to s) (entries_of (s_account s) ?l)
             = filter (\<lambda>e. e_id e \<le> s_up_to s) (entries_of (s_account s) l)"
      by (simp add: entries_of_def)
    with s' show ?thesis by (auto simp: snapshot_ok_def entries_of_def)
  qed
  have "sorted_wrt (<) (map e_id (entries ?l))"
    using ok old new(1) by (auto simp: ledger_ok_def sorted_wrt_append entry_row_ok_def)
  moreover have "\<forall>e \<in> set (entries ?l). entry_row_ok ?l e"
    using ok old new by (auto simp: entry_row_ok_def ledger_ok_def less_Suc_eq)
  ultimately show ?thesis using ok snap by (simp add: ledger_ok_def)
qed

definition entry_row_of :: "int \<Rightarrow> journal \<Rightarrow> int option \<Rightarrow> entry \<Rightarrow> nat \<Rightarrow> entry_row" where
  "entry_row_of now j recorded e n =
     \<lparr>e_id = n, e_txn = j_id j, e_account = ent_account e, e_direction = ent_direction e,
      e_amount = minor (ent_amount e), e_currency = currency (ent_amount e),
      e_effective = instant (j_effective j),
      e_recorded = (case recorded of None \<Rightarrow> now | Some r \<Rightarrow> r)\<rparr>"

lemma entry_insert_Inr:
  assumes "entry_insert now j recorded e l = (Inr row, l')"
  shows "row = entry_row_of now j recorded e (entry_seq l)"
    "l' = l\<lparr>entry_seq := entry_seq l + 1, entries := entries l @ [row]\<rparr>"
    "in_bigint (minor (ent_amount e))" "0 < minor (ent_amount e)"
    "j_id j \<in> t_id ` set (transactions l)" "ent_account e \<in> a_id ` set (accounts l)"
  using assms unfolding entry_insert_def Let_def
  by (auto simp: result_simps entry_row_of_def simp del: op_run)

lemma entry_insert_Inl:
  "entry_insert now j recorded e l = (Inl x, l') \<Longrightarrow> l' = l\<lparr>entry_seq := entry_seq l + 1\<rparr>"
  unfolding entry_insert_def Let_def by (auto simp: result_simps simp del: op_run)

lemma keeps_entry_insert [keeps_intros]: "keeps ledger_ok (entry_insert now j recorded e)"
proof (rule keepsI)
  fix l r l'
  assume ok: "ledger_ok l" and run: "entry_insert now j recorded e l = (r, l')"
  show "ledger_ok l'"
  proof (cases r)
    case (Inl x)
    with run entry_insert_Inl have "l' = l\<lparr>entry_seq := entry_seq l + 1\<rparr>" by blast
    with entry_seq_ok [OF ok] show ?thesis by simp
  next
    case (Inr row)
    note run = entry_insert_Inr [OF run [unfolded Inr]]
    show ?thesis unfolding run(2)
      by (rule entries_grow_ok [OF ok]) (use run(1,4-6) in \<open>auto simp: entry_row_of_def\<close>)
  qed
qed

lemma keeps_entries_insert_many [keeps_intros]: "keeps ledger_ok (entries_insert_many now j recorded)"
  unfolding entries_insert_many_def by (intro keeps_intros)


lemma write_snapshot_Inr:
  assumes "write_snapshot now acct l = (r, l')"
  shows "l' = l \<or> (\<exists>a row. a \<in> set (accounts l) \<and> a_id a = acct \<and> r = Inr (Some row)
      \<and> row = \<lparr>s_account = acct, s_up_to = max_id 0 (entries_of acct l),
                s_balance = sum_signed (a_normal a) (entries_of acct l), s_currency = a_currency a,
                s_taken = now\<rparr>
      \<and> max_id 0 (entries_of acct l) \<noteq> 0 \<and> l' = l\<lparr>snapshots := snapshots l @ [row]\<rparr>)"
proof (cases "List.find (\<lambda>a. a_id a = acct) (accounts l)")
  case None
  with assms show ?thesis by (simp add: write_snapshot_def bind_op_def)
next
  case (Some a)
  note a = find_accountD [OF Some]
  show ?thesis
    using assms a Some
    by (auto simp: write_snapshot_def bind_op_def to_bigint_def Let_def entries_of_def [symmetric]
        split: if_splits)
qed

lemma snapshot_added_ok:
  assumes ok: "ledger_ok l" and a: "a \<in> set (accounts l)" "a_id a = s_account row"
    and row: "s_up_to row = max_id 0 (entries_of (s_account row) l)"
      "s_balance row = sum_signed (a_normal a) (entries_of (s_account row) l)"
      "s_up_to row \<noteq> 0"
  shows "ledger_ok (l\<lparr>snapshots := snapshots l @ [row]\<rparr>)"
proof -
  let ?es = "entries_of (s_account row) l"
  have all: "filter (\<lambda>e. e_id e \<le> s_up_to row) ?es = ?es"
    using row(1) by (auto intro: filter_True max_id_ge)
  have cursor: "\<exists>e \<in> set ?es. e_id e = s_up_to row"
    using max_id_mem [of 0 ?es] row(1,3) by auto
  have "snapshot_ok l row"
    unfolding snapshot_ok_def all using a row(2) cursor by auto
  moreover have "snapshot_ok (l\<lparr>snapshots := ss\<rparr>) s = snapshot_ok l s"
    "entry_row_ok (l\<lparr>snapshots := ss\<rparr>) e = entry_row_ok l e" for ss s e
    by (simp_all add: snapshot_ok_def entries_of_def entry_row_ok_def)
  ultimately show ?thesis using ok by (auto simp: ledger_ok_def)
qed

lemma keeps_write_snapshot [keeps_intros]: "keeps ledger_ok (write_snapshot now acct)"
proof (rule keepsI)
  fix l r l'
  assume ok: "ledger_ok l" and "write_snapshot now acct l = (r, l')"
  from write_snapshot_Inr [OF this(2)] show "ledger_ok l'"
    using ok by (auto intro!: snapshot_added_ok)
qed

section \<open>The snapshot cache is exact\<close>

lemma newest_snapshot_mem: "newest_snapshot acct l = Some s \<Longrightarrow> s \<in> set (snapshots l) \<and> s_account s = acct"
proof -
  assume n: "newest_snapshot acct l = Some s"
  let ?ss = "sort_key s_up_to (filter (\<lambda>s. s_account s = acct) (snapshots l))"
  from n have "?ss \<noteq> []" "s = last ?ss" by (auto simp: newest_snapshot_def split: list.splits)
  then have "s \<in> set ?ss" using last_in_set by blast
  then show ?thesis by simp
qed

lemma sum_signed_cutoff:
  "sum_signed d es = sum_signed d (filter (\<lambda>e. e_id e \<le> n) es) + sum_signed d (filter (\<lambda>e. n < e_id e) es)"
  by (induction es) auto

lemma snapshot_split:
  assumes ok: "ledger_ok l" and a: "a \<in> set (accounts l)" and s: "newest_snapshot (a_id a) l = Some s"
  shows "s_balance s + sum_signed (a_normal a) (filter (\<lambda>e. s_up_to s < e_id e) (entries_of (a_id a) l))
           = sum_signed (a_normal a) (entries_of (a_id a) l)"
proof -
  from newest_snapshot_mem [OF s] ok have "snapshot_ok l s" "s_account s = a_id a"
    by (auto simp: ledger_ok_def)
  then obtain b where "b \<in> set (accounts l)" "a_id b = a_id a"
    "s_balance s = sum_signed (a_normal b) (filter (\<lambda>e. e_id e \<le> s_up_to s) (entries_of (a_id a) l))"
    by (auto simp: snapshot_ok_def)
  moreover from this a ok have "b = a"
    by (auto simp: ledger_ok_def distinct_map inj_on_def)
  ultimately show ?thesis using sum_signed_cutoff [of "a_normal a" "entries_of (a_id a) l" "s_up_to s"]
    by simp
qed

lemma max_id_from:
  assumes ok: "ledger_ok l" and s: "newest_snapshot acct l = Some s"
  shows "max_id (s_up_to s) (filter (\<lambda>e. s_up_to s < e_id e) (entries_of acct l)) = max_id 0 (entries_of acct l)"
proof -
  from newest_snapshot_mem [OF s] ok obtain e where e: "e \<in> set (entries_of acct l)" "e_id e = s_up_to s"
    by (auto simp: ledger_ok_def snapshot_ok_def)
  then have le: "s_up_to s \<le> max_id 0 (entries_of acct l)" using max_id_ge [of e _ 0] by simp
  show ?thesis
  proof (rule max_id_eqI)
    show "s_up_to s = max_id 0 (entries_of acct l)
      \<or> max_id 0 (entries_of acct l) \<in> e_id ` set (filter (\<lambda>e. s_up_to s < e_id e) (entries_of acct l))"
      using le max_id_mem [of 0 "entries_of acct l"] by force
  qed (use le max_id_ge in auto)
qed


section \<open>Conservation\<close>

lemma rows_total_other: "cur \<notin> e_currency ` set es \<Longrightarrow> rows_total d cur es = 0"
  by (induction es) (auto simp: rows_total_def)

lemma transaction_balanced_iff:
  "transaction_balanced l i \<longleftrightarrow>
     (\<forall>cur. rows_total DEBIT cur (filter (\<lambda>e. e_txn e = i) (entries l))
          = rows_total CREDIT cur (filter (\<lambda>e. e_txn e = i) (entries l)))"
  (is "_ \<longleftrightarrow> (\<forall>cur. ?eq cur)")
proof
  assume b: "transaction_balanced l i"
  show "\<forall>cur. ?eq cur"
  proof
    fix cur
    show "?eq cur"
    proof (cases "cur \<in> e_currency ` set (filter (\<lambda>e. e_txn e = i) (entries l))")
      case True
      with b show ?thesis by (auto simp: transaction_balanced_def Let_def list_all_iff)
    next
      case False
      show ?thesis by (simp only: rows_total_other [OF False])
    qed
  qed
qed (simp add: transaction_balanced_def Let_def list_all_iff)

lemma sum_signed_rows:
  "sum_signed DEBIT (filter (\<lambda>e. e_currency e = cur) es) = rows_total DEBIT cur es - rows_total CREDIT cur es"
proof (induction es)
  case Nil
  then show ?case by (simp add: rows_total_def)
next
  case (Cons e es)
  then show ?case by (cases "e_direction e") (auto simp: rows_total_def signed_minor_def)
qed

lemma currency_drift_zero:
  assumes "all_balanced l"
  shows "currency_drift cur l = 0"
proof -
  let ?es = "filter (\<lambda>e. e_currency e = cur) (entries l)"
  have txn: "sum_signed DEBIT (filter (\<lambda>e. e_txn e = i) ?es) = 0" for i
  proof -
    have swap: "filter (\<lambda>e. e_txn e = i) ?es
        = filter (\<lambda>e. e_currency e = cur) (filter (\<lambda>e. e_txn e = i) (entries l))"
      by (simp add: conj_commute)
    from assms show ?thesis
      unfolding swap sum_signed_rows by (simp add: all_balanced_def transaction_balanced_iff)
  qed
  have "sum_signed DEBIT ?es = (\<Sum>i \<in> e_txn ` set ?es. sum_signed DEBIT (filter (\<lambda>e. e_txn e = i) ?es))"
    unfolding sum_signed_def by (rule sum_list_group) auto
  with txn show ?thesis by (simp add: currency_drift_def)
qed

text \<open>What the accounts of one normal side hold in a currency, each in its own sign.\<close>

definition class_total :: "direction \<Rightarrow> string \<Rightarrow> ledger_tables \<Rightarrow> int" where
  "class_total side cur l =
     (\<Sum>a \<leftarrow> filter (\<lambda>a. a_normal a = side) (accounts l).
        sum_signed side (filter (\<lambda>e. e_currency e = cur) (entries_of (a_id a) l)))"

lemma sum_over_accounts:
  assumes "ledger_ok l"
  shows "(\<Sum>a \<leftarrow> accounts l. sum_signed DEBIT (filter (\<lambda>e. e_currency e = cur) (entries_of (a_id a) l)))
           = currency_drift cur l"
proof -
  let ?es = "filter (\<lambda>e. e_currency e = cur) (entries l)"
  let ?ids = "map a_id (accounts l)"
  have d: "distinct ?ids" and sub: "e_account ` set ?es \<subseteq> set ?ids"
    using assms by (auto simp: ledger_ok_def entry_row_ok_def)
  have "currency_drift cur l = (\<Sum>i \<in> set ?ids. sum_signed DEBIT (filter (\<lambda>e. e_account e = i) ?es))"
    unfolding currency_drift_def sum_signed_def by (rule sum_list_group [OF _ sub]) simp
  also have "\<dots> = (\<Sum>i \<leftarrow> ?ids. sum_signed DEBIT (filter (\<lambda>e. e_account e = i) ?es))"
    by (rule sum.distinct_set_conv_list [OF d])
  also have "\<dots> = (\<Sum>a \<leftarrow> accounts l. sum_signed DEBIT (filter (\<lambda>e. e_currency e = cur) (entries_of (a_id a) l)))"
    by (simp add: entries_of_def comp_def conj_commute)
  finally show ?thesis by simp
qed

lemma class_totals_difference:
  "(\<Sum>a \<leftarrow> as. sum_signed DEBIT (f a)) =
     (\<Sum>a \<leftarrow> filter (\<lambda>a. a_normal a = DEBIT) as. sum_signed DEBIT (f a))
     - (\<Sum>a \<leftarrow> filter (\<lambda>a. a_normal a = CREDIT) as. sum_signed CREDIT (f a))"
proof (induction as)
  case (Cons a as)
  have "sum_signed CREDIT es = - sum_signed DEBIT es" for es
    using sum_signed_opposite [of DEBIT es] by simp
  with Cons show ?case by (cases "a_normal a") simp_all
qed simp

lemma class_totals:
  assumes "ledger_ok l"
  shows "class_total DEBIT cur l - class_total CREDIT cur l = currency_drift cur l"
  unfolding class_total_def sum_over_accounts [OF assms, of cur, symmetric]
    class_totals_difference [of "\<lambda>a. filter (\<lambda>e. e_currency e = cur) (entries_of (a_id a) l)" "accounts l"]
  by simp

section \<open>Sums stay no_later the total of the amounts\<close>

lemma sum_signed_bound:
  "\<forall>e \<in> set es. 0 < e_amount e \<Longrightarrow> \<bar>sum_signed d es\<bar> \<le> (\<Sum>e \<leftarrow> es. e_amount e)"
  by (induction es) (auto simp: signed_minor_def)

lemma amounts_filter_le:
  "\<forall>e \<in> set es. 0 < e_amount e \<Longrightarrow> (\<Sum>e \<leftarrow> filter P es. e_amount e) \<le> (\<Sum>e \<leftarrow> es. e_amount e)"
  by (induction es) auto

lemma to_bigint_sum:
  assumes "ledger_ok l" "(\<Sum>e \<leftarrow> entries l. e_amount e) < 2 ^ 63"
  shows "to_bigint (sum_signed d (filter P (entries l))) = Inr (sum_signed d (filter P (entries l)))"
proof -
  have pos: "\<forall>e \<in> set (entries l). 0 < e_amount e"
    using assms(1) by (auto simp: ledger_ok_def entry_row_ok_def)
  then have "\<bar>sum_signed d (filter P (entries l))\<bar> \<le> (\<Sum>e \<leftarrow> filter P (entries l). e_amount e)"
    by (intro sum_signed_bound) auto
  also have "\<dots> \<le> (\<Sum>e \<leftarrow> entries l. e_amount e)" by (rule amounts_filter_le [OF pos])
  finally show ?thesis using assms(2) by (auto simp: to_bigint_def in_bigint_def)
qed


section \<open>A journal through its rows\<close>

lemma map_op_entry_insert:
  assumes "map_op (entry_insert now j recorded) es l = (Inr rows, l')"
  shows "l' = l\<lparr>entry_seq := entry_seq l + length es, entries := entries l @ rows\<rparr>
     \<and> rows = map (\<lambda>(e, n). entry_row_of now j recorded e n) (zip es [entry_seq l ..< entry_seq l + length es])
     \<and> (\<forall>e \<in> set es. 0 < minor (ent_amount e) \<and> in_bigint (minor (ent_amount e))
           \<and> ent_account e \<in> a_id ` set (accounts l) \<and> j_id j \<in> t_id ` set (transactions l))"
  using assms
proof (induction es arbitrary: l rows)
  case Nil
  then show ?case by (simp add: result_simps)
next
  case (Cons e es)
  from Cons.prems obtain row l1 rest where
    one: "entry_insert now j recorded e l = (Inr row, l1)"
    and rest: "map_op (entry_insert now j recorded) es l1 = (Inr rest, l')"
    and rows: "rows = row # rest"
    by (auto simp: result_simps simp del: op_run)
  note one = entry_insert_Inr [OF one]
  have upt: "[entry_seq l ..< entry_seq l + length (e # es)]
      = entry_seq l # [Suc (entry_seq l) ..< Suc (entry_seq l) + length es]"
    by (simp add: upt_rec)
  from Cons.IH [OF rest] one rows show ?case
    unfolding upt by (simp add: image_iff del: upt.upt_Suc)
qed

lemma entries_insert_many_Inr:
  assumes "entries_insert_many now j recorded l = (Inr rows, l')"
  shows "l' = l\<lparr>entry_seq := entry_seq l + length (j_entries j), entries := entries l @ rows\<rparr>"
    "rows = map (\<lambda>(e, n). entry_row_of now j recorded e n)
       (zip (j_entries j) [entry_seq l ..< entry_seq l + length (j_entries j)])"
    "\<forall>e \<in> set (j_entries j). 0 < minor (ent_amount e) \<and> in_bigint (minor (ent_amount e))
           \<and> ent_account e \<in> a_id ` set (accounts l)"
  using map_op_entry_insert [OF assms [unfolded entries_insert_many_def]] by auto

lemma entry_row_of_sel [simp]:
  "e_id (entry_row_of now j rec e n) = n"
  "e_txn (entry_row_of now j rec e n) = j_id j"
  "e_account (entry_row_of now j rec e n) = ent_account e"
  "e_direction (entry_row_of now j rec e n) = ent_direction e"
  "e_amount (entry_row_of now j rec e n) = minor (ent_amount e)"
  "e_currency (entry_row_of now j rec e n) = currency (ent_amount e)"
  by (simp_all add: entry_row_of_def)

lemma mk_money_self: "money_ok m \<Longrightarrow> mk_money (minor m) (currency m) = Inr m"
  by simp

lemma entry_to_domain_of: "entry_ok e \<Longrightarrow> entry_to_domain (entry_row_of now j rec e n) = Inr e"
  by (simp add: entry_to_domain_def entry_ok_def mk_entry_def mk_money_self del: mk_money_same)

lemma map_entry_to_domain_of:
  "length ns = length es \<Longrightarrow> \<forall>e \<in> set es. entry_ok e \<Longrightarrow>
   map_r entry_to_domain (map (\<lambda>(e, n). entry_row_of now j rec e n) (zip es ns)) = Inr es"
  by (induction ns es rule: list_induct2) (simp_all add: entry_to_domain_of)

lemma rows_total_of:
  "length ns = length es \<Longrightarrow>
   rows_total d cur (map (\<lambda>(e, n). entry_row_of now j rec e n) (zip es ns)) = side_total d cur es"
  by (induction ns es rule: list_induct2) (simp_all add: rows_total_def)

lemma entries_for_sorted: "ledger_ok l \<Longrightarrow>
   entries_for_transaction i l = filter (\<lambda>e. e_txn e = i) (entries l)"
proof -
  assume "ledger_ok l"
  then have s: "sorted (map e_id (entries l))" by (simp add: ledger_ok_def strict_sorted_imp_sorted)
  then have "sorted (map e_id (filter (\<lambda>e. e_txn e = i) (entries l)))" by (rule sorted_filter)
  then show ?thesis by (simp add: entries_for_transaction_def sort_key_id_if_sorted)
qed

lemma no_rows_of_unknown: "ledger_ok l \<Longrightarrow> i \<notin> t_id ` set (transactions l) \<Longrightarrow>
   filter (\<lambda>e. e_txn e = i) (entries l) = []"
  by (auto simp: ledger_ok_def entry_row_ok_def filter_empty_conv)

text \<open>Inserting a journal: the rows that appear and what they say of every transaction.\<close>

lemma journal_inserted:
  assumes ok: "ledger_ok l" and t: "txn_insert now j tenant mode l = (Inr row, l1)"
    and es: "entries_insert_many now j recorded l1 = (Inr rows, l2)"
  shows "ledger_ok l2"
    "filter (\<lambda>e. e_txn e = i) (entries l2)
       = (if i = j_id j then rows else filter (\<lambda>e. e_txn e = i) (entries l))"
    "rows = map (\<lambda>(e, n). entry_row_of now j recorded e n)
       (zip (j_entries j) [entry_seq l ..< entry_seq l + length (j_entries j)])"
proof -
  have "ledger_ok l1" by (rule keepsD [OF keeps_txn_insert ok t])
  then show "ledger_ok l2" by (rule keepsD [OF keeps_entries_insert_many _ es])
  note t = txn_insert_Inr [OF t]
  note es = entries_insert_many_Inr [OF es]
  show rows: "rows = map (\<lambda>(e, n). entry_row_of now j recorded e n)
       (zip (j_entries j) [entry_seq l ..< entry_seq l + length (j_entries j)])"
    using es(2) t(2) by simp
  then have "\<forall>r \<in> set rows. e_txn r = j_id j" by auto
  then have "filter (\<lambda>e. e_txn e = i) rows = (if i = j_id j then rows else [])"
    by (auto simp: filter_empty_conv)
  moreover have "filter (\<lambda>e. e_txn e = j_id j) (entries l) = []"
    by (rule no_rows_of_unknown [OF ok t(3)])
  ultimately show "filter (\<lambda>e. e_txn e = i) (entries l2)
       = (if i = j_id j then rows else filter (\<lambda>e. e_txn e = i) (entries l))"
    using es(1) t(2) by simp
qed

lemma journal_inserted_balanced:
  assumes "ledger_ok l" "txn_insert now j tenant mode l = (Inr row, l1)"
    "entries_insert_many now j recorded l1 = (Inr rows, l2)"
    and "balanced (j_entries j)" "all_balanced l"
  shows "all_balanced l2"
proof -
  note ins = journal_inserted [OF assms(1-3)]
  have "rows_total d cur rows = side_total d cur (j_entries j)" for d cur
    unfolding ins(3) by (rule rows_total_of) simp
  with assms(4,5) show ?thesis
    by (simp add: all_balanced_def transaction_balanced_iff ins(2) balanced_def)
qed


lemma cached_balance_exact:
  assumes "ledger_ok l"
  shows "account_balance acct l =
     (case List.find (\<lambda>a. a_id a = acct) (accounts l) of
        None \<Rightarrow> Inr \<lparr>b_currency = ''usd'', b_balance = 0, b_snapshot_cursor = None, b_cursor = 0\<rparr>
      | Some a \<Rightarrow>
          bind_r (to_bigint (sum_signed (a_normal a) (entries_of acct l))) (\<lambda>b.
          Inr \<lparr>b_currency = a_currency a, b_balance = b,
               b_snapshot_cursor = Some (case newest_snapshot acct l of None \<Rightarrow> 0 | Some s \<Rightarrow> s_up_to s),
               b_cursor = max_id 0 (entries_of acct l)\<rparr>))"
proof (cases "List.find (\<lambda>a. a_id a = acct) (accounts l)")
  case None
  then show ?thesis by (simp add: account_balance_def Let_def)
next
  case (Some a)
  note a = find_accountD [OF Some]
  have tail: "filter (\<lambda>e. e_account e = acct \<and> n < e_id e) (entries l)
      = filter (\<lambda>e. n < e_id e) (entries_of acct l)" for n
    by (simp add: entries_of_def conj_commute)
  show ?thesis
  proof (cases "newest_snapshot acct l")
    case None
    have "filter (\<lambda>e. 0 < e_id e) (entries_of acct l) = entries_of acct l"
    proof (rule filter_True)
      show "\<forall>e \<in> set (entries_of acct l). 0 < e_id e"
        using assms by (simp add: ledger_ok_def entry_row_ok_def entries_of_def)
    qed
    with Some None show ?thesis by (simp add: account_balance_def Let_def tail)
  next
    case snap: (Some s)
    with a snapshot_split [OF assms, of a s] max_id_from [OF assms snap] Some show ?thesis
      by (simp add: account_balance_def Let_def tail)
  qed
qed

lemma reconcile_empty:
  assumes "ledger_ok l" "(\<Sum>e \<leftarrow> entries l. e_amount e) < 2 ^ 63"
  shows "reconcile l = Inr []"
proof -
  have "reconcile_account l a = Inr []" if a: "a \<in> set (accounts l)" for a
  proof (cases "newest_snapshot (a_id a) l")
    case None
    then show ?thesis by (simp add: reconcile_account_def to_bigint_sum [OF assms])
  next
    case (Some s)
    have "filter (\<lambda>e. e_account e = a_id a \<and> s_up_to s < e_id e) (entries l)
        = filter (\<lambda>e. s_up_to s < e_id e) (entries_of (a_id a) l)"
      by (simp add: entries_of_def conj_commute)
    then have "to_bigint (sum_signed (a_normal a) (filter (\<lambda>e. e_account e = a_id a \<and> s_up_to s < e_id e) (entries l)))
        = Inr (sum_signed (a_normal a) (entries_of (a_id a) l) - s_balance s)"
      using snapshot_split [OF assms(1) a Some] to_bigint_sum [OF assms] by (metis add_diff_cancel_left')
    moreover have "to_bigint (sum_signed (a_normal a) (entries_of (a_id a) l))
        = Inr (sum_signed (a_normal a) (entries_of (a_id a) l))"
      unfolding entries_of_def by (rule to_bigint_sum [OF assms])
    ultimately show ?thesis
      by (simp only: reconcile_account_def Some entries_of_def [symmetric] bind_r_simps option.case) simp
  qed
  then have "map_r (reconcile_account l) (accounts l) = Inr (map (\<lambda>_. []) (accounts l))"
    by (rule map_r_all_Inr)
  then show ?thesis by (simp add: reconcile_def)
qed

section \<open>Properties\<close>

text \<open>
  C10. The balance read through the snapshot cache is the balance recomputed from every entry of
  the account, for every account and whatever snapshots have been taken; the cursor it returns is
  the newest entry's.
\<close>

theorem balance_read_is_exact:
  assumes "ledger_ok l"
  shows "account_balance acct l =
     (case List.find (\<lambda>a. a_id a = acct) (accounts l) of
        None \<Rightarrow> Inr \<lparr>b_currency = ''usd'', b_balance = 0, b_snapshot_cursor = None, b_cursor = 0\<rparr>
      | Some a \<Rightarrow>
          bind_r (to_bigint (sum_signed (a_normal a) (entries_of acct l))) (\<lambda>b.
          Inr \<lparr>b_currency = a_currency a, b_balance = b,
               b_snapshot_cursor = Some (case newest_snapshot acct l of None \<Rightarrow> 0 | Some s \<Rightarrow> s_up_to s),
               b_cursor = max_id 0 (entries_of acct l)\<rparr>))"
  by (rule cached_balance_exact [OF assms])

text \<open>
  Reconciliation returns, and returns no mismatch, on every reachable ledger whose amounts fit
  the integer column together.
\<close>

theorem reconcile_finds_nothing:
  assumes "ledger_ok l" "(\<Sum>e \<leftarrow> entries l. e_amount e) < 2 ^ 63"
  shows "reconcile l = Inr []"
  by (rule reconcile_empty [OF assms])

text \<open>
  Money is neither created nor destroyed: when every transaction's entries balance, the
  ledger-wide drift query returns no row, and in every currency the accounts that grow on the debit
  side hold together exactly what the accounts that grow on the credit side hold.
\<close>

theorem money_is_conserved:
  assumes "ledger_ok l" "all_balanced l"
  shows "global_drift l = Inr [] \<and> class_total DEBIT cur l = class_total CREDIT cur l"
  using currency_drift_zero [OF assms(2)] class_totals [OF assms(1), of cur]
  by (simp add: global_drift_def)

text \<open>
  A past answer can be reproduced: entries recorded after \<open>known\<close>, however far they are
  backdated, do not change any balance asked as it was known at that time.
\<close>

theorem known_history_is_stable:
  assumes "accounts l' = accounts l" "entries l' = entries l @ late"
    "\<forall>e \<in> set late. known < e_recorded e"
  shows "account_balance_at acct as_of (Some known) l' = account_balance_at acct as_of (Some known) l"
proof -
  have "filter (\<lambda>e. e_account e = acct \<and> no_later as_of (e_effective e) \<and> no_later (Some known) (e_recorded e)) late = []"
    using assms(3) by (fastforce simp: no_later_def filter_empty_conv)
  then show ?thesis by (simp add: account_balance_at_def assms(1,2) split: option.split)
qed

text \<open>
  A journal read back from its rows is the journal that was inserted, entry for entry; its
  rows balance, so the deferred trigger passes; and no other transaction's rows change.
\<close>

theorem journal_round_trip:
  assumes "ledger_ok l" "journal_ok j" "txn_insert now j tenant mode l = (Inr row, l1)"
    "entries_insert_many now j recorded l1 = (Inr rows, l2)"
  shows "map_r entry_to_domain (entries_for_transaction (j_id j) l2) = Inr (j_entries j)
       \<and> transaction_balanced l2 (j_id j)
       \<and> (\<forall>i. i = j_id j \<or> entries_for_transaction i l2 = entries_for_transaction i l)"
proof -
  note ins = journal_inserted [OF assms(1,3,4)]
  have "\<forall>e \<in> set (j_entries j). entry_ok e" using assms(2) by (simp add: journal_ok_def)
  then have "map_r entry_to_domain rows = Inr (j_entries j)"
    unfolding ins(3) by (intro map_entry_to_domain_of) simp_all
  moreover have "rows_total d cur rows = side_total d cur (j_entries j)" for d cur
    unfolding ins(3) by (rule rows_total_of) simp
  ultimately show ?thesis
    using assms(2) entries_for_sorted [OF ins(1)] entries_for_sorted [OF assms(1)]
    by (auto simp: ins(2) transaction_balanced_iff journal_ok_def balanced_def)
qed


section \<open>A small ledger\<close>

text \<open>A checking account with a floor, an expense account, and one purchase.\<close>

definition demo_accounts :: "account_row list" where
  "demo_accounts =
     [\<lparr>a_id = ''acct_1'', a_tenant = ''t'', a_mode = TEST, a_external = Some ''checking'',
       a_name = ''Assets:Checking'', a_type = ASSET, a_normal = DEBIT, a_currency = ''usd'',
       a_status = OPEN, a_minimum = Some (- 1000), a_metadata = [], a_created = 0\<rparr>,
      \<lparr>a_id = ''acct_2'', a_tenant = ''t'', a_mode = TEST, a_external = None,
       a_name = ''Expenses:Food'', a_type = EXPENSE, a_normal = DEBIT, a_currency = ''usd'',
       a_status = OPEN, a_minimum = None, a_metadata = [], a_created = 0\<rparr>]"

definition demo_tables :: ledger_tables where
  "demo_tables =
     \<lparr>tenants = [''t''], accounts = demo_accounts,
      transactions =
        [\<lparr>t_id = ''txn_1'', t_tenant = ''t'', t_mode = TEST, t_kind = ''card_purchase'',
          t_status = POSTED, t_effective = 5, t_recorded = 7, t_reverses = None, t_metadata = []\<rparr>],
      entries =
        [\<lparr>e_id = 1, e_txn = ''txn_1'', e_account = ''acct_2'', e_direction = DEBIT, e_amount = 450,
          e_currency = ''usd'', e_effective = 5, e_recorded = 7\<rparr>,
         \<lparr>e_id = 2, e_txn = ''txn_1'', e_account = ''acct_1'', e_direction = CREDIT, e_amount = 450,
          e_currency = ''usd'', e_effective = 5, e_recorded = 7\<rparr>],
      snapshots =
        [\<lparr>s_account = ''acct_1'', s_up_to = 2, s_balance = - 450, s_currency = ''usd'', s_taken = 8\<rparr>],
      entry_seq = 3\<rparr>"

lemma demo_tables_ok: "ledger_ok demo_tables"
  by (simp add: ledger_ok_def demo_tables_def demo_accounts_def entry_row_ok_def snapshot_ok_def
      entries_of_def signed_minor_def normal_balance_def)

lemma demo_tables_balanced: "all_balanced demo_tables"
  unfolding all_balanced_def
proof
  fix i
  show "transaction_balanced demo_tables i"
    by (cases "i = ''txn_1''")
      (simp_all add: transaction_balanced_def demo_tables_def rows_total_def)
qed

theorem balance_read_is_exact_witness:
  "ledger_ok demo_tables \<and>
   account_balance ''acct_1'' demo_tables
     = Inr \<lparr>b_currency = ''usd'', b_balance = - 450, b_snapshot_cursor = Some 2, b_cursor = 2\<rparr>"
  using demo_tables_ok balance_read_is_exact [OF demo_tables_ok, of "''acct_1''"]
  by (simp add: demo_tables_def demo_accounts_def entries_of_def signed_minor_def to_bigint_def
      in_bigint_def newest_snapshot_def max_id_def)

theorem reconcile_finds_nothing_witness:
  "ledger_ok demo_tables \<and> (\<Sum>e \<leftarrow> entries demo_tables. e_amount e) < 2 ^ 63 \<and> reconcile demo_tables = Inr []"
proof -
  have "(\<Sum>e \<leftarrow> entries demo_tables. e_amount e) < 2 ^ 63" by (simp add: demo_tables_def)
  with reconcile_finds_nothing [OF demo_tables_ok] demo_tables_ok show ?thesis by simp
qed

theorem money_is_conserved_witness:
  "ledger_ok demo_tables \<and> all_balanced demo_tables \<and> global_drift demo_tables = Inr []
   \<and> class_total DEBIT ''usd'' demo_tables = 0 \<and> class_total CREDIT ''usd'' demo_tables = 0"
  using money_is_conserved [OF demo_tables_ok demo_tables_balanced, of "''usd''"]
    demo_tables_ok demo_tables_balanced
  by (simp add: class_total_def demo_tables_def demo_accounts_def)

definition late_entry :: entry_row where
  "late_entry =
     \<lparr>e_id = 3, e_txn = ''txn_2'', e_account = ''acct_1'', e_direction = DEBIT, e_amount = 100,
      e_currency = ''usd'', e_effective = 1, e_recorded = 20\<rparr>"

theorem known_history_is_stable_witness:
  "account_balance_at ''acct_1'' (Some 6) (Some 10)
     (demo_tables\<lparr>entries := entries demo_tables @ [late_entry]\<rparr>) = Inr (''usd'', - 450)
   \<and> account_balance_at ''acct_1'' (Some 6) None
     (demo_tables\<lparr>entries := entries demo_tables @ [late_entry]\<rparr>) = Inr (''usd'', - 350)"
proof -
  have "account_balance_at ''acct_1'' (Some 6) (Some 10)
     (demo_tables\<lparr>entries := entries demo_tables @ [late_entry]\<rparr>)
     = account_balance_at ''acct_1'' (Some 6) (Some 10) demo_tables"
    by (rule known_history_is_stable [of _ _ "[late_entry]"]) (simp_all add: late_entry_def)
  then show ?thesis
    by (simp add: account_balance_at_def demo_tables_def demo_accounts_def late_entry_def
        no_later_def signed_minor_def to_bigint_def in_bigint_def)
qed

definition demo_posting :: journal where
  "demo_posting =
     \<lparr>j_id = ''txn_2'', j_kind = ''refund'', j_effective = Aware 9,
      j_entries =
        [\<lparr>ent_account = ''acct_1'', ent_direction = DEBIT, ent_amount = \<lparr>minor = 200, currency = ''usd''\<rparr>\<rparr>,
         \<lparr>ent_account = ''acct_2'', ent_direction = CREDIT, ent_amount = \<lparr>minor = 200, currency = ''usd''\<rparr>\<rparr>],
      j_metadata = [], j_reverses = None\<rparr>"

lemma demo_posting_ok: "journal_ok demo_posting"
  by (simp add: journal_ok_def demo_posting_def entry_ok_def is_positive_def money_ok_currencies balanced_def)

theorem journal_round_trip_witness:
  "\<exists>l1 l2 row rows. txn_insert 10 demo_posting ''t'' TEST demo_tables = (Inr row, l1)
     \<and> entries_insert_many 10 demo_posting None l1 = (Inr rows, l2)
     \<and> map_r entry_to_domain (entries_for_transaction ''txn_2'' l2) = Inr (j_entries demo_posting)"
proof -
  obtain row l1 where t: "txn_insert 10 demo_posting ''t'' TEST demo_tables = (Inr row, l1)"
    by (simp add: txn_insert_def bind_op_def guard_op_def Let_def demo_posting_def demo_tables_def)
  obtain rows l2 where es: "entries_insert_many 10 demo_posting None l1 = (Inr rows, l2)"
    using txn_insert_Inr [OF t]
    by (simp add: entries_insert_many_def entry_insert_def bind_op_def guard_op_def Let_def
        demo_posting_def demo_tables_def demo_accounts_def in_bigint_def)
  have "j_id demo_posting = ''txn_2''" by (simp add: demo_posting_def)
  with journal_round_trip [OF demo_tables_ok demo_posting_ok t es] t es show ?thesis by auto
qed

end
