(* ===== verification/Repo_Normalization.thy ===== *)
theory Repo_Normalization
  imports Repo_Ledger
begin

text \<open>
  \<open>NormalizationRepository\<close> of \<open>adapters/repositories.py\<close>, with the query of
  \<open>TransactionRepository.list\<close> that joins its tables. \<open>pg_trgm\<close> is not part of the repository:
  its operator \<open>%\<close> and its function \<open>similarity\<close> are the arguments \<open>similar\<close> and \<open>sim\<close>. Weights and
  scores (\<open>REAL\<close>) are real numbers.
\<close>

record raw_row =
  rw_id :: string
  rw_tenant :: string
  rw_mode :: api_mode
  rw_account :: string
  rw_txn :: "string option"
  rw_payload :: json
  rw_descriptor :: string
  rw_amount :: int
  rw_currency :: string
  rw_occurred :: int
  rw_received :: int

record merchant_row =
  mc_id :: string
  mc_name :: string
  mc_category :: string

record alias_row =
  al_merchant :: string
  al_pattern :: string
  al_weight :: real

record norm_row =
  n_id :: string
  n_raw :: string
  n_tenant :: string
  n_account :: string
  n_merchant :: "string option"
  n_name :: "string option"
  n_category :: "string option"
  n_confidence :: "real option"
  n_version :: int
  n_at :: int

record norm_tables =
  raws :: "raw_row list"
  merchants :: "merchant_row list"
  aliases :: "alias_row list"
  norms :: "norm_row list"

definition insert_raw ::
  "ledger_tables \<Rightarrow> int \<Rightarrow> string \<Rightarrow> string \<Rightarrow> api_mode \<Rightarrow> string \<Rightarrow> string option \<Rightarrow> json \<Rightarrow> string
   \<Rightarrow> int \<Rightarrow> string \<Rightarrow> int \<Rightarrow> (norm_tables, raw_row) op" where
  "insert_raw l now i tenant mode acct txn payload descriptor amount cur occurred =
     bind_op (reads id) (\<lambda>n.
     let row = \<lparr>rw_id = i, rw_tenant = tenant, rw_mode = mode, rw_account = acct, rw_txn = txn,
                rw_payload = payload, rw_descriptor = descriptor, rw_amount = amount,
                rw_currency = cur, rw_occurred = occurred, rw_received = now\<rparr> in
     bind_op (guard_op (\<not> in_bigint amount) (DbExn NumericOutOfRange)) (\<lambda>_.
     bind_op (guard_op (\<exists>r \<in> set (raws n). rw_id r = i) (DbExn UniqueViolation)) (\<lambda>_.
     bind_op (guard_op (tenant \<notin> set (tenants l) \<or> acct \<notin> a_id ` set (accounts l)
                \<or> (case txn of None \<Rightarrow> False | Some t \<Rightarrow> t \<notin> t_id ` set (transactions l)))
                (DbExn ForeignKeyViolation)) (\<lambda>_.
     bind_op (writes (\<lambda>n. n\<lparr>raws := raws n @ [row]\<rparr>)) (\<lambda>_.
     ret_op row)))))"

definition raw_for_transaction :: "string \<Rightarrow> norm_tables \<Rightarrow> raw_row option" where
  "raw_for_transaction txn n = List.find (\<lambda>r. rw_txn r = Some txn) (raws n)"

record candidate_row =
  cd_merchant :: string
  cd_pattern :: string
  cd_weight :: real
  cd_name :: string
  cd_category :: string
  cd_score :: real

definition candidates ::
  "(string \<Rightarrow> string \<Rightarrow> bool) \<Rightarrow> (string \<Rightarrow> string \<Rightarrow> real) \<Rightarrow> string \<Rightarrow> nat \<Rightarrow> norm_tables
   \<Rightarrow> candidate_row list" where
  "candidates similar sim cleaned limit n =
     take limit (sort_key (\<lambda>c. - (cd_score c * cd_weight c))
       (concat (map (\<lambda>a. map (\<lambda>m. \<lparr>cd_merchant = al_merchant a, cd_pattern = al_pattern a,
                                    cd_weight = al_weight a, cd_name = mc_name m,
                                    cd_category = mc_category m, cd_score = sim (al_pattern a) cleaned\<rparr>)
                          (filter (\<lambda>m. mc_id m = al_merchant a) (merchants n)))
          (filter (\<lambda>a. similar (al_pattern a) cleaned) (aliases n)))))"

definition merchant_prior :: "string \<Rightarrow> string \<Rightarrow> norm_tables \<Rightarrow> nat" where
  "merchant_prior tenant merchant n =
     length (filter (\<lambda>r. n_tenant r = tenant \<and> n_merchant r = Some merchant) (norms n))"

text \<open>\<open>INSERT ... ON CONFLICT (raw_transaction_id, normalizer_version) DO UPDATE\<close>.\<close>

definition upsert_normalized ::
  "ledger_tables \<Rightarrow> int \<Rightarrow> string \<Rightarrow> string \<Rightarrow> string \<Rightarrow> string \<Rightarrow> string option \<Rightarrow> string option
   \<Rightarrow> string option \<Rightarrow> real option \<Rightarrow> int \<Rightarrow> (norm_tables, norm_row) op" where
  "upsert_normalized l now i raw tenant acct merchant name category confidence version =
     bind_op (reads id) (\<lambda>n.
     bind_op (guard_op (case confidence of None \<Rightarrow> False | Some c \<Rightarrow> c < 0 \<or> 1 < c)
                (DbExn CheckViolation)) (\<lambda>_.
     case List.find (\<lambda>r. n_raw r = raw \<and> n_version r = version) (norms n) of
       Some old \<Rightarrow>
         let new = old\<lparr>n_merchant := merchant, n_name := name, n_category := category,
                       n_confidence := confidence, n_at := now\<rparr> in
         bind_op (guard_op (case merchant of None \<Rightarrow> False | Some m \<Rightarrow> m \<notin> mc_id ` set (merchants n))
                    (DbExn ForeignKeyViolation)) (\<lambda>_.
         bind_op (writes (\<lambda>n. n\<lparr>norms :=
            map (\<lambda>r. if n_raw r = raw \<and> n_version r = version then new else r) (norms n)\<rparr>)) (\<lambda>_.
         ret_op new))
     | None \<Rightarrow>
         let row = \<lparr>n_id = i, n_raw = raw, n_tenant = tenant, n_account = acct, n_merchant = merchant,
                    n_name = name, n_category = category, n_confidence = confidence,
                    n_version = version, n_at = now\<rparr> in
         bind_op (guard_op (\<exists>r \<in> set (norms n). n_id r = i) (DbExn UniqueViolation)) (\<lambda>_.
         bind_op (guard_op (tenant \<notin> set (tenants l) \<or> acct \<notin> a_id ` set (accounts l)
                    \<or> raw \<notin> rw_id ` set (raws n)
                    \<or> (case merchant of None \<Rightarrow> False | Some m \<Rightarrow> m \<notin> mc_id ` set (merchants n)))
                    (DbExn ForeignKeyViolation)) (\<lambda>_.
         bind_op (writes (\<lambda>n. n\<lparr>norms := norms n @ [row]\<rparr>)) (\<lambda>_.
         ret_op row)))))"

text \<open>The newest normalization of a raw row (\<open>LEFT JOIN LATERAL ... ORDER BY version DESC LIMIT 1\<close>).\<close>

definition newest_norm :: "string \<Rightarrow> norm_tables \<Rightarrow> norm_row option" where
  "newest_norm raw n =
     (case sort_key (\<lambda>r. - n_version r) (filter (\<lambda>r. n_raw r = raw) (norms n)) of
        [] \<Rightarrow> None
      | r # _ \<Rightarrow> Some r)"

text \<open>\<open>split_part(name, ':', 2)\<close>.\<close>

definition ledger_category :: "string \<Rightarrow> string" where
  "ledger_category name = (case split_on (CHR '':'') name of _ # c # _ \<Rightarrow> c | _ \<Rightarrow> [])"

definition expense_categories :: "ledger_tables \<Rightarrow> string \<Rightarrow> string list" where
  "expense_categories l txn =
     concat (map (\<lambda>e. map (\<lambda>a. ledger_category (a_name a))
                        (filter (\<lambda>a. a_id a = e_account e \<and> a_type a = EXPENSE) (accounts l)))
       (filter (\<lambda>e. e_txn e = txn) (entries l)))"

record listed_row =
  lr_txn :: txn_row
  lr_merchant :: "string option"
  lr_confidence :: "real option"
  lr_descriptor :: "string option"
  lr_category :: "string option"

text \<open>One output row per raw transaction of the posting, or one without.\<close>

definition listed_rows :: "ledger_tables \<Rightarrow> norm_tables \<Rightarrow> txn_row \<Rightarrow> listed_row list" where
  "listed_rows l n t =
     (let booked = (case expense_categories l (t_id t) of [] \<Rightarrow> None | c # _ \<Rightarrow> Some c) in
      case filter (\<lambda>r. rw_txn r = Some (t_id t)) (raws n) of
        [] \<Rightarrow> [\<lparr>lr_txn = t, lr_merchant = None, lr_confidence = None, lr_descriptor = None,
               lr_category = booked\<rparr>]
      | rs \<Rightarrow> map (\<lambda>r.
               let norm = newest_norm (rw_id r) n in
               \<lparr>lr_txn = t,
                lr_merchant = (case norm of None \<Rightarrow> None | Some x \<Rightarrow> n_name x),
                lr_confidence = (case norm of None \<Rightarrow> None | Some x \<Rightarrow> n_confidence x),
                lr_descriptor = Some (rw_descriptor r), lr_category = booked\<rparr>) rs)"

definition given :: "string option \<Rightarrow> (string \<Rightarrow> bool) \<Rightarrow> bool" where
  "given v P = (case v of None \<Rightarrow> True | Some x \<Rightarrow> x = [] \<or> P x)"

definition txn_list ::
  "string \<Rightarrow> api_mode \<Rightarrow> string option \<Rightarrow> string option \<Rightarrow> string option \<Rightarrow> nat
   \<Rightarrow> ledger_tables \<Rightarrow> norm_tables \<Rightarrow> listed_row list" where
  "txn_list tenant mode acct category after limit l n =
     take limit (rev (sort_key (\<lambda>r. t_id (lr_txn r))
       (concat (map (listed_rows l n)
          (filter (\<lambda>t. t_tenant t = tenant \<and> t_mode t = mode
             \<and> given after (\<lambda>a. t_id t < a)
             \<and> given acct (\<lambda>a. \<exists>e \<in> set (entries l). e_txn e = t_id t \<and> e_account e = a)
             \<and> given category (\<lambda>c. c \<in> set (expense_categories l (t_id t)))) (transactions l))))))"

record category_row =
  cg_category :: string
  cg_spend :: int
  cg_txns :: nat
  cg_unresolved :: nat

definition microseconds_per_day :: int where
  "microseconds_per_day = 24 * 60 * 60 * 1000000"

text \<open>The joined rows: category, signed amount, whether a raw row is there without a merchant.\<close>

definition spend_rows ::
  "int \<Rightarrow> string \<Rightarrow> api_mode \<Rightarrow> string option \<Rightarrow> int \<Rightarrow> ledger_tables \<Rightarrow> norm_tables
   \<Rightarrow> (string \<times> int \<times> bool) list" where
  "spend_rows now tenant mode acct days l n =
     concat (map (\<lambda>e. concat (map (\<lambda>a.
         let c = ledger_category (a_name a); v = signed_minor DEBIT e in
         case filter (\<lambda>r. rw_txn r = Some (e_txn e)) (raws n) of
           [] \<Rightarrow> [(c, v, False)]
         | rs \<Rightarrow> map (\<lambda>r. (c, v, case newest_norm (rw_id r) n of
                                   None \<Rightarrow> True | Some x \<Rightarrow> n_merchant x = None)) rs)
       (filter (\<lambda>a. a_id a = e_account e \<and> a_tenant a = tenant \<and> a_mode a = mode \<and> a_type a = EXPENSE
                  \<and> a_name a \<noteq> ''Expenses:Investment Losses'') (accounts l))))
     (filter (\<lambda>e. now - days * microseconds_per_day < e_effective e
        \<and> given acct (\<lambda>i. \<exists>f \<in> set (entries l). e_txn f = e_txn e \<and> e_account f = i)) (entries l)))"

definition spend_by_category ::
  "int \<Rightarrow> string \<Rightarrow> api_mode \<Rightarrow> string option \<Rightarrow> int \<Rightarrow> ledger_tables \<Rightarrow> norm_tables
   \<Rightarrow> exn + category_row list" where
  "spend_by_category now tenant mode acct days l n =
     (let rows = spend_rows now tenant mode acct days l n;
          total = (\<lambda>c. \<Sum>r \<leftarrow> filter (\<lambda>r. fst r = c) rows. fst (snd r)) in
      bind_r (map_r (\<lambda>c. bind_r (to_bigint (total c)) (\<lambda>s.
          Inr \<lparr>cg_category = c, cg_spend = s,
               cg_txns = length (filter (\<lambda>r. fst r = c) rows),
               cg_unresolved = length (filter (\<lambda>r. fst r = c \<and> snd (snd r)) rows)\<rparr>))
        (filter (\<lambda>c. 0 < total c) (remdups (map fst rows)))) (\<lambda>out.
      Inr (sort_key (\<lambda>r. - cg_spend r) out)))"

text \<open>Cumulative spend per category and bucket, inside the window.\<close>

definition spending_history ::
  "string \<Rightarrow> api_mode \<Rightarrow> int \<Rightarrow> int \<Rightarrow> nat \<Rightarrow> ledger_tables \<Rightarrow> exn + (string \<times> int \<times> int) list" where
  "spending_history tenant mode start end points l =
     (let as = filter (\<lambda>a. a_tenant a = tenant \<and> a_mode a = mode \<and> a_type a = EXPENSE
                         \<and> a_name a \<noteq> ''Expenses:Investment Losses'') (accounts l) in
      bind_r (map_r (\<lambda>(c, t).
         bind_r (to_bigint (sum_signed DEBIT
           (filter (\<lambda>e. e_effective e \<le> t \<and> start < e_effective e
              \<and> e_account e \<in> a_id ` set (filter (\<lambda>a. ledger_category (a_name a) = c) as)) (entries l)))) (\<lambda>s.
         Inr (c, t, s)))
        (List.product (remdups (map (\<lambda>a. ledger_category (a_name a)) as)) (buckets start end (max 2 points))))
        (\<lambda>rows. Inr (sort_key (\<lambda>r. (fst r, fst (snd r))) rows)))"

record diff_row =
  df_descriptor :: string
  df_left :: "string option \<times> real option"
  df_right :: "string option \<times> real option"

definition version_diff :: "int \<Rightarrow> int \<Rightarrow> norm_tables \<Rightarrow> diff_row list" where
  "version_diff left right n =
     concat (map (\<lambda>x. concat (map (\<lambda>y. map (\<lambda>r.
         \<lparr>df_descriptor = rw_descriptor r, df_left = (n_name x, n_confidence x),
          df_right = (n_name y, n_confidence y)\<rparr>)
         (filter (\<lambda>r. rw_id r = n_raw x) (raws n)))
       (filter (\<lambda>y. n_raw y = n_raw x \<and> n_version y = right \<and> n_merchant x \<noteq> n_merchant y) (norms n))))
     (filter (\<lambda>x. n_version x = left) (norms n)))"

section \<open>What the statements keep\<close>

definition norm_ok :: "norm_tables \<Rightarrow> bool" where
  "norm_ok n \<longleftrightarrow> distinct (map rw_id (raws n)) \<and> distinct (map (\<lambda>r. (n_raw r, n_version r)) (norms n))
     \<and> (\<forall>r \<in> set (norms n). case n_confidence r of None \<Rightarrow> True | Some c \<Rightarrow> 0 \<le> c \<and> c \<le> 1)"

lemma insert_raw_Inr:
  assumes "insert_raw l now i tenant mode acct txn payload descriptor amount cur occurred n = (Inr row, n')"
  shows "row = \<lparr>rw_id = i, rw_tenant = tenant, rw_mode = mode, rw_account = acct, rw_txn = txn,
                rw_payload = payload, rw_descriptor = descriptor, rw_amount = amount,
                rw_currency = cur, rw_occurred = occurred, rw_received = now\<rparr>"
    "n' = n\<lparr>raws := raws n @ [row]\<rparr>" "i \<notin> rw_id ` set (raws n)"
  using assms unfolding insert_raw_def Let_def by (auto simp: result_simps simp del: op_run)

end
