(* ===== verification/Features.thy ===== *)
theory Features
  imports Ledger_Store Repo_Normalization
begin

text \<open>
  \<open>config.py\<close>, \<open>features/windows.py\<close>, \<open>features/compute.py\<close> and the risk statements of
  \<open>adapters/repositories.py\<close> (\<open>RiskRepository\<close>) that feed them. Times are microseconds; the
  database's \<open>float8\<close> values are real numbers, so the standard deviation is exact.
\<close>

section \<open>Settings\<close>

definition idempotency_ttl_hours :: int where "idempotency_ttl_hours = 24"
definition idempotency_lease_seconds :: int where "idempotency_lease_seconds = 30"
definition webhook_backoff_seconds :: "int list" where
  "webhook_backoff_seconds = [60, 300, 1800, 7200, 21600, 86400]"
definition consumer_max_attempts :: nat where "consumer_max_attempts = 3"
definition consumer_batch_size :: nat where "consumer_batch_size = 200"
definition watermark_seconds :: int where "watermark_seconds = 7200"

definition seconds :: "int \<Rightarrow> int" where "seconds n = n * 1000000"

section \<open>Windows\<close>

record window_spec =
  w_name :: string
  w_duration :: int
  w_slide :: "int option"

definition window_bounds :: "window_spec \<Rightarrow> int \<Rightarrow> int \<times> int" where
  "window_bounds w t = (t - w_duration w, t)"

definition SPEND_1H :: window_spec where
  "SPEND_1H = \<lparr>w_name = ''spend_1h'', w_duration = seconds 3600, w_slide = Some (seconds 300)\<rparr>"

definition SPEND_24H :: window_spec where
  "SPEND_24H = \<lparr>w_name = ''spend_24h'', w_duration = seconds 86400, w_slide = Some (seconds 1800)\<rparr>"

definition MERCHANTS_7D :: window_spec where
  "MERCHANTS_7D = \<lparr>w_name = ''distinct_merchants_7d'', w_duration = seconds 604800, w_slide = Some (seconds 3600)\<rparr>"

definition BASELINE_90D :: window_spec where
  "BASELINE_90D = \<lparr>w_name = ''baseline_90d'', w_duration = seconds 7776000, w_slide = None\<rparr>"

definition WATERMARK :: int where "WATERMARK = seconds watermark_seconds"

definition watermark_for :: "int \<Rightarrow> int" where
  "watermark_for max_event_time = max_event_time - WATERMARK"

text \<open>\<open>spark_window\<close>: the duration as Spark spells it, in the coarsest unit that divides it.\<close>

definition fmt_duration :: "int \<Rightarrow> string" where
  "fmt_duration td =
     (let total = (if td < 0 then - ((- td) div 1000000) else td div 1000000) in
      if total mod 86400 = 0 then show_int (total div 86400) @ '' days''
      else if total mod 3600 = 0 then show_int (total div 3600) @ '' hours''
      else show_int (total div 60) @ '' minutes'')"

definition spark_window :: "window_spec \<Rightarrow> string \<times> string option" where
  "spark_window w =
     (fmt_duration (w_duration w),
      case w_slide w of None \<Rightarrow> None | Some s \<Rightarrow> if s = 0 then None else Some (fmt_duration s))"

section \<open>RiskRepository\<close>

datatype signal_action = FLAG | BLOCK

record signal_row =
  fs_id :: string
  fs_tenant :: string
  fs_account :: string
  fs_txn :: "string option"
  fs_rule :: string
  fs_score :: real
  fs_features :: json
  fs_at :: int
  fs_action :: signal_action
  fs_amount :: "int option"
  fs_reason :: "string option"

record late_row =
  la_event :: string
  la_account :: string
  la_effective :: int
  la_watermark :: int
  la_lateness :: int

record feature_row =
  ft_account :: string
  ft_window_end :: int
  ft_spend_1h :: int
  ft_spend_24h :: int
  ft_txn_count_1h :: int
  ft_max_1h :: int
  ft_distinct_7d :: int
  ft_avg_90d :: int
  ft_stddev_90d :: real
  ft_computed :: int

record risk_tables =
  signals :: "signal_row list"
  late_arrivals :: "late_row list"
  account_features :: "feature_row list"

text \<open>Outflows of an account in a half-open window of business time: credits on the account.\<close>

definition outflows :: "string \<Rightarrow> int \<Rightarrow> int \<Rightarrow> ledger_tables \<Rightarrow> int list" where
  "outflows acct from till l =
     map e_amount (filter (\<lambda>e. e_account e = acct \<and> e_direction e = CREDIT
                             \<and> from < e_effective e \<and> e_effective e \<le> till) (entries l))"

definition max_or_zero :: "int list \<Rightarrow> int" where
  "max_or_zero xs = (case xs of [] \<Rightarrow> 0 | x # ys \<Rightarrow> foldl max x ys)"

record spend_view =
  sv_spend :: int
  sv_count :: int
  sv_max :: int

definition spend_window :: "string \<Rightarrow> int \<Rightarrow> int \<Rightarrow> ledger_tables \<Rightarrow> exn + spend_view" where
  "spend_window acct start end l =
     (let xs = outflows acct start end l in
      bind_r (to_bigint (sum_list xs)) (\<lambda>s.
      Inr \<lparr>sv_spend = s, sv_count = int (length xs), sv_max = max_or_zero xs\<rparr>))"

definition velocity_probe :: "string \<Rightarrow> int \<Rightarrow> ledger_tables \<Rightarrow> int \<times> int" where
  "velocity_probe acct tm l =
     (let xs = outflows acct (tm - seconds 3600) tm l in (int (length xs), max_or_zero xs))"

definition mean :: "int list \<Rightarrow> real" where
  "mean xs = (if xs = [] then 0 else of_int (sum_list xs) / of_nat (length xs))"

definition stddev_pop :: "int list \<Rightarrow> real" where
  "stddev_pop xs =
     (if xs = [] then 0
      else sqrt ((\<Sum>x \<leftarrow> xs. (of_int x - mean xs)\<^sup>2) / of_nat (length xs)))"

definition baseline :: "string \<Rightarrow> int \<Rightarrow> int \<Rightarrow> ledger_tables \<Rightarrow> real \<times> real \<times> nat" where
  "baseline acct end days l =
     (let xs = outflows acct (end - days * microseconds_per_day) end l in
      (mean xs, stddev_pop xs, length xs))"

text \<open>The account's normalized transactions up to \<open>end\<close>, with the time of their raw row.\<close>

definition seen_merchants :: "string \<Rightarrow> int \<Rightarrow> norm_tables \<Rightarrow> (string option \<times> int) list" where
  "seen_merchants acct end n =
     concat (map (\<lambda>x. map (\<lambda>r. (n_merchant x, rw_occurred r))
                        (filter (\<lambda>r. rw_id r = n_raw x \<and> rw_occurred r \<le> end) (raws n)))
       (filter (\<lambda>x. n_account x = acct) (norms n)))"

definition merchant_stats :: "string \<Rightarrow> string option \<Rightarrow> int \<Rightarrow> norm_tables \<Rightarrow> nat \<times> nat" where
  "merchant_stats acct merchant end n =
     (let seen = seen_merchants acct end n in
      (case merchant of None \<Rightarrow> 0 | Some m \<Rightarrow> length (filter (\<lambda>p. fst p = Some m) seen),
       card (set (filter (\<lambda>m. m \<noteq> None)
         (map fst (filter (\<lambda>p. end - 7 * microseconds_per_day < snd p) seen))))))"

definition insert_signal ::
  "ledger_tables \<Rightarrow> int \<Rightarrow> string \<Rightarrow> string \<Rightarrow> string \<Rightarrow> string option \<Rightarrow> string \<Rightarrow> real \<Rightarrow> json
   \<Rightarrow> signal_action \<Rightarrow> int option \<Rightarrow> string option \<Rightarrow> (risk_tables, signal_row) op" where
  "insert_signal l now i tenant acct txn rule score features action amount reason =
     bind_op (reads id) (\<lambda>k.
     let row = \<lparr>fs_id = i, fs_tenant = tenant, fs_account = acct, fs_txn = txn, fs_rule = rule,
                fs_score = score, fs_features = features, fs_at = now, fs_action = action,
                fs_amount = amount, fs_reason = reason\<rparr> in
     bind_op (guard_op (case amount of None \<Rightarrow> False | Some n \<Rightarrow> \<not> in_bigint n)
                (DbExn NumericOutOfRange)) (\<lambda>_.
     bind_op (guard_op (\<exists>s \<in> set (signals k). fs_id s = i) (DbExn UniqueViolation)) (\<lambda>_.
     bind_op (guard_op (tenant \<notin> set (tenants l) \<or> acct \<notin> a_id ` set (accounts l)
                \<or> (case txn of None \<Rightarrow> False | Some t \<Rightarrow> t \<notin> t_id ` set (transactions l)))
                (DbExn ForeignKeyViolation)) (\<lambda>_.
     bind_op (writes (\<lambda>k. k\<lparr>signals := signals k @ [row]\<rparr>)) (\<lambda>_.
     ret_op row)))))"

text \<open>\<open>record_decline\<close>: a blocked attempt has no transaction.\<close>

definition decline_insert ::
  "ledger_tables \<Rightarrow> int \<Rightarrow> string \<Rightarrow> string \<Rightarrow> string \<Rightarrow> string \<Rightarrow> real \<Rightarrow> int \<Rightarrow> string \<Rightarrow> json
   \<Rightarrow> (risk_tables, unit) op" where
  "decline_insert l now i tenant acct rule score amount reason features =
     bind_op (insert_signal l now i tenant acct None rule score features BLOCK (Some amount) (Some reason))
       (\<lambda>_. ret_op ())"

definition record_late_arrival ::
  "string \<Rightarrow> string \<Rightarrow> int \<Rightarrow> int \<Rightarrow> (risk_tables, unit) op" where
  "record_late_arrival event acct effective watermark =
     writes (\<lambda>k. k\<lparr>late_arrivals := late_arrivals k @
       [\<lparr>la_event = event, la_account = acct, la_effective = effective, la_watermark = watermark,
         la_lateness = watermark - effective\<rparr>]\<rparr>)"

definition upsert_features :: "ledger_tables \<Rightarrow> feature_row \<Rightarrow> (risk_tables, unit) op" where
  "upsert_features l row =
     bind_op (guard_op (ft_account row \<notin> a_id ` set (accounts l)) (DbExn ForeignKeyViolation)) (\<lambda>_.
     writes (\<lambda>k. k\<lparr>account_features :=
       (if \<exists>f \<in> set (account_features k). ft_account f = ft_account row \<and> ft_window_end f = ft_window_end row
        then map (\<lambda>f. if ft_account f = ft_account row \<and> ft_window_end f = ft_window_end row
                      then row else f) (account_features k)
        else account_features k @ [row])\<rparr>))"

text \<open>Signals with the account's name, newest first.\<close>

definition list_signals ::
  "string \<Rightarrow> string option \<Rightarrow> nat \<Rightarrow> ledger_tables \<Rightarrow> risk_tables \<Rightarrow> (signal_row \<times> string) list" where
  "list_signals tenant acct limit l k =
     take limit (sort_key (\<lambda>r. - fs_at (fst r))
       (concat (map (\<lambda>s. map (\<lambda>a. (s, a_name a)) (filter (\<lambda>a. a_id a = fs_account s) (accounts l)))
          (filter (\<lambda>s. fs_tenant s = tenant \<and> given acct (\<lambda>a. fs_account s = a)) (signals k)))))"

definition list_declines :: "string \<Rightarrow> nat \<Rightarrow> ledger_tables \<Rightarrow> risk_tables \<Rightarrow> (signal_row \<times> string) list" where
  "list_declines tenant limit l k =
     take limit (sort_key (\<lambda>r. - fs_at (fst r))
       (concat (map (\<lambda>s. map (\<lambda>a. (s, a_name a)) (filter (\<lambda>a. a_id a = fs_account s) (accounts l)))
          (filter (\<lambda>s. fs_tenant s = tenant \<and> fs_action s = BLOCK) (signals k)))))"

section \<open>Features\<close>

record features =
  f_account :: string
  f_as_of :: int
  f_amount :: int
  f_spend_1h :: int
  f_spend_24h :: int
  f_txn_count_1h :: int
  f_max_amount_1h :: int
  f_distinct_merchants_7d :: int
  f_merchant_frequency :: int
  f_avg_90d :: real
  f_stddev_90d :: real

definition amount_zscore :: "features \<Rightarrow> real" where
  "amount_zscore f = (if f_stddev_90d f \<le> 0 then 0 else (of_int (f_amount f) - f_avg_90d f) / f_stddev_90d f)"

definition avg_spend_1h_90d :: "features \<Rightarrow> real" where
  "avg_spend_1h_90d f = (if 0 < f_avg_90d f then f_avg_90d f else 0)"

definition compute ::
  "string \<Rightarrow> int \<Rightarrow> int \<Rightarrow> string option \<Rightarrow> ledger_tables \<Rightarrow> norm_tables \<Rightarrow> exn + features" where
  "compute acct as_of amount merchant l n =
     (let (hs, he) = window_bounds SPEND_1H as_of; (ds, de) = window_bounds SPEND_24H as_of in
      bind_r (spend_window acct hs he l) (\<lambda>hour.
      bind_r (spend_window acct ds de l) (\<lambda>day.
      let (avg, sd, _) = baseline acct as_of 90 l; (freq, distinct7) = merchant_stats acct merchant as_of n in
      Inr \<lparr>f_account = acct, f_as_of = as_of, f_amount = amount, f_spend_1h = sv_spend hour,
           f_spend_24h = sv_spend day, f_txn_count_1h = sv_count hour, f_max_amount_1h = sv_max hour,
           f_distinct_merchants_7d = int distinct7, f_merchant_frequency = int freq,
           f_avg_90d = avg, f_stddev_90d = sd\<rparr>)))"

section \<open>Rules\<close>

record rule =
  r_name :: string
  r_score :: real
  r_description :: string
  r_predicate :: "features \<Rightarrow> bool"
  r_action :: signal_action

definition velocity_1h :: rule where
  "velocity_1h = \<lparr>r_name = ''velocity_1h'', r_score = 6 / 10,
     r_description = ''spend in the last hour far above this account'' @ [CHR 39] @ ''s own baseline'',
     r_predicate = (\<lambda>f. 0 < avg_spend_1h_90d f \<and> 5 * avg_spend_1h_90d f < of_int (f_spend_1h f)),
     r_action = FLAG\<rparr>"

definition amount_zscore_rule :: rule where
  "amount_zscore_rule = \<lparr>r_name = ''amount_zscore'', r_score = 5 / 10,
     r_description = ''a single amount far outside this account'' @ [CHR 39] @ ''s 90-day distribution'',
     r_predicate = (\<lambda>f. 0 < f_stddev_90d f \<and> 4 < amount_zscore f),
     r_action = FLAG\<rparr>"

definition novel_merchant :: rule where
  "novel_merchant = \<lparr>r_name = ''novel_merchant'', r_score = 3 / 10,
     r_description = ''a large charge at a merchant this account has never used'',
     r_predicate = (\<lambda>f. f_merchant_frequency f = 0 \<and> 20000 < f_amount f),
     r_action = FLAG\<rparr>"

definition card_testing :: rule where
  "card_testing = \<lparr>r_name = ''card_testing'', r_score = 8 / 10,
     r_description = ''many tiny charges in a short window -- the signature of a stolen card ''
       @ ''being probed for validity'',
     r_predicate = (\<lambda>f. 10 < f_txn_count_1h f \<and> f_max_amount_1h f < 500),
     r_action = FLAG\<rparr>"

definition card_testing_block :: rule where
  "card_testing_block = \<lparr>r_name = ''card_testing_block'', r_score = 95 / 100,
     r_description = ''a card-testing burst that has gone past the point of doubt: the next ''
       @ ''attempt is declined rather than flagged'',
     r_predicate = (\<lambda>f. 12 < f_txn_count_1h f \<and> f_max_amount_1h f < 500),
     r_action = BLOCK\<rparr>"

definition merchant_sprawl :: rule where
  "merchant_sprawl = \<lparr>r_name = ''merchant_sprawl'', r_score = 4 / 10,
     r_description = ''an unusual number of distinct merchants in a week'',
     r_predicate = (\<lambda>f. 25 < f_distinct_merchants_7d f),
     r_action = FLAG\<rparr>"

definition RULES :: "rule list" where
  "RULES = [velocity_1h, amount_zscore_rule, novel_merchant, card_testing, card_testing_block, merchant_sprawl]"

definition blocking :: "rule \<Rightarrow> bool" where
  "blocking r \<longleftrightarrow> r_action r = BLOCK"

text \<open>No predicate divides by zero, so \<open>Rule.evaluate\<close> is the predicate.\<close>

definition rule_evaluate :: "rule \<Rightarrow> features \<Rightarrow> bool" where
  "rule_evaluate r f = r_predicate r f"

definition rules_evaluate :: "features \<Rightarrow> rule list" where
  "rules_evaluate f = filter (\<lambda>r. rule_evaluate r f) RULES"

definition advisory :: "features \<Rightarrow> rule list" where
  "advisory f = filter (\<lambda>r. \<not> blocking r \<and> rule_evaluate r f) RULES"

definition BLOCKING :: "rule list" where
  "BLOCKING = filter blocking RULES"


lemmas rules_defs = velocity_1h_def amount_zscore_rule_def novel_merchant_def card_testing_def
  card_testing_block_def merchant_sprawl_def

lemma BLOCKING_eq: "BLOCKING = [card_testing_block]"
  by (simp add: BLOCKING_def RULES_def blocking_def rules_defs)

lemma advisory_flags: "r \<in> set (advisory f) \<Longrightarrow> r_action r = FLAG"
  by (cases "r_action r") (auto simp: advisory_def blocking_def)

section \<open>An extreme value needs company\<close>

lemma square_of_sum_le:
  "(\<Sum>x \<leftarrow> ds. x)\<^sup>2 \<le> of_nat (length ds) * (\<Sum>x \<leftarrow> ds. x\<^sup>2)" for ds :: "real list"
proof (induction ds)
  case Nil
  then show ?case by simp
next
  case (Cons a ds)
  let ?m = "of_nat (length ds) :: real" and ?s = "\<Sum>x \<leftarrow> ds. x" and ?q = "\<Sum>x \<leftarrow> ds. x\<^sup>2"
  have cross: "2 * a * ?s \<le> ?m * a\<^sup>2 + ?q"
  proof (cases "ds = []")
    case True
    then show ?thesis by simp
  next
    case False
    then have m: "0 < ?m" by simp
    have "0 \<le> (?m * a - ?s)\<^sup>2 + (?m * ?q - ?s\<^sup>2)" using Cons.IH by simp
    also have "\<dots> = ?m * (?m * a\<^sup>2 + ?q - 2 * a * ?s)" by (simp add: power2_eq_square algebra_simps)
    finally show ?thesis using m by (simp add: zero_le_mult_iff)
  qed
  have "(a + ?s)\<^sup>2 = a\<^sup>2 + 2 * a * ?s + ?s\<^sup>2" by (simp add: power2_eq_square algebra_simps)
  also have "\<dots> \<le> a\<^sup>2 + (?m * a\<^sup>2 + ?q) + ?m * ?q" using cross Cons.IH by linarith
  also have "\<dots> = (1 + ?m) * (a\<^sup>2 + ?q)" by (simp add: algebra_simps)
  finally show ?case by (simp add: add.commute)
qed

text \<open>One deviation against the sum of all squares (deviations from the mean add up to nothing).\<close>

lemma deviation_bound:
  fixes ds :: "real list"
  assumes "x \<in> set ds" "(\<Sum>y \<leftarrow> ds. y) = 0"
  shows "of_nat (length ds) * x\<^sup>2 \<le> (of_nat (length ds) - 1) * (\<Sum>y \<leftarrow> ds. y\<^sup>2)"
proof -
  from assms(1) obtain as bs where ds: "ds = as @ x # bs" by (auto dest: split_list)
  let ?o = "as @ bs"
  have "(\<Sum>y \<leftarrow> ?o. y) = - x" using assms(2) by (simp add: ds)
  with square_of_sum_le [of ?o] have "x\<^sup>2 \<le> of_nat (length ?o) * (\<Sum>y \<leftarrow> ?o. y\<^sup>2)" by simp
  moreover have "(\<Sum>y \<leftarrow> ds. y\<^sup>2) = x\<^sup>2 + (\<Sum>y \<leftarrow> ?o. y\<^sup>2)" "length ds = Suc (length ?o)" by (simp_all add: ds)
  ultimately show ?thesis by (simp add: algebra_simps)
qed

lemma deviations_cancel: "xs \<noteq> [] \<Longrightarrow> (\<Sum>x \<leftarrow> xs. of_int x - mean xs) = 0"
proof -
  assume ne: "xs \<noteq> []"
  have "(\<Sum>x \<leftarrow> ys. of_int x - c) = of_int (sum_list ys) - of_nat (length ys) * c" for ys and c :: real
    by (induction ys) (simp_all add: algebra_simps)
  with ne show ?thesis by (simp add: mean_def)
qed

lemma zscore_bound:
  assumes "x \<in> set xs" "0 < stddev_pop xs"
  shows "((of_int x - mean xs) / stddev_pop xs)\<^sup>2 \<le> of_nat (length xs) - 1"
proof -
  let ?ds = "map (\<lambda>y. of_int y - mean xs) xs" and ?n = "of_nat (length xs) :: real"
  let ?S = "\<Sum>y \<leftarrow> xs. (of_int y - mean xs)\<^sup>2"
  from assms(1) have ne: "xs \<noteq> []" and n: "0 < ?n" by (auto simp: length_pos_if_in_set)
  have "0 \<le> ?S" by (rule sum_list_nonneg) auto
  then have sd: "(stddev_pop xs)\<^sup>2 = ?S / ?n" using ne by (simp add: stddev_pop_def)
  moreover have "0 < (stddev_pop xs)\<^sup>2" using assms(2) by simp
  ultimately have S: "0 < ?S" using n by (simp add: zero_less_divide_iff)
  have "?n * (of_int x - mean xs)\<^sup>2 \<le> (?n - 1) * ?S"
    using deviation_bound [of "of_int x - mean xs" ?ds] assms(1) deviations_cancel [OF ne]
    by (simp add: comp_def)
  then have "?n * (of_int x - mean xs)\<^sup>2 / ?S \<le> ?n - 1" using S by (simp add: pos_divide_le_eq)
  then show ?thesis by (simp add: power_divide sd field_simps)
qed


section \<open>Properties\<close>

lemma compute_Inr:
  "compute acct t amount merchant l n = Inr f \<Longrightarrow>
   f_amount f = amount \<and> f_avg_90d f = mean (outflows acct (t - 90 * microseconds_per_day) t l)
   \<and> f_stddev_90d f = stddev_pop (outflows acct (t - 90 * microseconds_per_day) t l)
   \<and> f_txn_count_1h f = int (length (outflows acct (t - seconds 3600) t l))
   \<and> f_max_amount_1h f = max_or_zero (outflows acct (t - seconds 3600) t l)"
  by (cases "merchant_stats acct merchant t n")
    (auto simp: compute_def window_bounds_def SPEND_1H_def spend_window_def baseline_def
      Let_def result_simps)

text \<open>
  C18. Features are point in time: whatever entries with a later business time have been posted, and
  whatever merchants have been resolved for later transactions, the features of an event computed
  as of its own time are the same values. Replaying an old event after new history is harmless.
\<close>

theorem features_are_point_in_time:
  assumes "entries l' = entries l @ es" "\<forall>e \<in> set es. as_of < e_effective e"
    "raws n' = raws n @ rs" "\<forall>r \<in> set rs. as_of < rw_occurred r"
    "norms n' = norms n @ ns" "\<forall>x \<in> set ns. \<forall>r \<in> set (raws n'). rw_id r = n_raw x \<longrightarrow> as_of < rw_occurred r"
  shows "compute acct as_of amount merchant l' n' = compute acct as_of amount merchant l n"
proof -
  have out: "outflows acct b as_of l' = outflows acct b as_of l" for b
    using assms(1,2) by (auto simp: outflows_def filter_empty_conv)
  have same: "filter (\<lambda>r. rw_id r = n_raw x \<and> rw_occurred r \<le> as_of) (raws n')
      = filter (\<lambda>r. rw_id r = n_raw x \<and> rw_occurred r \<le> as_of) (raws n)" for x
    using assms(3,4) by (auto simp: filter_empty_conv)
  have "filter (\<lambda>r. rw_id r = n_raw x \<and> rw_occurred r \<le> as_of) (raws n) = []"
    if "x \<in> set ns" for x
    using assms(3,6) that by (fastforce simp: filter_empty_conv)
  then have none: "concat (map (\<lambda>x. map (\<lambda>r. (n_merchant x, rw_occurred r))
      (filter (\<lambda>r. rw_id r = n_raw x \<and> rw_occurred r \<le> as_of) (raws n))) (filter (\<lambda>x. n_account x = acct) ns)) = []"
    by (simp add: concat_eq_Nil_conv)
  have "seen_merchants acct as_of n' = seen_merchants acct as_of n"
    unfolding seen_merchants_def assms(5) filter_append map_append concat_append same none by simp
  then have "merchant_stats acct merchant as_of n' = merchant_stats acct merchant as_of n"
    by (simp add: merchant_stats_def)
  with out show ?thesis
    by (simp add: compute_def window_bounds_def spend_window_def baseline_def)
qed

text \<open>
  The outlier rule cannot fire on a thin history, although nothing in it counts samples: when it
  fires for a charge that is on the ledger, the account has at least eighteen charges in the 90-day
  window, since a value of a population of \<open>n\<close> lies within \<open>sqrt (n - 1)\<close> deviations of the mean.
\<close>

theorem outlier_needs_eighteen_samples:
  assumes "compute acct t amount merchant l n = Inr f"
    "amount \<in> set (outflows acct (t - 90 * microseconds_per_day) t l)"
    "amount_zscore_rule \<in> set (rules_evaluate f)"
  shows "18 \<le> length (outflows acct (t - 90 * microseconds_per_day) t l)"
proof -
  let ?xs = "outflows acct (t - 90 * microseconds_per_day) t l"
  note f = compute_Inr [OF assms(1)]
  have fires: "0 < stddev_pop ?xs" "4 < (of_int amount - mean ?xs) / stddev_pop ?xs"
    using assms(3) f
    by (auto simp: rules_evaluate_def rule_evaluate_def amount_zscore_rule_def amount_zscore_def)
  have "16 < ((of_int amount - mean ?xs) / stddev_pop ?xs)\<^sup>2"
    using power_strict_mono [OF fires(2), of 2] by simp
  also have "\<dots> \<le> of_nat (length ?xs) - 1" by (rule zscore_bound [OF assms(2) fires(1)])
  finally show ?thesis by linarith
qed

text \<open>
  The worker that runs after the money moved never records a refusal: no advisory rule blocks.
  And the one blocking rule is shadowed: whenever it would decline, the advisory rule flags too.
\<close>

theorem blocking_is_shadowed:
  "(\<forall>r \<in> set (advisory f). \<not> blocking r)
   \<and> ((\<exists>r \<in> set BLOCKING. rule_evaluate r f) \<longrightarrow> card_testing \<in> set (advisory f))"
proof -
  have "card_testing \<in> set RULES" by (simp add: RULES_def)
  moreover have "\<not> blocking card_testing" by (simp add: blocking_def card_testing_def)
  moreover have "rule_evaluate card_testing_block f \<Longrightarrow> rule_evaluate card_testing f"
    by (simp add: rule_evaluate_def card_testing_block_def card_testing_def)
  ultimately show ?thesis by (auto simp: advisory_def BLOCKING_eq)
qed


section \<open>Witnesses\<close>

text \<open>Seventeen charges of a dollar and one of ten, an hour apart from none.\<close>

definition charge :: "nat \<Rightarrow> int \<Rightarrow> entry_row" where
  "charge n amount =
     \<lparr>e_id = n, e_txn = ''txn'', e_account = ''acct_1'', e_direction = CREDIT, e_amount = amount,
      e_currency = ''usd'', e_effective = 0, e_recorded = 0\<rparr>"

definition outlier_tables :: ledger_tables where
  "outlier_tables = \<lparr>tenants = [], accounts = [], transactions = [],
     entries = map (\<lambda>n. charge n 100) [1 ..< 18] @ [charge 18 1000], snapshots = [], entry_seq = 19\<rparr>"

definition no_norms :: norm_tables where
  "no_norms = \<lparr>raws = [], merchants = [], aliases = [], norms = []\<rparr>"

lemma outlier_outflows:
  "start < 0 \<Longrightarrow> outflows ''acct_1'' start 0 outlier_tables = replicate 17 100 @ [1000]"
  by (simp add: outflows_def outlier_tables_def charge_def numeral_eq_Suc upt_rec)

lemma outlier_stddev: "stddev_pop (replicate 17 100 @ [1000]) = sqrt 42500"
  by (simp add: stddev_pop_def mean_def sum_list_replicate power2_eq_square)

theorem outlier_needs_eighteen_samples_witness:
  "\<exists>f. compute ''acct_1'' 0 1000 None outlier_tables no_norms = Inr f
     \<and> amount_zscore_rule \<in> set (rules_evaluate f)
     \<and> length (outflows ''acct_1'' (- 90 * microseconds_per_day) 0 outlier_tables) = 18
     \<and> 18 \<le> length (outflows ''acct_1'' (0 - 90 * microseconds_per_day) 0 outlier_tables)"
proof -
  have neg: "- seconds 3600 < 0" "- seconds 86400 < 0" "- (90 * microseconds_per_day) < 0"
    by (simp_all add: seconds_def microseconds_per_day_def)
  obtain f where f: "compute ''acct_1'' 0 1000 None outlier_tables no_norms = Inr f"
    using neg by (simp add: compute_def window_bounds_def SPEND_1H_def SPEND_24H_def spend_window_def
        outlier_outflows to_bigint_def in_bigint_def sum_list_replicate split_beta)
  note fs = compute_Inr [OF f]
  have sd: "f_stddev_90d f = sqrt 42500" and avg: "f_avg_90d f = 150" and am: "f_amount f = 1000"
    using fs neg by (simp_all add: outlier_outflows outlier_stddev mean_def sum_list_replicate)
  have "sqrt 42500 < 212" by (rule real_less_lsqrt) simp_all
  then have "4 < 850 / sqrt 42500" by (simp add: pos_less_divide_eq)
  then have fires: "amount_zscore_rule \<in> set (rules_evaluate f)"
    by (simp add: rules_evaluate_def RULES_def rule_evaluate_def amount_zscore_rule_def
        amount_zscore_def sd avg am)
  have mem: "1000 \<in> set (outflows ''acct_1'' (0 - 90 * microseconds_per_day) 0 outlier_tables)"
    using neg by (simp add: outlier_outflows)
  show ?thesis
    using f fires outlier_needs_eighteen_samples [OF f mem fires] neg
    by (auto simp: outlier_outflows)
qed

theorem features_are_point_in_time_witness:
  "compute ''acct_1'' 5 450 None (demo_tables\<lparr>entries := entries demo_tables @ [charge 3 900\<lparr>e_effective := 6\<rparr>]\<rparr>) no_norms
     = compute ''acct_1'' 5 450 None demo_tables no_norms
   \<and> outflows ''acct_1'' 0 9 (demo_tables\<lparr>entries := entries demo_tables @ [charge 3 900\<lparr>e_effective := 6\<rparr>]\<rparr>)
     = [450, 900]"
proof -
  let ?l = "demo_tables\<lparr>entries := entries demo_tables @ [charge 3 900\<lparr>e_effective := 6\<rparr>]\<rparr>"
  have "compute ''acct_1'' 5 450 None ?l no_norms = compute ''acct_1'' 5 450 None demo_tables no_norms"
    by (rule features_are_point_in_time [of _ _ "[charge 3 900\<lparr>e_effective := 6\<rparr>]" _ _ _ "[]" "[]"])
      (simp_all add: charge_def)
  then show ?thesis by (simp add: outflows_def demo_tables_def charge_def)
qed

theorem blocking_is_shadowed_witness:
  "\<exists>f. f_txn_count_1h f = 13 \<and> rule_evaluate card_testing_block f \<and> card_testing \<in> set (advisory f)"
proof -
  let ?f = "\<lparr>f_account = ''a'', f_as_of = 0, f_amount = 100, f_spend_1h = 0, f_spend_24h = 0,
    f_txn_count_1h = 13, f_max_amount_1h = 120, f_distinct_merchants_7d = 0, f_merchant_frequency = 1,
    f_avg_90d = 0, f_stddev_90d = 0\<rparr>"
  have fires: "rule_evaluate card_testing_block ?f" by (simp add: rule_evaluate_def card_testing_block_def)
  then have "card_testing \<in> set (advisory ?f)"
    using blocking_is_shadowed [of ?f] by (auto simp: BLOCKING_eq)
  with fires show ?thesis by (intro exI [of _ ?f]) simp
qed

end
