(* ===== verification/Repo_Webhooks.thy ===== *)
theory Repo_Webhooks
  imports Features
begin

text \<open>
  \<open>WebhookRepository\<close> and \<open>IdempotencyRepository\<close> of \<open>adapters/repositories.py\<close>, over the tables
  of \<open>migrations/001_core.sql\<close>.
\<close>

section \<open>WebhookRepository\<close>

datatype delivery_status = PENDING | SUCCEEDED | FAILED | EXHAUSTED

record endpoint_row =
  we_id :: string
  we_tenant :: string
  we_mode :: api_mode
  we_url :: string
  we_secret_hash :: string
  we_events :: "string list"
  we_enabled :: bool
  we_created :: int

record delivery_row =
  wd_id :: string
  wd_endpoint :: string
  wd_event :: string
  wd_attempt :: nat
  wd_status :: delivery_status
  wd_code :: "int option"
  wd_body :: "string option"
  wd_error :: "string option"
  wd_next :: "int option"
  wd_created :: int
  wd_completed :: "int option"

record hook_tables =
  endpoints :: "endpoint_row list"
  deliveries :: "delivery_row list"

definition create_endpoint ::
  "string list \<Rightarrow> int \<Rightarrow> string \<Rightarrow> string \<Rightarrow> api_mode \<Rightarrow> string \<Rightarrow> string \<Rightarrow> string list
   \<Rightarrow> (hook_tables, endpoint_row) op" where
  "create_endpoint known_tenants now i tenant mode url hash events =
     bind_op (reads id) (\<lambda>h.
     let row = \<lparr>we_id = i, we_tenant = tenant, we_mode = mode, we_url = url, we_secret_hash = hash,
                we_events = events, we_enabled = True, we_created = now\<rparr> in
     bind_op (guard_op (\<exists>w \<in> set (endpoints h). we_id w = i) (DbExn UniqueViolation)) (\<lambda>_.
     bind_op (guard_op (tenant \<notin> set known_tenants) (DbExn ForeignKeyViolation)) (\<lambda>_.
     bind_op (writes (\<lambda>h. h\<lparr>endpoints := endpoints h @ [row]\<rparr>)) (\<lambda>_.
     ret_op row))))"

definition endpoints_for :: "string \<Rightarrow> api_mode \<Rightarrow> string \<Rightarrow> hook_tables \<Rightarrow> endpoint_row list" where
  "endpoints_for tenant mode ty h =
     filter (\<lambda>w. we_tenant w = tenant \<and> we_mode w = mode \<and> we_enabled w
               \<and> (ty \<in> set (we_events w) \<or> ''*'' \<in> set (we_events w))) (endpoints h)"

definition get_endpoint :: "string \<Rightarrow> hook_tables \<Rightarrow> endpoint_row option" where
  "get_endpoint i h = List.find (\<lambda>w. we_id w = i) (endpoints h)"

definition delivery_enqueue :: "int \<Rightarrow> string \<Rightarrow> string \<Rightarrow> string \<Rightarrow> (hook_tables, delivery_row) op" where
  "delivery_enqueue now i endpoint event =
     bind_op (reads id) (\<lambda>h.
     let row = \<lparr>wd_id = i, wd_endpoint = endpoint, wd_event = event, wd_attempt = 0,
                wd_status = PENDING, wd_code = None, wd_body = None, wd_error = None,
                wd_next = Some now, wd_created = now, wd_completed = None\<rparr> in
     bind_op (guard_op (\<exists>d \<in> set (deliveries h). wd_id d = i) (DbExn UniqueViolation)) (\<lambda>_.
     bind_op (guard_op (endpoint \<notin> we_id ` set (endpoints h)) (DbExn ForeignKeyViolation)) (\<lambda>_.
     bind_op (writes (\<lambda>h. h\<lparr>deliveries := deliveries h @ [row]\<rparr>)) (\<lambda>_.
     ret_op row))))"

text \<open>Due deliveries joined with their endpoint, oldest due first; \<open>locked\<close> as in the outbox.\<close>

definition claim_due :: "string set \<Rightarrow> int \<Rightarrow> nat \<Rightarrow> hook_tables \<Rightarrow> (delivery_row \<times> endpoint_row) list" where
  "claim_due locked now limit h =
     take limit (filter (\<lambda>(d, _). wd_id d \<notin> locked)
       (sort_key (\<lambda>(d, _). case wd_next d of None \<Rightarrow> 0 | Some t \<Rightarrow> t)
         (concat (map (\<lambda>d. map (\<lambda>w. (d, w)) (filter (\<lambda>w. we_id w = wd_endpoint d) (endpoints h)))
            (filter (\<lambda>d. wd_status d = PENDING \<and> (case wd_next d of None \<Rightarrow> False | Some t \<Rightarrow> t \<le> now))
               (deliveries h))))))"

definition record_attempt ::
  "int \<Rightarrow> string \<Rightarrow> nat \<Rightarrow> delivery_status \<Rightarrow> int option \<Rightarrow> string option \<Rightarrow> string option
   \<Rightarrow> int option \<Rightarrow> (hook_tables, unit) op" where
  "record_attempt now i attempt status code body error next_seconds =
     writes (\<lambda>h. h\<lparr>deliveries := map (\<lambda>d. if wd_id d = i then
        d\<lparr>wd_attempt := attempt, wd_status := status, wd_code := code,
          wd_body := map_option (take 2000) body, wd_error := map_option (take 2000) error,
          wd_next := map_option (\<lambda>s. now + seconds s) next_seconds,
          wd_completed := (if status = SUCCEEDED \<or> status = EXHAUSTED then Some now else None)\<rparr>
        else d) (deliveries h)\<rparr>)"

definition disable_endpoint :: "string \<Rightarrow> (hook_tables, unit) op" where
  "disable_endpoint i =
     writes (\<lambda>h. h\<lparr>endpoints := map (\<lambda>w. if we_id w = i then w\<lparr>we_enabled := False\<rparr> else w) (endpoints h)\<rparr>)"

definition deliveries_for :: "string \<Rightarrow> nat \<Rightarrow> hook_tables \<Rightarrow> delivery_row list" where
  "deliveries_for endpoint limit h =
     take limit (sort_key (\<lambda>d. - wd_created d) (filter (\<lambda>d. wd_endpoint d = endpoint) (deliveries h)))"

definition get_delivery :: "string \<Rightarrow> hook_tables \<Rightarrow> delivery_row option" where
  "get_delivery i h = List.find (\<lambda>d. wd_id d = i) (deliveries h)"

definition delivery_retry :: "int \<Rightarrow> string \<Rightarrow> (hook_tables, delivery_row option) op" where
  "delivery_retry now i =
     bind_op (writes (\<lambda>h. h\<lparr>deliveries := map (\<lambda>d. if wd_id d = i
        then d\<lparr>wd_status := PENDING, wd_next := Some now, wd_completed := None\<rparr> else d) (deliveries h)\<rparr>)) (\<lambda>_.
     reads (get_delivery i))"

record delivery_counts =
  dc_succeeded :: nat
  dc_exhausted :: nat
  dc_pending :: nat
  dc_total :: nat

definition success_rate :: "int \<Rightarrow> hook_tables \<Rightarrow> delivery_counts" where
  "success_rate now h =
     (let recent = filter (\<lambda>d. now - microseconds_per_day < wd_created d) (deliveries h) in
      \<lparr>dc_succeeded = length (filter (\<lambda>d. wd_status d = SUCCEEDED) recent),
       dc_exhausted = length (filter (\<lambda>d. wd_status d = EXHAUSTED) recent),
       dc_pending = length (filter (\<lambda>d. wd_status d = PENDING) recent),
       dc_total = length recent\<rparr>)"

section \<open>IdempotencyRepository\<close>

datatype idem_status = IN_PROGRESS | COMPLETED

record idem_row =
  i_id :: string
  i_tenant :: string
  i_api_key :: string
  i_key :: string
  i_hash :: string
  i_status :: idem_status
  i_code :: "int option"
  i_body :: "json option"
  i_resource :: "string option"
  i_lease :: int
  i_created :: int
  i_expires :: int

type_synonym idem_tables = "idem_row list"

text \<open>\<open>ON CONFLICT (api_key_id, idempotency_key) DO NOTHING\<close>. The key's tenant and api key are the
  authenticated ones, so their foreign keys hold.\<close>

definition idem_claim ::
  "int \<Rightarrow> string \<Rightarrow> string \<Rightarrow> string \<Rightarrow> string \<Rightarrow> string \<Rightarrow> int \<Rightarrow> int \<Rightarrow> (idem_tables, idem_row option) op" where
  "idem_claim now record_id tenant api_key key hash lease ttl =
     bind_op (reads id) (\<lambda>rows.
     if \<exists>r \<in> set rows. i_api_key r = api_key \<and> i_key r = key then ret_op None
     else bind_op (guard_op (\<exists>r \<in> set rows. i_id r = record_id) (DbExn UniqueViolation)) (\<lambda>_.
       let row = \<lparr>i_id = record_id, i_tenant = tenant, i_api_key = api_key, i_key = key, i_hash = hash,
                  i_status = IN_PROGRESS, i_code = None, i_body = None, i_resource = None,
                  i_lease = now + seconds lease, i_created = now, i_expires = now + seconds (3600 * ttl)\<rparr> in
       bind_op (writes (\<lambda>rows. rows @ [row])) (\<lambda>_. ret_op (Some row))))"

definition idem_get :: "int \<Rightarrow> string \<Rightarrow> string \<Rightarrow> idem_tables \<Rightarrow> (idem_row \<times> bool) option" where
  "idem_get now api_key key rows =
     map_option (\<lambda>r. (r, i_lease r < now))
       (List.find (\<lambda>r. i_api_key r = api_key \<and> i_key r = key) rows)"

definition take_over_expired ::
  "int \<Rightarrow> string \<Rightarrow> string \<Rightarrow> string \<Rightarrow> int \<Rightarrow> (idem_tables, idem_row option) op" where
  "take_over_expired now api_key key hash lease =
     bind_op (reads (List.find (\<lambda>r. i_api_key r = api_key \<and> i_key r = key
                                  \<and> i_status r = IN_PROGRESS \<and> i_lease r < now))) (\<lambda>hit.
     case hit of
       None \<Rightarrow> ret_op None
     | Some old \<Rightarrow>
         let new = old\<lparr>i_hash := hash, i_lease := now + seconds lease\<rparr> in
         bind_op (writes (map (\<lambda>r. if i_api_key r = api_key \<and> i_key r = key
                                    \<and> i_status r = IN_PROGRESS \<and> i_lease r < now then new else r))) (\<lambda>_.
         ret_op (Some new)))"

definition idem_complete :: "string option \<Rightarrow> int \<Rightarrow> json \<Rightarrow> string option \<Rightarrow> (idem_tables, unit) op" where
  "idem_complete record_id code body resource =
     writes (map (\<lambda>r. if Some (i_id r) = record_id
        then r\<lparr>i_status := COMPLETED, i_code := Some code, i_body := Some body, i_resource := resource\<rparr>
        else r))"

definition purge_expired :: "int \<Rightarrow> (idem_tables, nat) op" where
  "purge_expired now =
     bind_op (reads (\<lambda>rows. length (filter (\<lambda>r. i_expires r < now) rows))) (\<lambda>n.
     bind_op (writes (filter (\<lambda>r. \<not> i_expires r < now))) (\<lambda>_. ret_op n))"

section \<open>One row per key\<close>

definition idem_ok :: "idem_tables \<Rightarrow> bool" where
  "idem_ok rows \<longleftrightarrow> distinct (map i_id rows) \<and> distinct (map (\<lambda>r. (i_api_key r, i_key r)) rows)"

lemma idem_claim_run [effect_simps]:
  "idem_claim now record_id tenant api_key key hash lease ttl rows = (Inr v, rows') \<Longrightarrow>
   (if \<exists>r \<in> set rows. i_api_key r = api_key \<and> i_key r = key then v = None \<and> rows' = rows
    else record_id \<notin> i_id ` set rows \<and> (\<exists>row. v = Some row \<and> rows' = rows @ [row]
      \<and> i_id row = record_id \<and> i_api_key row = api_key \<and> i_key row = key \<and> i_hash row = hash
      \<and> i_status row = IN_PROGRESS \<and> i_lease row = now + seconds lease))"
  by (auto simp: idem_claim_def Let_def result_simps image_iff simp del: op_run split: if_splits)

lemma keeps_idem_claim [keeps_intros]:
  "keeps idem_ok (idem_claim now record_id tenant api_key key hash lease ttl)"
  unfolding keeps_def
  by (auto simp: idem_claim_def Let_def bind_op_def guard_op_def idem_ok_def)

lemma idem_map_ok:
  assumes "\<And>r. i_id (f r) = i_id r \<and> i_api_key (f r) = i_api_key r \<and> i_key (f r) = i_key r"
  shows "idem_ok (map f rows) = idem_ok rows"
proof -
  have "map i_id (map f rows) = map i_id rows"
    "map (\<lambda>r. (i_api_key r, i_key r)) (map f rows) = map (\<lambda>r. (i_api_key r, i_key r)) rows"
    using assms by (induction rows) auto
  then show ?thesis by (simp add: idem_ok_def del: map_map list.map_comp)
qed

lemma keeps_idem_complete [keeps_intros]: "keeps idem_ok (idem_complete record_id code body resource)"
  unfolding idem_complete_def by (rule keeps_writes) (subst idem_map_ok, auto)

lemma keeps_purge_expired [keeps_intros]: "keeps idem_ok (purge_expired now)"
  unfolding purge_expired_def
  by (intro keeps_intros) (auto simp: idem_ok_def distinct_map_filter)

end
