(* ===== verification/Repo_Events.thy ===== *)
theory Repo_Events
  imports Repo_Ledger
begin

text \<open>
  \<open>EventRepository\<close> of \<open>adapters/repositories.py\<close>: the transactional outbox, the consumers'
  claims and the dead letters, over the tables of \<open>migrations/001_core.sql\<close>. The rows another
  relay holds locked are an argument of \<open>claim_unpublished\<close> (\<open>FOR UPDATE SKIP LOCKED\<close>).
\<close>

record outbox_row =
  o_id :: nat
  o_event :: string
  o_tenant :: string
  o_mode :: api_mode
  o_key :: string
  o_type :: string
  o_payload :: json
  o_created :: int
  o_published :: "int option"
  o_attempts :: nat

record dead_row =
  dl_id :: string
  dl_group :: string
  dl_event :: string
  dl_topic :: string
  dl_payload :: json
  dl_class :: string
  dl_detail :: string
  dl_attempts :: nat
  dl_first :: int
  dl_last :: int
  dl_resolved :: "int option"

record event_tables =
  outbox :: "outbox_row list"
  outbox_seq :: nat
  processed :: "(string \<times> string) list"  \<comment> \<open>consumer group, event id\<close>
  dead_letters :: "dead_row list"

definition append_outbox ::
  "string list \<Rightarrow> int \<Rightarrow> string \<Rightarrow> string \<Rightarrow> api_mode \<Rightarrow> string \<Rightarrow> string \<Rightarrow> json
   \<Rightarrow> (event_tables, outbox_row) op" where
  "append_outbox known_tenants now event tenant mode key ty payload =
     bind_op (reads id) (\<lambda>v.
     let row = \<lparr>o_id = outbox_seq v, o_event = event, o_tenant = tenant, o_mode = mode, o_key = key,
                o_type = ty, o_payload = payload, o_created = now, o_published = None,
                o_attempts = 0\<rparr> in
     bind_op (writes (\<lambda>v. v\<lparr>outbox_seq := outbox_seq v + 1\<rparr>)) (\<lambda>_.
     bind_op (guard_op (\<exists>o' \<in> set (outbox v). o_event o' = event) (DbExn UniqueViolation)) (\<lambda>_.
     bind_op (guard_op (tenant \<notin> set known_tenants) (DbExn ForeignKeyViolation)) (\<lambda>_.
     bind_op (writes (\<lambda>v. v\<lparr>outbox := outbox v @ [row]\<rparr>)) (\<lambda>_.
     ret_op row)))))"

definition claim_unpublished :: "nat set \<Rightarrow> nat \<Rightarrow> event_tables \<Rightarrow> outbox_row list" where
  "claim_unpublished locked limit v =
     take limit (filter (\<lambda>r. o_id r \<notin> locked)
       (sort_key o_id (filter (\<lambda>r. o_published r = None) (outbox v))))"

definition mark_published :: "int \<Rightarrow> nat list \<Rightarrow> (event_tables, unit) op" where
  "mark_published now ids =
     (if ids = [] then ret_op ()
      else writes (\<lambda>v. v\<lparr>outbox := map (\<lambda>r. if o_id r \<in> set ids
             then r\<lparr>o_published := Some now, o_attempts := o_attempts r + 1\<rparr> else r) (outbox v)\<rparr>))"

text \<open>Pending rows, and the age of the oldest in seconds.\<close>

definition outbox_lag :: "int \<Rightarrow> event_tables \<Rightarrow> nat \<times> real" where
  "outbox_lag now v =
     (let pending = filter (\<lambda>r. o_published r = None) (outbox v) in
      (length pending,
       if pending = [] then 0 else of_int (now - Min (o_created ` set pending)) / 1000000))"

definition event_get :: "string \<Rightarrow> string \<Rightarrow> api_mode \<Rightarrow> event_tables \<Rightarrow> outbox_row option" where
  "event_get event tenant mode v =
     List.find (\<lambda>r. o_event r = event \<and> o_tenant r = tenant \<and> o_mode r = mode) (outbox v)"

definition event_list ::
  "string \<Rightarrow> api_mode \<Rightarrow> string option \<Rightarrow> nat \<Rightarrow> event_tables \<Rightarrow> outbox_row list" where
  "event_list tenant mode after limit v =
     take limit (rev (sort_key o_event
       (filter (\<lambda>r. o_tenant r = tenant \<and> o_mode r = mode
                  \<and> (case after of None \<Rightarrow> True | Some a \<Rightarrow> a = [] \<or> o_event r < a)) (outbox v))))"

section \<open>The consumer side\<close>

definition claim_event :: "string \<Rightarrow> string \<Rightarrow> (event_tables, bool) op" where
  "claim_event grp event =
     bind_op (reads (\<lambda>v. (grp, event) \<in> set (processed v))) (\<lambda>taken.
     if taken then ret_op False
     else bind_op (writes (\<lambda>v. v\<lparr>processed := processed v @ [(grp, event)]\<rparr>)) (\<lambda>_. ret_op True))"

definition release_claim :: "string \<Rightarrow> string \<Rightarrow> (event_tables, unit) op" where
  "release_claim grp event =
     writes (\<lambda>v. v\<lparr>processed := filter (\<lambda>p. p \<noteq> (grp, event)) (processed v)\<rparr>)"

definition dead_letter ::
  "int \<Rightarrow> string \<Rightarrow> string \<Rightarrow> string \<Rightarrow> string \<Rightarrow> json \<Rightarrow> string \<Rightarrow> string \<Rightarrow> nat
   \<Rightarrow> (event_tables, unit) op" where
  "dead_letter now i grp event topic payload cls detail attempts =
     bind_op (reads (\<lambda>v. \<exists>d \<in> set (dead_letters v). dl_id d = i)) (\<lambda>dup.
     bind_op (guard_op dup (DbExn UniqueViolation)) (\<lambda>_.
     writes (\<lambda>v. v\<lparr>dead_letters := dead_letters v @
       [\<lparr>dl_id = i, dl_group = grp, dl_event = event, dl_topic = topic, dl_payload = payload,
         dl_class = cls, dl_detail = take 2000 detail, dl_attempts = attempts, dl_first = now,
         dl_last = now, dl_resolved = None\<rparr>]\<rparr>)))"

definition list_dead_letters :: "string option \<Rightarrow> bool \<Rightarrow> nat \<Rightarrow> event_tables \<Rightarrow> dead_row list" where
  "list_dead_letters grp unresolved limit v =
     take limit (sort_key (\<lambda>d. - dl_last d)
       (filter (\<lambda>d. (unresolved \<longrightarrow> dl_resolved d = None)
                  \<and> (case grp of None \<Rightarrow> True | Some g \<Rightarrow> g = [] \<or> dl_group d = g)) (dead_letters v)))"

definition resolve_dead_letter :: "int \<Rightarrow> string \<Rightarrow> (event_tables, dead_row option) op" where
  "resolve_dead_letter now i =
     bind_op (reads (\<lambda>v. List.find (\<lambda>d. dl_id d = i \<and> dl_resolved d = None) (dead_letters v))) (\<lambda>hit.
     case hit of
       None \<Rightarrow> ret_op None
     | Some d \<Rightarrow>
         bind_op (writes (\<lambda>v. v\<lparr>dead_letters :=
            map (\<lambda>x. if dl_id x = i \<and> dl_resolved x = None then x\<lparr>dl_resolved := Some now\<rparr> else x)
              (dead_letters v)\<rparr>)) (\<lambda>_.
         ret_op (Some (d\<lparr>dl_resolved := Some now\<rparr>))))"

definition dlq_depth :: "event_tables \<Rightarrow> nat" where
  "dlq_depth v = length (filter (\<lambda>d. dl_resolved d = None) (dead_letters v))"

section \<open>The outbox as a queue\<close>

definition outbox_ok :: "event_tables \<Rightarrow> bool" where
  "outbox_ok v \<longleftrightarrow> sorted_wrt (<) (map o_id (outbox v)) \<and> distinct (map o_event (outbox v))
     \<and> (\<forall>r \<in> set (outbox v). o_id r < outbox_seq v) \<and> distinct (processed v)"

lemma append_outbox_Inr:
  assumes "append_outbox ts now event tenant mode key ty payload v = (Inr row, v')"
  shows "row = \<lparr>o_id = outbox_seq v, o_event = event, o_tenant = tenant, o_mode = mode, o_key = key,
                o_type = ty, o_payload = payload, o_created = now, o_published = None, o_attempts = 0\<rparr>"
    "v' = v\<lparr>outbox_seq := outbox_seq v + 1, outbox := outbox v @ [row]\<rparr>"
    "event \<notin> o_event ` set (outbox v)"
  using assms unfolding append_outbox_def Let_def by (auto simp: result_simps simp del: op_run)

lemma append_outbox_Inl:
  "append_outbox ts now event tenant mode key ty payload v = (Inl e, v') \<Longrightarrow>
   v' = v\<lparr>outbox_seq := outbox_seq v + 1\<rparr>"
  unfolding append_outbox_def Let_def by (auto simp: result_simps simp del: op_run)

lemma keeps_append_outbox [keeps_intros]:
  "keeps outbox_ok (append_outbox ts now event tenant mode key ty payload)"
proof (rule keepsI)
  fix v r v'
  assume ok: "outbox_ok v" and run: "append_outbox ts now event tenant mode key ty payload v = (r, v')"
  show "outbox_ok v'"
  proof (cases r)
    case (Inl e)
    with run append_outbox_Inl have "v' = v\<lparr>outbox_seq := outbox_seq v + 1\<rparr>" by blast
    with ok show ?thesis by (auto simp: outbox_ok_def)
  next
    case (Inr row)
    note run = append_outbox_Inr [OF run [unfolded Inr]]
    show ?thesis unfolding run(2) using ok run(1,3)
      by (auto simp: outbox_ok_def sorted_wrt_append less_Suc_eq)
  qed
qed

lemma map_mark:
  assumes "\<And>r. g (h r) = g r"
  shows "map g (map (\<lambda>r. if P r then h r else r) rs) = map g rs"
  using assms by (induction rs) auto

lemma keeps_mark_published [keeps_intros]: "keeps outbox_ok (mark_published now ids)"
proof -
  have "outbox_ok (v\<lparr>outbox := map (\<lambda>r. if P r then r\<lparr>o_published := p, o_attempts := o_attempts r + 1\<rparr> else r) (outbox v)\<rparr>)"
    if "outbox_ok v" for v p P
  proof -
    let ?h = "\<lambda>r :: outbox_row. r\<lparr>o_published := p, o_attempts := o_attempts r + 1\<rparr>"
    have "map o_id (map (\<lambda>r. if P r then ?h r else r) (outbox v)) = map o_id (outbox v)"
      "map o_event (map (\<lambda>r. if P r then ?h r else r) (outbox v)) = map o_event (outbox v)"
      by (rule map_mark, simp)+
    moreover have "\<forall>r \<in> set (map (\<lambda>r. if P r then ?h r else r) (outbox v)). o_id r < outbox_seq v"
      using that by (auto simp: outbox_ok_def)
    ultimately show ?thesis using that by (simp add: outbox_ok_def del: set_map list.map_comp map_map)
  qed
  then show ?thesis unfolding mark_published_def by (auto intro!: keeps_intros)
qed

lemma keeps_claim_event [keeps_intros]: "keeps outbox_ok (claim_event grp event)"
  unfolding keeps_def claim_event_def by (auto simp: bind_op_def outbox_ok_def)

lemma keeps_release_claim [keeps_intros]: "keeps outbox_ok (release_claim grp event)"
  unfolding release_claim_def by (rule keeps_writes) (simp add: outbox_ok_def)

lemma claim_event_iff [effect_simps]:
  "claim_event grp event v =
     (if (grp, event) \<in> set (processed v) then (Inr False, v)
      else (Inr True, v\<lparr>processed := processed v @ [(grp, event)]\<rparr>))"
  by (simp add: claim_event_def bind_op_def)

lemma outbox_sorted: "outbox_ok v \<Longrightarrow> sort_key o_id (filter P (outbox v)) = filter P (outbox v)"
  by (rule sort_key_id_if_sorted) (simp add: outbox_ok_def sorted_filter strict_sorted_imp_sorted)

end
