(* ===== verification/Event_Stream.thy ===== *)
theory Event_Stream
  imports Repo_Events
begin

text \<open>
  \<open>stream/base.py\<close> and \<open>stream/pg.py\<close>: the port every consumer depends on and its Postgres
  transport. The protocol class \<open>EventStream\<close> is the locale \<open>event_stream\<close> (an append-only log per
  topic, one offset per group and topic); the consumer-side facts are proved inside it once and
  \<open>PostgresStream\<close> is its interpretation. Every method opens its own connection, so what it does
  is committed at once, whatever transaction the caller is in.
\<close>

definition LEDGER_EVENTS :: string where "LEDGER_EVENTS = ''ledger.events.v1''"
definition NORMALIZED_TRANSACTIONS :: string where "NORMALIZED_TRANSACTIONS = ''transactions.normalized.v1''"
definition FRAUD_SIGNALS :: string where "FRAUD_SIGNALS = ''fraud.signals.v1''"

record message =
  msg_offset :: nat
  msg_topic :: string
  msg_key :: string
  msg_event :: string
  msg_type :: string
  msg_payload :: json
  msg_published :: int

section \<open>PostgresStream\<close>

text \<open>Tables \<open>stream_messages\<close> and \<open>consumer_offsets\<close> (its \<open>updated_at\<close> is never read) and the clock.\<close>

record stream_tables =
  messages :: "message list"
  message_seq :: nat
  offsets :: "((string \<times> string) \<times> nat) list"
  stream_clock :: int

definition pg_publish :: "string \<Rightarrow> string \<Rightarrow> string \<Rightarrow> string \<Rightarrow> json \<Rightarrow> stream_tables \<Rightarrow> stream_tables" where
  "pg_publish topic key event ty payload s =
     s\<lparr>messages := messages s @
         [\<lparr>msg_offset = message_seq s, msg_topic = topic, msg_key = key, msg_event = event,
           msg_type = ty, msg_payload = payload, msg_published = stream_clock s\<rparr>],
       message_seq := message_seq s + 1\<rparr>"

text \<open>\<open>publish_batch\<close>: topic, partition key, event id, type and payload of each row.\<close>

fun pg_publish_batch ::
  "(string \<times> string \<times> string \<times> string \<times> json) list \<Rightarrow> stream_tables \<Rightarrow> stream_tables" where
  "pg_publish_batch [] s = s"
| "pg_publish_batch ((topic, key, event, ty, payload) # rows) s =
     pg_publish_batch rows (pg_publish topic key event ty payload s)"

definition pg_offset :: "string \<Rightarrow> string \<Rightarrow> stream_tables \<Rightarrow> nat" where
  "pg_offset topic grp s = (case dget (offsets s) (grp, topic) of None \<Rightarrow> 0 | Some n \<Rightarrow> n)"

definition pg_poll :: "string \<Rightarrow> string \<Rightarrow> nat \<Rightarrow> stream_tables \<Rightarrow> message list" where
  "pg_poll topic grp limit s =
     take limit (sort_key msg_offset
       (filter (\<lambda>m. msg_topic m = topic \<and> pg_offset topic grp s < msg_offset m) (messages s)))"

definition pg_commit :: "string \<Rightarrow> string \<Rightarrow> nat \<Rightarrow> stream_tables \<Rightarrow> stream_tables" where
  "pg_commit topic grp n s =
     s\<lparr>offsets := dset (grp, topic)
        (case dget (offsets s) (grp, topic) of None \<Rightarrow> n | Some old \<Rightarrow> max old n) (offsets s)\<rparr>"

definition pg_seek :: "string \<Rightarrow> string \<Rightarrow> nat \<Rightarrow> stream_tables \<Rightarrow> stream_tables" where
  "pg_seek topic grp n s = s\<lparr>offsets := dset (grp, topic) n (offsets s)\<rparr>"

definition pg_head :: "string \<Rightarrow> stream_tables \<Rightarrow> nat" where
  "pg_head topic s =
     foldl (\<lambda>m x. max m (msg_offset x)) 0 (filter (\<lambda>m. msg_topic m = topic) (messages s))"

text \<open>\<open>stream.lag\<close>.\<close>

definition stream_lag :: "string \<Rightarrow> string \<Rightarrow> stream_tables \<Rightarrow> int" where
  "stream_lag topic grp s = max 0 (int (pg_head topic s) - int (pg_offset topic grp s))"

section \<open>The port\<close>

lemma last_is_greatest: "sorted_wrt (<) (map f xs) \<Longrightarrow> x \<in> set xs \<Longrightarrow> f x \<le> f (last xs)" for f :: "'a \<Rightarrow> nat"
  by (induction xs) (auto dest: less_imp_le)

locale event_stream =
  fixes log :: "'s \<Rightarrow> string \<Rightarrow> message list"
    and publish :: "string \<Rightarrow> string \<Rightarrow> string \<Rightarrow> string \<Rightarrow> json \<Rightarrow> 's \<Rightarrow> 's"
    and poll :: "string \<Rightarrow> string \<Rightarrow> nat \<Rightarrow> 's \<Rightarrow> message list"
    and commit :: "string \<Rightarrow> string \<Rightarrow> nat \<Rightarrow> 's \<Rightarrow> 's"
    and offset :: "string \<Rightarrow> string \<Rightarrow> 's \<Rightarrow> nat"
    and seek :: "string \<Rightarrow> string \<Rightarrow> nat \<Rightarrow> 's \<Rightarrow> 's"
    and head :: "string \<Rightarrow> 's \<Rightarrow> nat"
    and ok :: "'s \<Rightarrow> bool"
  assumes ok_log: "ok s \<Longrightarrow> sorted_wrt (<) (0 # map msg_offset (log s t))"
    and publish_ok: "ok s \<Longrightarrow> ok (publish t k e y p s)"
    and commit_ok: "ok s \<Longrightarrow> ok (commit t g n s)"
    and seek_ok: "ok s \<Longrightarrow> ok (seek t g n s)"
    and publish_log: "\<exists>m. log (publish t k e y p s) t = log s t @ [m] \<and> msg_topic m = t
        \<and> msg_key m = k \<and> msg_event m = e \<and> msg_type m = y \<and> msg_payload m = p"
    and publish_other: "t' \<noteq> t \<Longrightarrow> log (publish t k e y p s) t' = log s t'"
    and publish_offset: "offset t' g (publish t k e y p s) = offset t' g s"
    and poll_eq: "ok s \<Longrightarrow> poll t g n s = take n (filter (\<lambda>m. offset t g s < msg_offset m) (log s t))"
    and commit_log: "log (commit t g n s) t' = log s t'"
    and commit_offset: "offset t' g' (commit t g n s)
        = (if t' = t \<and> g' = g then max (offset t g s) n else offset t' g' s)"
    and seek_log: "log (seek t g n s) t' = log s t'"
    and seek_offset: "offset t' g' (seek t g n s) = (if t' = t \<and> g' = g then n else offset t' g' s)"
    and head_eq: "ok s \<Longrightarrow> head t s = (if log s t = [] then 0 else msg_offset (last (log s t)))"
begin

text \<open>What a group has still to read of a topic.\<close>

definition pending :: "'s \<Rightarrow> string \<Rightarrow> string \<Rightarrow> message list" where
  "pending s t g = filter (\<lambda>m. offset t g s < msg_offset m) (log s t)"

lemma poll_pending: "ok s \<Longrightarrow> poll t g n s = take n (pending s t g)"
  by (simp add: poll_eq pending_def)

lemma pending_sorted: "ok s \<Longrightarrow> sorted_wrt (<) (map msg_offset (pending s t g))"
  using ok_log [of s t] by (auto simp: pending_def intro: sorted_wrt_filter simp: sorted_wrt_map)

text \<open>Committing the first pending message leaves exactly the others: no gap and no repeat.\<close>

lemma commit_first:
  assumes "ok s" "pending s t g = m # ms"
  shows "pending (commit t g (msg_offset m) s) t g = ms"
proof -
  have srt: "sorted_wrt (<) (map msg_offset (m # ms))" using pending_sorted [OF assms(1), of t g] assms(2) by simp
  have le: "offset t g s < msg_offset m" using assms(2) by (metis (mono_tags, lifting) pending_def filter_eq_ConsD)
  have "pending (commit t g (msg_offset m) s) t g
      = filter (\<lambda>x. msg_offset m < msg_offset x) (pending s t g)"
    using le unfolding pending_def by (auto simp: commit_log commit_offset intro!: filter_cong)
  also have "\<dots> = ms" unfolding assms(2) using srt by (auto simp: filter_id_conv)
  finally show ?thesis .
qed

lemma head_pending:
  assumes ok: "ok s"
  shows "head t s \<le> offset t g s \<longleftrightarrow> pending s t g = []"
proof (cases "log s t = []")
  case True
  then show ?thesis by (simp add: head_eq [OF ok] pending_def)
next
  case False
  have "sorted_wrt (<) (map msg_offset (log s t))" using ok_log [OF ok, of t] by simp
  then have le: "\<forall>m \<in> set (log s t). msg_offset m \<le> msg_offset (last (log s t))"
    by (auto intro: last_is_greatest)
  have "last (log s t) \<in> set (log s t)" using False by simp
  moreover have "pending s t g = [] \<longleftrightarrow> (\<forall>m \<in> set (log s t). msg_offset m \<le> offset t g s)"
    by (auto simp: pending_def filter_empty_conv not_less)
  ultimately show ?thesis using le False by (auto simp: head_eq [OF ok] intro: order_trans)
qed

text \<open>Rewinding to just before a message makes it and everything after it pending again.\<close>

lemma seek_pending:
  "pending (seek t g n s) t g = filter (\<lambda>m. n < msg_offset m) (log s t)"
  by (simp add: pending_def seek_log seek_offset)

lemma other_groups:
  "g' \<noteq> g \<Longrightarrow> pending (commit t g n s) t g' = pending s t g'"
  "g' \<noteq> g \<Longrightarrow> pending (seek t g n s) t g' = pending s t g'"
  by (simp_all add: pending_def commit_log commit_offset seek_log seek_offset)

end

section \<open>The Postgres transport implements the port\<close>

definition pg_log :: "stream_tables \<Rightarrow> string \<Rightarrow> message list" where
  "pg_log s topic = filter (\<lambda>m. msg_topic m = topic) (messages s)"

definition stream_ok :: "stream_tables \<Rightarrow> bool" where
  "stream_ok s \<longleftrightarrow> 0 < message_seq s \<and> sorted_wrt (<) (map msg_offset (messages s))
     \<and> (\<forall>m \<in> set (messages s). 0 < msg_offset m \<and> msg_offset m < message_seq s)"

lemma stream_log_sorted: "stream_ok s \<Longrightarrow> sorted_wrt (<) (map msg_offset (pg_log s t))"
  by (auto simp: stream_ok_def pg_log_def sorted_wrt_map intro: sorted_wrt_filter)

lemma foldl_max_sorted:
  "sorted_wrt (<) (map f xs) \<Longrightarrow> (\<forall>x \<in> set xs. d \<le> f x) \<Longrightarrow>
   foldl (\<lambda>m x. max m (f x)) d xs = (if xs = [] then d else f (last xs))" for f :: "'a \<Rightarrow> nat"
proof (induction xs arbitrary: d)
  case Nil
  then show ?case by simp
next
  case (Cons x xs)
  have "\<forall>y \<in> set xs. f x \<le> f y" using Cons.prems(1) by auto
  moreover have "max d (f x) = f x" using Cons.prems(2) by simp
  ultimately show ?case using Cons by auto
qed

interpretation pg: event_stream pg_log pg_publish pg_poll pg_commit pg_offset pg_seek pg_head stream_ok
proof
  fix s t k e y p g n t' g'
  show "stream_ok s \<Longrightarrow> sorted_wrt (<) (0 # map msg_offset (pg_log s t))"
    using stream_log_sorted [of s t] by (auto simp: stream_ok_def pg_log_def)
  show "stream_ok s \<Longrightarrow> stream_ok (pg_publish t k e y p s)"
    by (auto simp: stream_ok_def pg_publish_def sorted_wrt_append less_Suc_eq)
  show "stream_ok s \<Longrightarrow> stream_ok (pg_commit t g n s)"
    by (simp add: stream_ok_def pg_commit_def)
  show "stream_ok s \<Longrightarrow> stream_ok (pg_seek t g n s)"
    by (simp add: stream_ok_def pg_seek_def)
  show "\<exists>m. pg_log (pg_publish t k e y p s) t = pg_log s t @ [m] \<and> msg_topic m = t
        \<and> msg_key m = k \<and> msg_event m = e \<and> msg_type m = y \<and> msg_payload m = p"
    by (simp add: pg_log_def pg_publish_def)
  show "t' \<noteq> t \<Longrightarrow> pg_log (pg_publish t k e y p s) t' = pg_log s t'"
    by (simp add: pg_log_def pg_publish_def)
  show "pg_offset t' g (pg_publish t k e y p s) = pg_offset t' g s"
    by (simp add: pg_offset_def pg_publish_def)
  show "stream_ok s \<Longrightarrow>
      pg_poll t g n s = take n (filter (\<lambda>m. pg_offset t g s < msg_offset m) (pg_log s t))"
  proof -
    assume "stream_ok s"
    then have "sorted (map msg_offset (filter (\<lambda>m. msg_topic m = t \<and> pg_offset t g s < msg_offset m) (messages s)))"
      by (intro sorted_filter strict_sorted_imp_sorted) (simp add: stream_ok_def)
    then show ?thesis by (simp add: pg_poll_def pg_log_def sort_key_id_if_sorted conj_commute)
  qed
  show "pg_log (pg_commit t g n s) t' = pg_log s t'" by (simp add: pg_log_def pg_commit_def)
  show "pg_offset t' g' (pg_commit t g n s)
        = (if t' = t \<and> g' = g then max (pg_offset t g s) n else pg_offset t' g' s)"
    by (auto simp: pg_offset_def pg_commit_def update_conv' split: option.splits)
  show "pg_log (pg_seek t g n s) t' = pg_log s t'" by (simp add: pg_log_def pg_seek_def)
  show "pg_offset t' g' (pg_seek t g n s) = (if t' = t \<and> g' = g then n else pg_offset t' g' s)"
    by (auto simp: pg_offset_def pg_seek_def update_conv' split: option.splits)
  show "stream_ok s \<Longrightarrow> pg_head t s = (if pg_log s t = [] then 0 else msg_offset (last (pg_log s t)))"
    using foldl_max_sorted [OF stream_log_sorted, of s t 0] by (simp add: pg_head_def pg_log_def)
qed

lemma lag_zero_iff: "stream_ok s \<Longrightarrow> stream_lag t g s = 0 \<longleftrightarrow> pg.pending s t g = []"
  using pg.head_pending [of s t g] by (auto simp: stream_lag_def)

end
