(* ===== verification/Ids.thy ===== *)
theory Ids
  imports LF_Prelude "HOL-Library.Word"
begin

unbundle bit_operations_syntax

text \<open>
  \<open>ids.py\<close>: prefixed, monotonic ULIDs. The module's globals \<open>_last_ms\<close> and \<open>_last_random\<close> are a
  state record; the wall clock and \<open>os.urandom\<close> are the environment \<open>ig_env\<close>, which gives the
  millisecond clock and the 80 random bits that the n-th call would read. The lock of the module
  makes a call one step.
\<close>

definition ALPHABET :: string where
  "ALPHABET = ''0123456789ABCDEFGHJKMNPQRSTVWXYZ''"

text \<open>The digits in the order the loop appends them, least significant first.\<close>

fun encode_loop :: "nat \<Rightarrow> nat \<Rightarrow> string" where
  "encode_loop value 0 = []"
| "encode_loop value (Suc n) = ALPHABET ! (value AND 31) # encode_loop (drop_bit 5 value) n"

definition encode :: "nat \<Rightarrow> nat \<Rightarrow> string" where
  "encode value n = rev (encode_loop value n)"

definition MAX_RANDOM :: nat where
  "MAX_RANDOM = push_bit 80 1 - 1"

record idgen =
  last_ms :: nat
  last_random :: nat
  ig_calls :: nat
  ig_env :: "nat \<Rightarrow> nat \<times> nat"

text \<open>The critical section: choose the timestamp and the random component.\<close>

definition ulid_step :: "idgen \<Rightarrow> idgen" where
  "ulid_step g =
     (let (now_ms, urandom) = ig_env g (ig_calls g);
          g = g\<lparr>ig_calls := Suc (ig_calls g)\<rparr>
      in if last_ms g < now_ms then g\<lparr>last_ms := now_ms, last_random := urandom\<rparr>
         else if MAX_RANDOM \<le> last_random g then g\<lparr>last_ms := last_ms g + 1, last_random := urandom\<rparr>
         else g\<lparr>last_random := last_random g + 1\<rparr>)"

definition ulid :: "idgen \<Rightarrow> string \<times> idgen" where
  "ulid g = (let g' = ulid_step g in (encode (last_ms g') 10 @ encode (last_random g') 16, g'))"

definition new_id :: "string \<Rightarrow> idgen \<Rightarrow> string \<times> idgen" where
  "new_id prefix g = (let (u, g') = ulid g in (prefix @ ''_'' @ u, g'))"

definition account_id :: "idgen \<Rightarrow> string \<times> idgen" where "account_id = new_id ''acct''"
definition transaction_id :: "idgen \<Rightarrow> string \<times> idgen" where "transaction_id = new_id ''txn''"
definition event_id :: "idgen \<Rightarrow> string \<times> idgen" where "event_id = new_id ''evt''"
definition request_id :: "idgen \<Rightarrow> string \<times> idgen" where "request_id = new_id ''req''"

text \<open>The ids of \<open>n\<close> successive calls.\<close>

fun ulids :: "nat \<Rightarrow> idgen \<Rightarrow> string list \<times> idgen" where
  "ulids 0 g = ([], g)"
| "ulids (Suc n) g = (let (u, g') = ulid g; (us, g'') = ulids n g' in (u # us, g''))"

section \<open>The encoding\<close>

lemma and_31: "(v::nat) AND 31 = v mod 32"
  using take_bit_eq_mask [of 5 v] by (simp add: take_bit_eq_mod mask_eq_exp_minus_1)

lemma drop_bit_5: "drop_bit 5 (v::nat) = v div 32"
  by (simp add: drop_bit_eq_div)

lemma encode_Suc: "encode v (Suc n) = encode (v div 32) n @ [ALPHABET ! (v mod 32)]"
  by (simp add: encode_def and_31 drop_bit_5)

lemma length_encode [simp]: "length (encode v n) = n"
  by (induction n arbitrary: v) (simp_all add: encode_Suc, simp add: encode_def)

lemma ALPHABET_length: "length ALPHABET = 32"
  by (simp add: ALPHABET_def)

lemma ALPHABET_ascending: "sorted_wrt (<) ALPHABET"
  by (simp add: ALPHABET_def less_char_def)

lemma ALPHABET_less: "i < j \<Longrightarrow> j < 32 \<Longrightarrow> ALPHABET ! i < ALPHABET ! j"
  by (rule sorted_wrt_nth_less [OF ALPHABET_ascending]) (simp_all add: ALPHABET_length)

lemma text_less_appendI: "length a = length b \<Longrightarrow> a < b \<Longrightarrow> a @ c < b @ d" for a b c d :: string
  by (induction a b rule: list_induct2) auto

lemma text_less_append_same: "c < d \<Longrightarrow> a @ c < a @ d" for a c d :: string
  by (induction a) auto

text \<open>Encodings of one length compare as the numbers do.\<close>

lemma encode_less: "v < w \<Longrightarrow> w < 32 ^ n \<Longrightarrow> encode v n < encode w n"
proof (induction n arbitrary: v w)
  case 0
  then show ?case by simp
next
  case (Suc n)
  show ?case
  proof (cases "v div 32 < w div 32")
    case True
    have "w div 32 < 32 ^ n" using Suc.prems(2) by (simp add: div_less_iff_less_mult mult.commute)
    with True Suc.IH have "encode (v div 32) n < encode (w div 32) n" by blast
    then show ?thesis by (simp add: encode_Suc text_less_appendI)
  next
    case False
    with Suc.prems(1) have eq: "v div 32 = w div 32" by (meson div_le_mono leD less_imp_le linorder_neqE)
    with Suc.prems(1) have "v mod 32 < w mod 32"
      by (metis add_less_cancel_left div_mult_mod_eq)
    then have "ALPHABET ! (v mod 32) < ALPHABET ! (w mod 32)" by (simp add: ALPHABET_less)
    with eq show ?thesis by (simp add: encode_Suc text_less_append_same)
  qed
qed

text \<open>Reading an encoding back.\<close>

definition digit_index :: "char \<Rightarrow> nat" where
  "digit_index c = length (takeWhile (\<lambda>x. x \<noteq> c) ALPHABET)"

definition decode :: "string \<Rightarrow> nat" where
  "decode s = foldl (\<lambda>a c. a * 32 + digit_index c) 0 s"

lemma digit_index_nth: "i < 32 \<Longrightarrow> digit_index (ALPHABET ! i) = i"
proof -
  assume i: "i < 32"
  have d: "distinct ALPHABET" by (simp add: ALPHABET_def)
  have "ALPHABET ! j \<noteq> ALPHABET ! i" if "j < i" for j
    using that i nth_eq_iff_index_eq [OF d] by (simp add: ALPHABET_length)
  then show ?thesis
    unfolding digit_index_def using i
    by (metis (mono_tags, lifting) ALPHABET_length length_take min.absorb4 takeWhile_eq_take_P_nth)
qed

lemma decode_encode: "decode (encode v n) = v mod 32 ^ n"
proof (induction n arbitrary: v)
  case 0
  then show ?case by (simp add: encode_def decode_def)
next
  case (Suc n)
  have "decode (encode v (Suc n)) = decode (encode (v div 32) n) * 32 + digit_index (ALPHABET ! (v mod 32))"
    by (simp add: encode_Suc decode_def)
  also have "\<dots> = (v div 32) mod 32 ^ n * 32 + v mod 32"
    by (simp add: Suc.IH digit_index_nth)
  also have "\<dots> = v mod 32 ^ Suc n"
    by (simp add: mod_mult2_eq mult.commute)
  finally show ?case .
qed

section \<open>Monotonicity of the generator\<close>

text \<open>The clock and the random source stay in range: 80 random bits.\<close>

definition idgen_ok :: "idgen \<Rightarrow> bool" where
  "idgen_ok g \<longleftrightarrow> last_random g < 2 ^ 80 \<and> (\<forall>n. snd (ig_env g n) < 2 ^ 80)"

definition stamp :: "idgen \<Rightarrow> string" where
  "stamp g = encode (last_ms g) 10 @ encode (last_random g) 16"

lemma MAX_RANDOM_eq: "MAX_RANDOM = 2 ^ 80 - 1"
  by (simp add: MAX_RANDOM_def push_bit_eq_mult)

lemma ulid_eq: "ulid g = (stamp (ulid_step g), ulid_step g)"
  by (simp add: ulid_def stamp_def Let_def)

lemma ulid_step_ok: "idgen_ok g \<Longrightarrow> idgen_ok (ulid_step g)"
proof -
  assume ok: "idgen_ok g"
  obtain ms r where env: "ig_env g (ig_calls g) = (ms, r)" by (cases "ig_env g (ig_calls g)")
  from ok have "snd (ig_env g (ig_calls g)) < 2 ^ 80" by (simp add: idgen_ok_def)
  with env have "r < 2 ^ 80" by simp
  with ok show ?thesis
    by (auto simp: idgen_ok_def ulid_step_def Let_def MAX_RANDOM_eq env)
qed

lemma ulid_step_grows:
  "last_ms g < last_ms (ulid_step g)
   \<or> last_ms g = last_ms (ulid_step g) \<and> last_random g < last_random (ulid_step g)"
  by (auto simp: ulid_step_def Let_def split: prod.splits)

lemma ulid_step_ms: "last_ms g \<le> last_ms (ulid_step g)"
  using ulid_step_grows [of g] by auto

lemma stamp_grows:
  assumes "idgen_ok g" "last_ms (ulid_step g) < 2 ^ 50"
  shows "stamp g < stamp (ulid_step g)"
proof -
  have r: "last_random (ulid_step g) < 32 ^ 16"
    using ulid_step_ok [OF assms(1)] by (simp add: idgen_ok_def)
  have m: "last_ms (ulid_step g) < 32 ^ 10" using assms(2) by simp
  from ulid_step_grows [of g] show ?thesis
  proof
    assume "last_ms g < last_ms (ulid_step g)"
    then have "encode (last_ms g) 10 < encode (last_ms (ulid_step g)) 10" using m by (rule encode_less)
    then show ?thesis by (simp add: stamp_def text_less_appendI)
  next
    assume eq: "last_ms g = last_ms (ulid_step g) \<and> last_random g < last_random (ulid_step g)"
    then have "encode (last_random g) 16 < encode (last_random (ulid_step g)) 16"
      using r by (intro encode_less) auto
    with eq show ?thesis by (simp add: stamp_def text_less_append_same)
  qed
qed

lemma ulids_ms: "ulids n g = (us, g') \<Longrightarrow> last_ms g \<le> last_ms g'"
proof (induction n arbitrary: g us)
  case 0
  then show ?case by simp
next
  case (Suc n)
  then obtain vs where "ulids n (ulid_step g) = (vs, g')"
    by (auto simp: ulid_eq Let_def split: prod.splits)
  from Suc.IH [OF this] ulid_step_ms [of g] show ?case by simp
qed

lemma ulids_above:
  assumes "idgen_ok g" "ulids n g = (us, g')" "last_ms g' < 2 ^ 50"
  shows "sorted_wrt (<) us \<and> (\<forall>u \<in> set us. stamp g < u)"
  using assms
proof (induction n arbitrary: g us)
  case 0
  then show ?case by simp
next
  case (Suc n)
  then obtain vs where vs: "ulids n (ulid_step g) = (vs, g')" and us: "us = stamp (ulid_step g) # vs"
    by (auto simp: ulid_eq Let_def split: prod.splits)
  from Suc.IH [OF ulid_step_ok [OF Suc.prems(1)] vs Suc.prems(3)]
  have IH: "sorted_wrt (<) vs" "\<forall>u \<in> set vs. stamp (ulid_step g) < u" by auto
  have "last_ms (ulid_step g) < 2 ^ 50" using ulids_ms [OF vs] Suc.prems(3) by simp
  then have "stamp g < stamp (ulid_step g)" by (rule stamp_grows [OF Suc.prems(1)])
  with IH show ?case by (auto simp: us intro: less_trans)
qed

section \<open>Properties\<close>

text \<open>
  C17. Ids never repeat and sort by creation: any number of successive ULIDs, whatever the clock does
  (standing still, going backwards) and whatever random bits are drawn, are strictly increasing as
  strings, as long as the 48-bit-style timestamp has not run past its ten characters.
\<close>

theorem ulids_strictly_increasing:
  assumes "idgen_ok g" "ulids n g = (us, g')" "last_ms g' < 2 ^ 50"
  shows "sorted_wrt (<) us \<and> distinct us \<and> length us = n"
proof -
  have s: "sorted_wrt (<) us" using ulids_above [OF assms] by blast
  have "distinct us" using s by (simp add: strict_sorted_iff)
  moreover have "ulids n g = (us, g') \<Longrightarrow> length us = n" for us g'
    by (induction n arbitrary: g us) (auto simp: Let_def split: prod.splits)
  ultimately show ?thesis using s assms(2) by blast
qed

definition stuck_clock :: idgen where
  "stuck_clock = \<lparr>last_ms = 7, last_random = 2 ^ 80 - 2, ig_calls = 0,
                  ig_env = (\<lambda>n. (if n = 1 then 3 else 5, 9))\<rparr>"

theorem ulids_strictly_increasing_witness:
  "length (fst (ulids 3 stuck_clock)) = 3 \<and> distinct (fst (ulids 3 stuck_clock))
   \<and> last_ms (snd (ulids 3 stuck_clock)) = 8"
proof -
  have ok: "idgen_ok stuck_clock" by (simp add: idgen_ok_def stuck_clock_def)
  have ms: "last_ms (snd (ulids 3 stuck_clock)) = 8"
    by (simp add: numeral_3_eq_3 ulid_eq ulid_step_def stuck_clock_def Let_def MAX_RANDOM_eq)
  have eq: "ulids 3 stuck_clock = (fst (ulids 3 stuck_clock), snd (ulids 3 stuck_clock))" by simp
  have lt: "last_ms (snd (ulids 3 stuck_clock)) < 2 ^ 50" using ms by simp
  from ulids_strictly_increasing [OF ok eq lt] ms show ?thesis by simp
qed

text \<open>
  The encoding loses nothing: decoding an encoded number gives the number modulo the range of
  the field, so distinct timestamps (or random parts) never share a text.
\<close>

theorem encode_round_trip:
  "decode (encode value n) = value mod 32 ^ n \<and> length (encode value n) = n"
  by (simp add: decode_encode)

end
