(* ===== verification/Side_Tables.thy ===== *)
theory Side_Tables
  imports Repo_Ledger
begin

text \<open>
  Tables that no repository owns and the code reaches with SQL of its own: tenants' names and API
  keys (\<open>api/auth.py\<close>, \<open>/v1/me\<close>), the replay log (\<open>/v1/replays\<close>) and the rate limiter's
  fallback buckets. A date is its year, month and day; dates compare as the triples do.
\<close>

type_synonym date = "int \<times> int \<times> int"

definition pad :: "nat \<Rightarrow> string \<Rightarrow> string" where
  "pad n t = replicate (n - length t) (CHR ''0'') @ t"

text \<open>\<open>str(date)\<close> of a year from 0 on.\<close>

fun show_date :: "date \<Rightarrow> string" where
  "show_date (y, mo, d) = pad 4 (show_int y) @ ''-'' @ pad 2 (show_int mo) @ ''-'' @ pad 2 (show_int d)"

text \<open>\<open>settings.api_version\<close>.\<close>

definition api_version :: date where
  "api_version = (2026, 9, 17)"

record api_key_row =
  k_id :: string
  k_tenant :: string
  k_mode :: api_mode
  k_hash :: string
  k_prefix :: string
  k_last4 :: string
  k_version :: date
  k_revoked :: "int option"
  k_created :: int

record replay_row =
  rp_id :: string
  rp_group :: string
  rp_topic :: string
  rp_from :: int
  rp_to :: nat
  rp_reason :: string
  rp_requested :: int

record bucket_row =
  bk_tokens :: real
  bk_updated :: int

text \<open>A rate limiter's hash in Redis, with the time its key expires.\<close>

record redis_bucket =
  rb_tokens :: real
  rb_updated :: real
  rb_expires :: real

record side_tables =
  tenant_names :: "(string, string) dict"
  api_keys :: "api_key_row list"
  replays :: "replay_row list"
  rate_buckets :: "(string, bucket_row) dict"

definition no_side_tables :: side_tables where
  "no_side_tables = \<lparr>tenant_names = [], api_keys = [], replays = [], rate_buckets = []\<rparr>"

end
