(* ===== verification/Unit_Of_Work.thy ===== *)
theory Unit_Of_Work
  imports Repo_Webhooks Ledger_Store Event_Stream Ids Side_Tables
begin

text \<open>
  \<open>adapters/db.py\<close>: one connection, one transaction, and the repositories that share it. The whole
  state is the database's tables, the stream (written through connections of its own), the id
  generator of the process, Redis, the risk worker's memory and the two clocks. \<open>unit_of_work\<close> runs a body and commits; an exception,
  or a deferred constraint that fails at COMMIT, rolls every table back. Sequences, the stream, the
  id generator, Redis, the worker's memory and the clocks do not roll back.
\<close>

record st =
  led :: ledger_tables
  evt :: event_tables
  nrm :: norm_tables
  rsk :: risk_tables
  hks :: hook_tables
  idm :: idem_tables
  sid :: side_tables
  strm :: stream_tables
  idg :: idgen
  redis :: "(string, redis_bucket) dict option"  \<comment> \<open>\<open>None\<close>: not configured\<close>
  newest_event :: "datetime option"  \<comment> \<open>\<open>RiskWorker._max_event_time\<close>, of the worker's process\<close>
  wall :: int    \<comment> \<open>the process's clock\<close>
  tx_now :: int  \<comment> \<open>the transaction's \<open>now()\<close>\<close>

type_synonym 'a m = "(st, 'a) op"

definition on_led :: "(ledger_tables, 'a) op \<Rightarrow> 'a m" where
  "on_led = zoom led (\<lambda>t s. s\<lparr>led := t\<rparr>)"

definition on_evt :: "(event_tables, 'a) op \<Rightarrow> 'a m" where
  "on_evt = zoom evt (\<lambda>t s. s\<lparr>evt := t\<rparr>)"

definition on_nrm :: "(norm_tables, 'a) op \<Rightarrow> 'a m" where
  "on_nrm = zoom nrm (\<lambda>t s. s\<lparr>nrm := t\<rparr>)"

definition on_rsk :: "(risk_tables, 'a) op \<Rightarrow> 'a m" where
  "on_rsk = zoom rsk (\<lambda>t s. s\<lparr>rsk := t\<rparr>)"

definition on_hks :: "(hook_tables, 'a) op \<Rightarrow> 'a m" where
  "on_hks = zoom hks (\<lambda>t s. s\<lparr>hks := t\<rparr>)"

definition on_idm :: "(idem_tables, 'a) op \<Rightarrow> 'a m" where
  "on_idm = zoom idm (\<lambda>t s. s\<lparr>idm := t\<rparr>)"

definition on_sid :: "(side_tables, 'a) op \<Rightarrow> 'a m" where
  "on_sid = zoom sid (\<lambda>t s. s\<lparr>sid := t\<rparr>)"

definition fresh_id :: "(idgen \<Rightarrow> string \<times> idgen) \<Rightarrow> string m" where
  "fresh_id g s = (let (i, g') = g (idg s) in (Inr i, s\<lparr>idg := g'\<rparr>))"

text \<open>The deferred trigger fires once per inserted entry, at COMMIT.\<close>

definition deferred_checks :: "ledger_tables \<Rightarrow> ledger_tables \<Rightarrow> bool" where
  "deferred_checks before after =
     list_all (\<lambda>e. transaction_balanced after (e_txn e)) (drop (length (entries before)) (entries after))"

definition rollback :: "st \<Rightarrow> st \<Rightarrow> st" where
  "rollback before after =
     after\<lparr>led := (led before)\<lparr>entry_seq := entry_seq (led after)\<rparr>,
           evt := (evt before)\<lparr>outbox_seq := outbox_seq (evt after)\<rparr>,
           nrm := nrm before, rsk := rsk before, hks := hks before, idm := idm before, sid := sid before\<rparr>"

definition unit_of_work :: "'a m \<Rightarrow> 'a m" where
  "unit_of_work body s =
     (case body (s\<lparr>tx_now := wall s\<rparr>) of
        (Inl e, s') \<Rightarrow> (Inl e, rollback s s')
      | (Inr x, s') \<Rightarrow>
          if deferred_checks (led s) (led s') then (Inr x, s')
          else (Inl (DbExn CheckViolation), rollback s s'))"

text \<open>\<open>read_only\<close>: the connection's context commits and rolls back the same way.\<close>

definition read_only :: "'a m \<Rightarrow> 'a m" where
  "read_only body = unit_of_work body"

section \<open>Runs of a unit of work\<close>

lemma on_iff [result_simps]:
  "on_led m1 s = (r1, s') \<longleftrightarrow> (\<exists>t. m1 (led s) = (r1, t) \<and> s' = s\<lparr>led := t\<rparr>)"
  "on_evt m2 s = (r2, s') \<longleftrightarrow> (\<exists>t. m2 (evt s) = (r2, t) \<and> s' = s\<lparr>evt := t\<rparr>)"
  "on_nrm m3 s = (r3, s') \<longleftrightarrow> (\<exists>t. m3 (nrm s) = (r3, t) \<and> s' = s\<lparr>nrm := t\<rparr>)"
  "on_rsk m4 s = (r4, s') \<longleftrightarrow> (\<exists>t. m4 (rsk s) = (r4, t) \<and> s' = s\<lparr>rsk := t\<rparr>)"
  "on_hks m5 s = (r5, s') \<longleftrightarrow> (\<exists>t. m5 (hks s) = (r5, t) \<and> s' = s\<lparr>hks := t\<rparr>)"
  "on_idm m6 s = (r6, s') \<longleftrightarrow> (\<exists>t. m6 (idm s) = (r6, t) \<and> s' = s\<lparr>idm := t\<rparr>)"
  "on_sid m7 s = (r7, s') \<longleftrightarrow> (\<exists>t. m7 (sid s) = (r7, t) \<and> s' = s\<lparr>sid := t\<rparr>)"
  by (auto simp: on_led_def on_evt_def on_nrm_def on_rsk_def on_hks_def on_idm_def on_sid_def zoom_iff)

lemma fresh_id_iff [result_simps]:
  "fresh_id g s = (r, s') \<longleftrightarrow> r = Inr (fst (g (idg s))) \<and> s' = s\<lparr>idg := snd (g (idg s))\<rparr>"
  by (auto simp: fresh_id_def Let_def split: prod.splits)

lemma unit_of_work_Inr_iff [result_simps]:
  "unit_of_work body s = (Inr x, s') \<longleftrightarrow>
     body (s\<lparr>tx_now := wall s\<rparr>) = (Inr x, s') \<and> deferred_checks (led s) (led s')"
  by (auto simp: unit_of_work_def split: prod.splits sum.splits)

lemma unit_of_work_Inl:
  "unit_of_work body s = (Inl e, s') \<Longrightarrow>
   \<exists>r s1. body (s\<lparr>tx_now := wall s\<rparr>) = (r, s1) \<and> s' = rollback s s1
     \<and> (r = Inl e \<or> (e = DbExn CheckViolation \<and> (\<exists>x. r = Inr x) \<and> \<not> deferred_checks (led s) (led s1)))"
  by (auto simp: unit_of_work_def split: prod.splits sum.splits if_splits)

text \<open>An invariant of one table lifts to the state.\<close>

lemma keeps_on [keeps_intros]:
  "keeps P m1 \<Longrightarrow> keeps (\<lambda>s. P (led s)) (on_led m1)"
  "keeps Q m2 \<Longrightarrow> keeps (\<lambda>s. Q (evt s)) (on_evt m2)"
  by (auto simp: keeps_def on_led_def on_evt_def zoom_def split_beta)

lemma keeps_led_frame [keeps_intros]:
  "keeps (\<lambda>s. P (led s)) (on_evt m2)" "keeps (\<lambda>s. P (led s)) (on_nrm m3)"
  "keeps (\<lambda>s. P (led s)) (on_rsk m4)" "keeps (\<lambda>s. P (led s)) (on_hks m5)"
  "keeps (\<lambda>s. P (led s)) (on_idm m6)" "keeps (\<lambda>s. P (led s)) (fresh_id g)"
  "keeps (\<lambda>s. P (led s)) (on_sid m7)"
  by (auto simp: keeps_def on_sid_def on_evt_def on_nrm_def on_rsk_def on_hks_def on_idm_def fresh_id_def
      zoom_def split_beta Let_def)

lemma keeps_evt_frame [keeps_intros]:
  "keeps (\<lambda>s. Q (evt s)) (on_led m1)" "keeps (\<lambda>s. Q (evt s)) (on_nrm m3)"
  "keeps (\<lambda>s. Q (evt s)) (on_rsk m4)" "keeps (\<lambda>s. Q (evt s)) (on_hks m5)"
  "keeps (\<lambda>s. Q (evt s)) (on_idm m6)" "keeps (\<lambda>s. Q (evt s)) (fresh_id g)"
  "keeps (\<lambda>s. Q (evt s)) (on_sid m7)"
  by (auto simp: keeps_def on_sid_def on_led_def on_nrm_def on_rsk_def on_hks_def on_idm_def fresh_id_def
      zoom_def split_beta Let_def)

lemma keeps_unit_strm: "keeps (\<lambda>s. R (strm s)) body \<Longrightarrow> keeps (\<lambda>s. R (strm s)) (unit_of_work body)"
proof (rule keepsI)
  fix s r s'
  assume k: "keeps (\<lambda>s. R (strm s)) body" and R: "R (strm s)" and run: "unit_of_work body s = (r, s')"
  obtain q s1 where b: "body (s\<lparr>tx_now := wall s\<rparr>) = (q, s1)" by fastforce
  have "R (strm s1)" using keepsD [OF k _ b] R by simp
  then show "R (strm s')"
    using run b by (auto simp: unit_of_work_def rollback_def split: sum.splits if_splits)
qed

section \<open>Sequences never go back\<close>

lemma keeps_entry_seq [keeps_intros]:
  "keeps (\<lambda>l. n \<le> entry_seq l) (account_create now i tenant mode name ty cur ext minimum md)"
  "keeps (\<lambda>l. n \<le> entry_seq l) (write_snapshot now acct)"
  "keeps (\<lambda>l. n \<le> entry_seq l) (txn_insert now j tenant mode)"
  "keeps (\<lambda>l. n \<le> entry_seq l) (mark_reversed i)"
  "keeps (\<lambda>l. n \<le> entry_seq l) (entry_insert now j recorded e)"
  by (auto simp: keeps_def account_create_def write_snapshot_def txn_insert_def
      mark_reversed_def entry_insert_def bind_op_def guard_op_def Let_def split: option.splits sum.splits prod.splits)

lemma keeps_entry_seq_many [keeps_intros]:
  "keeps (\<lambda>l. n \<le> entry_seq l) (entries_insert_many now j recorded)"
  unfolding entries_insert_many_def by (intro keeps_intros)

lemma keeps_outbox_seq [keeps_intros]:
  "keeps (\<lambda>v. n \<le> outbox_seq v) (append_outbox ts now event tenant mode key ty payload)"
  "keeps (\<lambda>v. n \<le> outbox_seq v) (mark_published now ids)"
  "keeps (\<lambda>v. n \<le> outbox_seq v) (claim_event grp event)"
  "keeps (\<lambda>v. n \<le> outbox_seq v) (release_claim grp event)"
  "keeps (\<lambda>v. n \<le> outbox_seq v) (dead_letter now i grp event topic payload cls detail attempts)"
  "keeps (\<lambda>v. n \<le> outbox_seq v) (resolve_dead_letter now i)"
  by (auto simp: keeps_def append_outbox_def mark_published_def claim_event_def release_claim_def
      dead_letter_def resolve_dead_letter_def bind_op_def guard_op_def Let_def split: option.splits)

lemma keeps_dead_letters [keeps_intros]:
  "keeps outbox_ok (dead_letter now i grp event topic payload cls detail attempts)"
  "keeps outbox_ok (resolve_dead_letter now i)"
  by (auto simp: keeps_def outbox_ok_def dead_letter_def resolve_dead_letter_def bind_op_def guard_op_def
      split: option.splits)

section \<open>The books stay balanced\<close>

text \<open>Entries are append-only: the trigger \<open>entries_no_mutation\<close> allows no update and no delete.\<close>

definition appends :: "entry_row list \<Rightarrow> ledger_tables \<Rightarrow> bool" where
  "appends old l \<longleftrightarrow> (\<exists>new. entries l = old @ new)"

lemma keeps_appends [keeps_intros]:
  "keeps (appends old) (account_create now i tenant mode name ty cur ext minimum md)"
  "keeps (appends old) (write_snapshot now acct)"
  "keeps (appends old) (txn_insert now j tenant mode)"
  "keeps (appends old) (mark_reversed i)"
  "keeps (appends old) (entry_insert now j recorded e)"
  by (auto simp: keeps_def appends_def account_create_def write_snapshot_def txn_insert_def
      mark_reversed_def entry_insert_def bind_op_def guard_op_def Let_def split: option.splits sum.splits prod.splits)

lemma keeps_appends_many [keeps_intros]: "keeps (appends old) (entries_insert_many now j recorded)"
  unfolding entries_insert_many_def by (intro keeps_intros)

lemma committed_balanced:
  assumes "all_balanced before" "appends (entries before) after" "deferred_checks before after"
  shows "all_balanced after"
  unfolding all_balanced_def
proof
  fix i
  from assms(2) obtain new where new: "entries after = entries before @ new" by (auto simp: appends_def)
  show "transaction_balanced after i"
  proof (cases "i \<in> e_txn ` set new")
    case True
    with assms(3) new show ?thesis by (auto simp: deferred_checks_def list_all_iff)
  next
    case False
    then have "filter (\<lambda>e. e_txn e = i) new = []" by (auto simp: filter_empty_conv)
    with assms(1) new show ?thesis
      by (simp add: all_balanced_def transaction_balanced_def)
  qed
qed

text \<open>What holds between transactions.\<close>

definition db_ok :: "st \<Rightarrow> bool" where
  "db_ok s \<longleftrightarrow> ledger_ok (led s) \<and> all_balanced (led s) \<and> outbox_ok (evt s)"

lemma rollback_ok:
  assumes "db_ok s" "entry_seq (led s) \<le> entry_seq (led s')" "outbox_seq (evt s) \<le> outbox_seq (evt s')"
  shows "db_ok (rollback s s')"
proof -
  let ?l = "(led s)\<lparr>entry_seq := entry_seq (led s')\<rparr>"
  have "snapshot_ok ?l x = snapshot_ok (led s) x" for x
    by (simp add: snapshot_ok_def entries_of_def)
  then have "ledger_ok ?l"
    using assms(1,2) by (auto simp: db_ok_def ledger_ok_def entry_row_ok_def)
  moreover have "all_balanced ?l"
    using assms(1) by (simp add: db_ok_def all_balanced_def transaction_balanced_def)
  moreover have "outbox_ok ((evt s)\<lparr>outbox_seq := outbox_seq (evt s')\<rparr>)"
    using assms(1,3) by (auto simp: db_ok_def outbox_ok_def)
  ultimately show ?thesis by (simp add: db_ok_def rollback_def)
qed

text \<open>A body that keeps the structure of the tables and only appends entries, run as a unit.\<close>

definition well_behaved :: "'a m \<Rightarrow> bool" where
  "well_behaved body \<longleftrightarrow> keeps (\<lambda>s. ledger_ok (led s)) body \<and> keeps (\<lambda>s. outbox_ok (evt s)) body
     \<and> (\<forall>old. keeps (\<lambda>s. appends old (led s)) body)
     \<and> (\<forall>n. keeps (\<lambda>s. n \<le> entry_seq (led s)) body) \<and> (\<forall>n. keeps (\<lambda>s. n \<le> outbox_seq (evt s)) body)"

lemma unit_of_work_db_ok:
  assumes "well_behaved body"
  shows "keeps db_ok (unit_of_work body)"
proof (rule keepsI)
  fix s r s'
  assume ok: "db_ok s" and run: "unit_of_work body s = (r, s')"
  let ?s0 = "s\<lparr>tx_now := wall s\<rparr>"
  have start: "ledger_ok (led ?s0)" "outbox_ok (evt ?s0)" "appends (entries (led s)) (led ?s0)"
    "entry_seq (led s) \<le> entry_seq (led ?s0)" "outbox_seq (evt s) \<le> outbox_seq (evt ?s0)"
    using ok by (simp_all add: db_ok_def appends_def)
  have k: "ledger_ok (led s1)" "outbox_ok (evt s1)" "appends (entries (led s)) (led s1)"
    "entry_seq (led s) \<le> entry_seq (led s1)" "outbox_seq (evt s) \<le> outbox_seq (evt s1)"
    if b: "body ?s0 = (q, s1)" for q s1
    using assms unfolding well_behaved_def keeps_def
    by (metis start(1) b snd_conv, metis start(2) b snd_conv, metis start(3) b snd_conv,
        metis start(4) b snd_conv, metis start(5) b snd_conv)
  show "db_ok s'"
  proof (cases r)
    case (Inl e)
    with run obtain q s1 where "body ?s0 = (q, s1)" "s' = rollback s s1"
      by (auto dest: unit_of_work_Inl)
    with k ok show ?thesis by (simp add: rollback_ok)
  next
    case (Inr x)
    with run have b: "body ?s0 = (Inr x, s')" "deferred_checks (led s) (led s')"
      by (simp_all add: unit_of_work_Inr_iff)
    with k [OF b(1)] ok committed_balanced [of "led s" "led s'"] show ?thesis by (simp add: db_ok_def)
  qed
qed

end
