(* ===== verification/Relay.thy ===== *)
theory Relay
  imports Unit_Of_Work
begin

text \<open>
  \<open>workers/outbox_relay.py\<close>: committed outbox rows out to the stream. Whether a publish raises is
  the environment's choice (\<open>fails\<close>, by outbox id). A crash is a relay that has published part of
  its batch and dies before its transaction commits: the stream keeps what was published, the
  outbox does not learn of it. One relay runs at a time.
\<close>

fun publish_rows :: "(nat \<Rightarrow> bool) \<Rightarrow> outbox_row list \<Rightarrow> stream_tables \<Rightarrow> nat list \<times> stream_tables" where
  "publish_rows fails [] t = ([], t)"
| "publish_rows fails (r # rs) t =
     (if fails (o_id r) then ([], t)
      else let (sent, t') = publish_rows fails rs
                 (pg_publish LEDGER_EVENTS (o_key r) (o_event r) (o_type r) (o_payload r) t)
           in (o_id r # sent, t'))"

definition relay_body :: "(nat \<Rightarrow> bool) \<Rightarrow> nat \<Rightarrow> nat m" where
  "relay_body fails batch_size =
     bind_op (reads (\<lambda>s. claim_unpublished {} batch_size (evt s))) (\<lambda>rows.
     if rows = [] then ret_op 0
     else bind_op (\<lambda>s. let (sent, t) = publish_rows fails rows (strm s) in (Inr sent, s\<lparr>strm := t\<rparr>)) (\<lambda>sent.
       bind_op (reads tx_now) (\<lambda>now.
       bind_op (on_evt (mark_published now sent)) (\<lambda>_.
       ret_op (length sent)))))"

definition relay_once :: "(nat \<Rightarrow> bool) \<Rightarrow> nat \<Rightarrow> nat m" where
  "relay_once fails batch_size = unit_of_work (relay_body fails batch_size)"

text \<open>\<open>run(once=True)\<close>: until a pass publishes nothing; fuel bounds the passes.\<close>

fun relay_run :: "nat \<Rightarrow> (nat \<Rightarrow> bool) \<Rightarrow> nat \<Rightarrow> st \<Rightarrow> (nat \<times> st) option" where
  "relay_run 0 fails batch_size s = None"
| "relay_run (Suc fuel) fails batch_size s =
     (case relay_once fails batch_size s of
        (Inl e, s') \<Rightarrow> None
      | (Inr count, s') \<Rightarrow>
          if count = 0 then Some (0, s')
          else map_option (\<lambda>(total, s''). (count + total, s'')) (relay_run fuel fails batch_size s'))"

text \<open>The relay dies with \<open>k\<close> rows of its batch published.\<close>

definition relay_crash :: "nat \<Rightarrow> nat \<Rightarrow> st \<Rightarrow> st" where
  "relay_crash k batch_size s =
     s\<lparr>strm := snd (publish_rows (\<lambda>_. False) (take k (claim_unpublished {} batch_size (evt s))) (strm s))\<rparr>"

section \<open>What one pass does\<close>

lemma publish_rows_sent:
  "fst (publish_rows fails rs t) = map o_id (takeWhile (\<lambda>r. \<not> fails (o_id r)) rs)"
  by (induction rs arbitrary: t) (auto simp: Let_def split_beta)

lemma publish_rows_log:
  "map msg_event (pg_log (snd (publish_rows fails rs t)) LEDGER_EVENTS)
     = map msg_event (pg_log t LEDGER_EVENTS) @ map o_event (takeWhile (\<lambda>r. \<not> fails (o_id r)) rs)"
proof (induction rs arbitrary: t)
  case Nil
  then show ?case by simp
next
  case (Cons r rs)
  show ?case
  proof (cases "fails (o_id r)")
    case True
    then show ?thesis by simp
  next
    case False
    have "map msg_event (pg_log (pg_publish LEDGER_EVENTS (o_key r) (o_event r) (o_type r) (o_payload r) t) LEDGER_EVENTS)
        = map msg_event (pg_log t LEDGER_EVENTS) @ [o_event r]"
      by (simp add: pg_log_def pg_publish_def)
    with Cons False show ?thesis by (simp add: Let_def split_beta)
  qed
qed

lemma claim_prefix:
  assumes "outbox_ok v"
  shows "claim_unpublished {} n v = take n (filter (\<lambda>r. o_published r = None) (outbox v))"
  using outbox_sorted [OF assms] by (simp add: claim_unpublished_def)

definition sent_rows :: "(nat \<Rightarrow> bool) \<Rightarrow> nat \<Rightarrow> event_tables \<Rightarrow> outbox_row list" where
  "sent_rows fails n v = takeWhile (\<lambda>r. \<not> fails (o_id r)) (claim_unpublished {} n v)"

definition mark_rows :: "int \<Rightarrow> nat list \<Rightarrow> event_tables \<Rightarrow> event_tables" where
  "mark_rows now ids v = snd (mark_published now ids v)"

lemma mark_rows_outbox:
  "outbox (mark_rows now ids v) = map (\<lambda>r. if o_id r \<in> set ids
      then r\<lparr>o_published := Some now, o_attempts := o_attempts r + 1\<rparr> else r) (outbox v)"
  by (simp add: mark_rows_def mark_published_def)

lemma relay_once_run:
  "relay_once fails n s =
     (Inr (length (sent_rows fails n (evt s))),
      s\<lparr>tx_now := wall s,
        evt := mark_rows (wall s) (map o_id (sent_rows fails n (evt s))) (evt s),
        strm := snd (publish_rows fails (claim_unpublished {} n (evt s)) (strm s))\<rparr>)"
proof (cases "claim_unpublished {} n (evt s) = []")
  case True
  then show ?thesis
    by (simp add: relay_once_def unit_of_work_def relay_body_def bind_op_def sent_rows_def mark_rows_def
        mark_published_def deferred_checks_def)
next
  case False
  then show ?thesis
    by (simp add: relay_once_def unit_of_work_def relay_body_def bind_op_def sent_rows_def mark_rows_def
        deferred_checks_def split_beta publish_rows_sent on_evt_def zoom_def Let_def mark_published_def)
qed

section \<open>At least once, in order\<close>

text \<open>The first occurrences of a list's elements, in order.\<close>

definition firsts :: "'a list \<Rightarrow> 'a list" where
  "firsts xs = rev (remdups (rev xs))"

lemma firsts_append: "firsts (xs @ ys) = firsts xs @ filter (\<lambda>y. y \<notin> set xs) (firsts ys)"
proof (induction ys rule: rev_induct)
  case Nil
  then show ?case by (simp add: firsts_def)
next
  case (snoc y ys)
  then show ?case by (auto simp: firsts_def)
qed

lemma firsts_distinct: "distinct xs \<Longrightarrow> firsts xs = xs"
  by (simp add: firsts_def distinct_remdups_id)

lemma set_firsts [simp]: "set (firsts xs) = set xs"
  by (simp add: firsts_def)

text \<open>Appending a run of a distinct list that starts inside what is already there.\<close>

lemma firsts_extend:
  assumes d: "distinct xs" and f: "firsts l = take q xs" and i: "i \<le> q" "q \<le> length xs"
  shows "firsts (l @ take k (drop i xs)) = take (max q (min (length xs) (i + k))) xs"
proof -
  have set_l: "set l = set (take q xs)" using f by (metis set_firsts)
  let ?run = "take k (drop i xs)"
  have run: "?run = take (min k (q - i)) (drop i xs) @ take (k - (q - i)) (drop q xs)"
  proof -
    have "take (q - i) ?run = take (min k (q - i)) (drop i xs)" by (simp add: min.commute)
    moreover have "drop (q - i) ?run = take (k - (q - i)) (drop q xs)" using i(1) by (simp add: drop_take)
    ultimately show ?thesis by (metis append_take_drop_id)
  qed
  have old: "set (take (min k (q - i)) (drop i xs)) \<subseteq> set (take q xs)"
  proof -
    have "take (min k (q - i)) (drop i xs) = drop i (take (min (i + k) q) xs)"
      using i(1) by (simp add: drop_take min_def)
    then show ?thesis
      by (metis set_drop_subset set_take_subset_set_take min.cobounded2 subset_trans)
  qed
  have new: "set (take m (drop q xs)) \<inter> set (take q xs) = {}" for m
    using d by (meson disjoint_iff in_set_takeD set_take_disj_set_drop_if_distinct order_refl)
  have "filter (\<lambda>y. y \<notin> set l) ?run = take (k - (q - i)) (drop q xs)"
  proof -
    have "filter (\<lambda>y. y \<notin> set (take q xs)) (take (min k (q - i)) (drop i xs)) = []"
      using old by (auto simp: filter_empty_conv)
    moreover have "filter (\<lambda>y. y \<notin> set (take q xs)) (take (k - (q - i)) (drop q xs)) = take (k - (q - i)) (drop q xs)"
      by (rule filter_True) (use new in blast)
    ultimately show ?thesis unfolding run set_l filter_append by simp
  qed
  moreover have "distinct ?run" using d by simp
  ultimately have "firsts (l @ ?run) = take q xs @ take (k - (q - i)) (drop q xs)"
    by (simp add: firsts_append firsts_distinct f)
  also have "\<dots> = take (q + (k - (q - i))) xs" by (simp add: take_add)
  also have "q + (k - (q - i)) = max q (i + k)" using i(1) by simp
  also have "take (max q (i + k)) xs = take (max q (min (length xs) (i + k))) xs"
    using i(2) by (cases "i + k \<le> length xs") (auto simp: max_def)
  finally show ?thesis .
qed


text \<open>
  What holds between passes: the published rows are a prefix of the outbox, and the stream's first
  occurrences are a prefix that is at least as long.
\<close>

definition delivered :: "nat \<Rightarrow> nat \<Rightarrow> st \<Rightarrow> bool" where
  "delivered p q s \<longleftrightarrow> outbox_ok (evt s) \<and> p \<le> q \<and> q \<le> length (outbox (evt s))
     \<and> (\<forall>j < length (outbox (evt s)). o_published (outbox (evt s) ! j) \<noteq> None \<longleftrightarrow> j < p)
     \<and> firsts (map msg_event (pg_log (strm s) LEDGER_EVENTS)) = take q (map o_event (outbox (evt s)))"

lemma filter_prefix:
  "p \<le> length xs \<Longrightarrow> (\<forall>j < length xs. P (xs ! j) \<longleftrightarrow> p \<le> j) \<Longrightarrow> filter P xs = drop p xs"
proof -
  assume p: "p \<le> length xs" and P: "\<forall>j < length xs. P (xs ! j) \<longleftrightarrow> p \<le> j"
  have "filter P (take p xs) = []" using p P by (fastforce simp: filter_empty_conv in_set_conv_nth)
  moreover have "filter P (drop p xs) = drop p xs"
    using P p by (intro filter_True) (auto simp: in_set_conv_nth)
  ultimately show ?thesis by (metis append_take_drop_id filter_append append_Nil)
qed

lemma takeWhile_everything: "takeWhile (\<lambda>_. True) xs = xs"
  by (induction xs) simp_all

lemma delivered_claim:
  assumes "delivered p q s"
  shows "claim_unpublished {} n (evt s) = take n (drop p (outbox (evt s)))"
proof -
  have "filter (\<lambda>r. o_published r = None) (outbox (evt s)) = drop p (outbox (evt s))"
    by (rule filter_prefix) (use assms in \<open>auto simp: delivered_def not_less [symmetric]\<close>)
  with assms show ?thesis by (simp add: claim_prefix delivered_def)
qed

lemma sent_is_run:
  assumes "delivered p q s"
  obtains k where "sent_rows fails n (evt s) = take k (drop p (outbox (evt s)))"
    "k \<le> length (outbox (evt s)) - p"
proof
  let ?k = "length (sent_rows fails n (evt s))"
  have sent: "sent_rows fails n (evt s) = takeWhile (\<lambda>r. \<not> fails (o_id r)) (take n (drop p (outbox (evt s))))"
    by (simp add: sent_rows_def delivered_claim [OF assms])
  have "sent_rows fails n (evt s) = take ?k (take n (drop p (outbox (evt s))))"
    unfolding sent by (rule takeWhile_eq_take)
  moreover have "?k \<le> n"
    using length_takeWhile_le [of "\<lambda>r. \<not> fails (o_id r)" "take n (drop p (outbox (evt s)))"]
    by (simp add: sent_rows_def delivered_claim [OF assms])
  ultimately show "sent_rows fails n (evt s) = take ?k (drop p (outbox (evt s)))" by (simp add: min_def)
  show "?k \<le> length (outbox (evt s)) - p"
    using length_takeWhile_le [of "\<lambda>r. \<not> fails (o_id r)" "take n (drop p (outbox (evt s)))"]
    by (simp add: sent_rows_def delivered_claim [OF assms])
qed

lemma id_in_run:
  assumes "outbox_ok v" "j < length (outbox v)" "p + k \<le> length (outbox v)"
  shows "o_id (outbox v ! j) \<in> o_id ` set (take k (drop p (outbox v))) \<longleftrightarrow> p \<le> j \<and> j < p + k"
proof
  assume "o_id (outbox v ! j) \<in> o_id ` set (take k (drop p (outbox v)))"
  then obtain i where i: "i < k" "o_id (outbox v ! j) = o_id (outbox v ! (p + i))"
    using assms(3) by (auto simp: in_set_conv_nth)
  have "distinct (map o_id (outbox v))"
    using assms(1) by (simp add: outbox_ok_def strict_sorted_iff)
  with i assms(2,3) have "j = p + i" by (simp add: distinct_conv_nth) (metis add_less_cancel_left less_le_trans)
  with i(1) show "p \<le> j \<and> j < p + k" by simp
next
  assume "p \<le> j \<and> j < p + k"
  then have "outbox v ! j = take k (drop p (outbox v)) ! (j - p)" "j - p < length (take k (drop p (outbox v)))"
    using assms(3) by auto
  then show "o_id (outbox v ! j) \<in> o_id ` set (take k (drop p (outbox v)))" by (metis image_eqI nth_mem)
qed

lemma delivered_pass:
  assumes d: "delivered p q s" and run: "relay_once fails n s = (r, s')"
  shows "\<exists>p' q'. delivered p' q' s'"
proof -
  let ?ob = "outbox (evt s)"
  obtain k where k: "sent_rows fails n (evt s) = take k (drop p ?ob)" "k \<le> length ?ob - p"
    by (rule sent_is_run [OF d])
  have ok: "outbox_ok (evt s)" and pq: "p \<le> q" "q \<le> length ?ob" using d by (simp_all add: delivered_def)
  then have pk: "p + k \<le> length ?ob" using k(2) by simp
  let ?ids = "map o_id (take k (drop p ?ob))"
  have s': "evt s' = mark_rows (wall s) ?ids (evt s)"
    "strm s' = snd (publish_rows fails (claim_unpublished {} n (evt s)) (strm s))"
    using run unfolding relay_once_run k(1) by auto
  let ?mark = "\<lambda>r. if o_id r \<in> set ?ids then r\<lparr>o_published := Some (wall s), o_attempts := o_attempts r + 1\<rparr> else r"
  have ob: "outbox (evt s') = map ?mark ?ob" by (simp only: s'(1) mark_rows_outbox)
  have ev: "map o_event (outbox (evt s')) = map o_event ?ob" unfolding ob by (rule map_mark) simp
  have ok': "outbox_ok (evt s')"
    unfolding s'(1) mark_rows_def using keeps_mark_published ok by (simp add: keeps_def)
  have flags: "o_published (outbox (evt s') ! j) \<noteq> None \<longleftrightarrow> j < p + k" if j: "j < length ?ob" for j
  proof -
    have "o_published (?ob ! j) \<noteq> None \<longleftrightarrow> j < p" using d j by (simp add: delivered_def)
    then show ?thesis using id_in_run [OF ok j pk] j by (auto simp: ob)
  qed
  have "firsts (map msg_event (pg_log (strm s') LEDGER_EVENTS))
      = firsts (map msg_event (pg_log (strm s) LEDGER_EVENTS) @ take k (drop p (map o_event ?ob)))"
    using k(1) by (simp add: s'(2) publish_rows_log sent_rows_def take_map drop_map)
  also have "\<dots> = take (max q (min (length (map o_event ?ob)) (p + k))) (map o_event ?ob)"
    by (rule firsts_extend) (use d ok pq in \<open>simp_all add: delivered_def outbox_ok_def\<close>)
  finally have "firsts (map msg_event (pg_log (strm s') LEDGER_EVENTS))
      = take (max q (p + k)) (map o_event (outbox (evt s')))"
    using pk ev by simp
  moreover have "length (outbox (evt s')) = length ?ob" by (simp add: ob)
  ultimately have "delivered (p + k) (max q (p + k)) s'"
    unfolding delivered_def using ok' flags pq pk by (simp only:) simp
  then show ?thesis by blast
qed

lemma delivered_crash:
  assumes d: "delivered p q s"
  shows "\<exists>q'. delivered p q' (relay_crash k n s)"
proof -
  let ?ob = "outbox (evt s)" and ?k = "min k n"
  have pq: "p \<le> q" "q \<le> length ?ob" and ok: "outbox_ok (evt s)" using d by (simp_all add: delivered_def)
  have "map msg_event (pg_log (strm (relay_crash k n s)) LEDGER_EVENTS)
      = map msg_event (pg_log (strm s) LEDGER_EVENTS) @ take ?k (drop p (map o_event ?ob))"
    by (simp add: takeWhile_everything relay_crash_def publish_rows_log delivered_claim [OF d] take_map drop_map)
  then have "firsts (map msg_event (pg_log (strm (relay_crash k n s)) LEDGER_EVENTS))
      = take (max q (min (length (map o_event ?ob)) (p + ?k))) (map o_event ?ob)"
    by (simp only:) (rule firsts_extend; use d ok pq in \<open>simp_all add: delivered_def outbox_ok_def\<close>)
  with d pq have "delivered p (max q (min (length ?ob) (p + ?k))) (relay_crash k n s)"
    by (simp add: delivered_def relay_crash_def)
  then show ?thesis by blast
qed


section \<open>The relay as a system\<close>

text \<open>Postings append to the outbox, the relay passes over it, the relay dies.\<close>

inductive relay_step :: "st \<Rightarrow> st \<Rightarrow> bool" where
  emits: "on_evt (append_outbox ts now event tenant mode key ty payload) s = (Inr row, s') \<Longrightarrow> relay_step s s'"
| passes: "relay_once fails n s = (r, s') \<Longrightarrow> relay_step s s'"
| crashes: "relay_step s (relay_crash k n s)"

inductive relay_reachable :: "st \<Rightarrow> st \<Rightarrow> bool" for s0 where
  start: "relay_reachable s0 s0"
| next_step: "relay_reachable s0 s \<Longrightarrow> relay_step s s' \<Longrightarrow> relay_reachable s0 s'"

inductive_simps relay_step_simps: "relay_step s s'"

lemma delivered_emit:
  assumes d: "delivered p q s"
    and a: "on_evt (append_outbox ts now event tenant mode key ty payload) s = (Inr row, s')"
  shows "delivered p q s'"
proof -
  from a obtain v where v: "append_outbox ts now event tenant mode key ty payload (evt s) = (Inr row, v)"
    and s': "s' = s\<lparr>evt := v\<rparr>" by (auto simp: on_iff)
  note run = append_outbox_Inr [OF v]
  have "outbox_ok v" using d by (intro keepsD [OF keeps_append_outbox _ v]) (simp add: delivered_def)
  moreover have "o_published row = None" by (simp add: run(1))
  ultimately show ?thesis
    using d unfolding delivered_def s' by (auto simp: run(2) nth_append less_Suc_eq)
qed

lemma relay_reachable_delivered:
  "relay_reachable s0 s \<Longrightarrow> delivered p q s0 \<Longrightarrow> \<exists>p q. delivered p q s"
proof (induction rule: relay_reachable.induct)
  case start
  then show ?case by blast
next
  case (next_step s s')
  then obtain p' q' where d: "delivered p' q' s" by blast
  from next_step.hyps(2) show ?case
  proof cases
    case emits
    with delivered_emit [OF d] show ?thesis by blast
  next
    case passes
    with delivered_pass [OF d] show ?thesis by blast
  next
    case crashes
    with delivered_crash [OF d] show ?thesis by blast
  qed
qed

text \<open>No event appended, nothing on the stream.\<close>

definition quiet :: "st \<Rightarrow> bool" where
  "quiet s \<longleftrightarrow> outbox (evt s) = [] \<and> distinct (processed (evt s)) \<and> pg_log (strm s) LEDGER_EVENTS = []"

lemma quiet_delivered: "quiet s \<Longrightarrow> delivered 0 0 s"
  by (simp add: quiet_def delivered_def outbox_ok_def firsts_def)

section \<open>Draining\<close>

definition unpublished :: "st \<Rightarrow> outbox_row list" where
  "unpublished s = filter (\<lambda>r. o_published r = None) (outbox (evt s))"

lemma filter_not_taken:
  "distinct (map f xs) \<Longrightarrow> filter (\<lambda>x. f x \<notin> f ` set (take n xs)) xs = drop n xs"
proof -
  assume d: "distinct (map f xs)"
  have "filter (\<lambda>x. f x \<notin> f ` set (take n xs)) (take n xs) = []" by (simp add: filter_empty_conv)
  moreover have "filter (\<lambda>x. f x \<notin> f ` set (take n xs)) (drop n xs) = drop n xs"
  proof (rule filter_True)
    have "set (take n (map f xs)) \<inter> set (drop n (map f xs)) = {}"
      using d by (rule set_take_disj_set_drop_if_distinct) simp
    then show "\<forall>x \<in> set (drop n xs). f x \<notin> f ` set (take n xs)"
      by (auto simp: take_map drop_map)
  qed
  ultimately show ?thesis by (metis append_take_drop_id filter_append append_Nil)
qed

lemma pass_progress:
  fixes n :: nat and s :: st
  assumes ok: "outbox_ok (evt s)"
  defines "s' \<equiv> snd (relay_once (\<lambda>_. False) n s)"
  shows "outbox_ok (evt s')" "unpublished s' = drop n (unpublished s)"
    "relay_once (\<lambda>_. False) n s = (Inr (min n (length (unpublished s))), s')"
proof -
  have sent: "sent_rows (\<lambda>_. False) n (evt s) = take n (unpublished s)"
    by (simp add: sent_rows_def takeWhile_everything claim_prefix [OF ok] unpublished_def)
  then show "relay_once (\<lambda>_. False) n s = (Inr (min n (length (unpublished s))), s')"
    by (simp add: s'_def relay_once_run min.commute)
  let ?ids = "map o_id (take n (unpublished s))"
  have s': "evt s' = mark_rows (wall s) ?ids (evt s)" by (simp add: s'_def relay_once_run sent)
  show "outbox_ok (evt s')"
    unfolding s' mark_rows_def using keeps_mark_published ok by (simp add: keeps_def)
  have d: "distinct (map o_id (unpublished s))"
    using ok by (simp add: unpublished_def outbox_ok_def strict_sorted_iff distinct_map_filter)
  have "filter (\<lambda>r. o_published r = None) (map (\<lambda>r. if o_id r \<in> I
        then r\<lparr>o_published := Some w, o_attempts := o_attempts r + 1\<rparr> else r) ob)
      = filter (\<lambda>r. o_id r \<notin> I) (filter (\<lambda>r. o_published r = None) ob)" for I w ob
    by (induction ob) auto
  then have "unpublished s' = filter (\<lambda>r. o_id r \<notin> set ?ids) (unpublished s)"
    by (simp only: unpublished_def s' mark_rows_outbox)
  then show "unpublished s' = drop n (unpublished s)" using filter_not_taken [OF d, of n] by simp
qed

lemma relay_run_total:
  "\<lbrakk>outbox_ok (evt s); 0 < n; length (unpublished s) < fuel\<rbrakk> \<Longrightarrow>
   \<exists>s'. relay_run fuel (\<lambda>_. False) n s = Some (length (unpublished s), s') \<and> unpublished s' = []"
proof (induction fuel arbitrary: s)
  case 0
  then show ?case by simp
next
  case (Suc fuel)
  obtain s1 where step: "relay_once (\<lambda>_. False) n s = (Inr (min n (length (unpublished s))), s1)"
    "outbox_ok (evt s1)" "unpublished s1 = drop n (unpublished s)"
    using pass_progress [OF Suc.prems(1), of n] by (metis snd_conv)
  show ?case
  proof (cases "unpublished s = []")
    case True
    with step show ?thesis by simp
  next
    case False
    then have some: "0 < length (unpublished s)" by simp
    then have pos: "0 < min n (length (unpublished s))" using Suc.prems(2) by simp
    have "length (unpublished s1) = length (unpublished s) - n" using step(3) by simp
    with some Suc.prems(2,3) have "length (unpublished s1) < fuel" by linarith
    from Suc.IH [OF step(2) Suc.prems(2) this] obtain s' where
      "relay_run fuel (\<lambda>_. False) n s1 = Some (length (unpublished s1), s')" "unpublished s' = []" by blast
    with step(1,3) pos show ?thesis by simp
  qed
qed

section \<open>Properties\<close>

text \<open>
  C8. Delivery is at least once and in order: from an empty outbox, through any interleaving of
  appended events, relay passes with failing publishes, and crashes of the relay between publishing
  and marking, no row is ever marked published whose event is not on the stream, and the first
  occurrences on the stream are an initial piece of the outbox in its own order (repeats are only
  repeats; nothing overtakes, nothing is skipped).
\<close>

theorem relay_delivers_at_least_once_in_order:
  assumes "quiet s0" "relay_reachable s0 s"
  shows "(\<exists>q. firsts (map msg_event (pg_log (strm s) LEDGER_EVENTS)) = take q (map o_event (outbox (evt s))))
     \<and> (\<forall>r \<in> set (outbox (evt s)). o_published r \<noteq> None \<longrightarrow>
           o_event r \<in> msg_event ` set (pg_log (strm s) LEDGER_EVENTS))"
proof -
  obtain p q where d: "delivered p q s"
    using relay_reachable_delivered [OF assms(2) quiet_delivered [OF assms(1)]] by blast
  let ?log = "map msg_event (pg_log (strm s) LEDGER_EVENTS)" and ?ob = "outbox (evt s)"
  have f: "firsts ?log = take q (map o_event ?ob)" using d by (simp add: delivered_def)
  have "o_event r \<in> set ?log" if r: "r \<in> set ?ob" "o_published r \<noteq> None" for r
  proof -
    from r(1) obtain j where j: "j < length ?ob" "r = ?ob ! j" by (auto simp: in_set_conv_nth)
    with r(2) d have "j < q" by (auto simp: delivered_def)
    with j have "o_event r \<in> set (take q (map o_event ?ob))" by (auto simp: in_set_conv_nth)
    then show ?thesis using f by (metis set_firsts)
  qed
  with f show ?thesis by auto
qed

text \<open>
  C15. A relay run with a healthy stream ends: with more fuel than there are unpublished rows it
  returns, it has published each of them once, and none is left.
\<close>

theorem relay_run_drains:
  assumes "outbox_ok (evt s)" "0 < n" "length (unpublished s) < fuel"
  shows "\<exists>s'. relay_run fuel (\<lambda>_. False) n s = Some (length (unpublished s), s') \<and> unpublished s' = []"
  by (rule relay_run_total [OF assms])

text \<open>Two events, a crash after the first is published, then a full pass: the first is repeated.\<close>

definition demo_outbox :: event_tables where
  "demo_outbox =
     \<lparr>outbox =
        [\<lparr>o_id = 1, o_event = ''evt_1'', o_tenant = ''t'', o_mode = TEST, o_key = ''acct_1'', o_type = ''x'',
          o_payload = JNull, o_created = 0, o_published = None, o_attempts = 0\<rparr>,
         \<lparr>o_id = 2, o_event = ''evt_2'', o_tenant = ''t'', o_mode = TEST, o_key = ''acct_1'', o_type = ''x'',
          o_payload = JNull, o_created = 0, o_published = None, o_attempts = 0\<rparr>],
      outbox_seq = 3, processed = [], dead_letters = []\<rparr>"

definition relay_state :: "event_tables \<Rightarrow> st" where
  "relay_state v =
     \<lparr>led = \<lparr>tenants = [''t''], accounts = [], transactions = [], entries = [], snapshots = [], entry_seq = 1\<rparr>,
      evt = v, nrm = no_norms, rsk = \<lparr>signals = [], late_arrivals = [], account_features = []\<rparr>,
      hks = \<lparr>endpoints = [], deliveries = []\<rparr>, idm = [], sid = no_side_tables,
      strm = \<lparr>messages = [], message_seq = 1, offsets = [], stream_clock = 0\<rparr>,
      idg = stuck_clock, redis = None, newest_event = None, wall = 0, tx_now = 0\<rparr>"

lemma demo_relay_steps:
  "on_evt (append_outbox [''t''] 0 ''evt_1'' ''t'' TEST ''acct_1'' ''x'' JNull)
      (relay_state \<lparr>outbox = [], outbox_seq = 1, processed = [], dead_letters = []\<rparr>)
     = (Inr (outbox demo_outbox ! 0), relay_state (demo_outbox\<lparr>outbox := take 1 (outbox demo_outbox), outbox_seq := 2\<rparr>))"
  "on_evt (append_outbox [''t''] 0 ''evt_2'' ''t'' TEST ''acct_1'' ''x'' JNull)
      (relay_state (demo_outbox\<lparr>outbox := take 1 (outbox demo_outbox), outbox_seq := 2\<rparr>))
     = (Inr (outbox demo_outbox ! 1), relay_state demo_outbox)"
  by (simp_all add: on_evt_def zoom_def append_outbox_def bind_op_def guard_op_def Let_def relay_state_def
      demo_outbox_def)

lemma demo_outbox_ok: "outbox_ok demo_outbox"
  by (simp add: outbox_ok_def demo_outbox_def)

theorem relay_delivers_at_least_once_in_order_witness:
  "\<exists>s0 s. quiet s0 \<and> relay_reachable s0 s
     \<and> map msg_event (pg_log (strm s) LEDGER_EVENTS) = [''evt_1'', ''evt_1'', ''evt_2'']
     \<and> firsts (map msg_event (pg_log (strm s) LEDGER_EVENTS)) = [''evt_1'', ''evt_2'']
     \<and> (\<forall>r \<in> set (outbox (evt s)). o_published r \<noteq> None \<longrightarrow>
           o_event r \<in> msg_event ` set (pg_log (strm s) LEDGER_EVENTS))"
proof -
  let ?s0 = "relay_state \<lparr>outbox = [], outbox_seq = 1, processed = [], dead_letters = []\<rparr>"
  let ?s2 = "relay_state demo_outbox" and ?s3 = "relay_crash 1 5 (relay_state demo_outbox)"
  obtain r s4 where pass: "relay_once (\<lambda>_. False) 5 ?s3 = (r, s4)" by (cases "relay_once (\<lambda>_. False) 5 ?s3")
  have q: "quiet ?s0" by (simp add: quiet_def relay_state_def pg_log_def)
  have "relay_reachable ?s0 ?s2"
    by (rule relay_reachable.next_step [OF relay_reachable.next_step [OF relay_reachable.start]])
      (rule relay_step.emits [OF demo_relay_steps(1)], rule relay_step.emits [OF demo_relay_steps(2)])
  then have reach: "relay_reachable ?s0 s4"
    by (rule relay_reachable.next_step [OF relay_reachable.next_step [OF _ relay_step.crashes [of _ 1 5]]
          relay_step.passes [OF pass]])
  have rows: "claim_unpublished {} n demo_outbox = take n (outbox demo_outbox)" for n
    unfolding claim_prefix [OF demo_outbox_ok] by (simp add: demo_outbox_def)
  have events: "map o_event (outbox demo_outbox) = [''evt_1'', ''evt_2'']" by (simp add: demo_outbox_def)
  have parts: "evt (relay_state v) = v" "pg_log (strm (relay_state v)) LEDGER_EVENTS = []" for v
    by (simp_all add: relay_state_def pg_log_def)
  have "strm s4 = snd (publish_rows (\<lambda>_. False) (claim_unpublished {} 5 demo_outbox) (strm ?s3))"
    using pass unfolding relay_once_run by (auto simp: relay_crash_def parts)
  then have log: "map msg_event (pg_log (strm s4) LEDGER_EVENTS) = [''evt_1'', ''evt_1'', ''evt_2'']"
    by (simp add: publish_rows_log relay_crash_def parts rows takeWhile_everything events take_map [symmetric])
  with relay_delivers_at_least_once_in_order [OF q reach] q reach show ?thesis
    by (intro exI [of _ ?s0] exI [of _ s4]) (simp add: firsts_def)
qed

theorem relay_run_drains_witness:
  "\<exists>s'. relay_run 3 (\<lambda>_. False) 1 (relay_state demo_outbox) = Some (2, s') \<and> unpublished s' = []"
proof -
  have "length (unpublished (relay_state demo_outbox)) = 2"
    by (simp add: unpublished_def relay_state_def demo_outbox_def)
  with relay_run_drains [of "relay_state demo_outbox" 1 3] demo_outbox_ok show ?thesis
    by (simp add: relay_state_def)
qed

end
