(* ===== verification/Runner.thy ===== *)
theory Runner
  imports Relay
begin

text \<open>
  \<open>workers/runner.py\<close>: the loop every consumer shares. A consumer is a group, a topic and a handler
  that runs inside the transaction that holds its claim. What all handlers promise is the locale
  \<open>consumer_contract\<close>; the facts about claims, retries, dead letters and draining are proved in it
  once. The random part of a delay and the text of a traceback are the environment's; a shutdown
  request is in \<open>Shutdown\<close>, a crash leaves the state between two transactions.
\<close>

record consumer =
  cs_group :: string
  cs_topic :: string
  cs_handle :: "message \<Rightarrow> unit m"

record worker_env =
  env_jitter :: "string \<Rightarrow> nat \<Rightarrow> real"  \<comment> \<open>\<open>random.random()\<close> of an event's attempt\<close>
  env_describe :: "exn \<Rightarrow> string"         \<comment> \<open>\<open>traceback.format_exception_only\<close>\<close>

fun money_error_name :: "money_error \<Rightarrow> string" where
  "money_error_name MoneyError = ''MoneyError''"
| "money_error_name CurrencyMismatch = ''CurrencyMismatch''"
| "money_error_name UnsupportedCurrency = ''UnsupportedCurrency''"
| "money_error_name PrecisionError = ''PrecisionError''"

fun ledger_error_name :: "ledger_error \<Rightarrow> string" where
  "ledger_error_name LedgerError = ''LedgerError''"
| "ledger_error_name UnbalancedTransaction = ''UnbalancedTransaction''"
| "ledger_error_name InvalidEntry = ''InvalidEntry''"
| "ledger_error_name UnknownPostingKind = ''UnknownPostingKind''"

fun app_error_name :: "app_error \<Rightarrow> string" where
  "app_error_name (LedgerFlowError _) = ''LedgerFlowError''"
| "app_error_name AuthenticationError = ''AuthenticationError''"
| "app_error_name PermissionDenied = ''PermissionError_''"
| "app_error_name (NotFound _) = ''NotFound''"
| "app_error_name AccountNotFound = ''AccountNotFound''"
| "app_error_name (InsufficientFunds _ _ _) = ''InsufficientFunds''"
| "app_error_name (CurrencyMismatchError _) = ''CurrencyMismatchError''"
| "app_error_name ConflictError = ''ConflictError''"
| "app_error_name IdempotencyKeyReuse = ''IdempotencyKeyReuse''"
| "app_error_name RequestInFlight = ''RequestInFlight''"
| "app_error_name AlreadyReversed = ''AlreadyReversed''"
| "app_error_name (TransactionDeclined _) = ''TransactionDeclined''"
| "app_error_name (RateLimited _) = ''RateLimited''"

fun db_error_name :: "db_error \<Rightarrow> string" where
  "db_error_name UniqueViolation = ''UniqueViolation''"
| "db_error_name ForeignKeyViolation = ''ForeignKeyViolation''"
| "db_error_name CheckViolation = ''CheckViolation''"
| "db_error_name RestrictViolation = ''RestrictViolation''"
| "db_error_name NumericOutOfRange = ''NumericValueOutOfRange''"
| "db_error_name LockNotAvailable = ''LockNotAvailable''"
| "db_error_name UndefinedFunction = ''UndefinedFunction''"
| "db_error_name NotNullViolation = ''NotNullViolation''"

fun py_error_name :: "py_error \<Rightarrow> string" where
  "py_error_name ValueError = ''ValueError''"
| "py_error_name OverflowError = ''OverflowError''"
| "py_error_name InvalidOperation = ''InvalidOperation''"
| "py_error_name KeyError = ''KeyError''"
| "py_error_name TypeError = ''TypeError''"
| "py_error_name AttributeError = ''AttributeError''"
| "py_error_name StopIteration = ''StopIteration''"
| "py_error_name OSError = ''OSError''"

text \<open>\<open>type(exc).__name__\<close>.\<close>

fun exn_name :: "exn \<Rightarrow> string" where
  "exn_name (MoneyExn e) = money_error_name e"
| "exn_name (LedgerExn e) = ledger_error_name e"
| "exn_name (AppExn e) = app_error_name e"
| "exn_name (DbExn e) = db_error_name e"
| "exn_name (PyExn e) = py_error_name e"
| "exn_name PoisonMessage = ''PoisonMessage''"

section \<open>One message\<close>

definition claim_and_handle :: "consumer \<Rightarrow> message \<Rightarrow> unit m" where
  "claim_and_handle c msg =
     bind_op (on_evt (claim_event (cs_group c) (msg_event msg))) (\<lambda>claimed.
     if claimed then cs_handle c msg else ret_op ())"

text \<open>The delay before the next attempt, in microseconds.\<close>

definition retry_delay :: "real \<Rightarrow> nat \<Rightarrow> int" where
  "retry_delay jitter attempt = \<lfloor>2 ^ attempt * 100000 * (1 / 2 + jitter)\<rfloor>"

definition sleep :: "int \<Rightarrow> st \<Rightarrow> st" where
  "sleep us s = s\<lparr>wall := wall s + us\<rparr>"

text \<open>
  The \<open>while\<close> loop: \<open>left\<close> attempts remain, \<open>attempt\<close> are made, \<open>err\<close> is the last error. \<open>None\<close> is the
  return from inside the loop.
\<close>

fun attempts ::
  "consumer \<Rightarrow> worker_env \<Rightarrow> message \<Rightarrow> nat \<Rightarrow> nat \<Rightarrow> exn option \<Rightarrow> st \<Rightarrow> (exn option \<times> nat) option \<times> st" where
  "attempts c env msg 0 attempt err s = (Some (err, attempt), s)"
| "attempts c env msg (Suc left) attempt err s =
     (case unit_of_work (claim_and_handle c msg) s of
        (Inr _, s') \<Rightarrow> (None, s')
      | (Inl e, s') \<Rightarrow>
          if e = PoisonMessage then (Some (Some e, attempt + 1), s')
          else attempts c env msg left (attempt + 1) (Some e)
                 (if 0 < left then sleep (retry_delay (env_jitter env (msg_event msg) (attempt + 1)) (attempt + 1)) s'
                  else s'))"

definition bury :: "consumer \<Rightarrow> worker_env \<Rightarrow> message \<Rightarrow> exn option \<Rightarrow> nat \<Rightarrow> unit m" where
  "bury c env msg err attempt =
     unit_of_work
       (bind_op (fresh_id (new_id ''dlq'')) (\<lambda>i.
        bind_op (reads tx_now) (\<lambda>now.
        on_evt (dead_letter now i (cs_group c) (msg_event msg) (msg_topic msg) (msg_payload msg)
          (case err of None \<Rightarrow> ''Unknown'' | Some e \<Rightarrow> exn_name e)
          (case err of None \<Rightarrow> [] | Some e \<Rightarrow> env_describe env e) attempt))))"

definition process_one :: "consumer \<Rightarrow> worker_env \<Rightarrow> message \<Rightarrow> bool m" where
  "process_one c env msg s =
     (case attempts c env msg consumer_max_attempts 0 None s of
        (None, s') \<Rightarrow> (Inr True, s')
      | (Some (err, attempt), s') \<Rightarrow> bind_op (bury c env msg err attempt) (\<lambda>_. ret_op True) s')"

section \<open>The loop\<close>

definition commit_offset :: "consumer \<Rightarrow> message \<Rightarrow> unit m" where
  "commit_offset c msg =
     writes (\<lambda>s. s\<lparr>strm := pg_commit (cs_topic c) (cs_group c) (msg_offset msg) (strm s)\<rparr>)"

fun run_batch :: "consumer \<Rightarrow> worker_env \<Rightarrow> message list \<Rightarrow> nat m" where
  "run_batch c env [] = ret_op 0"
| "run_batch c env (msg # msgs) =
     bind_op (process_one c env msg) (\<lambda>done.
     if done then bind_op (commit_offset c msg) (\<lambda>_.
       bind_op (run_batch c env msgs) (\<lambda>n. ret_op (n + 1)))
     else run_batch c env msgs)"

text \<open>
  \<open>run(consumer, once=True)\<close>: fuel bounds the polls, \<open>None\<close> is running out of it. No consumer of
  the program overrides \<open>on_idle\<close>.
\<close>

fun run_consumer :: "nat \<Rightarrow> consumer \<Rightarrow> worker_env \<Rightarrow> st \<Rightarrow> ((exn + nat) \<times> st) option" where
  "run_consumer 0 c env s = None"
| "run_consumer (Suc fuel) c env s =
     (case pg_poll (cs_topic c) (cs_group c) consumer_batch_size (strm s) of
        [] \<Rightarrow> Some (Inr 0, s)
      | batch \<Rightarrow>
          (case run_batch c env batch s of
             (Inl e, s') \<Rightarrow> Some (Inl e, s')
           | (Inr n, s') \<Rightarrow>
               map_option (\<lambda>(r, s''). (map_sum id (\<lambda>total. n + total) r, s''))
                 (run_consumer fuel c env s')))"

section \<open>The contract of a handler\<close>

text \<open>
  A handler writes tables of its own: not the ledger, not the events (claims, outbox, dead letters),
  not its own topic, and no offset.
\<close>

locale consumer_contract =
  fixes c :: consumer
  assumes handle_led: "keeps (\<lambda>s. led s = l) (cs_handle c msg)"
    and handle_evt: "keeps (\<lambda>s. evt s = v) (cs_handle c msg)"
    and handle_log: "keeps (\<lambda>s. pg_log (strm s) (cs_topic c) = ms) (cs_handle c msg)"
    and handle_offsets: "keeps (\<lambda>s. offsets (strm s) = os) (cs_handle c msg)"
    and handle_stream: "keeps (\<lambda>s. stream_ok (strm s)) (cs_handle c msg)"

text \<open>The same rows in every table.\<close>

definition same_tables :: "st \<Rightarrow> st \<Rightarrow> bool" where
  "same_tables s s' \<longleftrightarrow> led s' = led s \<and> evt s' = evt s \<and> nrm s' = nrm s \<and> rsk s' = rsk s
     \<and> hks s' = hks s \<and> idm s' = idm s \<and> sid s' = sid s"

lemma same_tables_refl [simp, intro]: "same_tables s s"
  by (simp add: same_tables_def)

lemma same_tables_trans [trans]: "same_tables s s' \<Longrightarrow> same_tables s' s'' \<Longrightarrow> same_tables s s''"
  by (simp add: same_tables_def)

lemma same_tables_sleep [simp]: "same_tables s (sleep d s') = same_tables s s'"
  by (simp add: same_tables_def sleep_def)

lemma same_tables_tx [simp]: "same_tables s (s'\<lparr>tx_now := t\<rparr>) = same_tables s s'"
  by (simp add: same_tables_def)

text \<open>What a group has still to read.\<close>

abbreviation backlog :: "consumer \<Rightarrow> st \<Rightarrow> message list" where
  "backlog c s \<equiv> pg.pending (strm s) (cs_topic c) (cs_group c)"

abbreviation claimed :: "consumer \<Rightarrow> message \<Rightarrow> st \<Rightarrow> bool" where
  "claimed c msg s \<equiv> (cs_group c, msg_event msg) \<in> set (processed (evt s))"

text \<open>The claim, as the handler finds it.\<close>

definition with_claim :: "consumer \<Rightarrow> message \<Rightarrow> st \<Rightarrow> st" where
  "with_claim c msg s =
     s\<lparr>tx_now := wall s, evt := (evt s)\<lparr>processed := processed (evt s) @ [(cs_group c, msg_event msg)]\<rparr>\<rparr>"

lemma deferred_same [simp]: "deferred_checks l l"
  by (simp add: deferred_checks_def)

lemma skip_duplicate:
  "claimed c msg s \<Longrightarrow> unit_of_work (claim_and_handle c msg) s = (Inr (), s\<lparr>tx_now := wall s\<rparr>)"
  by (simp add: unit_of_work_def claim_and_handle_def bind_op_def on_evt_def zoom_def claim_event_iff)

text \<open>Every unit that handles, handles exactly the claimed state.\<close>

lemma claim_unfolds:
  "\<not> claimed c msg s \<Longrightarrow>
   claim_and_handle c msg (s\<lparr>tx_now := wall s\<rparr>) = cs_handle c msg (with_claim c msg s)"
  by (simp add: claim_and_handle_def bind_op_def on_evt_def zoom_def claim_event_iff with_claim_def)

lemma max_attempts: "consumer_max_attempts = Suc (Suc (Suc 0))"
  by (simp add: consumer_max_attempts_def)

text \<open>What a worker's step leaves alone on the stream.\<close>

definition stream_kept :: "consumer \<Rightarrow> st \<Rightarrow> st \<Rightarrow> bool" where
  "stream_kept c s s' \<longleftrightarrow> pg_log (strm s') (cs_topic c) = pg_log (strm s) (cs_topic c)
     \<and> offsets (strm s') = offsets (strm s) \<and> (stream_ok (strm s) \<longrightarrow> stream_ok (strm s'))"

lemma stream_kept_refl [simp, intro]: "stream_kept c s s"
  by (simp add: stream_kept_def)

lemma stream_kept_trans: "stream_kept c s s' \<Longrightarrow> stream_kept c s' s'' \<Longrightarrow> stream_kept c s s''"
  by (auto simp: stream_kept_def)

lemma stream_kept_same [simp]:
  "strm s' = strm s \<Longrightarrow> stream_kept c s s'"
  by (simp add: stream_kept_def)

lemma stream_kept_sleep [simp]: "stream_kept c s (sleep d s') = stream_kept c s s'"
  by (simp add: stream_kept_def sleep_def)

lemma stream_kept_backlog: "stream_kept c s s' \<Longrightarrow> backlog c s' = backlog c s"
  by (simp add: stream_kept_def pg.pending_def pg_offset_def)

text \<open>A grave: the row a message leaves when it is given up.\<close>

definition buried :: "consumer \<Rightarrow> message \<Rightarrow> exn option \<Rightarrow> nat \<Rightarrow> st \<Rightarrow> st \<Rightarrow> bool" where
  "buried c msg err n s s' \<longleftrightarrow>
     (\<exists>d. evt s' = (evt s)\<lparr>dead_letters := dead_letters (evt s) @ [d]\<rparr>
        \<and> led s' = led s \<and> nrm s' = nrm s \<and> rsk s' = rsk s \<and> hks s' = hks s \<and> idm s' = idm s \<and> sid s' = sid s
        \<and> dl_group d = cs_group c \<and> dl_event d = msg_event msg \<and> dl_topic d = msg_topic msg
        \<and> dl_payload d = msg_payload msg \<and> dl_attempts d = n \<and> dl_resolved d = None
        \<and> dl_class d = (case err of None \<Rightarrow> ''Unknown'' | Some e \<Rightarrow> exn_name e))"

lemma dead_letter_run:
  "dead_letter now i g e t p cls detail n v =
     (if \<exists>d \<in> set (dead_letters v). dl_id d = i then (Inl (DbExn UniqueViolation), v)
      else (Inr (), v\<lparr>dead_letters := dead_letters v @
        [\<lparr>dl_id = i, dl_group = g, dl_event = e, dl_topic = t, dl_payload = p, dl_class = cls,
          dl_detail = take 2000 detail, dl_attempts = n, dl_first = now, dl_last = now, dl_resolved = None\<rparr>]\<rparr>))"
  by (auto simp: dead_letter_def bind_op_def guard_op_def)

lemma bury_run:
  assumes "bury c env msg err n s = (r, s')"
  shows "strm s' = strm s"
    "(r = Inr () \<and> buried c msg err n s s') \<or> (r = Inl (DbExn UniqueViolation) \<and> same_tables s s')"
proof -
  let ?s0 = "s\<lparr>tx_now := wall s\<rparr>"
  obtain i g where i: "new_id ''dlq'' (idg s) = (i, g)" by fastforce
  let ?dead = "dead_letter (wall s) i (cs_group c) (msg_event msg) (msg_topic msg) (msg_payload msg)
      (case err of None \<Rightarrow> ''Unknown'' | Some e \<Rightarrow> exn_name e)
      (case err of None \<Rightarrow> [] | Some e \<Rightarrow> env_describe env e) n"
  have step: "fresh_id (new_id ''dlq'') ?s0 = (Inr i, ?s0\<lparr>idg := g\<rparr>)"
    by (simp add: fresh_id_def i)
  obtain q v where d: "?dead (evt s) = (q, v)" by fastforce
  have body: "bind_op (fresh_id (new_id ''dlq'')) (\<lambda>i. bind_op (reads tx_now) (\<lambda>now.
        on_evt (dead_letter now i (cs_group c) (msg_event msg) (msg_topic msg) (msg_payload msg)
          (case err of None \<Rightarrow> ''Unknown'' | Some e \<Rightarrow> exn_name e)
          (case err of None \<Rightarrow> [] | Some e \<Rightarrow> env_describe env e) n))) ?s0
      = (q, ?s0\<lparr>idg := g, evt := v\<rparr>)"
    by (simp add: bind_op_def step on_evt_def zoom_def d)
  have q: "(q = Inr () \<and> (\<exists>x. v = (evt s)\<lparr>dead_letters := dead_letters (evt s) @ [x]\<rparr>
        \<and> dl_group x = cs_group c \<and> dl_event x = msg_event msg \<and> dl_topic x = msg_topic msg
        \<and> dl_payload x = msg_payload msg \<and> dl_attempts x = n \<and> dl_resolved x = None
        \<and> dl_class x = (case err of None \<Rightarrow> ''Unknown'' | Some e \<Rightarrow> exn_name e)))
      \<or> (q = Inl (DbExn UniqueViolation) \<and> v = evt s)"
    using d unfolding dead_letter_run by (auto split: if_splits)
  have run: "(r, s') = (case q of Inl e \<Rightarrow> (Inl e, rollback s (?s0\<lparr>idg := g, evt := v\<rparr>))
      | Inr x \<Rightarrow> (Inr x, ?s0\<lparr>idg := g, evt := v\<rparr>))"
    using assms by (cases q) (auto simp: bury_def unit_of_work_def body)
  from run show "strm s' = strm s" by (auto simp: rollback_def split: sum.splits)
  from q show "(r = Inr () \<and> buried c msg err n s s') \<or> (r = Inl (DbExn UniqueViolation) \<and> same_tables s s')"
  proof
    assume "q = Inr () \<and> (\<exists>x. v = (evt s)\<lparr>dead_letters := dead_letters (evt s) @ [x]\<rparr>
        \<and> dl_group x = cs_group c \<and> dl_event x = msg_event msg \<and> dl_topic x = msg_topic msg
        \<and> dl_payload x = msg_payload msg \<and> dl_attempts x = n \<and> dl_resolved x = None
        \<and> dl_class x = (case err of None \<Rightarrow> ''Unknown'' | Some e \<Rightarrow> exn_name e))"
    with run have "r = Inr ()" "buried c msg err n s s'" by (auto simp: buried_def)
    then show ?thesis by simp
  next
    assume "q = Inl (DbExn UniqueViolation) \<and> v = evt s"
    with run show ?thesis by (simp add: same_tables_def rollback_def)
  qed
qed

context consumer_contract
begin

lemma handle_frame:
  assumes "cs_handle c msg s = (r, s')"
  shows "led s' = led s" "evt s' = evt s" "stream_kept c s s'"
  using keepsD [OF handle_led refl assms] keepsD [OF handle_evt refl assms]
    keepsD [OF handle_log refl assms] keepsD [OF handle_offsets refl assms] keepsD [OF handle_stream _ assms]
  by (simp_all add: stream_kept_def)

text \<open>A unit commits the claim with the handler's effect, or leaves no row of either.\<close>

lemma unit_fresh:
  assumes fresh: "\<not> claimed c msg s" and run: "unit_of_work (claim_and_handle c msg) s = (r, s')"
  shows "stream_kept c s s'"
    "r = Inr () \<Longrightarrow> cs_handle c msg (with_claim c msg s) = (Inr (), s')
        \<and> processed (evt s') = processed (evt s) @ [(cs_group c, msg_event msg)]
        \<and> dead_letters (evt s') = dead_letters (evt s)"
    "r = Inl e \<Longrightarrow> same_tables s s'"
proof -
  obtain q s1 where h: "cs_handle c msg (with_claim c msg s) = (q, s1)" by fastforce
  note fr = handle_frame [OF h]
  have l: "led s1 = led s" using fr(1) by (simp add: with_claim_def)
  have body: "claim_and_handle c msg (s\<lparr>tx_now := wall s\<rparr>) = (q, s1)"
    using claim_unfolds [OF fresh] h by simp
  have cases: "(q = r \<and> s' = s1 \<and> (\<exists>x. r = Inr x)) \<or> (\<exists>e. q = Inl e \<and> r = Inl e \<and> s' = rollback s s1)"
    using run body l by (auto simp: unit_of_work_def split: sum.splits)
  have start: "stream_kept c s (with_claim c msg s)" by (simp add: with_claim_def)
  have "strm s' = strm s1" using cases by (auto simp: rollback_def)
  with fr(3) start show "stream_kept c s s'" by (auto simp: stream_kept_def)
  show "cs_handle c msg (with_claim c msg s) = (Inr (), s')
        \<and> processed (evt s') = processed (evt s) @ [(cs_group c, msg_event msg)]
        \<and> dead_letters (evt s') = dead_letters (evt s)" if "r = Inr ()"
    using cases that h fr(2) by (auto simp: with_claim_def)
  show "same_tables s s'" if "r = Inl e"
    using cases that l fr(2) by (auto simp: same_tables_def rollback_def with_claim_def)
qed

lemma attempts_run:
  assumes "attempts c env msg left k err s = (res, s')" "\<not> claimed c msg s"
  shows "stream_kept c s s' \<and>
    (case res of
       None \<Rightarrow> \<exists>s0. same_tables s s0 \<and> cs_handle c msg (with_claim c msg s0) = (Inr (), s')
         \<and> processed (evt s') = processed (evt s) @ [(cs_group c, msg_event msg)]
         \<and> dead_letters (evt s') = dead_letters (evt s)
     | Some (err', n) \<Rightarrow> same_tables s s' \<and> k \<le> n \<and> n \<le> k + left
         \<and> (err' = Some PoisonMessage \<or> n = k + left) \<and> (0 < left \<longrightarrow> k < n) \<and> (0 < left \<or> err \<noteq> None \<longrightarrow> err' \<noteq> None))"
  using assms
proof (induction left arbitrary: k err s)
  case 0
  then show ?case by auto
next
  case (Suc left)
  obtain r s1 where u: "unit_of_work (claim_and_handle c msg) s = (r, s1)" by fastforce
  note fr = unit_fresh [OF Suc.prems(2) u]
  show ?case
  proof (cases r)
    case (Inr x)
    with Suc.prems(1) u have "res = None" "s' = s1" by simp_all
    with fr Inr show ?thesis by auto
  next
    case (Inl e)
    have same: "same_tables s s1" using fr(3) Inl by simp
    show ?thesis
    proof (cases "e = PoisonMessage")
      case True
      with Suc.prems(1) u Inl have "res = Some (Some e, k + 1)" "s' = s1" by simp_all
      with True fr(1) same show ?thesis by simp
    next
      case False
      let ?s2 = "if 0 < left then sleep (retry_delay (env_jitter env (msg_event msg) (k + 1)) (k + 1)) s1 else s1"
      have rest: "attempts c env msg left (k + 1) (Some e) ?s2 = (res, s')"
        using Suc.prems(1) u Inl False by simp
      have same2: "same_tables s ?s2" and kept2: "stream_kept c s ?s2" using same fr(1) by simp_all
      then have fresh2: "\<not> claimed c msg ?s2" using Suc.prems(2) by (simp add: same_tables_def)
      note IH = Suc.IH [OF rest fresh2]
      have kept: "stream_kept c s s'" using IH kept2 stream_kept_trans by blast
      show ?thesis
      proof (cases res)
        case None
        with IH obtain s0 where "same_tables ?s2 s0" "cs_handle c msg (with_claim c msg s0) = (Inr (), s')"
          "processed (evt s') = processed (evt ?s2) @ [(cs_group c, msg_event msg)]"
          "dead_letters (evt s') = dead_letters (evt ?s2)" by auto
        with None kept same2 same_tables_trans [OF same2] show ?thesis by (auto simp: same_tables_def)
      next
        case (Some p)
        obtain err' n where p: "p = (err', n)" by fastforce
        have "same_tables ?s2 s'" using IH Some p by simp
        then have "same_tables s s'" using same2 same_tables_trans by blast
        with IH Some p kept show ?thesis
          by (cases "left = 0") auto
      qed
    qed
  qed
qed

lemma process_one_fresh:
  assumes run: "process_one c env msg s = (r, s')" and fresh: "\<not> claimed c msg s"
  shows "stream_kept c s s'"
    "(r = Inr True \<and> processed (evt s') = processed (evt s) @ [(cs_group c, msg_event msg)]
        \<and> dead_letters (evt s') = dead_letters (evt s)
        \<and> (\<exists>s0. same_tables s s0 \<and> cs_handle c msg (with_claim c msg s0) = (Inr (), s')))
   \<or> (\<exists>err n. (r = Inr True \<and> buried c msg (Some err) n s s' \<or> r = Inl (DbExn UniqueViolation) \<and> same_tables s s')
        \<and> 1 \<le> n \<and> n \<le> consumer_max_attempts \<and> (err = PoisonMessage \<or> n = consumer_max_attempts))"
proof -
  obtain res s1 where a: "attempts c env msg consumer_max_attempts 0 None s = (res, s1)" by fastforce
  note at = attempts_run [OF a fresh]
  have pos: "0 < consumer_max_attempts" by (simp add: max_attempts)
  have "stream_kept c s s' \<and> ((r = Inr True \<and> processed (evt s') = processed (evt s) @ [(cs_group c, msg_event msg)]
        \<and> dead_letters (evt s') = dead_letters (evt s)
        \<and> (\<exists>s0. same_tables s s0 \<and> cs_handle c msg (with_claim c msg s0) = (Inr (), s')))
   \<or> (\<exists>err n. (r = Inr True \<and> buried c msg (Some err) n s s' \<or> r = Inl (DbExn UniqueViolation) \<and> same_tables s s')
        \<and> 1 \<le> n \<and> n \<le> consumer_max_attempts \<and> (err = PoisonMessage \<or> n = consumer_max_attempts)))"
  proof (cases res)
    case None
    with run a have "r = Inr True" "s' = s1" by (simp_all add: process_one_def)
    with at None show ?thesis by auto
  next
    case (Some p)
    obtain err n where p: "p = (err, n)" by fastforce
    from at Some p pos obtain e where e: "err = Some e" and n: "1 \<le> n" "n \<le> consumer_max_attempts"
      "e = PoisonMessage \<or> n = consumer_max_attempts" and same: "same_tables s s1" and kept: "stream_kept c s s1"
      by auto
    obtain q s2 where b: "bury c env msg err n s1 = (q, s2)" by fastforce
    note br = bury_run [OF b]
    have "s' = s2" and q: "r = (case q of Inl x \<Rightarrow> Inl x | Inr _ \<Rightarrow> Inr True)"
      using run a Some p b by (auto simp: process_one_def bind_op_def split: sum.splits)
    have "stream_kept c s s'" using kept br(1) \<open>s' = s2\<close> by (auto simp: stream_kept_def)
    moreover have "r = Inr True \<and> buried c msg (Some e) n s s' \<or> r = Inl (DbExn UniqueViolation) \<and> same_tables s s'"
      using br(2) q same e \<open>s' = s2\<close> by (auto simp: buried_def same_tables_def)
    ultimately show ?thesis using n by blast
  qed
  then show "stream_kept c s s'" and
    "(r = Inr True \<and> processed (evt s') = processed (evt s) @ [(cs_group c, msg_event msg)]
        \<and> dead_letters (evt s') = dead_letters (evt s)
        \<and> (\<exists>s0. same_tables s s0 \<and> cs_handle c msg (with_claim c msg s0) = (Inr (), s')))
   \<or> (\<exists>err n. (r = Inr True \<and> buried c msg (Some err) n s s' \<or> r = Inl (DbExn UniqueViolation) \<and> same_tables s s')
        \<and> 1 \<le> n \<and> n \<le> consumer_max_attempts \<and> (err = PoisonMessage \<or> n = consumer_max_attempts))"
    by blast+
qed

end

text \<open>A message whose claim is held is skipped, by any consumer.\<close>

lemma process_one_duplicate:
  "claimed c msg s \<Longrightarrow> process_one c env msg s = (Inr True, s\<lparr>tx_now := wall s\<rparr>)"
  by (simp add: process_one_def max_attempts skip_duplicate)

section \<open>Claims last, offsets advance\<close>

context consumer_contract
begin

lemma process_one_cases:
  assumes "process_one c env msg s = (r, s')"
  shows "stream_kept c s s'" "set (processed (evt s)) \<subseteq> set (processed (evt s'))"
    "r = Inr True \<or> r = Inl (DbExn UniqueViolation)" "led s' = led s"
proof -
  have "stream_kept c s s' \<and> set (processed (evt s)) \<subseteq> set (processed (evt s'))
    \<and> (r = Inr True \<or> r = Inl (DbExn UniqueViolation)) \<and> led s' = led s"
  proof (cases "claimed c msg s")
    case True
    with assms process_one_duplicate [OF True, of env] show ?thesis by auto
  next
    case False
    have "led s' = led s" if "same_tables s s0" "cs_handle c msg (with_claim c msg s0) = (Inr (), s')" for s0
      using handle_frame(1) [OF that(2)] that(1) by (simp add: with_claim_def same_tables_def)
    with process_one_fresh [OF assms False] show ?thesis
      by (auto simp: buried_def same_tables_def)
  qed
  then show "stream_kept c s s'" "set (processed (evt s)) \<subseteq> set (processed (evt s'))"
    "r = Inr True \<or> r = Inl (DbExn UniqueViolation)" "led s' = led s" by blast+
qed

lemma run_batch_claims:
  "run_batch c env msgs s = (r, s') \<Longrightarrow> set (processed (evt s)) \<subseteq> set (processed (evt s'))"
proof (induction msgs arbitrary: s r s')
  case Nil
  then show ?case by simp
next
  case (Cons msg msgs)
  obtain q s1 where p: "process_one c env msg s = (q, s1)" by fastforce
  note pc = process_one_cases [OF p]
  show ?case
  proof (cases q)
    case (Inl e)
    with Cons.prems p have "s' = s1" by (simp add: bind_op_def)
    with pc show ?thesis by simp
  next
    case (Inr b)
    with pc(3) have "b" by auto
    obtain q2 s2 where rest: "run_batch c env msgs (s1\<lparr>strm := pg_commit (cs_topic c) (cs_group c) (msg_offset msg) (strm s1)\<rparr>) = (q2, s2)"
      by fastforce
    with Cons.prems p Inr \<open>b\<close> have "s' = s2"
      by (auto simp: bind_op_def commit_offset_def split: sum.splits)
    with Cons.IH [OF rest] pc(2) show ?thesis by simp
  qed
qed

text \<open>A batch of the first pending messages is worked off in full, or the worker stops on an exception.\<close>

lemma run_batch_drains:
  assumes "run_batch c env msgs s = (r, s')" "backlog c s = msgs @ rest" "stream_ok (strm s)"
  shows "stream_ok (strm s') \<and> (r = Inr (length msgs) \<and> backlog c s' = rest \<or> r = Inl (DbExn UniqueViolation))"
  using assms
proof (induction msgs arbitrary: s r s')
  case Nil
  then show ?case by simp
next
  case (Cons msg msgs)
  obtain q s1 where p: "process_one c env msg s = (q, s1)" by fastforce
  note pc = process_one_cases [OF p]
  have ok1: "stream_ok (strm s1)" using pc(1) Cons.prems(3) by (simp add: stream_kept_def)
  show ?case
  proof (cases q)
    case (Inl e)
    with Cons.prems p have "s' = s1" "r = Inl e" by (simp_all add: bind_op_def)
    with pc(3) ok1 Inl show ?thesis by simp
  next
    case (Inr b)
    with pc(3) have b: "b" by auto
    let ?s1 = "s1\<lparr>strm := pg_commit (cs_topic c) (cs_group c) (msg_offset msg) (strm s1)\<rparr>"
    obtain q2 s2 where rest: "run_batch c env msgs ?s1 = (q2, s2)" by fastforce
    have out: "s' = s2" "r = map_sum id (\<lambda>n. n + 1) q2"
      using Cons.prems p Inr b rest by (auto simp: bind_op_def commit_offset_def split: sum.splits)
    have "backlog c s1 = msg # (msgs @ rest)" using stream_kept_backlog [OF pc(1)] Cons.prems(2) by simp
    then have "backlog c ?s1 = msgs @ rest" using pg.commit_first [OF ok1] by simp
    moreover have "stream_ok (strm ?s1)" using pg.commit_ok [OF ok1] by simp
    ultimately have "stream_ok (strm s2) \<and> (q2 = Inr (length msgs) \<and> backlog c s2 = rest \<or> q2 = Inl (DbExn UniqueViolation))"
      using Cons.IH [OF rest] by blast
    with out show ?thesis by auto
  qed
qed

lemma run_consumer_total:
  "\<lbrakk>stream_ok (strm s); length (backlog c s) < fuel\<rbrakk> \<Longrightarrow>
   \<exists>r s'. run_consumer fuel c env s = Some (r, s') \<and>
     (r = Inr (length (backlog c s)) \<and> backlog c s' = [] \<or> r = Inl (DbExn UniqueViolation))"
proof (induction fuel arbitrary: s)
  case 0
  then show ?case by simp
next
  case (Suc fuel)
  let ?batch = "pg_poll (cs_topic c) (cs_group c) consumer_batch_size (strm s)"
  have batch: "?batch = take consumer_batch_size (backlog c s)" by (rule pg.poll_pending [OF Suc.prems(1)])
  show ?case
  proof (cases ?batch)
    case Nil
    with batch have "backlog c s = []" by (simp add: consumer_batch_size_def)
    with Nil show ?thesis by simp
  next
    case (Cons msg msgs)
    obtain q s1 where b: "run_batch c env ?batch s = (q, s1)" by fastforce
    let ?rest = "drop consumer_batch_size (backlog c s)"
    have "backlog c s = ?batch @ ?rest" using batch by simp
    from run_batch_drains [OF b this Suc.prems(1)]
    have ok1: "stream_ok (strm s1)" and q: "q = Inr (length ?batch) \<and> backlog c s1 = ?rest \<or> q = Inl (DbExn UniqueViolation)"
      by auto
    from q show ?thesis
    proof
      assume "q = Inl (DbExn UniqueViolation)"
      with Cons b show ?thesis by simp
    next
      assume q: "q = Inr (length ?batch) \<and> backlog c s1 = ?rest"
      have split: "length ?batch + length ?rest = length (backlog c s)" using batch by (metis append_take_drop_id length_append)
      have "0 < length ?batch" using Cons by simp
      moreover have "length (backlog c s1) = length ?rest" using q by simp
      ultimately have "length (backlog c s1) < fuel" using split Suc.prems(2) by linarith
      from Suc.IH [OF ok1 this] obtain r s' where rest: "run_consumer fuel c env s1 = Some (r, s')"
        "r = Inr (length (backlog c s1)) \<and> backlog c s' = [] \<or> r = Inl (DbExn UniqueViolation)" by blast
      have "run_consumer (Suc fuel) c env s = Some (map_sum id (\<lambda>total. length ?batch + total) r, s')"
        using Cons b q rest(1) by (cases r) simp_all
      with rest(2) split q show ?thesis by auto
    qed
  qed
qed

end

end
