(* ===== verification/Serializers.thy ===== *)
theory Serializers
  imports Repo_Webhooks Repo_Events
begin

text \<open>
  \<open>application/serializers.py\<close>: the resource shapes, as functions from rows to JSON. Columns that
  the rows always carry need no \<open>.get\<close> default. Timestamps are whole seconds, truncated.
\<close>

definition ts_seconds :: "int \<Rightarrow> int" where
  "ts_seconds t = (if t < 0 then - ((- t) div 1000000) else t div 1000000)"

definition ts_json :: "int \<Rightarrow> json" where
  "ts_json t = JInt (ts_seconds t)"

fun type_value :: "account_type \<Rightarrow> string" where
  "type_value ASSET = ''asset''"
| "type_value LIABILITY = ''liability''"
| "type_value EQUITY = ''equity''"
| "type_value REVENUE = ''revenue''"
| "type_value EXPENSE = ''expense''"

fun direction_value :: "direction \<Rightarrow> string" where
  "direction_value DEBIT = ''debit''"
| "direction_value CREDIT = ''credit''"

fun account_status_value :: "account_status \<Rightarrow> string" where
  "account_status_value OPEN = ''open''"
| "account_status_value FROZEN = ''frozen''"
| "account_status_value CLOSED = ''closed''"

fun txn_status_value :: "txn_status \<Rightarrow> string" where
  "txn_status_value POSTED = ''posted''"
| "txn_status_value REVERSED = ''reversed''"

definition account_json :: "account_row \<Rightarrow> int option \<Rightarrow> json" where
  "account_json row balance = JObj
     ([(''id'', JStr (a_id row)), (''object'', JStr ''account''),
       (''external_id'', jopt JStr (a_external row)), (''name'', JStr (a_name row)),
       (''type'', JStr (type_value (a_type row))),
       (''normal_balance'', JStr (direction_value (a_normal row))),
       (''currency'', JStr (a_currency row)),
       (''status'', JStr (account_status_value (a_status row))),
       (''minimum_balance'', jopt JInt (a_minimum row)),
       (''metadata'', JObj (a_metadata row)), (''created'', ts_json (a_created row))]
      @ (case balance of None \<Rightarrow> [] | Some b \<Rightarrow> [(''balance'', JInt b)]))"

definition entry_json :: "entry_row \<Rightarrow> json" where
  "entry_json row = JObj
     [(''id'', JInt (int (e_id row))), (''object'', JStr ''ledger_entry''),
      (''transaction'', JStr (e_txn row)), (''account'', JStr (e_account row)),
      (''direction'', JStr (direction_value (e_direction row))),
      (''amount'', JInt (e_amount row)), (''currency'', JStr (e_currency row)),
      (''effective_at'', ts_json (e_effective row)), (''recorded_at'', ts_json (e_recorded row))]"

definition transaction_fields :: "txn_row \<Rightarrow> (string \<times> json) list" where
  "transaction_fields row =
     [(''id'', JStr (t_id row)), (''object'', JStr ''transaction''), (''kind'', JStr (t_kind row)),
      (''status'', JStr (txn_status_value (t_status row))),
      (''effective_at'', ts_json (t_effective row)), (''recorded_at'', ts_json (t_recorded row)),
      (''reverses'', jopt JStr (t_reverses row)), (''metadata'', jstr_dict (t_metadata row))]"

definition entries_fields :: "entry_row list \<Rightarrow> (string \<times> json) list" where
  "entries_fields es =
     [(''entries'', JArr (map entry_json es)),
      (''amount'', JInt (\<Sum>e \<leftarrow> filter (\<lambda>e. e_direction e = DEBIT) es. e_amount e)),
      (''currency'', (case es of [] \<Rightarrow> JNull | e # _ \<Rightarrow> JStr (e_currency e)))]"

definition transaction_json :: "txn_row \<Rightarrow> entry_row list option \<Rightarrow> json" where
  "transaction_json row es =
     JObj (transaction_fields row @ (case es of None \<Rightarrow> [] | Some es \<Rightarrow> entries_fields es))"

text \<open>The shape of a list query's row, with the joined view.\<close>

definition listed_json :: "listed_row \<Rightarrow> entry_row list option \<Rightarrow> json" where
  "listed_json row es =
     JObj (transaction_fields (lr_txn row)
       @ [(''category'', jopt JStr (lr_category row)), (''merchant'', jopt JStr (lr_merchant row)),
          (''descriptor'', jopt JStr (lr_descriptor row)), (''confidence'', jopt JReal (lr_confidence row))]
       @ (case es of None \<Rightarrow> [] | Some es \<Rightarrow> entries_fields es))"

definition event_json :: "outbox_row \<Rightarrow> json" where
  "event_json row = JObj
     [(''id'', JStr (o_event row)), (''object'', JStr ''event''), (''type'', JStr (o_type row)),
      (''created'', ts_json (o_created row)), (''published'', jopt ts_json (o_published row)),
      (''data'', JObj [(''object'', o_payload row)])]"

fun action_value :: "signal_action \<Rightarrow> string" where
  "action_value FLAG = ''flag''"
| "action_value BLOCK = ''block''"

definition fraud_signal_json :: "signal_row \<Rightarrow> json" where
  "fraud_signal_json row = JObj
     [(''id'', JStr (fs_id row)), (''object'', JStr ''fraud_signal''),
      (''account'', JStr (fs_account row)), (''transaction'', jopt JStr (fs_txn row)),
      (''rule'', JStr (fs_rule row)), (''score'', JReal (fs_score row)),
      (''action'', JStr (action_value (fs_action row))),
      (''attempted_amount'', jopt JInt (fs_amount row)), (''reason'', jopt JStr (fs_reason row)),
      (''features'', fs_features row), (''evaluated_at'', ts_json (fs_at row))]"

definition webhook_endpoint_json :: "endpoint_row \<Rightarrow> json" where
  "webhook_endpoint_json row = JObj
     [(''id'', JStr (we_id row)), (''object'', JStr ''webhook_endpoint''), (''url'', JStr (we_url row)),
      (''enabled_events'', JArr (map JStr (we_events row))),
      (''status'', JStr (if we_enabled row then ''enabled'' else ''disabled'')),
      (''created'', ts_json (we_created row))]"

fun delivery_status_value :: "delivery_status \<Rightarrow> string" where
  "delivery_status_value PENDING = ''pending''"
| "delivery_status_value SUCCEEDED = ''succeeded''"
| "delivery_status_value FAILED = ''failed''"
| "delivery_status_value EXHAUSTED = ''exhausted''"

definition webhook_delivery_json :: "delivery_row \<Rightarrow> json" where
  "webhook_delivery_json row = JObj
     [(''id'', JStr (wd_id row)), (''object'', JStr ''webhook_delivery''),
      (''endpoint'', JStr (wd_endpoint row)), (''event'', JStr (wd_event row)),
      (''status'', JStr (delivery_status_value (wd_status row))),
      (''attempt'', JInt (int (wd_attempt row))), (''response_code'', jopt JInt (wd_code row)),
      (''error'', jopt JStr (wd_error row)), (''next_attempt_at'', jopt ts_json (wd_next row)),
      (''created'', ts_json (wd_created row))]"

definition dead_letter_json :: "dead_row \<Rightarrow> json" where
  "dead_letter_json row = JObj
     [(''id'', JStr (dl_id row)), (''object'', JStr ''dead_letter''),
      (''consumer_group'', JStr (dl_group row)), (''event'', JStr (dl_event row)),
      (''topic'', JStr (dl_topic row)), (''error_class'', JStr (dl_class row)),
      (''error_detail'', JStr (dl_detail row)), (''attempts'', JInt (int (dl_attempts row))),
      (''resolved'', JBool (dl_resolved row \<noteq> None)), (''last_failed_at'', ts_json (dl_last row))]"

definition listing :: "json list \<Rightarrow> bool \<Rightarrow> json" where
  "listing data has_more =
     JObj [(''object'', JStr ''list''), (''data'', JArr data), (''has_more'', JBool has_more)]"

end
