(* ===== verification/Webhooks.thy ===== *)
theory Webhooks
  imports Runner Serializers
begin

text \<open>
  \<open>workers/webhooks.py\<close>: the consumer that queues one delivery per subscribed endpoint, and the
  dispatcher that attempts what is due. The HTTP client (httpx) is a parameter: the \<open>n\<close>-th request of
  a pass, its url, body and headers, to the text of an exception or a status and a body. HMAC-SHA256
  and \<open>float.__repr__\<close> are parameters too.
\<close>

type_synonym http_client =
  "nat \<Rightarrow> string \<Rightarrow> string \<Rightarrow> (string \<times> string) list \<Rightarrow> string + int \<times> string"

record web_env =
  wv_hmac :: "string \<Rightarrow> string \<Rightarrow> string"  \<comment> \<open>secret, message, to the hex digest\<close>
  wv_float :: "real \<Rightarrow> string"
  wv_client :: http_client

section \<open>Fan-out\<close>

definition enqueue_for :: "string \<Rightarrow> endpoint_row \<Rightarrow> unit m" where
  "enqueue_for event w =
     bind_op (fresh_id (new_id ''whd'')) (\<lambda>i.
     bind_op (reads tx_now) (\<lambda>now.
     bind_op (on_hks (delivery_enqueue now i (we_id w) event)) (\<lambda>_. ret_op ())))"

definition fanout_handle :: "message \<Rightarrow> unit m" where
  "fanout_handle msg =
     bind_op (reads (\<lambda>s. List.find (\<lambda>r. o_event r = msg_event msg) (outbox (evt s)))) (\<lambda>row.
     case row of
       None \<Rightarrow> ret_op ()
     | Some r \<Rightarrow>
         bind_op (reads (\<lambda>s. endpoints_for (o_tenant r) (o_mode r) (msg_type msg) (hks s)))
           (each_op (enqueue_for (msg_event msg))))"

definition WebhookFanout :: consumer where
  "WebhookFanout =
     \<lparr>cs_group = ''webhooks'', cs_topic = LEDGER_EVENTS, cs_handle = fanout_handle\<rparr>"

section \<open>Dispatch\<close>

definition sign :: "(string \<Rightarrow> string \<Rightarrow> string) \<Rightarrow> string \<Rightarrow> int \<Rightarrow> string \<Rightarrow> string" where
  "sign hmac secret timestamp body = hmac secret (show_int timestamp @ ''.'' @ body)"

definition backoff :: "nat \<Rightarrow> int option" where
  "backoff attempt =
     (if attempt < length webhook_backoff_seconds then Some (webhook_backoff_seconds ! attempt) else None)"

record tally =
  tl_succeeded :: nat
  tl_retrying :: nat
  tl_exhausted :: nat

definition event_body :: "(real \<Rightarrow> string) \<Rightarrow> outbox_row \<Rightarrow> py_error + string" where
  "event_body fl r =
     bind_r (jget (o_payload r) ''data'' (JObj [])) (\<lambda>data.
     Inr (dumps False fl (JObj
       [(''id'', JStr (o_event r)), (''object'', JStr ''event''), (''type'', JStr (o_type r)),
        (''created'', JInt (ts_seconds (o_created r))), (''api_version'', JStr (show_date api_version)),
        (''data'', data)])))"

definition delivery_headers :: "int \<Rightarrow> string \<Rightarrow> string \<Rightarrow> (string \<times> string) list" where
  "delivery_headers timestamp signature event =
     [(''Content-Type'', ''application/json''),
      (''LedgerFlow-Signature'', ''t='' @ show_int timestamp @ '',v1='' @ signature),
      (''LedgerFlow-Event-Id'', event), (''User-Agent'', ''LedgerFlow/1.0'')]"

fun reply_ok :: "string + int \<times> string \<Rightarrow> bool" where
  "reply_ok (Inl _) = False"
| "reply_ok (Inr (code, _)) = (200 \<le> code \<and> code < 300)"

fun reply_code :: "string + int \<times> string \<Rightarrow> int option" where
  "reply_code (Inl _) = None"
| "reply_code (Inr (code, _)) = Some code"

fun reply_text :: "string + int \<times> string \<Rightarrow> string option" where
  "reply_text (Inl _) = None"
| "reply_text (Inr (_, txt)) = Some (take 2000 txt)"

fun reply_error :: "string + int \<times> string \<Rightarrow> string option" where
  "reply_error (Inl e) = Some e"
| "reply_error (Inr (code, txt)) =
     (if reply_ok (Inr (code, txt)) then None else Some (''HTTP '' @ show_int code))"

text \<open>What the dispatcher writes down about one attempt, and the tally it leaves.\<close>

definition settle :: "delivery_row \<Rightarrow> string + int \<times> string \<Rightarrow> tally \<Rightarrow> tally m" where
  "settle d reply t =
     bind_op (reads tx_now) (\<lambda>now.
     let attempt = wd_attempt d + 1 in
     if reply_ok reply then
       bind_op (on_hks (record_attempt now (wd_id d) attempt SUCCEEDED (reply_code reply) (reply_text reply)
                          None None)) (\<lambda>_.
       ret_op (t\<lparr>tl_succeeded := tl_succeeded t + 1\<rparr>))
     else (case backoff attempt of
         None \<Rightarrow>
           bind_op (on_hks (record_attempt now (wd_id d) attempt EXHAUSTED (reply_code reply)
                              (reply_text reply) (reply_error reply) None)) (\<lambda>_.
           bind_op (on_hks (disable_endpoint (wd_endpoint d))) (\<lambda>_.
           ret_op (t\<lparr>tl_exhausted := tl_exhausted t + 1\<rparr>)))
       | Some delay \<Rightarrow>
           bind_op (on_hks (record_attempt now (wd_id d) attempt PENDING (reply_code reply)
                              (reply_text reply) (reply_error reply) (Some delay))) (\<lambda>_.
           ret_op (t\<lparr>tl_retrying := tl_retrying t + 1\<rparr>))))"

definition deliver_one :: "web_env \<Rightarrow> delivery_row \<times> endpoint_row \<Rightarrow> nat \<times> tally \<Rightarrow> (nat \<times> tally) m" where
  "deliver_one env p acc =
     (let (d, w) = p; (n, t) = acc in
      bind_op (reads (\<lambda>s. List.find (\<lambda>r. o_event r = wd_event d) (outbox (evt s)))) (\<lambda>event.
      case event of
        None \<Rightarrow> ret_op (n, t)
      | Some r \<Rightarrow>
          bind_op (lift_op (map_sum PyExn id (event_body (wv_float env) r))) (\<lambda>body.
          bind_op (reads (\<lambda>s. wall s div 1000000)) (\<lambda>timestamp.
          let signature = sign (wv_hmac env) (we_secret_hash w) timestamp body;
              reply = wv_client env n (we_url w) body (delivery_headers timestamp signature (o_event r)) in
          bind_op (settle d reply t) (\<lambda>t'. ret_op (n + 1, t'))))))"

fun deliver_all :: "web_env \<Rightarrow> (delivery_row \<times> endpoint_row) list \<Rightarrow> nat \<times> tally \<Rightarrow> (nat \<times> tally) m" where
  "deliver_all env [] acc = ret_op acc"
| "deliver_all env (p # due) acc = bind_op (deliver_one env p acc) (deliver_all env due)"

definition dispatch_once :: "web_env \<Rightarrow> nat \<Rightarrow> tally m" where
  "dispatch_once env limit =
     unit_of_work
       (bind_op (reads (\<lambda>s. claim_due {} (tx_now s) limit (hks s))) (\<lambda>due.
        bind_op (deliver_all env due (0, \<lparr>tl_succeeded = 0, tl_retrying = 0, tl_exhausted = 0\<rparr>)) (\<lambda>(n, t).
        ret_op t)))"

section \<open>The consumer keeps its contract\<close>

lemma keeps_strm_frame [keeps_intros]:
  "keeps (\<lambda>s. R (strm s)) (on_led m1)" "keeps (\<lambda>s. R (strm s)) (on_evt m2)"
  "keeps (\<lambda>s. R (strm s)) (on_nrm m3)" "keeps (\<lambda>s. R (strm s)) (on_rsk m4)"
  "keeps (\<lambda>s. R (strm s)) (on_hks m5)" "keeps (\<lambda>s. R (strm s)) (on_idm m6)"
  "keeps (\<lambda>s. R (strm s)) (on_sid m7)" "keeps (\<lambda>s. R (strm s)) (fresh_id g)"
  by (auto simp: keeps_def on_led_def on_evt_def on_nrm_def on_rsk_def on_hks_def on_idm_def on_sid_def
      fresh_id_def zoom_def split_beta Let_def)

interpretation webhooks: consumer_contract WebhookFanout
  by unfold_locales
    (auto simp: WebhookFanout_def fanout_handle_def enqueue_for_def intro!: keeps_intros)

section \<open>What an attempt does to a delivery\<close>

definition attempted :: "int \<Rightarrow> string + int \<times> string \<Rightarrow> delivery_row \<Rightarrow> delivery_row" where
  "attempted now reply d =
     (let n = wd_attempt d + 1;
          status = (if reply_ok reply then SUCCEEDED else if n < 6 then PENDING else EXHAUSTED) in
      d\<lparr>wd_attempt := n, wd_status := status, wd_code := reply_code reply,
        wd_body := map_option (take 2000) (reply_text reply),
        wd_error := map_option (take 2000) (reply_error reply),
        wd_next := (if status = PENDING then Some (now + seconds (webhook_backoff_seconds ! n)) else None),
        wd_completed := (if status = PENDING then None else Some now)\<rparr>)"

definition hooks_ok :: "hook_tables \<Rightarrow> bool" where
  "hooks_ok h \<longleftrightarrow> distinct (map wd_id (deliveries h)) \<and> distinct (map we_id (endpoints h))"

lemma reply_error_ok: "reply_ok reply \<Longrightarrow> reply_error reply = None"
  by (cases reply) auto

lemma settle_run:
  assumes "distinct (map wd_id (deliveries (hks s)))" "d \<in> set (deliveries (hks s))"
  obtains t' h where "settle d reply t s = (Inr t', s\<lparr>hks := h\<rparr>)"
    "deliveries h = map (\<lambda>x. if wd_id x = wd_id d then attempted (tx_now s) reply x else x) (deliveries (hks s))"
    "map we_id (endpoints h) = map we_id (endpoints (hks s))"
proof -
  have same: "x = d" if "x \<in> set (deliveries (hks s))" "wd_id x = wd_id d" for x
    using assms that by (metis distinct_map inj_onD)
  have rows: "map (\<lambda>x. if wd_id x = wd_id d then f x else x) (deliveries (hks s))
      = map (\<lambda>x. if wd_id x = wd_id d then g x else x) (deliveries (hks s))" if "f d = g d" for f g
    using that same by auto
  have len: "length webhook_backoff_seconds = 6" by (simp add: webhook_backoff_seconds_def)
  let ?D = "map (\<lambda>x. if wd_id x = wd_id d then attempted (tx_now s) reply x else x) (deliveries (hks s))"
  note run = settle_def bind_op_def on_hks_def zoom_def record_attempt_def disable_endpoint_def Let_def
  show thesis
  proof (cases "reply_ok reply")
    case True
    have "settle d reply t s = (Inr (t\<lparr>tl_succeeded := tl_succeeded t + 1\<rparr>), s\<lparr>hks := (hks s)\<lparr>deliveries := ?D\<rparr>\<rparr>)"
      using True by (simp add: run) (rule arg_cong [where f = "\<lambda>D. s\<lparr>hks := (hks s)\<lparr>deliveries := D\<rparr>\<rparr>"], rule rows,
          simp add: attempted_def reply_error_ok)
    then show ?thesis by (rule that) simp_all
  next
    case False
    show ?thesis
    proof (cases "wd_attempt d + 1 < 6")
      case True
      have "settle d reply t s = (Inr (t\<lparr>tl_retrying := tl_retrying t + 1\<rparr>), s\<lparr>hks := (hks s)\<lparr>deliveries := ?D\<rparr>\<rparr>)"
        using False True
        by (simp add: run backoff_def len) (rule arg_cong [where f = "\<lambda>D. s\<lparr>hks := (hks s)\<lparr>deliveries := D\<rparr>\<rparr>"],
          rule rows, simp add: attempted_def)
      then show ?thesis by (rule that) simp_all
    next
      case late: False
      have "settle d reply t s = (Inr (t\<lparr>tl_exhausted := tl_exhausted t + 1\<rparr>),
          s\<lparr>hks := (hks s)\<lparr>deliveries := ?D,
             endpoints := map (\<lambda>w. if we_id w = wd_endpoint d then w\<lparr>we_enabled := False\<rparr> else w) (endpoints (hks s))\<rparr>\<rparr>)"
        using False late
        by (simp add: run backoff_def len) (rule arg_cong [where f = "\<lambda>D. s\<lparr>hks := (hks s)\<lparr>deliveries := D,
             endpoints := map (\<lambda>w. if we_id w = wd_endpoint d then w\<lparr>we_enabled := False\<rparr> else w) (endpoints (hks s))\<rparr>\<rparr>"],
          rule rows, simp add: attempted_def)
      then show ?thesis by (rule that) (simp_all add: map_mark)
    qed
  qed
qed

lemma attempted_frame [simp]:
  "wd_id (attempted now reply d) = wd_id d" "wd_event (attempted now reply d) = wd_event d"
  "wd_endpoint (attempted now reply d) = wd_endpoint d"
  by (simp_all add: attempted_def Let_def)

text \<open>Row by row: left alone, or attempted once.\<close>

definition tried :: "int \<Rightarrow> string set \<Rightarrow> delivery_row \<Rightarrow> delivery_row \<Rightarrow> bool" where
  "tried now ids d d' \<longleftrightarrow> d' = d \<or> wd_id d \<in> ids \<and> (\<exists>reply. d' = attempted now reply d)"

lemma deliver_one_run:
  assumes "deliver_one env p acc s = (Inr acc', s')"
    and "distinct (map wd_id (deliveries (hks s)))" "fst p \<in> set (deliveries (hks s))"
  obtains "s' = s"
  | h reply where "s' = s\<lparr>hks := h\<rparr>"
      "deliveries h = map (\<lambda>x. if wd_id x = wd_id (fst p) then attempted (tx_now s) reply x else x) (deliveries (hks s))"
proof -
  obtain d w n t where p: "p = (d, w)" "acc = (n, t)" by (cases p; cases acc) blast
  have here: "d \<in> set (deliveries (hks s))" using assms(3) p by simp
  show thesis
  proof (cases "List.find (\<lambda>r. o_event r = wd_event d) (outbox (evt s))")
    case None
    with assms(1) p have "s' = s" by (simp add: deliver_one_def bind_op_def)
    then show ?thesis by (rule that(1))
  next
    case (Some r)
    then obtain body reply where "bind_op (settle d reply t) (\<lambda>t'. ret_op (n + 1, t')) s = (Inr acc', s')"
      using assms(1) p by (auto simp: deliver_one_def bind_op_def Let_def split: sum.splits)
    moreover obtain t' h where "settle d reply t s = (Inr t', s\<lparr>hks := h\<rparr>)"
      "deliveries h = map (\<lambda>x. if wd_id x = wd_id d then attempted (tx_now s) reply x else x) (deliveries (hks s))"
      by (rule settle_run [OF assms(2) here, where t = t and reply = reply])
    ultimately show ?thesis using that(2) [of h reply] p by (simp add: bind_op_def)
  qed
qed

lemma deliver_all_run:
  assumes "deliver_all env due acc s = (Inr acc', s')"
    and "distinct (map wd_id (deliveries (hks s)))" "distinct (map (\<lambda>p. wd_id (fst p)) due)"
    and "\<forall>p \<in> set due. fst p \<in> set (deliveries (hks s))"
  shows "(\<exists>h. s' = s\<lparr>hks := h\<rparr>) \<and>
    list_all2 (tried (tx_now s) ((\<lambda>p. wd_id (fst p)) ` set due)) (deliveries (hks s)) (deliveries (hks s'))"
  using assms
proof (induction due arbitrary: acc s)
  case Nil
  then have "s' = s" by simp
  moreover have "\<exists>h. s = s\<lparr>hks := h\<rparr>" by (rule exI [of _ "hks s"]) simp
  ultimately show ?case by (simp add: tried_def list_all2_refl)
next
  case (Cons p due)
  let ?ids = "(\<lambda>p. wd_id (fst p)) ` set due"
  from Cons.prems(1) obtain acc1 s1 where one: "deliver_one env p acc s = (Inr acc1, s1)"
    and rest: "deliver_all env due acc1 s1 = (Inr acc', s')" by (auto simp: bind_op_Inr_iff)
  have here: "fst p \<in> set (deliveries (hks s))" using Cons.prems(4) by simp
  from one Cons.prems(2) here show ?case
  proof (cases rule: deliver_one_run)
    case 1
    with Cons.IH [OF rest] Cons.prems have "(\<exists>h. s' = s\<lparr>hks := h\<rparr>)"
      "list_all2 (tried (tx_now s) ?ids) (deliveries (hks s)) (deliveries (hks s'))" by simp_all
    then show ?thesis by (auto simp: tried_def elim!: list_all2_mono)
  next
    case (2 h reply)
    let ?f = "\<lambda>x. if wd_id x = wd_id (fst p) then attempted (tx_now s) reply x else x"
    have ids: "map wd_id (deliveries h) = map wd_id (deliveries (hks s))" unfolding 2(2) by (simp add: map_mark)
    have other: "wd_id (fst q) \<noteq> wd_id (fst p)" if "q \<in> set due" for q
      using Cons.prems(3) that by (auto simp: image_iff)
    have s1: "hks s1 = h" "tx_now s1 = tx_now s" by (simp_all add: 2(1))
    have "\<forall>q \<in> set due. fst q \<in> set (deliveries h)"
      unfolding 2(2) using Cons.prems(4) other by (auto simp: image_iff)
    moreover have "distinct (map wd_id (deliveries h))" unfolding ids by (rule Cons.prems(2))
    moreover have "distinct (map (\<lambda>p. wd_id (fst p)) due)" using Cons.prems(3) by simp
    ultimately have IH0: "(\<exists>h'. s' = s1\<lparr>hks := h'\<rparr>) \<and>
        list_all2 (tried (tx_now s) ?ids) (deliveries h) (deliveries (hks s'))"
      using Cons.IH [OF rest, unfolded s1] by blast
    then have IH: "\<exists>h. s' = s1\<lparr>hks := h\<rparr>"
      "list_all2 (tried (tx_now s) ?ids) (map ?f (deliveries (hks s))) (deliveries (hks s'))"
      unfolding 2(2) by blast+
    have "tried (tx_now s) (insert (wd_id (fst p)) ?ids) x y" if "tried (tx_now s) ?ids (?f x) y" for x y
    proof (cases "wd_id x = wd_id (fst p)")
      case True
      then have "wd_id x \<notin> ?ids" using other by (metis imageE)
      with True that show ?thesis by (auto simp: tried_def)
    next
      case False
      with that show ?thesis by (auto simp: tried_def)
    qed
    then have "list_all2 (tried (tx_now s) (insert (wd_id (fst p)) ?ids)) (deliveries (hks s)) (deliveries (hks s'))"
      using IH(2) by (auto simp: list_all2_map1 elim!: list_all2_mono)
    moreover have "\<exists>h. s' = s\<lparr>hks := h\<rparr>" using IH(1) 2(1) by auto
    ultimately show ?thesis by simp
  qed
qed

lemma distinct_join:
  "distinct (map we_id ws) \<Longrightarrow> distinct (map f ds) \<Longrightarrow>
   distinct (map (\<lambda>p. f (fst p)) (concat (map (\<lambda>d. map (\<lambda>w. (d, w)) (filter (\<lambda>w. we_id w = g d) ws)) ds)))"
proof (induction ds)
  case Nil
  then show ?case by simp
next
  case (Cons d ds)
  have "length (filter (\<lambda>w. we_id w = k) ws) \<le> 1" if "distinct (map we_id ws)" for k
    using that by (induction ws) (auto simp: filter_empty_conv, metis imageI)
  then have "length (filter (\<lambda>w. we_id w = g d) ws) \<le> 1" using Cons.prems(1) by blast
  then have "distinct (map (\<lambda>p. f (fst p)) (map (\<lambda>w. (d, w)) (filter (\<lambda>w. we_id w = g d) ws)))"
    by (cases "filter (\<lambda>w. we_id w = g d) ws") (auto simp: o_def)
  with Cons show ?case by (auto simp: o_def image_iff)
qed

lemma claim_due_rows:
  assumes "hooks_ok h"
  shows "distinct (map (\<lambda>p. wd_id (fst p)) (claim_due locked now limit h))"
    "p \<in> set (claim_due locked now limit h) \<Longrightarrow>
       fst p \<in> set (deliveries h) \<and> wd_status (fst p) = PENDING \<and> (\<exists>t \<le> now. wd_next (fst p) = Some t)"
proof -
  let ?rows = "concat (map (\<lambda>d. map (\<lambda>w. (d, w)) (filter (\<lambda>w. we_id w = wd_endpoint d) (endpoints h)))
            (filter (\<lambda>d. wd_status d = PENDING \<and> (case wd_next d of None \<Rightarrow> False | Some t \<Rightarrow> t \<le> now))
               (deliveries h)))"
  let ?k = "\<lambda>(d, _ :: endpoint_row). case wd_next d of None \<Rightarrow> 0 | Some t \<Rightarrow> t"
  have "distinct (map (\<lambda>p. wd_id (fst p)) ?rows)"
    by (rule distinct_join) (use assms in \<open>simp_all add: hooks_ok_def distinct_map_filter\<close>)
  then have "distinct (map (\<lambda>p. wd_id (fst p)) (sort_key ?k ?rows))"
    unfolding distinct_map by simp
  then show "distinct (map (\<lambda>p. wd_id (fst p)) (claim_due locked now limit h))"
    unfolding claim_due_def take_map [symmetric] by (intro distinct_take distinct_map_filter)
  show "fst p \<in> set (deliveries h) \<and> wd_status (fst p) = PENDING \<and> (\<exists>t \<le> now. wd_next (fst p) = Some t)"
    if "p \<in> set (claim_due locked now limit h)"
    using in_set_takeD [OF that [unfolded claim_due_def]] by (auto split: option.splits)
qed


section \<open>The life of a delivery\<close>

text \<open>What a customer is promised: six attempts, then the delivery is given up.\<close>

datatype life = Waiting nat | Delivered | Given_up

definition life_of :: "delivery_row \<Rightarrow> life" where
  "life_of d = (case wd_status d of PENDING \<Rightarrow> Waiting (wd_attempt d) | SUCCEEDED \<Rightarrow> Delivered
     | FAILED \<Rightarrow> Given_up | EXHAUSTED \<Rightarrow> Given_up)"

inductive life_step :: "life \<Rightarrow> life \<Rightarrow> bool" where
  delivers: "life_step (Waiting n) Delivered"
| fails: "n + 1 < 6 \<Longrightarrow> life_step (Waiting n) (Waiting (n + 1))"
| gives_up: "6 \<le> n + 1 \<Longrightarrow> life_step (Waiting n) Given_up"

inductive_simps life_step_simps: "life_step (Waiting n) l"

lemma attempted_life:
  "wd_status d = PENDING \<Longrightarrow> life_step (life_of d) (life_of (attempted now reply d))"
  by (auto simp: life_of_def life_step_simps attempted_def Let_def)

text \<open>A failed attempt that leaves the delivery waiting sets the wait by the attempts made.\<close>

lemma attempted_wait:
  assumes "wd_status (attempted now reply d) = PENDING"
  shows "wd_next (attempted now reply d) = Some (now + seconds (webhook_backoff_seconds ! wd_attempt (attempted now reply d)))"
    "0 < wd_attempt (attempted now reply d)" "wd_attempt (attempted now reply d) < 6"
  using assms by (auto simp: attempted_def Let_def split: if_splits)

lemma keeps_deliver_all:
  "keeps (\<lambda>s. led s = l) (deliver_all env due acc)" "keeps (\<lambda>s. evt s = v) (deliver_all env due acc)"
  "keeps (\<lambda>s. strm s = m) (deliver_all env due acc)"
proof -
  have one: "keeps (\<lambda>s. led s = l) (deliver_one env p acc)" "keeps (\<lambda>s. evt s = v) (deliver_one env p acc)"
    "keeps (\<lambda>s. strm s = m) (deliver_one env p acc)" for p and acc
    by (auto simp: deliver_one_def settle_def Let_def intro!: keeps_intros split: prod.split)
  show "keeps (\<lambda>s. led s = l) (deliver_all env due acc)" "keeps (\<lambda>s. evt s = v) (deliver_all env due acc)"
    "keeps (\<lambda>s. strm s = m) (deliver_all env due acc)"
    by (induction due arbitrary: acc) (auto intro!: keeps_intros one)
qed

lemma dispatch_rows:
  assumes "dispatch_once env limit s = (r, s')" "hooks_ok (hks s)"
  shows "list_all2 (\<lambda>d d'. d' = d \<or> wd_status d = PENDING \<and> (\<exists>t \<le> wall s. wd_next d = Some t)
            \<and> (\<exists>reply. d' = attempted (wall s) reply d)) (deliveries (hks s)) (deliveries (hks s'))"
    "led s' = led s" "evt s' = evt s" "strm s' = strm s"
proof -
  let ?s0 = "s\<lparr>tx_now := wall s\<rparr>" and ?due = "claim_due {} (wall s) limit (hks s)"
  let ?acc = "(0, \<lparr>tl_succeeded = 0, tl_retrying = 0, tl_exhausted = 0\<rparr>)"
  obtain q s1 where run: "deliver_all env ?due ?acc ?s0 = (q, s1)" by fastforce
  have fr: "led s1 = led s" "evt s1 = evt s" "strm s1 = strm s"
    using keepsD [OF keeps_deliver_all(1) refl run] keepsD [OF keeps_deliver_all(2) refl run]
      keepsD [OF keeps_deliver_all(3) refl run] by simp_all
  have out: "(\<exists>e. q = Inl e \<and> s' = rollback s s1) \<or> ((\<exists>acc'. q = Inr acc') \<and> s' = s1)"
    using assms(1) run fr(1)
    by (auto simp: dispatch_once_def unit_of_work_def bind_op_def split: sum.splits prod.splits if_splits)
  then show "led s' = led s" "evt s' = evt s" "strm s' = strm s"
    using fr by (auto simp: rollback_def)
  from out show "list_all2 (\<lambda>d d'. d' = d \<or> wd_status d = PENDING \<and> (\<exists>t \<le> wall s. wd_next d = Some t)
      \<and> (\<exists>reply. d' = attempted (wall s) reply d)) (deliveries (hks s)) (deliveries (hks s'))"
  proof
    assume "\<exists>e. q = Inl e \<and> s' = rollback s s1"
    then show ?thesis by (auto simp: rollback_def list_all2_refl)
  next
    assume ok: "(\<exists>acc'. q = Inr acc') \<and> s' = s1"
    have ids: "distinct (map wd_id (deliveries (hks s)))" using assms(2) by (simp add: hooks_ok_def)
    note due = claim_due_rows [OF assms(2), where locked = "{}" and now = "wall s" and limit = limit]
    have "list_all2 (tried (wall s) ((\<lambda>p. wd_id (fst p)) ` set ?due)) (deliveries (hks s)) (deliveries (hks s'))"
      using deliver_all_run [of env ?due ?acc ?s0 _ s1] ok run ids due by auto
    then have "list_all2 (\<lambda>d d'. d \<in> set (deliveries (hks s)) \<and> tried (wall s) ((\<lambda>p. wd_id (fst p)) ` set ?due) d d')
        (deliveries (hks s)) (deliveries (hks s'))"
      by (auto simp: list_all2_conv_all_nth)
    then show ?thesis
    proof (rule list_all2_mono)
      fix d d'
      assume d: "d \<in> set (deliveries (hks s)) \<and> tried (wall s) ((\<lambda>p. wd_id (fst p)) ` set ?due) d d'"
      show "d' = d \<or> wd_status d = PENDING \<and> (\<exists>t \<le> wall s. wd_next d = Some t) \<and> (\<exists>reply. d' = attempted (wall s) reply d)"
      proof (cases "d' = d")
        case False
        with d obtain p reply where p: "p \<in> set ?due" "wd_id d = wd_id (fst p)" "d' = attempted (wall s) reply d"
          by (auto simp: tried_def)
        have "fst p = d" using due(2) [OF p(1)] p(2) d ids by (metis distinct_map inj_onD)
        with due(2) [OF p(1)] p(3) show ?thesis by blast
      qed simp
    qed
  qed
qed

lemma enqueue_for_run:
  assumes "enqueue_for event w s = (Inr u, s')"
  obtains d where "deliveries (hks s') = deliveries (hks s) @ [d]" "wd_endpoint d = we_id w" "wd_event d = event"
    "life_of d = Waiting 0" "wd_next d = Some (tx_now s)" "tx_now s' = tx_now s"
proof -
  obtain i g where g: "new_id ''whd'' (idg s) = (i, g)" by fastforce
  from assms obtain d h where d: "delivery_enqueue (tx_now s) i (we_id w) event (hks s) = (Inr d, h)"
    and s': "s' = s\<lparr>idg := g, hks := h\<rparr>"
    by (auto simp: enqueue_for_def bind_op_def fresh_id_def g on_hks_def zoom_def split: prod.splits sum.splits)
  from d have "deliveries h = deliveries (hks s) @ [d]" "wd_endpoint d = we_id w" "wd_event d = event"
    "life_of d = Waiting 0" "wd_next d = Some (tx_now s)"
    by (auto simp: delivery_enqueue_def bind_op_def guard_op_def Let_def life_of_def split: if_splits)
  with s' show thesis by (intro that) simp_all
qed

lemma enqueue_all_run:
  "each_op (enqueue_for event) ws s = (Inr u, s') \<Longrightarrow>
   \<exists>new. deliveries (hks s') = deliveries (hks s) @ new \<and> map wd_endpoint new = map we_id ws
     \<and> (\<forall>d \<in> set new. wd_event d = event \<and> life_of d = Waiting 0 \<and> wd_next d = Some (tx_now s))"
proof (induction ws arbitrary: s)
  case Nil
  then show ?case by simp
next
  case (Cons w ws)
  then obtain v s1 where one: "enqueue_for event w s = (Inr v, s1)" and rest: "each_op (enqueue_for event) ws s1 = (Inr u, s')"
    by (auto simp: bind_op_Inr_iff)
  from one obtain d where d: "deliveries (hks s1) = deliveries (hks s) @ [d]" "wd_endpoint d = we_id w" "wd_event d = event"
    "life_of d = Waiting 0" "wd_next d = Some (tx_now s)" "tx_now s1 = tx_now s" by (rule enqueue_for_run)
  from Cons.IH [OF rest] obtain new where "deliveries (hks s') = deliveries (hks s1) @ new"
    "map wd_endpoint new = map we_id ws"
    "\<forall>x \<in> set new. wd_event x = event \<and> life_of x = Waiting 0 \<and> wd_next x = Some (tx_now s1)" by blast
  with d show ?case by (intro exI [of _ "d # new"]) simp
qed

text \<open>The endpoints an event goes to.\<close>

definition subscribers :: "message \<Rightarrow> st \<Rightarrow> endpoint_row list" where
  "subscribers msg s =
     (case List.find (\<lambda>r. o_event r = msg_event msg) (outbox (evt s)) of
        None \<Rightarrow> []
      | Some r \<Rightarrow> endpoints_for (o_tenant r) (o_mode r) (msg_type msg) (hks s))"

lemma fanout_run:
  assumes "fanout_handle msg s = (Inr u, s')"
  shows "\<exists>new. deliveries (hks s') = deliveries (hks s) @ new \<and> map wd_endpoint new = map we_id (subscribers msg s)
     \<and> (\<forall>d \<in> set new. wd_event d = msg_event msg \<and> life_of d = Waiting 0 \<and> wd_next d = Some (tx_now s))"
proof (cases "List.find (\<lambda>r. o_event r = msg_event msg) (outbox (evt s))")
  case None
  with assms show ?thesis by (simp add: fanout_handle_def bind_op_def subscribers_def)
next
  case (Some r)
  with assms have "each_op (enqueue_for (msg_event msg)) (subscribers msg s) s = (Inr u, s')"
    by (simp add: fanout_handle_def bind_op_def subscribers_def)
  then show ?thesis by (rule enqueue_all_run)
qed

section \<open>Properties\<close>

text \<open>
  Fan-out queues an event once for everyone who asked for it: when the consumer is done with an
  event it had not seen, either it has claimed it and there is one new delivery, waiting and due,
  for each enabled endpoint of the event's tenant and mode that subscribes to its type, or the event
  is in the dead letters and no delivery was queued; and when the event comes again after that claim,
  no row of any table changes.
\<close>

theorem fanout_queues_each_subscriber_once:
  assumes run: "process_one WebhookFanout env msg s = (Inr True, s')" and fresh: "\<not> claimed WebhookFanout msg s"
  shows "(claimed WebhookFanout msg s' \<and>
      (\<exists>new. deliveries (hks s') = deliveries (hks s) @ new
         \<and> map wd_endpoint new = map we_id (subscribers msg s)
         \<and> (\<forall>d \<in> set new. wd_event d = msg_event msg \<and> life_of d = Waiting 0))
      \<and> process_one WebhookFanout env msg s' = (Inr True, s'\<lparr>tx_now := wall s'\<rparr>))
   \<or> (\<not> claimed WebhookFanout msg s' \<and> hks s' = hks s
      \<and> (\<exists>d. dead_letters (evt s') = dead_letters (evt s) @ [d] \<and> dl_event d = msg_event msg))"
proof -
  from webhooks.process_one_fresh(2) [OF run fresh] consider
    (handled) s0 where "processed (evt s') = processed (evt s) @ [(cs_group WebhookFanout, msg_event msg)]"
      "same_tables s s0" "cs_handle WebhookFanout msg (with_claim WebhookFanout msg s0) = (Inr (), s')"
  | (dead) err n where "buried WebhookFanout msg (Some err) n s s'" by auto
  then show ?thesis
  proof cases
    case handled
    have "fanout_handle msg (with_claim WebhookFanout msg s0) = (Inr (), s')"
      using handled(3) by (simp add: WebhookFanout_def)
    from fanout_run [OF this] obtain new where
      "deliveries (hks s') = deliveries (hks s) @ new" "map wd_endpoint new = map we_id (subscribers msg s)"
      "\<forall>d \<in> set new. wd_event d = msg_event msg \<and> life_of d = Waiting 0"
      using handled(2) by (auto simp: with_claim_def same_tables_def subscribers_def split: option.splits)
    moreover have "claimed WebhookFanout msg s'" using handled(1) by simp
    ultimately show ?thesis using process_one_duplicate by blast
  next
    case dead
    then have "\<not> claimed WebhookFanout msg s'" using fresh by (auto simp: buried_def)
    with dead show ?thesis by (auto simp: buried_def)
  qed
qed

text \<open>
  C19. The dispatcher implements the life every delivery is promised: in one pass each delivery is
  left alone, or makes one step of \<open>life_step\<close> (delivered; waiting with one more attempt made while
  fewer than six are; given up at the sixth), and only when it was waiting and due. Nothing else of
  the database and nothing of the stream changes. So no delivery is attempted after it was delivered
  or given up, and none more than six times.
\<close>

theorem dispatch_refines_life:
  assumes "dispatch_once env limit s = (r, s')" "hooks_ok (hks s)"
  shows "list_all2 (\<lambda>d d'. d' = d \<or> life_step (life_of d) (life_of d') \<and> wd_id d' = wd_id d
            \<and> wd_event d' = wd_event d \<and> wd_endpoint d' = wd_endpoint d \<and> (\<exists>t \<le> wall s. wd_next d = Some t))
          (deliveries (hks s)) (deliveries (hks s'))
     \<and> led s' = led s \<and> evt s' = evt s \<and> strm s' = strm s"
  using dispatch_rows [OF assms]
  by (auto simp: attempted_life elim!: list_all2_mono)

text \<open>
  The waits between attempts: a delivery that a pass leaves waiting again, with \<open>n\<close> attempts made,
  is next due 5 minutes, 30 minutes, 2, 6 or 24 hours later, for \<open>n\<close> from 1 to 5. The first slot of
  the configured schedule, one minute, is never used, since the schedule is indexed with the attempt
  already counted.
\<close>

theorem first_backoff_slot_is_never_used:
  assumes "dispatch_once env limit s = (r, s')" "hooks_ok (hks s)"
    and "(d, d') \<in> set (zip (deliveries (hks s)) (deliveries (hks s')))" "d' \<noteq> d" "wd_status d' = PENDING"
  shows "(wd_attempt d', wd_next d') \<in>
     {(1, Some (wall s + seconds 300)), (2, Some (wall s + seconds 1800)), (3, Some (wall s + seconds 7200)),
      (4, Some (wall s + seconds 21600)), (5, Some (wall s + seconds 86400))}
     \<and> webhook_backoff_seconds ! 0 = 60"
proof -
  from dispatch_rows(1) [OF assms(1,2)] assms(3,4) obtain reply where d': "d' = attempted (wall s) reply d"
    by (auto simp: list_all2_iff)
  note w = attempted_wait [OF assms(5) [unfolded d'], folded d']
  from w(2,3) consider "wd_attempt d' = 1" | "wd_attempt d' = 2" | "wd_attempt d' = 3" | "wd_attempt d' = 4"
    | "wd_attempt d' = 5" by linarith
  then show ?thesis using w(1) by cases (simp_all add: webhook_backoff_seconds_def)
qed

text \<open>One endpoint that wants everything, one event of its tenant, a clock at second one.\<close>

definition demo_endpoint :: endpoint_row where
  "demo_endpoint = \<lparr>we_id = ''whe_1'', we_tenant = ''t'', we_mode = TEST, we_url = ''http://c'',
     we_secret_hash = ''k'', we_events = [''*''], we_enabled = True, we_created = 0\<rparr>"

definition demo_delivery :: delivery_row where
  "demo_delivery = \<lparr>wd_id = ''whd_1'', wd_endpoint = ''whe_1'', wd_event = ''evt_1'', wd_attempt = 0,
     wd_status = PENDING, wd_code = None, wd_body = None, wd_error = None, wd_next = Some 0,
     wd_created = 0, wd_completed = None\<rparr>"

definition hook_state :: "delivery_row list \<Rightarrow> st" where
  "hook_state ds = (relay_state (demo_outbox\<lparr>outbox :=
      [(outbox demo_outbox ! 0)\<lparr>o_payload := JObj []\<rparr>]\<rparr>))\<lparr>hks := \<lparr>endpoints = [demo_endpoint], deliveries = ds\<rparr>\<rparr>"

definition demo_message :: message where
  "demo_message = \<lparr>msg_offset = 1, msg_topic = LEDGER_EVENTS, msg_key = ''acct_1'', msg_event = ''evt_1'',
     msg_type = ''x'', msg_payload = JObj [], msg_published = 0\<rparr>"

definition demo_worker_env :: worker_env where
  "demo_worker_env = \<lparr>env_jitter = (\<lambda>_ _. 0), env_describe = exn_name\<rparr>"

text \<open>A client whose every request times out.\<close>

definition down :: web_env where
  "down = \<lparr>wv_hmac = (\<lambda>k m. k @ m), wv_float = (\<lambda>_. ''0''), wv_client = (\<lambda>n url body hs. Inl ''timeout'')\<rparr>"

lemma demo_fanout:
  "\<exists>s'. process_one WebhookFanout demo_worker_env demo_message (hook_state []) = (Inr True, s')
     \<and> map wd_endpoint (deliveries (hks s')) = [''whe_1'']"
proof -
  obtain i g where g: "new_id ''whd'' stuck_clock = (i, g)" by fastforce
  show ?thesis
    by (simp add: process_one_def max_attempts unit_of_work_def claim_and_handle_def bind_op_def on_evt_def zoom_def
        claim_event_iff WebhookFanout_def fanout_handle_def hook_state_def relay_state_def demo_outbox_def
        demo_message_def endpoints_for_def demo_endpoint_def enqueue_for_def fresh_id_def g on_hks_def
        delivery_enqueue_def guard_op_def Let_def)
qed

theorem fanout_queues_each_subscriber_once_witness:
  "\<exists>s' new. process_one WebhookFanout demo_worker_env demo_message (hook_state []) = (Inr True, s')
     \<and> deliveries (hks s') = deliveries (hks (hook_state [])) @ new
     \<and> map wd_endpoint new = map we_id (subscribers demo_message (hook_state []))
     \<and> map wd_endpoint new = [''whe_1'']
     \<and> process_one WebhookFanout demo_worker_env demo_message s' = (Inr True, s'\<lparr>tx_now := wall s'\<rparr>)"
proof -
  obtain s' where s': "process_one WebhookFanout demo_worker_env demo_message (hook_state []) = (Inr True, s')"
    "map wd_endpoint (deliveries (hks s')) = [''whe_1'']" using demo_fanout by (elim exE conjE) (rule that)
  have fresh: "\<not> claimed WebhookFanout demo_message (hook_state [])"
    by (simp add: hook_state_def relay_state_def demo_outbox_def)
  have none: "deliveries (hks (hook_state [])) = []" by (simp add: hook_state_def)
  from fanout_queues_each_subscriber_once [OF s'(1) fresh] s' none show ?thesis by auto
qed

lemma demo_dispatch:
  "\<exists>s'. dispatch_once down 50 (hook_state [demo_delivery]) = (Inr \<lparr>tl_succeeded = 0, tl_retrying = 1, tl_exhausted = 0\<rparr>, s')
     \<and> deliveries (hks s') = [attempted 0 (Inl ''timeout'') demo_delivery]"
proof -
  let ?s = "hook_state [demo_delivery]"
  let ?r = "(outbox demo_outbox ! 0)\<lparr>o_payload := JObj []\<rparr>" and ?zero = "\<lparr>tl_succeeded = 0, tl_retrying = 0, tl_exhausted = 0\<rparr>"
  obtain body where body: "event_body (wv_float down) ?r = Inr body" by (simp add: event_body_def)
  have s0: "?s\<lparr>tx_now := wall ?s\<rparr> = ?s" by (simp add: hook_state_def relay_state_def)
  have due: "claim_due {} 0 50 (hks ?s) = [(demo_delivery, demo_endpoint)]"
    by (simp add: claim_due_def hook_state_def demo_delivery_def demo_endpoint_def)
  have event: "List.find (\<lambda>r. o_event r = wd_event demo_delivery) (outbox (evt ?s)) = Some ?r"
    by (simp add: hook_state_def demo_delivery_def relay_state_def demo_outbox_def)
  have client: "wv_client down n url b hs = Inl ''timeout''" for n url b hs by (simp add: down_def)
  have now: "tx_now ?s = 0" by (simp add: hook_state_def relay_state_def)
  have "distinct (map wd_id (deliveries (hks ?s)))" "demo_delivery \<in> set (deliveries (hks ?s))"
    by (simp_all add: hook_state_def)
  have "settle demo_delivery (Inl ''timeout'') ?zero ?s = (Inr (?zero\<lparr>tl_retrying := 1\<rparr>),
      ?s\<lparr>hks := (hks ?s)\<lparr>deliveries := [attempted 0 (Inl ''timeout'') demo_delivery]\<rparr>\<rparr>)"
    by (simp add: settle_def bind_op_def backoff_def webhook_backoff_seconds_def on_hks_def zoom_def
        record_attempt_def attempted_def Let_def now) (simp add: hook_state_def demo_delivery_def)
  then have "deliver_all down [(demo_delivery, demo_endpoint)] (0, ?zero) ?s = (Inr (1, ?zero\<lparr>tl_retrying := 1\<rparr>),
      ?s\<lparr>hks := (hks ?s)\<lparr>deliveries := [attempted 0 (Inl ''timeout'') demo_delivery]\<rparr>\<rparr>)"
    by (simp add: deliver_one_def bind_op_def event body client Let_def)
  then show ?thesis
    by (simp add: dispatch_once_def unit_of_work_def bind_op_def s0 now due)
qed

lemma demo_hooks_ok: "hooks_ok (hks (hook_state [demo_delivery]))"
  by (simp add: hooks_ok_def hook_state_def demo_endpoint_def)

theorem dispatch_refines_life_witness:
  "\<exists>s'. dispatch_once down 50 (hook_state [demo_delivery]) = (Inr \<lparr>tl_succeeded = 0, tl_retrying = 1, tl_exhausted = 0\<rparr>, s')
     \<and> map life_of (deliveries (hks s')) = [Waiting 1] \<and> life_step (Waiting 0) (Waiting 1)
     \<and> led s' = led (hook_state [demo_delivery])"
proof -
  obtain s' where s': "dispatch_once down 50 (hook_state [demo_delivery]) = (Inr \<lparr>tl_succeeded = 0, tl_retrying = 1, tl_exhausted = 0\<rparr>, s')"
    "deliveries (hks s') = [attempted 0 (Inl ''timeout'') demo_delivery]" using demo_dispatch by (elim exE conjE) (rule that)
  have l: "life_of demo_delivery = Waiting 0" "life_of (attempted 0 (Inl ''timeout'') demo_delivery) = Waiting 1"
    "attempted 0 (Inl ''timeout'') demo_delivery \<noteq> demo_delivery"
    by (simp_all add: life_of_def attempted_def demo_delivery_def Let_def)
  have "deliveries (hks (hook_state [demo_delivery])) = [demo_delivery]" by (simp add: hook_state_def)
  with dispatch_refines_life [OF s'(1) demo_hooks_ok] s' l show ?thesis by auto
qed

theorem first_backoff_slot_is_never_used_witness:
  "\<exists>s' d'. dispatch_once down 50 (hook_state [demo_delivery]) = (Inr \<lparr>tl_succeeded = 0, tl_retrying = 1, tl_exhausted = 0\<rparr>, s')
     \<and> deliveries (hks s') = [d'] \<and> wd_attempt d' = 1 \<and> wd_next d' = Some (seconds 300)"
proof -
  obtain s' where s': "dispatch_once down 50 (hook_state [demo_delivery]) = (Inr \<lparr>tl_succeeded = 0, tl_retrying = 1, tl_exhausted = 0\<rparr>, s')"
    "deliveries (hks s') = [attempted 0 (Inl ''timeout'') demo_delivery]" using demo_dispatch by (elim exE conjE) (rule that)
  let ?d' = "attempted 0 (Inl ''timeout'') demo_delivery"
  have d': "wd_attempt ?d' = 1" "wd_status ?d' = PENDING" "?d' \<noteq> demo_delivery"
    by (simp_all add: attempted_def demo_delivery_def Let_def)
  have "(demo_delivery, ?d') \<in> set (zip (deliveries (hks (hook_state [demo_delivery]))) (deliveries (hks s')))"
    by (simp add: s'(2) hook_state_def)
  from first_backoff_slot_is_never_used [OF s'(1) demo_hooks_ok this d'(3,2)] d' s' show ?thesis
    by (auto simp: hook_state_def relay_state_def)
qed

end
