(* ===== verification/Services.thy ===== *)
theory Services
  imports Unit_Of_Work Serializers
begin

text \<open>
  \<open>application/services.py\<close>: the use cases, each a body that runs inside the caller's
  \<open>unit_of_work\<close>. Bodies read and write in the order of the source; every raise is a branch.
\<close>

record tenant_ctx =
  c_tenant :: string
  c_api_key :: string
  c_mode :: api_mode

definition from_option :: "exn \<Rightarrow> 'a option \<Rightarrow> exn + 'a" where
  "from_option e v = (case v of None \<Rightarrow> Inl e | Some x \<Rightarrow> Inr x)"

definition resolve_account :: "tenant_ctx \<Rightarrow> string \<Rightarrow> account_row m" where
  "resolve_account ctx ref =
     reads_r (\<lambda>s. from_option (AppExn AccountNotFound)
                   (account_resolve ref (c_tenant ctx) (c_mode ctx) (led s)))"

text \<open>\<open>AccountType(value)\<close>.\<close>

definition account_type_of :: "string \<Rightarrow> account_type option" where
  "account_type_of v =
     List.find (\<lambda>t. type_value t = v) [ASSET, LIABILITY, EQUITY, REVENUE, EXPENSE]"

definition create_account ::
  "tenant_ctx \<Rightarrow> string \<Rightarrow> string \<Rightarrow> string \<Rightarrow> string option \<Rightarrow> int option \<Rightarrow> (string \<times> json) list \<Rightarrow> json m" where
  "create_account ctx name ty cur ext minimum md =
     bind_op (fresh_id account_id) (\<lambda>i.
     bind_op (lift_op (from_option (PyExn ValueError) (account_type_of ty))) (\<lambda>t.
     bind_op (reads tx_now) (\<lambda>now.
     bind_op (on_led (account_create now i (c_tenant ctx) (c_mode ctx) name t cur ext minimum md)) (\<lambda>row.
     ret_op (account_json row None)))))"

section \<open>Screening and floors\<close>

definition probe_features :: "string \<Rightarrow> int \<Rightarrow> int \<Rightarrow> int \<times> int \<Rightarrow> features" where
  "probe_features acct amount tm probe =
     \<lparr>f_account = acct, f_as_of = tm, f_amount = amount, f_spend_1h = 0, f_spend_24h = 0,
      f_txn_count_1h = fst probe, f_max_amount_1h = snd probe, f_distinct_merchants_7d = 0,
      f_merchant_frequency = 0, f_avg_90d = 0, f_stddev_90d = 0\<rparr>"

definition decline_of :: "rule \<Rightarrow> features \<Rightarrow> decline" where
  "decline_of rl f =
     \<lparr>dc_message = ''declined: '' @ r_description rl, dc_rule = r_name rl, dc_score = r_score rl,
      dc_account = f_account f, dc_amount = f_amount f, dc_txn_count = f_txn_count_1h f,
      dc_max_amount = f_max_amount_1h f\<rparr>"

definition screen :: "account_row \<Rightarrow> money \<Rightarrow> int \<Rightarrow> unit m" where
  "screen funding amount tm =
     (if BLOCKING = [] then ret_op ()
      else bind_op (reads (\<lambda>s. velocity_probe (a_id funding) tm (led s))) (\<lambda>probe.
        let f = probe_features (a_id funding) (minor amount) tm probe in
        each_op (\<lambda>rl. guard_op (rule_evaluate rl f) (AppExn (TransactionDeclined (decline_of rl f)))) BLOCKING))"

text \<open>The decline is written in a transaction of its own: the posting's is rolling back.\<close>

definition record_decline :: "tenant_ctx \<Rightarrow> decline \<Rightarrow> unit m" where
  "record_decline ctx d =
     unit_of_work
       (bind_op (fresh_id (new_id ''sig'')) (\<lambda>i.
        bind_op (reads tx_now) (\<lambda>now.
        bind_op (reads led) (\<lambda>l.
        on_rsk (decline_insert l now i (c_tenant ctx) (dc_account d) (dc_rule d) (dc_score d)
          (dc_amount d) (dc_message d)
          (JObj [(''txn_count_1h'', JInt (dc_txn_count d)), (''max_amount_1h'', JInt (dc_max_amount d))]))))))"

text \<open>The signed change of each account the posting touches.\<close>

fun deltas_from :: "(string, int) dict \<Rightarrow> (string, account_row) dict \<Rightarrow> entry list
  \<Rightarrow> exn + (string, int) dict" where
  "deltas_from acc rows [] = Inr acc"
| "deltas_from acc rows (e # es) =
     (case dget rows (ent_account e) of
        None \<Rightarrow> Inl (PyExn KeyError)
      | Some row \<Rightarrow>
          deltas_from (dbump (ent_account e)
             ((if ent_direction e = a_normal row then 1 else - 1) * minor (ent_amount e)) acc) rows es)"

definition check_floor :: "(string, account_row) dict \<Rightarrow> string \<times> int \<Rightarrow> unit m" where
  "check_floor rows p =
     (case dget rows (fst p) of
        None \<Rightarrow> raise_op (PyExn KeyError)
      | Some row \<Rightarrow>
          (case a_minimum row of
             None \<Rightarrow> ret_op ()
           | Some least \<Rightarrow>
               if 0 \<le> snd p then ret_op ()
               else bind_op (reads (\<lambda>s. account_lock (fst p) (led s))) (\<lambda>_.
                 bind_op (reads_r (\<lambda>s. account_balance (fst p) (led s))) (\<lambda>b.
                 guard_op (b_balance b + snd p < least)
                   (AppExn (InsufficientFunds (fst p) (b_balance b) \<bar>snd p\<bar>))))))"

definition check_floors :: "journal \<Rightarrow> (string, account_row) dict \<Rightarrow> unit m" where
  "check_floors txn rows =
     bind_op (lift_op (deltas_from [] rows (j_entries txn))) (\<lambda>deltas.
     each_op (check_floor rows) deltas)"

section \<open>Posting\<close>

definition primary_account :: "journal \<Rightarrow> string" where
  "primary_account txn =
     (case List.find (\<lambda>e. ent_direction e = CREDIT) (j_entries txn) of
        Some e \<Rightarrow> ent_account e
      | None \<Rightarrow> ent_account (hd (j_entries txn)))"

definition emit :: "tenant_ctx \<Rightarrow> string \<Rightarrow> string \<Rightarrow> json \<Rightarrow> string m" where
  "emit ctx ty key payload =
     bind_op (fresh_id event_id) (\<lambda>i.
     bind_op (reads tx_now) (\<lambda>now.
     bind_op (reads (\<lambda>s. tenants (led s))) (\<lambda>ts.
     bind_op (on_evt (append_outbox ts now i (c_tenant ctx) (c_mode ctx) key ty
        (JObj [(''id'', JStr i), (''type'', JStr ty), (''data'', JObj [(''object'', payload)])]))) (\<lambda>_.
     ret_op i))))"

definition check_account :: "money \<Rightarrow> string \<times> account_row \<Rightarrow> unit m" where
  "check_account amount p =
     bind_op (guard_op (a_currency (snd p) \<noteq> currency amount)
                (AppExn (CurrencyMismatchError (fst p)))) (\<lambda>_.
     guard_op (a_status (snd p) \<noteq> OPEN) (AppExn (CurrencyMismatchError (fst p))))"

text \<open>The role whose account the raw descriptor and the screening belong to.\<close>

definition funding_role :: "(string, account_row) dict \<Rightarrow> account_row option" where
  "funding_role resolved =
     (case dget resolved ''funding'' of Some row \<Rightarrow> Some row | None \<Rightarrow> dget resolved ''source'')"

definition insert_descriptor ::
  "tenant_ctx \<Rightarrow> (string, account_row) dict \<Rightarrow> journal \<Rightarrow> string \<Rightarrow> money \<Rightarrow> metadata \<Rightarrow> string \<Rightarrow> unit m" where
  "insert_descriptor ctx resolved txn kind amount md descriptor =
     bind_op (lift_op (from_option (PyExn StopIteration)
        (case funding_role resolved of
           Some row \<Rightarrow> Some row
         | None \<Rightarrow> (case resolved of [] \<Rightarrow> None | (_, row) # _ \<Rightarrow> Some row)))) (\<lambda>row.
     bind_op (fresh_id (new_id ''raw'')) (\<lambda>i.
     bind_op (reads tx_now) (\<lambda>now.
     bind_op (reads led) (\<lambda>l.
     bind_op (on_nrm (insert_raw l now i (c_tenant ctx) (c_mode ctx) (a_id row) (Some (j_id txn))
        (JObj [(''kind'', JStr kind), (''descriptor'', JStr descriptor), (''metadata'', jstr_dict md)])
        descriptor (minor amount) (currency amount) (instant (j_effective txn)))) (\<lambda>_.
     ret_op ())))))"

definition resolve_role :: "tenant_ctx \<Rightarrow> string \<times> string \<Rightarrow> (string \<times> account_row) m" where
  "resolve_role ctx p = bind_op (resolve_account ctx (snd p)) (\<lambda>row. ret_op (fst p, row))"

definition rows_by_id :: "(string, account_row) dict \<Rightarrow> (string, account_row) dict" where
  "rows_by_id resolved = foldl (\<lambda>d p. dset (a_id (snd p)) (snd p) d) [] resolved"

text \<open>\<open>post_transaction\<close> from the building of the posting on, with the accounts resolved.\<close>

definition post_resolved ::
  "tenant_ctx \<Rightarrow> string \<Rightarrow> (string, account_row) dict \<Rightarrow> money \<Rightarrow> datetime \<Rightarrow> string option \<Rightarrow> metadata
   \<Rightarrow> json m" where
  "post_resolved ctx kind resolved amount tm descriptor md =
     bind_op (fresh_id transaction_id) (\<lambda>i.
     bind_op (lift_op (build_transaction i kind
        \<lparr>pr_amount = amount, pr_effective = tm,
         pr_accounts = map (\<lambda>(role, row). (role, a_id row)) resolved, pr_metadata = md\<rparr>)) (\<lambda>txn.
     bind_op (case funding_role resolved of None \<Rightarrow> ret_op () | Some row \<Rightarrow> screen row amount (instant tm)) (\<lambda>_.
     bind_op (check_floors txn (rows_by_id resolved)) (\<lambda>_.
     bind_op (reads tx_now) (\<lambda>now.
     bind_op (on_led (txn_insert now txn (c_tenant ctx) (c_mode ctx))) (\<lambda>row.
     bind_op (on_led (entries_insert_many now txn None)) (\<lambda>es.
     bind_op (case descriptor of
                None \<Rightarrow> ret_op ()
              | Some d \<Rightarrow> if d = [] then ret_op () else insert_descriptor ctx resolved txn kind amount md d) (\<lambda>_.
     let resource = transaction_json row (Some es) in
     bind_op (emit ctx ''transaction.created'' (primary_account txn) resource) (\<lambda>_.
     ret_op resource)))))))))"

definition post_transaction ::
  "tenant_ctx \<Rightarrow> string \<Rightarrow> (string, string) dict \<Rightarrow> money \<Rightarrow> datetime option \<Rightarrow> string option \<Rightarrow> metadata
   \<Rightarrow> json m" where
  "post_transaction ctx kind accts amount effective descriptor md =
     bind_op (reads (\<lambda>s. case effective of None \<Rightarrow> Aware (wall s) | Some t \<Rightarrow> t)) (\<lambda>tm.
     bind_op (map_op (resolve_role ctx) accts) (\<lambda>resolved.
     bind_op (each_op (check_account amount) resolved) (\<lambda>_.
     post_resolved ctx kind resolved amount tm descriptor md)))"

definition transfer ::
  "tenant_ctx \<Rightarrow> string \<Rightarrow> string \<Rightarrow> money \<Rightarrow> datetime option \<Rightarrow> metadata \<Rightarrow> json m" where
  "transfer ctx source destination amount effective md =
     post_transaction ctx ''transfer'' [(''source'', source), (''destination'', destination)]
       amount effective None md"

definition reverse_transaction :: "tenant_ctx \<Rightarrow> string \<Rightarrow> datetime option \<Rightarrow> json m" where
  "reverse_transaction ctx i effective =
     bind_op (reads_r (\<lambda>s. from_option (AppExn (NotFound (Some ''transaction''))) (txn_get i (c_tenant ctx) (c_mode ctx) (led s)))) (\<lambda>original.
     bind_op (guard_op (t_status original = REVERSED) (AppExn AlreadyReversed)) (\<lambda>_.
     bind_op (reads (\<lambda>s. entries_for_transaction i (led s))) (\<lambda>rows.
     bind_op (lift_op (map_r entry_to_domain rows)) (\<lambda>es.
     bind_op (lift_op (mk_journal (t_id original) (t_kind original) (Aware (t_effective original)) es
                        (t_metadata original) None)) (\<lambda>domain.
     bind_op (fresh_id transaction_id) (\<lambda>new_id.
     bind_op (reads (\<lambda>s. case effective of None \<Rightarrow> Aware (wall s) | Some t \<Rightarrow> t)) (\<lambda>tm.
     bind_op (lift_op (reverse_journal domain new_id (Some tm))) (\<lambda>reversal.
     bind_op (reads tx_now) (\<lambda>now.
     bind_op (on_led (txn_insert now reversal (c_tenant ctx) (c_mode ctx))) (\<lambda>row.
     bind_op (on_led (entries_insert_many now reversal None)) (\<lambda>new_rows.
     bind_op (on_led (mark_reversed i)) (\<lambda>_.
     let resource = transaction_json row (Some new_rows) in
     bind_op (emit ctx ''transaction.reversed'' (primary_account reversal) resource) (\<lambda>_.
     ret_op resource)))))))))))))"

section \<open>Reads\<close>

definition balance_query ::
  "tenant_ctx \<Rightarrow> string \<Rightarrow> datetime option \<Rightarrow> datetime option \<Rightarrow> json m" where
  "balance_query ctx ref as_of known =
     bind_op (resolve_account ctx ref) (\<lambda>row.
     bind_op (if as_of \<noteq> None \<or> known \<noteq> None
        then reads_r (\<lambda>s. bind_r (account_balance_at (a_id row) (map_option instant as_of)
               (map_option instant known) (led s)) (\<lambda>(c, b). Inr (b, c, ''historical'')))
        else reads_r (\<lambda>s. bind_r (account_balance (a_id row) (led s)) (\<lambda>v.
               Inr (b_balance v, b_currency v, ''settled'')))) (\<lambda>(b, c, basis).
     ret_op (JObj [(''object'', JStr ''balance''), (''account'', JStr (a_id row)), (''balance'', JInt b),
        (''currency'', JStr c), (''basis'', JStr basis),
        (''as_of'', jopt (\<lambda>t. ts_json (instant t)) as_of),
        (''as_known_at'', jopt (\<lambda>t. ts_json (instant t)) known)])))"

definition health :: "json m" where
  "health =
     bind_op (reads_r (\<lambda>s. bind_r (global_drift (led s)) (\<lambda>drift.
        bind_r (reconcile (led s)) (\<lambda>mism. Inr (drift, mism))))) (\<lambda>(drift, mism).
     reads (\<lambda>s. let (pending, oldest) = outbox_lag (tx_now s) (evt s);
                     rate = success_rate (tx_now s) (hks s) in
       JObj [(''object'', JStr ''health''), (''outbox_pending'', JInt (int pending)),
         (''outbox_oldest_seconds'', JReal oldest),
         (''stream_head'', JInt (int (pg_head LEDGER_EVENTS (strm s)))),
         (''consumer_lag'', JObj
           [(''normalizer'', JInt (stream_lag LEDGER_EVENTS ''normalizer'' (strm s))),
            (''webhooks'', JInt (stream_lag LEDGER_EVENTS ''webhooks'' (strm s))),
            (''risk'', JInt (stream_lag NORMALIZED_TRANSACTIONS ''risk'' (strm s)))]),
         (''dlq_depth'', JInt (int (dlq_depth (evt s)))),
         (''webhooks_24h'', JObj
           [(''succeeded'', JInt (int (dc_succeeded rate))), (''exhausted'', JInt (int (dc_exhausted rate))),
            (''pending'', JInt (int (dc_pending rate))), (''total'', JInt (int (dc_total rate)))]),
         (''ledger_drift'', JArr (map (\<lambda>(c, d). JObj [(''currency'', JStr c), (''drift'', JInt d)]) drift)),
         (''reconciliation_mismatches'', JInt (int (length mism)))]))"

end
