(* ===== verification/Service_Laws.thy ===== *)
theory Service_Laws
  imports Services
begin

text \<open>
  What the use cases promise: an accepted posting leaves the books balanced and every floor
  respected and has its event in the outbox; a refused one leaves no trace; a reversal restores
  every balance. The proofs take a run apart once (\<open>post_transaction_Inr\<close>,
  \<open>reverse_transaction_Inr\<close>) and then speak about its parts.
\<close>

section \<open>Bodies that only read\<close>

lemma reads_only: "keeps (\<lambda>x. x = s) m \<Longrightarrow> m s = (r, s') \<Longrightarrow> s' = s"
  unfolding keeps_def by (metis snd_conv)

lemma keeps_resolve [keeps_intros]: "keeps P (resolve_account ctx ref)"
  unfolding resolve_account_def by (intro keeps_intros)

lemma keeps_check_account [keeps_intros]: "keeps P (check_account amount p)"
  unfolding check_account_def by (intro keeps_intros)

lemma keeps_screen [keeps_intros]: "keeps P (screen row amount tm)"
  unfolding screen_def Let_def by (intro keeps_intros)

lemma keeps_check_floor [keeps_intros]: "keeps P (check_floor rows p)"
  unfolding check_floor_def by (intro keeps_intros)

lemma keeps_check_floors [keeps_intros]: "keeps P (check_floors txn rows)"
  unfolding check_floors_def by (intro keeps_intros)

lemma keeps_insert_descriptor [keeps_intros]:
  "keeps (\<lambda>s. P (led s)) (insert_descriptor ctx resolved txn kind amount md d)"
  "keeps (\<lambda>s. Q (evt s)) (insert_descriptor ctx resolved txn kind amount md d)"
  unfolding insert_descriptor_def by (intro keeps_intros)+

lemma keeps_clock [keeps_intros]:
  "keeps (\<lambda>s. K (tx_now s)) (on_led m1)" "keeps (\<lambda>s. K (tx_now s)) (on_evt m2)"
  "keeps (\<lambda>s. K (tx_now s)) (on_nrm m3)" "keeps (\<lambda>s. K (tx_now s)) (on_rsk m4)"
  "keeps (\<lambda>s. K (tx_now s)) (on_hks m5)" "keeps (\<lambda>s. K (tx_now s)) (on_idm m6)"
  "keeps (\<lambda>s. K (tx_now s)) (fresh_id g)"
  by (auto simp: keeps_def on_led_def on_evt_def on_nrm_def on_rsk_def on_hks_def on_idm_def
      fresh_id_def zoom_def split_beta Let_def)

lemma each_op_Inr:
  "each_op f xs s = (Inr u, s') \<Longrightarrow> (\<And>x. keeps (\<lambda>y. y = s) (f x)) \<Longrightarrow>
   s' = s \<and> (\<forall>x \<in> set xs. f x s = (Inr (), s))"
proof (induction xs)
  case Nil
  then show ?case by (simp add: result_simps)
next
  case (Cons x xs)
  then obtain s1 where one: "f x s = (Inr (), s1)" and rest: "each_op f xs s1 = (Inr u, s')"
    by (auto simp: result_simps simp del: op_run)
  have "s1 = s" using reads_only [of s "f x"] Cons.prems(2) one by blast
  with one rest Cons show ?case by auto
qed

section \<open>A successful posting, taken apart\<close>

definition resolves ::
  "tenant_ctx \<Rightarrow> ledger_tables \<Rightarrow> (string, string) dict \<Rightarrow> (string, account_row) dict \<Rightarrow> bool" where
  "resolves ctx l accts resolved \<longleftrightarrow> list_all2 (\<lambda>p q. fst q = fst p
          \<and> account_resolve (snd p) (c_tenant ctx) (c_mode ctx) l = Some (snd q)) accts resolved"

lemma keeps_resolve_role [keeps_intros]: "keeps P (resolve_role ctx p)"
  unfolding resolve_role_def by (intro keeps_intros)

lemma resolved_accounts:
  "map_op (resolve_role ctx) accts s = (Inr resolved, s') \<Longrightarrow> s' = s \<and> resolves ctx (led s) accts resolved"
proof (induction accts arbitrary: resolved)
  case Nil
  then show ?case by (simp add: result_simps resolves_def)
next
  case (Cons p ps)
  from Cons.prems obtain q rest s1 where
    one: "resolve_role ctx p s = (Inr q, s1)"
    and rest: "map_op (resolve_role ctx) ps s1 = (Inr rest, s')"
    and r: "resolved = q # rest"
    by (auto simp: result_simps simp del: op_run)
  have s1: "s1 = s" using reads_only [of s "resolve_role ctx p"] keeps_resolve_role one by blast
  from one have "fst q = fst p \<and> account_resolve (snd p) (c_tenant ctx) (c_mode ctx) (led s) = Some (snd q)"
    by (auto simp: resolve_role_def resolve_account_def from_option_def result_simps
        simp del: op_run split: option.splits)
  with Cons.IH rest s1 r show ?case by (simp add: resolves_def)
qed

lemma emit_Inr:
  assumes "emit ctx ty key payload s = (Inr i, s')"
  shows "led s' = led s"
    "\<exists>row. append_outbox (tenants (led s)) (tx_now s) i (c_tenant ctx) (c_mode ctx) key ty
       (JObj [(''id'', JStr i), (''type'', JStr ty), (''data'', JObj [(''object'', payload)])]) (evt s)
       = (Inr row, evt s')"
  using assms unfolding emit_def by (auto simp: result_simps simp del: op_run)

lemma descriptor_step:
  assumes "(case d of None \<Rightarrow> ret_op () | Some d \<Rightarrow> if d = [] then ret_op ()
              else insert_descriptor ctx resolved txn kind amount md d) s = (Inr u, s')"
  shows "led s' = led s" "evt s' = evt s" "tx_now s' = tx_now s"
proof -
  let ?m = "case d of None \<Rightarrow> ret_op () | Some d \<Rightarrow> if d = [] then ret_op ()
              else insert_descriptor ctx resolved txn kind amount md d"
  have "keeps (\<lambda>x. led x = led s) ?m" "keeps (\<lambda>x. evt x = evt s) ?m" "keeps (\<lambda>x. tx_now x = tx_now s) ?m"
    by (intro keeps_intros; simp add: insert_descriptor_def; intro keeps_intros)+
  then show "led s' = led s" "evt s' = evt s" "tx_now s' = tx_now s"
    using assms by (auto dest: keepsD)
qed

lemma post_resolved_Inr:
  assumes "post_resolved ctx kind resolved amount tm descriptor md s = (Inr out, s')"
  obtains i txn s1 row l1 es event orow where
    "build_transaction i kind \<lparr>pr_amount = amount, pr_effective = tm,
         pr_accounts = map (\<lambda>(role, row). (role, a_id row)) resolved, pr_metadata = md\<rparr> = Inr txn"
    "led s1 = led s"
    "case funding_role resolved of None \<Rightarrow> True | Some row \<Rightarrow> screen row amount (instant tm) s1 = (Inr (), s1)"
    "check_floors txn (rows_by_id resolved) s1 = (Inr (), s1)"
    "txn_insert (tx_now s) txn (c_tenant ctx) (c_mode ctx) (led s) = (Inr row, l1)"
    "entries_insert_many (tx_now s) txn None l1 = (Inr es, led s')"
    "out = transaction_json row (Some es)"
    "append_outbox (tenants (led s')) (tx_now s) event (c_tenant ctx) (c_mode ctx) (primary_account txn)
       ''transaction.created''
       (JObj [(''id'', JStr event), (''type'', JStr ''transaction.created''), (''data'', JObj [(''object'', out)])])
       (evt s) = (Inr orow, evt s')"
proof -
  let ?scr = "case funding_role resolved of None \<Rightarrow> ret_op () | Some row \<Rightarrow> screen row amount (instant tm)"
  let ?desc = "\<lambda>txn. case descriptor of None \<Rightarrow> ret_op ()
              | Some d \<Rightarrow> if d = [] then ret_op () else insert_descriptor ctx resolved txn kind amount md d"
  from assms obtain i sa txn sb u1 sc u2 sd now sd' row se es sf u3 sg event sh where
    i: "fresh_id transaction_id s = (Inr i, sa)"
    and b: "lift_op (build_transaction i kind \<lparr>pr_amount = amount, pr_effective = tm,
         pr_accounts = map (\<lambda>(role, row). (role, a_id row)) resolved, pr_metadata = md\<rparr>) sa = (Inr txn, sb)"
    and scr: "?scr sb = (Inr u1, sc)"
    and fl: "check_floors txn (rows_by_id resolved) sc = (Inr u2, sd)"
    and now: "reads tx_now sd = (Inr now, sd')"
    and t: "on_led (txn_insert now txn (c_tenant ctx) (c_mode ctx)) sd' = (Inr row, se)"
    and e: "on_led (entries_insert_many now txn None) se = (Inr es, sf)"
    and d: "?desc txn sf = (Inr u3, sg)"
    and em: "emit ctx ''transaction.created'' (primary_account txn) (transaction_json row (Some es)) sg = (Inr event, sh)"
    and out: "ret_op (transaction_json row (Some es)) sh = (Inr out, s')"
    unfolding post_resolved_def Let_def by - (elim bind_opE, rule that)
  have sb: "sb = sa" "build_transaction i kind \<lparr>pr_amount = amount, pr_effective = tm,
         pr_accounts = map (\<lambda>(role, row). (role, a_id row)) resolved, pr_metadata = md\<rparr> = Inr txn"
    using b by (simp_all add: basic_op_iff del: op_run)
  have sa: "led sa = led s" "tx_now sa = tx_now s" "evt sa = evt s"
    using i by (auto simp: fresh_id_iff)
  have "keeps (\<lambda>x. x = sb) ?scr" by (intro keeps_intros)
  then have sc: "sc = sb" using scr by (rule reads_only)
  have sd: "sd = sc" using keeps_check_floors fl by (rule reads_only)
  have now': "now = tx_now sd" "sd' = sd" using now by (simp_all add: basic_op_iff del: op_run)
  from t now' obtain l1 where t': "txn_insert (tx_now sd) txn (c_tenant ctx) (c_mode ctx) (led sd) = (Inr row, l1)"
    and se: "se = sd\<lparr>led := l1\<rparr>" by (auto simp: on_iff)
  from e se now' obtain l2 where e': "entries_insert_many (tx_now sd) txn None l1 = (Inr es, l2)"
    and sf: "sf = sd\<lparr>led := l2\<rparr>" by (auto simp: on_iff)
  have out': "out = transaction_json row (Some es)" "s' = sh" using out by (simp_all add: basic_op_iff del: op_run)
  note d = descriptor_step [OF d]
  note em = emit_Inr [OF em]
  from em(2) obtain orow where orow: "append_outbox (tenants (led sg)) (tx_now sg) event (c_tenant ctx) (c_mode ctx)
       (primary_account txn) ''transaction.created''
       (JObj [(''id'', JStr event), (''type'', JStr ''transaction.created''),
         (''data'', JObj [(''object'', transaction_json row (Some es))])]) (evt sg) = (Inr orow, evt sh)"
    by blast
  show thesis
  proof (rule that [OF sb(2)])
    show "led sd = led s" using sa sb sc sd by simp
    show "case funding_role resolved of None \<Rightarrow> True | Some row \<Rightarrow> screen row amount (instant tm) sd = (Inr (), sd)"
      using scr sc sd by (auto split: option.splits)
    show "check_floors txn (rows_by_id resolved) sd = (Inr (), sd)" using fl sd by simp
    show "txn_insert (tx_now s) txn (c_tenant ctx) (c_mode ctx) (led s) = (Inr row, l1)"
      using t' sa sb sc sd by simp
    show "entries_insert_many (tx_now s) txn None l1 = (Inr es, led s')"
      using e' sa sb sc sd sf d em out' by simp
    show "append_outbox (tenants (led s')) (tx_now s) event (c_tenant ctx) (c_mode ctx) (primary_account txn)
       ''transaction.created''
       (JObj [(''id'', JStr event), (''type'', JStr ''transaction.created''), (''data'', JObj [(''object'', out)])])
       (evt s) = (Inr orow, evt s')"
      using orow d em(1) sa sb sc sd sf out' by simp
  qed (rule out'(1))
qed


lemma post_transaction_Inr:
  assumes "post_transaction ctx kind accts amount effective descriptor md s = (Inr out, s')"
  obtains resolved where
    "resolves ctx (led s) accts resolved"
    "\<forall>p \<in> set resolved. a_currency (snd p) = currency amount \<and> a_status (snd p) = OPEN"
    "post_resolved ctx kind resolved amount (case effective of None \<Rightarrow> Aware (wall s) | Some t \<Rightarrow> t)
       descriptor md s = (Inr out, s')"
proof -
  from assms obtain tm sa resolved sb u sc where
    tm: "reads (\<lambda>s. case effective of None \<Rightarrow> Aware (wall s) | Some t \<Rightarrow> t) s = (Inr tm, sa)"
    and res: "map_op (resolve_role ctx) accts sa = (Inr resolved, sb)"
    and chk: "each_op (check_account amount) resolved sb = (Inr u, sc)"
    and rest: "post_resolved ctx kind resolved amount tm descriptor md sc = (Inr out, s')"
    unfolding post_transaction_def by - (elim bind_opE, rule that)
  have sa: "sa = s" "tm = (case effective of None \<Rightarrow> Aware (wall s) | Some t \<Rightarrow> t)"
    using tm by (simp_all add: basic_op_iff del: op_run)
  have sb: "sb = s" "resolves ctx (led s) accts resolved" using resolved_accounts [OF res] sa by auto
  have sc: "sc = s" "\<forall>p \<in> set resolved. check_account amount p s = (Inr (), s)"
    using each_op_Inr [OF chk] keeps_check_account sb by auto
  then have "\<forall>p \<in> set resolved. a_currency (snd p) = currency amount \<and> a_status (snd p) = OPEN"
    by (auto simp: check_account_def result_simps simp del: op_run)
  with that sb rest sa sc show thesis by blast
qed

section \<open>Every use case keeps the books\<close>

lemma keeps_emit [keeps_intros]:
  "keeps (\<lambda>s. P (led s)) (emit ctx ty key payload)"
  "keeps (\<lambda>s. outbox_ok (evt s)) (emit ctx ty key payload)"
  "keeps (\<lambda>s. n \<le> outbox_seq (evt s)) (emit ctx ty key payload)"
  unfolding emit_def by (intro keeps_intros)+

lemma well_behaved_post: "well_behaved (post_transaction ctx kind accts amount effective descriptor md)"
  unfolding well_behaved_def post_transaction_def post_resolved_def Let_def
  by (intro conjI allI keeps_intros)

lemma well_behaved_create: "well_behaved (create_account ctx name ty cur ext minimum md)"
  unfolding well_behaved_def create_account_def by (intro conjI allI keeps_intros)

lemma well_behaved_reverse: "well_behaved (reverse_transaction ctx i effective)"
  unfolding well_behaved_def reverse_transaction_def Let_def by (intro conjI allI keeps_intros)

definition take_snapshot :: "string \<Rightarrow> snapshot_row option m" where
  "take_snapshot acct = bind_op (reads tx_now) (\<lambda>now. on_led (write_snapshot now acct))"

lemma well_behaved_snapshot: "well_behaved (take_snapshot acct)"
  unfolding well_behaved_def take_snapshot_def by (intro conjI allI keeps_intros)

lemma keeps_record_decline: "keeps db_ok (record_decline ctx d)"
  unfolding record_decline_def
  by (rule unit_of_work_db_ok) (unfold well_behaved_def, intro conjI allI keeps_intros)

text \<open>The ways the ledger changes between two moments at which no transaction is open.\<close>

inductive ledger_step :: "st \<Rightarrow> st \<Rightarrow> bool" where
  creates: "unit_of_work (create_account ctx name ty cur ext minimum md) s = (r, s') \<Longrightarrow> ledger_step s s'"
| posts: "unit_of_work (post_transaction ctx kind accts amount effective descriptor md) s = (r, s') \<Longrightarrow> ledger_step s s'"
| reverses: "unit_of_work (reverse_transaction ctx i effective) s = (r, s') \<Longrightarrow> ledger_step s s'"
| snapshots: "unit_of_work (take_snapshot acct) s = (r, s') \<Longrightarrow> ledger_step s s'"
| declines: "record_decline ctx d s = (r, s') \<Longrightarrow> ledger_step s s'"
| ticks: "ledger_step s (s\<lparr>wall := w\<rparr>)"

inductive reachable :: "st \<Rightarrow> st \<Rightarrow> bool" for s0 where
  start: "reachable s0 s0"
| next_step: "reachable s0 s \<Longrightarrow> ledger_step s s' \<Longrightarrow> reachable s0 s'"

lemma ledger_step_ok: "ledger_step s s' \<Longrightarrow> db_ok s \<Longrightarrow> db_ok s'"
proof (induction rule: ledger_step.induct)
  case (ticks s w)
  then show ?case by (simp add: db_ok_def)
next
  case (declines ctx d s r s')
  then show ?case using keepsD [OF keeps_record_decline] by blast
qed (use unit_of_work_db_ok well_behaved_post well_behaved_create well_behaved_reverse
      well_behaved_snapshot keepsD in metis)+

lemma reachable_ok: "reachable s0 s \<Longrightarrow> db_ok s0 \<Longrightarrow> db_ok s"
  by (induction rule: reachable.induct) (auto intro: ledger_step_ok)

text \<open>A new database: the tenants, no rows, the sequences at one.\<close>

definition new_database :: "string list \<Rightarrow> idgen \<Rightarrow> int \<Rightarrow> st" where
  "new_database ts g w =
     \<lparr>led = \<lparr>tenants = ts, accounts = [], transactions = [], entries = [], snapshots = [], entry_seq = 1\<rparr>,
      evt = \<lparr>outbox = [], outbox_seq = 1, processed = [], dead_letters = []\<rparr>,
      nrm = \<lparr>raws = [], merchants = [], aliases = [], norms = []\<rparr>,
      rsk = \<lparr>signals = [], late_arrivals = [], account_features = []\<rparr>,
      hks = \<lparr>endpoints = [], deliveries = []\<rparr>, idm = [], sid = no_side_tables,
      strm = \<lparr>messages = [], message_seq = 1, offsets = [], stream_clock = w\<rparr>,
      idg = g, redis = None, newest_event = None, wall = w, tx_now = w\<rparr>"

lemma new_database_ok: "db_ok (new_database ts g w)"
  by (simp add: db_ok_def new_database_def ledger_ok_def all_balanced_def transaction_balanced_def outbox_ok_def)


section \<open>Floors\<close>

text \<open>The balance of an account, recomputed from its entries.\<close>

definition book_balance :: "ledger_tables \<Rightarrow> account_row \<Rightarrow> int" where
  "book_balance l a = sum_signed (a_normal a) (entries_of (a_id a) l)"

definition signed_delta :: "direction \<Rightarrow> string \<Rightarrow> entry list \<Rightarrow> int" where
  "signed_delta side acct es =
     (\<Sum>e \<leftarrow> filter (\<lambda>e. ent_account e = acct) es.
        (if ent_direction e = side then 1 else - 1) * minor (ent_amount e))"

lemma deltas_from_Inr:
  "deltas_from acc rows es = Inr d \<Longrightarrow> distinct (map fst acc) \<Longrightarrow>
     distinct (map fst d) \<and> fst ` set d = fst ` set acc \<union> ent_account ` set es
     \<and> (\<forall>e \<in> set es. dget rows (ent_account e) \<noteq> None)
     \<and> (\<forall>i row. dget rows i = Some row \<longrightarrow> dval d i = dval acc i + signed_delta (a_normal row) i es)"
proof (induction es arbitrary: acc)
  case Nil
  then show ?case by (simp add: signed_delta_def)
next
  case (Cons e es)
  then obtain row where row: "dget rows (ent_account e) = Some row"
    by (auto split: option.splits)
  let ?acc = "dbump (ent_account e)
      ((if ent_direction e = a_normal row then 1 else - 1) * minor (ent_amount e)) acc"
  have "deltas_from ?acc rows es = Inr d" using Cons.prems(1) row by simp
  from Cons.IH [OF this distinct_dbump [OF Cons.prems(2)]] show ?case
    using row by (auto simp: dbump_keys signed_delta_def)
qed

lemma signed_delta_rows:
  "length ns = length es \<Longrightarrow>
   sum_signed side (filter (\<lambda>r. e_account r = acct)
     (map (\<lambda>(e, n). entry_row_of now j rec e n) (zip es ns))) = signed_delta side acct es"
  by (induction ns es rule: list_induct2) (auto simp: signed_delta_def signed_minor_def)

lemma resolve_mem: "account_resolve ref tenant mode l = Some row \<Longrightarrow>
   row \<in> set (accounts l) \<and> a_tenant row = tenant \<and> a_mode row = mode"
proof -
  assume r: "account_resolve ref tenant mode l = Some row"
  let ?xs = "filter (\<lambda>a. a_tenant a = tenant \<and> a_mode a = mode \<and> (a_id a = ref \<or> a_external a = Some ref)) (accounts l)"
  from r obtain rest where "sort_key (\<lambda>a. a_id a \<noteq> ref) ?xs = row # rest"
    by (auto simp: account_resolve_def split: list.splits)
  then have "row \<in> set (sort_key (\<lambda>a. a_id a \<noteq> ref) ?xs)" by (metis list.set_intros(1))
  then show ?thesis by simp
qed

lemma resolves_mem: "resolves ctx l accts resolved \<Longrightarrow> \<forall>p \<in> set resolved. snd p \<in> set (accounts l)"
  unfolding resolves_def using resolve_mem by (fastforce dest: list_all2_setD2)

lemma rows_by_id_from:
  "dget (foldl (\<lambda>d p. dset (a_id (snd p)) (snd p) d) d resolved) i = Some row \<Longrightarrow>
   (row \<in> snd ` set resolved \<and> a_id row = i) \<or> dget d i = Some row"
proof (induction resolved arbitrary: d)
  case Nil
  then show ?case by simp
next
  case (Cons p resolved)
  from Cons.IH [of "dset (a_id (snd p)) (snd p) d"] Cons.prems show ?case
    by (auto simp: update_conv' split: if_splits)
qed

lemma rows_by_id_get:
  "dget (rows_by_id resolved) i = Some row \<Longrightarrow> row \<in> snd ` set resolved \<and> a_id row = i"
  unfolding rows_by_id_def using rows_by_id_from [of "[]" resolved i row] by simp

lemma entries_grow_balance:
  assumes "entries l' = entries l @ rows"
  shows "book_balance l' a = book_balance l a + sum_signed (a_normal a) (filter (\<lambda>r. e_account r = a_id a) rows)"
  by (simp add: book_balance_def entries_of_def assms)

text \<open>What a passed floor check says of one account.\<close>

lemma check_floors_pass:
  assumes pass: "check_floors txn rows s = (Inr (), s')" and ok: "ledger_ok (led s)"
    and row: "dget rows (a_id a) = Some a" "a \<in> set (accounts (led s))" "a_minimum a = Some m"
    and less: "signed_delta (a_normal a) (a_id a) (j_entries txn) < 0"
  shows "m \<le> book_balance (led s) a + signed_delta (a_normal a) (a_id a) (j_entries txn)"
proof -
  from pass obtain d s1 where l: "lift_op (deltas_from [] rows (j_entries txn)) s = (Inr d, s1)"
    and each: "each_op (check_floor rows) d s1 = (Inr (), s')"
    unfolding check_floors_def by - (elim bind_opE, rule that)
  have d: "deltas_from [] rows (j_entries txn) = Inr d" and s1: "s1 = s"
    using l by (simp_all add: basic_op_iff del: op_run)
  note facts = deltas_from_Inr [OF d]
  have val: "dval d (a_id a) = signed_delta (a_normal a) (a_id a) (j_entries txn)"
    using facts row(1) by simp
  with less have "dget d (a_id a) = Some (dval d (a_id a))" by (auto simp: dval_def split: option.splits)
  then have "(a_id a, dval d (a_id a)) \<in> set d" by (rule map_of_SomeD)
  with each_op_Inr [OF each] keeps_check_floor
  have "check_floor rows (a_id a, dval d (a_id a)) s1 = (Inr (), s1)" by blast
  moreover have "List.find (\<lambda>b. a_id b = a_id a) (accounts (led s)) = Some a"
    using ok row(2) by (intro find_account) (simp_all add: ledger_ok_def)
  ultimately show ?thesis
    using less row val s1 cached_balance_exact [OF ok, of "a_id a"]
    by (auto simp: check_floor_def result_simps to_bigint_def book_balance_def simp del: op_run split: if_splits)
qed


lemma check_floors_rows:
  assumes "check_floors txn rows s = (Inr (), s')"
  shows "\<forall>e \<in> set (j_entries txn). dget rows (ent_account e) \<noteq> None"
proof -
  from assms obtain d s1 where "lift_op (deltas_from [] rows (j_entries txn)) s = (Inr d, s1)"
    unfolding check_floors_def by - (elim bind_opE, rule that)
  then have "deltas_from [] rows (j_entries txn) = Inr d" by (simp add: basic_op_iff del: op_run)
  from deltas_from_Inr [OF this] show ?thesis by simp
qed

lemma signed_delta_other: "acct \<notin> ent_account ` set es \<Longrightarrow> signed_delta side acct es = 0"
proof -
  assume "acct \<notin> ent_account ` set es"
  then have "filter (\<lambda>e. ent_account e = acct) es = []" by (auto simp: filter_empty_conv)
  then show ?thesis by (simp only: signed_delta_def list.map sum_list.Nil)
qed

lemma primary_account_mem: "j_entries txn \<noteq> [] \<Longrightarrow> primary_account txn \<in> ent_account ` set (j_entries txn)"
  by (auto simp: primary_account_def find_Some_iff split: option.splits)

text \<open>What a run of \<open>post_resolved\<close> leaves in the tables.\<close>

lemma posted_rows:
  assumes ok: "ledger_ok l" and t: "txn_insert now txn tenant mode l = (Inr row, l1)"
    and e: "entries_insert_many now txn None l1 = (Inr es, l')"
  shows "accounts l' = accounts l" "transactions l' = transactions l @ [row]" "entries l' = entries l @ es"
    "snapshots l' = snapshots l" "tenants l' = tenants l"
    "\<forall>r \<in> set es. e_txn r = j_id txn"
    "sum_signed side (filter (\<lambda>r. e_account r = acct) es) = signed_delta side acct (j_entries txn)"
    "rows_total d cur es = side_total d cur (j_entries txn)"
    "map e_account es = map ent_account (j_entries txn)"
    "map e_currency es = map (\<lambda>x. currency (ent_amount x)) (j_entries txn)"
proof -
  note ins = journal_inserted [OF ok t e] and t = txn_insert_Inr [OF t] and e = entries_insert_many_Inr [OF e]
  show "accounts l' = accounts l" "transactions l' = transactions l @ [row]" "entries l' = entries l @ es"
    "snapshots l' = snapshots l" "tenants l' = tenants l"
    using t(2) e(1) by simp_all
  show "\<forall>r \<in> set es. e_txn r = j_id txn" unfolding ins(3) by auto
  show "sum_signed side (filter (\<lambda>r. e_account r = acct) es) = signed_delta side acct (j_entries txn)"
    unfolding ins(3) by (rule signed_delta_rows) simp
  show "rows_total d cur es = side_total d cur (j_entries txn)"
    unfolding ins(3) by (rule rows_total_of) simp
  let ?z = "zip (j_entries txn) [entry_seq l ..< entry_seq l + length (j_entries txn)]"
  have "map (\<lambda>p. f (fst p)) ?z = map f (j_entries txn)" for f :: "entry \<Rightarrow> string"
    using map_map [of f fst ?z] by (simp add: comp_def)
  then show "map e_account es = map ent_account (j_entries txn)"
    "map e_currency es = map (\<lambda>x. currency (ent_amount x)) (j_entries txn)"
    unfolding ins(3) by (simp_all add: split_beta comp_def)
qed

section \<open>Properties\<close>

text \<open>
  C1. The books are right in every reachable state: whatever sequence of account creations, postings,
  reversals, snapshots and recorded declines has run, committed or failed, the drift query is empty,
  debit-side and credit-side accounts hold the same total in every currency, and reconciliation finds
  nothing (while the amounts fit the integer column together).
\<close>

theorem reachable_books_are_right:
  assumes "reachable (new_database ts g w) s"
  shows "global_drift (led s) = Inr [] \<and> class_total DEBIT cur (led s) = class_total CREDIT cur (led s)
     \<and> ((\<Sum>e \<leftarrow> entries (led s). e_amount e) < 2 ^ 63 \<longrightarrow> reconcile (led s) = Inr [])"
proof -
  have "db_ok s" by (rule reachable_ok [OF assms new_database_ok])
  then have l: "ledger_ok (led s)" "all_balanced (led s)" by (simp_all add: db_ok_def)
  then have "global_drift (led s) = Inr []"
    using currency_drift_zero by (simp add: global_drift_def)
  moreover have "class_total DEBIT cur (led s) = class_total CREDIT cur (led s)"
    using class_totals [OF l(1), of cur] currency_drift_zero [OF l(2), of cur] by simp
  ultimately show ?thesis using reconcile_empty [OF l(1)] by simp
qed

text \<open>
  C3. An accepted posting is recorded whole: one transaction row, its entries (in the posting's
  currency, debits and credits each equal to the amount), and exactly one unpublished outbox row that
  carries the resource the caller receives. Nothing else of the ledger or the outbox changes.
\<close>

theorem accepted_posting_is_recorded:
  assumes "db_ok s" "money_ok amount"
    "unit_of_work (post_transaction ctx kind accts amount effective descriptor md) s = (Inr out, s')"
  shows "\<exists>row es event key. out = transaction_json row (Some es)
     \<and> led s' = (led s)\<lparr>transactions := transactions (led s) @ [row], entries := entries (led s) @ es,
                        entry_seq := entry_seq (led s) + length es\<rparr>
     \<and> t_kind row = kind \<and> t_status row = POSTED \<and> t_tenant row = c_tenant ctx
     \<and> (\<forall>e \<in> set es. e_txn e = t_id row \<and> e_currency e = currency amount)
     \<and> rows_total DEBIT (currency amount) es = minor amount
     \<and> rows_total CREDIT (currency amount) es = minor amount
     \<and> outbox (evt s') = outbox (evt s) @
         [\<lparr>o_id = outbox_seq (evt s), o_event = event, o_tenant = c_tenant ctx, o_mode = c_mode ctx,
           o_key = key, o_type = ''transaction.created'',
           o_payload = JObj [(''id'', JStr event), (''type'', JStr ''transaction.created''),
                             (''data'', JObj [(''object'', out)])],
           o_created = wall s, o_published = None, o_attempts = 0\<rparr>]
     \<and> key \<in> e_account ` set es"
proof -
  let ?s0 = "s\<lparr>tx_now := wall s\<rparr>"
  from assms(3) have run: "post_transaction ctx kind accts amount effective descriptor md ?s0 = (Inr out, s')"
    by (simp add: unit_of_work_Inr_iff)
  have ok: "ledger_ok (led ?s0)" using assms(1) by (simp add: db_ok_def)
  from post_transaction_Inr [OF run] obtain resolved where
    p: "post_resolved ctx kind resolved amount (case effective of None \<Rightarrow> Aware (wall ?s0) | Some t \<Rightarrow> t)
       descriptor md ?s0 = (Inr out, s')" by blast
  obtain i txn s1 row l1 es event orow where
    b: "build_transaction i kind \<lparr>pr_amount = amount,
         pr_effective = (case effective of None \<Rightarrow> Aware (wall ?s0) | Some t \<Rightarrow> t),
         pr_accounts = map (\<lambda>(role, row). (role, a_id row)) resolved, pr_metadata = md\<rparr> = Inr txn"
    and t: "txn_insert (tx_now ?s0) txn (c_tenant ctx) (c_mode ctx) (led ?s0) = (Inr row, l1)"
    and e: "entries_insert_many (tx_now ?s0) txn None l1 = (Inr es, led s')"
    and out: "out = transaction_json row (Some es)"
    and o: "append_outbox (tenants (led s')) (tx_now ?s0) event (c_tenant ctx) (c_mode ctx) (primary_account txn)
       ''transaction.created''
       (JObj [(''id'', JStr event), (''type'', JStr ''transaction.created''), (''data'', JObj [(''object'', out)])])
       (evt ?s0) = (Inr orow, evt s')"
    by (rule post_resolved_Inr [OF p])
  note posted = posted_rows [OF ok t e] and ti = txn_insert_Inr [OF t] and ei = entries_insert_many_Inr [OF e]
    and oi = append_outbox_Inr [OF o]
  have j: "journal_ok txn" "j_kind txn = kind"
      "side_total DEBIT (currency amount) (j_entries txn) = minor amount"
      "side_total CREDIT (currency amount) (j_entries txn) = minor amount"
      "\<forall>e \<in> set (j_entries txn). currency (ent_amount e) = currency amount"
    using built_journal [OF _ b] assms(2) by simp_all
  have led': "led s' = (led s)\<lparr>transactions := transactions (led s) @ [row], entries := entries (led s) @ es,
                        entry_seq := entry_seq (led s) + length es\<rparr>"
    using ti(2) ei(1,2) by simp
  have accts: "e_account ` set es = ent_account ` set (j_entries txn)"
    using posted(9) by (metis list.set_map)
  have curs: "\<forall>e \<in> set es. e_currency e = currency amount"
    using posted(10) j(5) by (metis (no_types, lifting) image_eqI image_iff list.set_map)
  have key: "primary_account txn \<in> e_account ` set es"
    unfolding accts by (rule primary_account_mem) (use j(1) in \<open>auto simp: journal_ok_def\<close>)
  show ?thesis
    by (rule exI [of _ row], rule exI [of _ es], rule exI [of _ event], rule exI [of _ "primary_account txn"])
      (use out led' ti(1) j posted(6,8) curs oi key in simp)
qed


text \<open>
  C2. Floors hold: an accepted posting that lowers the balance of an account with a minimum leaves
  that balance at or above the minimum, whatever the kind of posting and however many of its legs
  touch the account.
\<close>

theorem floors_are_respected:
  assumes "db_ok s"
    "unit_of_work (post_transaction ctx kind accts amount effective descriptor md) s = (Inr out, s')"
    "a \<in> set (accounts (led s'))" "a_minimum a = Some least"
    "book_balance (led s') a < book_balance (led s) a"
  shows "least \<le> book_balance (led s') a"
proof -
  let ?s0 = "s\<lparr>tx_now := wall s\<rparr>"
  from assms(2) have run: "post_transaction ctx kind accts amount effective descriptor md ?s0 = (Inr out, s')"
    by (simp add: unit_of_work_Inr_iff)
  have ok: "ledger_ok (led ?s0)" using assms(1) by (simp add: db_ok_def)
  from post_transaction_Inr [OF run] obtain resolved where
    res: "resolves ctx (led ?s0) accts resolved" and
    p: "post_resolved ctx kind resolved amount (case effective of None \<Rightarrow> Aware (wall ?s0) | Some t \<Rightarrow> t)
       descriptor md ?s0 = (Inr out, s')" by blast
  obtain txn s1 row l1 es where s1: "led s1 = led ?s0"
    and fl: "check_floors txn (rows_by_id resolved) s1 = (Inr (), s1)"
    and t: "txn_insert (tx_now ?s0) txn (c_tenant ctx) (c_mode ctx) (led ?s0) = (Inr row, l1)"
    and e: "entries_insert_many (tx_now ?s0) txn None l1 = (Inr es, led s')"
    by (rule post_resolved_Inr [OF p])
  note posted = posted_rows [OF ok t e]
  have bal: "book_balance (led s') a
      = book_balance (led s) a + signed_delta (a_normal a) (a_id a) (j_entries txn)"
    using entries_grow_balance [of "led s'" "led s" es a] posted(3,7) by simp
  then have less: "signed_delta (a_normal a) (a_id a) (j_entries txn) < 0" using assms(5) by simp
  then have "a_id a \<in> ent_account ` set (j_entries txn)" using signed_delta_other by fastforce
  then obtain r where r: "dget (rows_by_id resolved) (a_id a) = Some r"
    using check_floors_rows [OF fl] by fastforce
  have a: "a \<in> set (accounts (led s))" using assms(3) posted(1) by simp
  have "r \<in> set (accounts (led s))" "a_id r = a_id a"
    using rows_by_id_get [OF r] resolves_mem [OF res] by auto
  then have "r = a" using a ok by (auto simp: ledger_ok_def distinct_map inj_on_def)
  with check_floors_pass [OF fl, of a least] r a ok s1 less assms(4) bal show ?thesis by simp
qed

section \<open>Screening\<close>

definition is_decline :: "exn \<Rightarrow> bool" where
  "is_decline e \<longleftrightarrow> (\<exists>d. e = AppExn (TransactionDeclined d))"

lemma is_decline_simps [simp]:
  "is_decline (AppExn (TransactionDeclined d))" "\<not> is_decline (DbExn x)" "\<not> is_decline (PyExn y)" "\<not> is_decline (LedgerExn z)"
  "\<not> is_decline (MoneyExn w)" "\<not> is_decline (AppExn AccountNotFound)" "\<not> is_decline (AppExn (InsufficientFunds a b c))"
  "\<not> is_decline (AppExn (CurrencyMismatchError t))"
  by (simp_all add: is_decline_def)

lemma simple_posting_spares: "simple_posting a b r = Inl e \<Longrightarrow> \<not> is_decline e"
  by (auto simp: simple_posting_def request_account_def mk_entry_def raise_if_def bind_r_Inl_iff
      split: option.splits if_splits)

lemma map_r_spares: "map_r f xs = Inl e \<Longrightarrow> (\<And>x e. f x = Inl e \<Longrightarrow> \<not> P e) \<Longrightarrow> \<not> P e"
  by (induction xs) (auto simp: bind_r_Inl_iff)

lemma split_leg_spares: "split_leg r part = Inl e \<Longrightarrow> \<not> is_decline e"
  by (auto simp: split_leg_def request_account_def mk_entry_def mk_money_def raise_if_def bind_r_Inl_iff Let_def
      split: option.splits if_splits prod.splits)

lemma build_split_spares: "build_split r = Inl e \<Longrightarrow> \<not> is_decline e"
  using map_r_spares [of "split_leg r" _ e is_decline] split_leg_spares
  by (auto simp: build_split_def request_account_def mk_entry_def raise_if_def bind_r_Inl_iff Let_def
      split: option.splits if_splits)

lemma build_transaction_spares:
  assumes "build_transaction i kind r = Inl e"
  shows "\<not> is_decline e"
proof (cases "dget REGISTRY kind")
  case None
  with assms show ?thesis by (auto simp: build_transaction_def)
next
  case (Some rule)
  then have "rule \<in> set posting_rules" using REGISTRY_lookup by blast
  then have "rule_build rule r = Inl e \<Longrightarrow> \<not> is_decline e"
    using simple_posting_spares build_split_spares
    by (auto simp: posting_rules_def rule_defs build_transfer_def request_account_def bind_r_Inl_iff raise_if_def
        split: option.splits if_splits)
  with assms Some show ?thesis
    by (auto simp: build_transaction_def bind_r_Inl_iff mk_journal_def raise_if_def split: if_splits)
qed

lemma deltas_spares: "deltas_from acc rows es = Inl e \<Longrightarrow> \<not> is_decline e"
  by (induction es arbitrary: acc) (auto split: option.splits)

lemma balance_spares: "account_balance a l = Inl e \<Longrightarrow> \<not> is_decline e"
  by (auto simp: account_balance_def to_bigint_def Let_def bind_r_Inl_iff split: option.splits if_splits)

lemma check_floors_spares: "spares is_decline (check_floors txn rows)"
  unfolding check_floors_def check_floor_def
  by (intro spares_intros) (auto dest: deltas_spares balance_spares)

lemma fresh_id_spares: "spares is_decline (fresh_id g)"
  by (auto simp: spares_def fresh_id_iff)

lemma inserts_spare:
  "spares is_decline (on_led (txn_insert now txn t m))" "spares is_decline (on_led (entries_insert_many now txn rc))"
  "spares is_decline (insert_descriptor ctx resolved txn kind amount md d)" "spares is_decline (emit ctx ty key payload)"
  unfolding txn_insert_def entries_insert_many_def entry_insert_def insert_descriptor_def insert_raw_def emit_def
    append_outbox_def on_led_def on_evt_def on_nrm_def
  by (intro spares_intros fresh_id_spares; auto simp: from_option_def split: option.splits)+

lemma resolve_role_run: "resolve_role ctx p s =
   (case account_resolve (snd p) (c_tenant ctx) (c_mode ctx) (led s) of
      None \<Rightarrow> (Inl (AppExn AccountNotFound), s) | Some row \<Rightarrow> (Inr (fst p, row), s))"
  by (simp add: resolve_role_def resolve_account_def from_option_def bind_op_def split: option.splits)

lemma resolve_run:
  assumes "map_op (resolve_role ctx) accts s = (q, s1)"
  shows "s1 = s \<and> (case q of Inl e \<Rightarrow> \<not> is_decline e \<and> (\<forall>rs. \<not> resolves ctx (led s) accts rs)
    | Inr resolved \<Rightarrow> resolves ctx (led s) accts resolved)"
  using assms
proof (induction accts arbitrary: q s1)
  case Nil
  then show ?case by (auto simp: resolves_def)
next
  case (Cons p ps)
  obtain q' s2 where rest: "map_op (resolve_role ctx) ps s = (q', s2)" by fastforce
  show ?case
  proof (cases "account_resolve (snd p) (c_tenant ctx) (c_mode ctx) (led s)")
    case None
    then show ?thesis using Cons.prems by (auto simp: resolve_role_run [of ctx p s] bind_op_def resolves_def list_all2_Cons1)
  next
    case (Some row)
    then have "bind_op (map_op (resolve_role ctx) ps) (\<lambda>ys. ret_op ((fst p, row) # ys)) s = (q, s1)"
      using Cons.prems by (simp add: bind_op_run resolve_role_run [of ctx p s])
    then show ?thesis using Cons.IH [OF rest] rest Some by (cases q') (auto simp: bind_op_def resolves_def list_all2_Cons1)
  qed
qed

lemma resolves_unique: "resolves ctx l accts rs \<Longrightarrow> resolves ctx l accts rs' \<Longrightarrow> rs' = rs"
  unfolding resolves_def
proof (induction accts arbitrary: rs rs')
  case (Cons p ps)
  then show ?case by (auto simp: list_all2_Cons1 prod_eq_iff)
qed simp

definition account_fits :: "money \<Rightarrow> account_row \<Rightarrow> bool" where
  "account_fits amount row \<longleftrightarrow> a_currency row = currency amount \<and> a_status row = OPEN"

lemma check_account_run:
  "check_account amount p s = (if account_fits amount (snd p) then Inr () else Inl (AppExn (CurrencyMismatchError (fst p))), s)"
  by (simp add: check_account_def guard_op_def bind_op_def account_fits_def)

lemma check_accounts_run:
  assumes "each_op (check_account amount) rs s = (q, s1)"
  shows "s1 = s \<and> (case q of Inl e \<Rightarrow> \<not> is_decline e \<and> \<not> (\<forall>p \<in> set rs. account_fits amount (snd p))
    | Inr _ \<Rightarrow> \<forall>p \<in> set rs. account_fits amount (snd p))"
  using assms
proof (induction rs arbitrary: q)
  case (Cons p ps)
  have "each_op (check_account amount) (p # ps) s = (if account_fits amount (snd p) then each_op (check_account amount) ps s
      else (Inl (AppExn (CurrencyMismatchError (fst p))), s))"
    by (simp add: bind_op_def check_account_run)
  note run = Cons.prems [unfolded this]
  show ?case
  proof (cases "account_fits amount (snd p)")
    case True
    with run have "each_op (check_account amount) ps s = (q, s1)" by simp
    from Cons.IH [OF this] True show ?thesis by (auto split: sum.splits)
  qed (use run in auto)
qed simp

lemma foldl_max_below: "foldl max x xs < b \<longleftrightarrow> x < b \<and> (\<forall>y \<in> set xs. y < b)" for x :: int
  by (induction xs arbitrary: x) auto

lemma max_or_zero_below: "0 < b \<Longrightarrow> max_or_zero xs < b \<longleftrightarrow> (\<forall>x \<in> set xs. x < b)"
  by (cases xs) (auto simp: max_or_zero_def foldl_max_below)

lemma max_or_zero_Max: "xs \<noteq> [] \<Longrightarrow> max_or_zero xs = Max (set xs)"
proof (cases xs)
  case (Cons x ys)
  have "fold max ys x = foldl max x ys" by (simp add: foldl_conv_fold max.commute cong: fold_cong)
  with Cons show ?thesis by (simp add: max_or_zero_def flip: Max.set_eq_fold)
qed simp

text \<open>The charges a screening looks at, and what it says of them.\<close>

definition hour_charges :: "string \<Rightarrow> int \<Rightarrow> ledger_tables \<Rightarrow> entry_row list" where
  "hour_charges acct tm l = filter (\<lambda>e. e_account e = acct \<and> e_direction e = CREDIT
     \<and> tm - 3600 * 1000000 < e_effective e \<and> e_effective e \<le> tm) (entries l)"

definition is_burst :: "entry_row list \<Rightarrow> bool" where
  "is_burst es \<longleftrightarrow> 12 < length es \<and> (\<forall>e \<in> set es. e_amount e < 500)"

definition burst_decline :: "string \<Rightarrow> int \<Rightarrow> entry_row list \<Rightarrow> decline" where
  "burst_decline acct amount es =
     \<lparr>dc_message = ''declined: '' @ r_description card_testing_block, dc_rule = ''card_testing_block'', dc_score = 95 / 100,
      dc_account = acct, dc_amount = amount, dc_txn_count = int (length es), dc_max_amount = Max (e_amount ` set es)\<rparr>"

lemma screen_run:
  "screen row amount tm s =
     (let es = hour_charges (a_id row) tm (led s) in
      if is_burst es then (Inl (AppExn (TransactionDeclined (burst_decline (a_id row) (minor amount) es))), s) else (Inr (), s))"
proof -
  have out: "outflows (a_id row) (tm - seconds 3600) tm (led s) = map e_amount (hour_charges (a_id row) tm (led s))"
    by (simp add: outflows_def hour_charges_def seconds_def)
  have "is_burst es \<Longrightarrow> max_or_zero (map e_amount es) = Max (e_amount ` set es)" for es
    using max_or_zero_Max [of "map e_amount es"] by (cases "es = []") (simp_all add: is_burst_def)
  then show ?thesis
    by (auto simp: screen_def BLOCKING_eq bind_op_def guard_op_def Let_def velocity_probe_def out is_burst_def burst_decline_def
        rule_evaluate_def card_testing_block_def probe_features_def decline_of_def max_or_zero_below)
qed

text \<open>What a posting is before it is screened: accounts that exist and fit, and entries built.\<close>

lemma post_resolved_screened:
  assumes run: "post_resolved ctx kind resolved amount tm descriptor md s = (r, s')"
  defines "built \<equiv> build_transaction (fst (transaction_id (idg s))) kind \<lparr>pr_amount = amount, pr_effective = tm,
      pr_accounts = map (\<lambda>(role, row). (role, a_id row)) resolved, pr_metadata = md\<rparr>"
  shows "case built of
      Inl e \<Rightarrow> r = Inl e \<and> \<not> is_decline e
    | Inr txn \<Rightarrow>
        (case funding_role resolved of
           Some row \<Rightarrow>
             (let es = hour_charges (a_id row) (instant tm) (led s) in
              if is_burst es then r = Inl (AppExn (TransactionDeclined (burst_decline (a_id row) (minor amount) es)))
              else \<forall>e. r = Inl e \<longrightarrow> \<not> is_decline e)
         | None \<Rightarrow> \<forall>e. r = Inl e \<longrightarrow> \<not> is_decline e)"
proof -
  let ?s = "s\<lparr>idg := snd (transaction_id (idg s))\<rparr>"
  have i: "fresh_id transaction_id s = (Inr (fst (transaction_id (idg s))), ?s)" by (simp add: fresh_id_def split_beta)
  show ?thesis
  proof (cases built)
    case (Inl e)
    then have "r = Inl e" using run i unfolding built_def post_resolved_def by (simp add: bind_op_run)
    with Inl show ?thesis using build_transaction_spares unfolding built_def by auto
  next
    case (Inr txn)
    define after where "after = bind_op (check_floors txn (rows_by_id resolved)) (\<lambda>_.
       bind_op (reads tx_now) (\<lambda>now.
       bind_op (on_led (txn_insert now txn (c_tenant ctx) (c_mode ctx))) (\<lambda>row.
       bind_op (on_led (entries_insert_many now txn None)) (\<lambda>es.
       bind_op (case descriptor of
                  None \<Rightarrow> ret_op ()
                | Some d \<Rightarrow> if d = [] then ret_op () else insert_descriptor ctx resolved txn kind amount md d) (\<lambda>_.
       let resource = transaction_json row (Some es) in
       bind_op (emit ctx ''transaction.created'' (primary_account txn) resource) (\<lambda>_.
       ret_op resource))))))"
    have after: "spares is_decline after"
      unfolding after_def by (intro spares_intros check_floors_spares inserts_spare)
    have rest: "bind_op (case funding_role resolved of None \<Rightarrow> ret_op () | Some row \<Rightarrow> screen row amount (instant tm))
        (\<lambda>_. after) ?s = (r, s')"
      using run i Inr unfolding built_def post_resolved_def after_def by (simp add: bind_op_run)
    have none: "\<forall>e. r = Inl e \<longrightarrow> \<not> is_decline e" if "after ?s = (r, s')" using that sparesD [OF after] by blast
    show ?thesis
    proof (cases "funding_role resolved")
      case None
      then show ?thesis using rest none Inr by (simp add: bind_op_run)
    next
      case (Some row)
      show ?thesis
      proof (cases "is_burst (hour_charges (a_id row) (instant tm) (led s))")
        case True
        then show ?thesis using rest Some Inr by (simp add: bind_op_def screen_run)
      next
        case False
        then have "after ?s = (r, s')" using rest Some by (simp add: bind_op_def screen_run)
        with False none Some Inr show ?thesis by simp
      qed
    qed
  qed
qed

lemma post_declines:
  assumes "resolves ctx (led s) accts rs" "\<forall>p \<in> set rs. account_fits amount (snd p)"
    and "build_transaction (fst (transaction_id (idg s))) kind \<lparr>pr_amount = amount, pr_effective = tm,
      pr_accounts = map (\<lambda>(role, row). (role, a_id row)) rs, pr_metadata = md\<rparr> = Inr txn"
    and "funding_role rs = Some row" "is_burst (hour_charges (a_id row) (instant tm) (led s))"
    and "tm = (case effective of None \<Rightarrow> Aware (wall s) | Some t \<Rightarrow> t)"
  shows "fst (post_transaction ctx kind accts amount effective descriptor md s)
    = Inl (AppExn (TransactionDeclined (burst_decline (a_id row) (minor amount) (hour_charges (a_id row) (instant tm) (led s)))))"
proof -
  obtain q s1 where res: "map_op (resolve_role ctx) accts s = (q, s1)" by fastforce
  have "s1 = s" "\<exists>rs'. q = Inr rs' \<and> resolves ctx (led s) accts rs'"
    using resolve_run [OF res] assms(1) by (cases q; auto)+
  then have q: "q = Inr rs" "s1 = s" using resolves_unique [OF assms(1)] by blast+
  obtain q2 s2 where chk: "each_op (check_account amount) rs s = (q2, s2)" by fastforce
  have q2: "q2 = Inr ()" "s2 = s" using check_accounts_run [OF chk] assms(2) by (cases q2; auto)+
  obtain r s' where p: "post_resolved ctx kind rs amount tm descriptor md s = (r, s')" by fastforce
  have "post_transaction ctx kind accts amount effective descriptor md s = (r, s')"
    using res q chk q2 p unfolding post_transaction_def assms(6) by (simp add: bind_op_run)
  then show ?thesis using post_resolved_screened [OF p] assms(3-5) by simp
qed

text \<open>
  C14. A posting is declined exactly in a card-testing burst. It is refused with \<open>TransactionDeclined\<close> if and only if its
  accounts exist, are open and in the amount's currency, its rule builds the entries, and the account in the role \<open>funding\<close>
  (\<open>source\<close> where there is none) has more than twelve CREDIT entries with a business time in the hour that ends with
  the posting's own (open at its start, closed at its end), every one of them below 500 minor units, whatever the currency;
  the refusal then carries the rule, the account, the amount and the count and the maximum of those entries. No posting
  is accepted while its funding account is in such a burst.
\<close>

theorem postings_decline_exactly_in_bursts:
  assumes "post_transaction ctx kind accts amount effective descriptor md s = (r, s')"
  shows "let tm = (case effective of None \<Rightarrow> Aware (wall s) | Some t \<Rightarrow> t);
      charges = (\<lambda>a. filter (\<lambda>e. e_account e = a \<and> e_direction e = CREDIT
         \<and> instant tm - 3600 * 1000000 < e_effective e \<and> e_effective e \<le> instant tm) (entries (led s)));
      bursting = (\<lambda>a. 12 < length (charges a) \<and> (\<forall>e \<in> set (charges a). e_amount e < 500));
      funding = (\<lambda>resolved. case dget resolved ''funding'' of Some row \<Rightarrow> Some row | None \<Rightarrow> dget resolved ''source'')
    in (\<forall>d. r = Inl (AppExn (TransactionDeclined d)) \<longleftrightarrow>
          (\<exists>resolved row txn. resolves ctx (led s) accts resolved
             \<and> (\<forall>p \<in> set resolved. a_currency (snd p) = currency amount \<and> a_status (snd p) = OPEN)
             \<and> build_transaction (fst (transaction_id (idg s))) kind
                 \<lparr>pr_amount = amount, pr_effective = tm, pr_accounts = map (\<lambda>(role, row). (role, a_id row)) resolved,
                  pr_metadata = md\<rparr> = Inr txn
             \<and> funding resolved = Some row \<and> bursting (a_id row)
             \<and> d = \<lparr>dc_message = ''declined: '' @ r_description card_testing_block, dc_rule = ''card_testing_block'',
                    dc_score = 95 / 100, dc_account = a_id row, dc_amount = minor amount,
                    dc_txn_count = int (length (charges (a_id row))),
                    dc_max_amount = Max (e_amount ` set (charges (a_id row)))\<rparr>))
       \<and> (\<forall>out. r = Inr out \<longrightarrow> (\<exists>resolved. resolves ctx (led s) accts resolved
            \<and> (\<forall>row. funding resolved = Some row \<longrightarrow> \<not> bursting (a_id row))))"
proof -
  define tm where "tm = (case effective of None \<Rightarrow> Aware (wall s) | Some t \<Rightarrow> t)"
  obtain q s1 where res: "map_op (resolve_role ctx) accts s = (q, s1)" by fastforce
  note rr = resolve_run [OF res]
  have fund: "(case dget rs ''funding'' of Some row \<Rightarrow> Some row | None \<Rightarrow> dget rs ''source'') = funding_role rs" for rs
    by (simp add: funding_role_def)
  note spec = fund is_burst_def [symmetric] hour_charges_def [symmetric] burst_decline_def [symmetric] account_fits_def [symmetric]
    tm_def [symmetric]
  have no: "\<not> is_decline e \<Longrightarrow> e \<noteq> AppExn (TransactionDeclined d)" for e d by auto
  show ?thesis
  proof (cases q)
    case (Inl e)
    then have "r = Inl e" using assms res unfolding post_transaction_def by (simp add: bind_op_run)
    with rr Inl no show ?thesis unfolding Let_def spec by auto
  next
    case (Inr rs)
    then have rs: "s1 = s" "resolves ctx (led s) accts rs" using rr by simp_all
    have only: "resolves ctx (led s) accts rs' \<longleftrightarrow> rs' = rs" for rs' using rs(2) resolves_unique by blast
    obtain q2 s2 where chk: "each_op (check_account amount) rs s = (q2, s2)" by fastforce
    note cc = check_accounts_run [OF chk]
    show ?thesis
    proof (cases q2)
      case (Inl e)
      then have "r = Inl e" using assms res rs chk \<open>q = Inr rs\<close> unfolding post_transaction_def by (simp add: bind_op_run)
      with cc Inl no show ?thesis unfolding Let_def spec only by auto
    next
      case (Inr u)
      have fits: "\<forall>p \<in> set rs. account_fits amount (snd p)" and "s2 = s" using cc Inr by simp_all
      then have p: "post_resolved ctx kind rs amount tm descriptor md s = (r, s')"
        using assms res rs chk \<open>q = Inr rs\<close> Inr unfolding post_transaction_def tm_def by (simp add: bind_op_run)
      show ?thesis
        using post_resolved_screened [OF p] fits no unfolding Let_def spec only
        by (auto split: sum.splits option.splits if_splits)
    qed
  qed
qed

section \<open>A state to run in\<close>

definition demo_clock :: idgen where
  "demo_clock = \<lparr>last_ms = 0, last_random = 0, ig_calls = 0, ig_env = (\<lambda>n. (n + 1, 0))\<rparr>"

definition demo_state :: st where
  "demo_state = (new_database [''t''] demo_clock 5000000)\<lparr>led :=
     \<lparr>tenants = [''t''], accounts = demo_accounts, transactions = [], entries = [], snapshots = [],
      entry_seq = 1\<rparr>\<rparr>"

definition demo_ctx :: tenant_ctx where
  "demo_ctx = \<lparr>c_tenant = ''t'', c_api_key = ''key'', c_mode = TEST\<rparr>"

definition demo_roles :: "(string, string) dict" where
  "demo_roles = [(''funding'', ''checking''), (''expense'', ''acct_2'')]"

definition demo_amount :: money where
  "demo_amount = \<lparr>minor = 450, currency = ''usd''\<rparr>"

lemma demo_state_ok: "db_ok demo_state"
  by (simp add: db_ok_def demo_state_def new_database_def demo_accounts_def ledger_ok_def
      all_balanced_def transaction_balanced_def outbox_ok_def normal_balance_def)

definition demo_resolved :: "(string, account_row) dict" where
  "demo_resolved = [(''funding'', demo_accounts ! 0), (''expense'', demo_accounts ! 1)]"

lemma demo_resolves: "map_op (resolve_role demo_ctx) demo_roles (demo_state\<lparr>tx_now := w\<rparr>)
    = (Inr demo_resolved, demo_state\<lparr>tx_now := w\<rparr>)"
  by (simp add: demo_roles_def demo_resolved_def resolve_role_def resolve_account_def account_resolve_def
      demo_ctx_def demo_state_def demo_accounts_def bind_op_def from_option_def)



definition demo_txn :: "string \<Rightarrow> journal" where
  "demo_txn i =
     \<lparr>j_id = i, j_kind = ''card_purchase'', j_effective = Aware 5000000,
      j_entries =
        [\<lparr>ent_account = ''acct_2'', ent_direction = DEBIT, ent_amount = demo_amount\<rparr>,
         \<lparr>ent_account = ''acct_1'', ent_direction = CREDIT, ent_amount = demo_amount\<rparr>],
      j_metadata = [], j_reverses = None\<rparr>"

lemma demo_built:
  "build_transaction i ''card_purchase''
     \<lparr>pr_amount = demo_amount, pr_effective = Aware 5000000,
      pr_accounts = map (\<lambda>(role, row). (role, a_id row)) demo_resolved, pr_metadata = []\<rparr> = Inr (demo_txn i)"
  by (simp add: build_transaction_def REGISTRY_eq posting_rules_def rule_defs simple_posting_def
      request_account_def demo_resolved_def demo_accounts_def mk_entry_def demo_amount_def is_positive_def
      mk_journal_def drift_of_def dbump_def entry_sign_def demo_txn_def)

text \<open>Charges of one unit within the hour, and the next.\<close>

definition charged_state :: "nat \<Rightarrow> st" where
  "charged_state n = demo_state\<lparr>led := (led demo_state)\<lparr>entries := map (\<lambda>i. charge i 100) [1 ..< n + 1]\<rparr>\<rparr>"

lemma charged_tables: "entries (led (charged_state n)) = map (\<lambda>i. charge i 100) [1 ..< n + 1]"
  "resolves demo_ctx (led (charged_state n)) demo_roles rs \<longleftrightarrow> rs = demo_resolved" "wall (charged_state n) = 5000000"
proof -
  have "resolves demo_ctx (led (charged_state n)) demo_roles demo_resolved"
    by (simp add: resolves_def demo_roles_def demo_resolved_def account_resolve_def demo_ctx_def charged_state_def
        demo_state_def demo_accounts_def)
  then show "resolves demo_ctx (led (charged_state n)) demo_roles rs \<longleftrightarrow> rs = demo_resolved"
    using resolves_unique by blast
qed (simp_all add: charged_state_def demo_state_def new_database_def)

theorem postings_decline_exactly_in_bursts_witness:
  "(\<exists>d. fst (post_transaction demo_ctx ''card_purchase'' demo_roles demo_amount None None [] (charged_state 13))
        = Inl (AppExn (TransactionDeclined d))
      \<and> dc_account d = ''acct_1'' \<and> dc_amount d = 450 \<and> dc_txn_count d = 13 \<and> dc_max_amount d = 100)
   \<and> (\<forall>d. fst (post_transaction demo_ctx ''card_purchase'' demo_roles demo_amount None None [] (charged_state 12))
        \<noteq> Inl (AppExn (TransactionDeclined d)))"
proof -
  let ?post = "post_transaction demo_ctx ''card_purchase'' demo_roles demo_amount None None []"
  have hour: "hour_charges ''acct_1'' 5000000 (led (charged_state n)) = map (\<lambda>i. charge i 100) [1 ..< n + 1]" for n
    by (simp add: hour_charges_def charged_tables charge_def filter_map comp_def)
  have role: "dget demo_resolved ''funding'' = Some (demo_accounts ! 0)" "a_id (demo_accounts ! 0) = ''acct_1''"
    by (simp_all add: demo_resolved_def demo_accounts_def)
  have amounts: "(\<forall>e \<in> set (map (\<lambda>i. charge i 100) [1 ..< n + 1]). e_amount e < 500)"
    "0 < n \<Longrightarrow> e_amount ` set (map (\<lambda>i. charge i 100) [1 ..< n + 1]) = {100}" for n
    by (auto simp: charge_def image_iff)
  have amt: "minor demo_amount = 450" by (simp add: demo_amount_def)
  have fits: "\<forall>p \<in> set demo_resolved. a_currency (snd p) = currency demo_amount \<and> a_status (snd p) = OPEN"
    by (simp add: demo_resolved_def demo_accounts_def demo_amount_def)
  have t: "fst (?post (charged_state n)) = Inl (AppExn (TransactionDeclined d)) \<longleftrightarrow>
      12 < n \<and> d = burst_decline ''acct_1'' 450 (map (\<lambda>i. charge i 100) [1 ..< n + 1])" for n d
    using postings_decline_exactly_in_bursts [of demo_ctx "''card_purchase''" demo_roles demo_amount None None "[]" "charged_state n",
        OF prod.collapse [symmetric]] fits amounts(1) [of n]
    unfolding Let_def option.case charged_tables(2,3) hour_charges_def [symmetric] burst_decline_def [symmetric]
    by (simp add: role demo_built hour amt del: set_map set_upt upt_Suc)
  show ?thesis using t [of 13] t [of 12] amounts(2) [of 13] by (simp add: burst_decline_def del: upt_Suc)
qed

lemma demo_minor: "minor demo_amount = 450" by (simp add: demo_amount_def)

lemma charged_declines:
  assumes "led s = led (charged_state 13)" "wall s = 5000000"
  shows "fst (post_transaction demo_ctx ''card_purchase'' demo_roles demo_amount None None [] s)
    = Inl (AppExn (TransactionDeclined (burst_decline ''acct_1'' 450 (map (\<lambda>i. charge i 100) [1 ..< 14]))))"
proof -
  have hour: "hour_charges ''acct_1'' 5000000 (led s) = map (\<lambda>i. charge i 100) [1 ..< 14]"
    by (simp add: hour_charges_def assms(1) charged_tables charge_def filter_map comp_def)
  have role: "funding_role demo_resolved = Some (demo_accounts ! 0)" "a_id (demo_accounts ! 0) = ''acct_1''"
    by (simp_all add: demo_resolved_def demo_accounts_def funding_role_def)
  have res: "resolves demo_ctx (led s) demo_roles demo_resolved" by (simp add: assms(1) charged_tables(2))
  have fits: "\<forall>p \<in> set demo_resolved. account_fits demo_amount (snd p)"
    by (simp add: demo_resolved_def demo_accounts_def demo_amount_def account_fits_def)
  have burst: "is_burst (hour_charges (a_id (demo_accounts ! 0)) (instant (Aware 5000000)) (led s))"
    unfolding role instant.simps hour by (auto simp: is_burst_def charge_def)
  have tm: "Aware 5000000 = (case None of None \<Rightarrow> Aware (wall s) | Some t \<Rightarrow> t)" by (simp add: assms(2))
  note d = post_declines [OF res fits demo_built role(1) burst tm]
  show ?thesis by (rule d [unfolded role instant.simps hour demo_minor])
qed

lemma demo_floors:
  "led s = led demo_state \<Longrightarrow> check_floors (demo_txn i) (rows_by_id demo_resolved) s = (Inr (), s)"
  by (simp add: check_floors_def demo_txn_def rows_by_id_def demo_resolved_def demo_accounts_def
      bind_op_def check_floor_def dbump_def demo_amount_def account_balance_def newest_snapshot_def
      demo_state_def to_bigint_def in_bigint_def guard_op_def Let_def)

lemma demo_post_resolved:
  "\<exists>out s'. post_resolved demo_ctx ''card_purchase'' demo_resolved demo_amount (Aware 5000000) None []
      (demo_state\<lparr>tx_now := 5000000\<rparr>) = (Inr out, s')"
proof -
  let ?s = "demo_state\<lparr>tx_now := 5000000\<rparr>"
  obtain i g where tid: "transaction_id (idg ?s) = (i, g)" by (cases "transaction_id (idg ?s)")
  obtain ev g' where eid: "event_id g = (ev, g')" by (cases "event_id g")
  let ?s1 = "?s\<lparr>idg := g\<rparr>"
  have scr: "screen (demo_accounts ! 0) demo_amount 5000000 ?s1 = (Inr (), ?s1)"
    by (simp add: screen_def BLOCKING_eq bind_op_def guard_op_def velocity_probe_def outflows_def
        demo_state_def rule_evaluate_def card_testing_block_def probe_features_def Let_def)
  have fl: "check_floors (demo_txn i) (rows_by_id demo_resolved) ?s1 = (Inr (), ?s1)"
    by (rule demo_floors) simp
  have role: "funding_role demo_resolved = Some (demo_accounts ! 0)"
    by (simp add: funding_role_def demo_resolved_def)
  obtain row l1 where t: "txn_insert 5000000 (demo_txn i) ''t'' TEST (led demo_state) = (Inr row, l1)"
    and l1: "l1 = (led demo_state)\<lparr>transactions := [row]\<rparr>" "t_id row = i"
    by (simp add: txn_insert_def bind_op_def guard_op_def Let_def demo_txn_def demo_state_def)
  obtain es l2 where e: "entries_insert_many 5000000 (demo_txn i) None l1 = (Inr es, l2)"
    and l2: "tenants l2 = [''t'']"
    by (simp add: entries_insert_many_def entry_insert_def bind_op_def guard_op_def Let_def
        demo_txn_def demo_state_def demo_accounts_def in_bigint_def l1 demo_amount_def)
  show ?thesis
    using tid eid scr fl role t e l1 l2
    by (simp add: post_resolved_def bind_op_def fresh_id_def demo_built on_led_def zoom_def demo_ctx_def
        emit_def on_evt_def append_outbox_def guard_op_def Let_def)
      (simp add: demo_state_def new_database_def)
qed

text \<open>A successful body always passes the deferred trigger: the domain only builds balanced journals.\<close>

lemma posting_balanced:
  assumes "ledger_ok (led s)" "all_balanced (led s)" "money_ok amount"
    "post_transaction ctx kind accts amount effective descriptor md s = (Inr out, s')"
  shows "all_balanced (led s')"
proof -
  from post_transaction_Inr [OF assms(4)] obtain resolved where
    p: "post_resolved ctx kind resolved amount (case effective of None \<Rightarrow> Aware (wall s) | Some t \<Rightarrow> t)
       descriptor md s = (Inr out, s')" by blast
  obtain i txn row l1 es where
    b: "build_transaction i kind \<lparr>pr_amount = amount,
         pr_effective = (case effective of None \<Rightarrow> Aware (wall s) | Some t \<Rightarrow> t),
         pr_accounts = map (\<lambda>(role, row). (role, a_id row)) resolved, pr_metadata = md\<rparr> = Inr txn"
    and t: "txn_insert (tx_now s) txn (c_tenant ctx) (c_mode ctx) (led s) = (Inr row, l1)"
    and e: "entries_insert_many (tx_now s) txn None l1 = (Inr es, led s')"
    by (rule post_resolved_Inr [OF p])
  have "journal_ok txn" using built_journal [OF _ b] assms(3) by simp
  then show ?thesis
    using journal_inserted_balanced [OF assms(1) t e _ assms(2)] by (simp add: journal_ok_def)
qed

lemma posting_passes_trigger:
  assumes "db_ok s" "money_ok amount"
    "post_transaction ctx kind accts amount effective descriptor md (s\<lparr>tx_now := wall s\<rparr>) = (Inr out, s')"
  shows "unit_of_work (post_transaction ctx kind accts amount effective descriptor md) s = (Inr out, s')"
proof -
  have "all_balanced (led s')" using posting_balanced [OF _ _ assms(2,3)] assms(1) by (simp add: db_ok_def)
  with assms(3) show ?thesis
    by (simp add: unit_of_work_Inr_iff deferred_checks_def all_balanced_def list_all_iff)
qed

lemma demo_post:
  "\<exists>out s'. unit_of_work (post_transaction demo_ctx ''card_purchase'' demo_roles demo_amount None None [])
     demo_state = (Inr out, s')"
proof -
  let ?s = "demo_state\<lparr>tx_now := 5000000\<rparr>"
  have w: "wall demo_state = 5000000" by (simp add: demo_state_def new_database_def)
  obtain out s' where p: "post_resolved demo_ctx ''card_purchase'' demo_resolved demo_amount (Aware 5000000) None [] ?s
      = (Inr out, s')" using demo_post_resolved by blast
  have chk: "each_op (check_account demo_amount) demo_resolved ?s = (Inr (), ?s)"
    by (simp add: demo_resolved_def check_account_def bind_op_def guard_op_def demo_accounts_def demo_amount_def)
  have "post_transaction demo_ctx ''card_purchase'' demo_roles demo_amount None None [] ?s = (Inr out, s')"
    using p chk demo_resolves [of 5000000] w by (simp add: post_transaction_def bind_op_def)
  with posting_passes_trigger [OF demo_state_ok] w show ?thesis
    by (auto simp: money_ok_currencies demo_amount_def)
qed

section \<open>Reversal\<close>

lemma entry_to_domain_Inr: "entry_to_domain r = Inr e \<Longrightarrow> entry_ok e \<and> ent_account e = e_account r
    \<and> ent_direction e = e_direction r \<and> minor (ent_amount e) = e_amount r"
proof -
  assume "entry_to_domain r = Inr e"
  then obtain m where m: "mk_money (e_amount r) (e_currency r) = Inr m"
    and e: "is_positive m" "e = \<lparr>ent_account = e_account r, ent_direction = e_direction r, ent_amount = m\<rparr>"
    by (auto simp: entry_to_domain_def result_simps)
  then show ?thesis using mk_money_ok [OF m] by (auto simp: entry_ok_def mk_money_Inr_iff)
qed

lemma domain_delta:
  "list_all2 (\<lambda>r e. entry_to_domain r = Inr e) rows es \<Longrightarrow>
   sum_signed side (filter (\<lambda>r. e_account r = acct) rows) = signed_delta side acct es"
proof (induction rule: list_all2_induct)
  case Nil
  then show ?case by (simp add: signed_delta_def)
next
  case (Cons r rows e es)
  then show ?case using entry_to_domain_Inr [of r e] by (simp add: signed_delta_def signed_minor_def)
qed

lemma flip_delta: "signed_delta side acct (map flip es) = - signed_delta side acct es"
proof (induction es)
  case Nil
  then show ?case by (simp add: signed_delta_def)
next
  case (Cons e es)
  then show ?case
    by (cases side; cases "ent_direction e") (auto simp: signed_delta_def)
qed

lemma reverse_transaction_Inr:
  assumes "reverse_transaction ctx i effective s = (Inr out, s')"
  obtains original es j reversal row l1 l2 new_rows event orow tm where
    "txn_get i (c_tenant ctx) (c_mode ctx) (led s) = Some original" "t_status original = POSTED"
    "list_all2 (\<lambda>r e. entry_to_domain r = Inr e) (entries_for_transaction i (led s)) es"
    "mk_journal (t_id original) (t_kind original) (Aware (t_effective original)) es (t_metadata original) None = Inr j"
    "reverse_journal j (fst (transaction_id (idg s))) (Some tm) = Inr reversal"
    "txn_insert (tx_now s) reversal (c_tenant ctx) (c_mode ctx) (led s) = (Inr row, l1)"
    "entries_insert_many (tx_now s) reversal None l1 = (Inr new_rows, l2)"
    "led s' = snd (mark_reversed i l2)"
    "out = transaction_json row (Some new_rows)"
    "append_outbox (tenants (led s')) (tx_now s) event (c_tenant ctx) (c_mode ctx) (primary_account reversal)
       ''transaction.reversed''
       (JObj [(''id'', JStr event), (''type'', JStr ''transaction.reversed''), (''data'', JObj [(''object'', out)])])
       (evt s) = (Inr orow, evt s')"
proof -
  from assms obtain original sa u sb rows sc es sd j se new_id sf tm sg reversal sh now si row sj new_rows sk v sl event sm where
    g: "reads_r (\<lambda>s. from_option (AppExn (NotFound (Some ''transaction''))) (txn_get i (c_tenant ctx) (c_mode ctx) (led s))) s = (Inr original, sa)"
    and st: "guard_op (t_status original = REVERSED) (AppExn AlreadyReversed) sa = (Inr u, sb)"
    and rows: "reads (\<lambda>s. entries_for_transaction i (led s)) sb = (Inr rows, sc)"
    and es: "lift_op (map_r entry_to_domain rows) sc = (Inr es, sd)"
    and j: "lift_op (mk_journal (t_id original) (t_kind original) (Aware (t_effective original)) es
                        (t_metadata original) None) sd = (Inr j, se)"
    and nid: "fresh_id transaction_id se = (Inr new_id, sf)"
    and tm: "reads (\<lambda>s. case effective of None \<Rightarrow> Aware (wall s) | Some t \<Rightarrow> t) sf = (Inr tm, sg)"
    and rv: "lift_op (reverse_journal j new_id (Some tm)) sg = (Inr reversal, sh)"
    and now: "reads tx_now sh = (Inr now, si)"
    and t: "on_led (txn_insert now reversal (c_tenant ctx) (c_mode ctx)) si = (Inr row, sj)"
    and e: "on_led (entries_insert_many now reversal None) sj = (Inr new_rows, sk)"
    and mk: "on_led (mark_reversed i) sk = (Inr v, sl)"
    and em: "emit ctx ''transaction.reversed'' (primary_account reversal) (transaction_json row (Some new_rows)) sl
        = (Inr event, sm)"
    and out: "ret_op (transaction_json row (Some new_rows)) sm = (Inr out, s')"
    unfolding reverse_transaction_def Let_def by - (elim bind_opE, rule that)
  note basic = basic_op_iff guard_op_iff fresh_id_iff
  have sa: "sa = s" "txn_get i (c_tenant ctx) (c_mode ctx) (led s) = Some original"
    using g by (auto simp: basic from_option_def simp del: op_run split: option.splits)
  have sb: "sb = s" "t_status original = POSTED"
    using st sa by (cases "t_status original"; auto simp: basic)+
  have sd: "sd = s" "list_all2 (\<lambda>r e. entry_to_domain r = Inr e) (entries_for_transaction i (led s)) es"
    using rows es sb by (auto simp: basic map_r_Inr_iff dest: sym simp del: op_run)
  have se: "se = s" "mk_journal (t_id original) (t_kind original) (Aware (t_effective original)) es (t_metadata original) None = Inr j"
    using j sd by (simp_all add: basic del: op_run)
  have sf: "sf = s\<lparr>idg := snd (transaction_id (idg s))\<rparr>" "new_id = fst (transaction_id (idg s))"
    using nid se by (simp_all add: basic)
  have si: "si = sf" "now = tx_now s" "reverse_journal j new_id (Some tm) = Inr reversal"
    using tm rv now sf by (simp_all add: basic del: op_run)
  obtain l1 where t': "txn_insert (tx_now s) reversal (c_tenant ctx) (c_mode ctx) (led s) = (Inr row, l1)"
    and sj: "sj = si\<lparr>led := l1\<rparr>" using t si sf by (auto simp: on_iff)
  obtain l2 where e': "entries_insert_many (tx_now s) reversal None l1 = (Inr new_rows, l2)"
    and sk: "sk = si\<lparr>led := l2\<rparr>" using e sj si by (auto simp: on_iff)
  have sl: "sl = si\<lparr>led := snd (mark_reversed i l2)\<rparr>" using mk sk by (auto simp: on_iff)
  note em = emit_Inr [OF em]
  have out': "out = transaction_json row (Some new_rows)" "s' = sm" using out by (simp_all add: basic del: op_run)
  from em(2) obtain orow where orow: "append_outbox (tenants (led sl)) (tx_now sl) event (c_tenant ctx) (c_mode ctx)
       (primary_account reversal) ''transaction.reversed''
       (JObj [(''id'', JStr event), (''type'', JStr ''transaction.reversed''),
         (''data'', JObj [(''object'', transaction_json row (Some new_rows))])]) (evt sl) = (Inr orow, evt sm)"
    by blast
  show thesis
  proof (rule that [OF sa(2) sb(2) sd(2) se(2) _ t' e' _ out'(1)])
    show "reverse_journal j (fst (transaction_id (idg s))) (Some tm) = Inr reversal" using si sf by simp
    show "led s' = snd (mark_reversed i l2)" using em(1) out' sl by simp
    show "append_outbox (tenants (led s')) (tx_now s) event (c_tenant ctx) (c_mode ctx) (primary_account reversal)
       ''transaction.reversed''
       (JObj [(''id'', JStr event), (''type'', JStr ''transaction.reversed''), (''data'', JObj [(''object'', out)])])
       (evt s) = (Inr orow, evt s')"
      using orow em(1) sl si sf out' by simp
  qed
qed



lemma txn_get_marked:
  "txn_get i tenant mode l = Some row \<Longrightarrow>
   txn_get i tenant mode (snd (mark_reversed i (l\<lparr>transactions := transactions l @ ts\<rparr>)))
     = Some (row\<lparr>t_status := REVERSED\<rparr>)"
proof -
  have "List.find P xs = Some row \<Longrightarrow> (\<forall>x. P (f x) = P x) \<Longrightarrow> List.find P (map f (xs @ ts)) = Some (f row)"
    for P xs and f :: "txn_row \<Rightarrow> txn_row"
    by (induction xs) (auto split: if_splits)
  note find = this
  let ?f = "\<lambda>t. if t_id t = i then t\<lparr>t_status := REVERSED\<rparr> else t"
  assume g: "txn_get i tenant mode l = Some row"
  then have "t_id row = i" by (auto simp: txn_get_def find_Some_iff)
  moreover have "List.find (\<lambda>t. t_id t = i \<and> t_tenant t = tenant \<and> t_mode t = mode) (map ?f (transactions l @ ts))
      = Some (?f row)"
    by (rule find) (use g in \<open>auto simp: txn_get_def\<close>)
  ultimately show ?thesis by (simp add: txn_get_def mark_reversed_def)
qed

lemma reverse_again:
  assumes "txn_get i (c_tenant ctx) (c_mode ctx) (led s) = Some row" "t_status row = REVERSED"
  shows "fst (unit_of_work (reverse_transaction ctx i effective) s) = Inl (AppExn AlreadyReversed)"
  using assms by (simp add: unit_of_work_def reverse_transaction_def bind_op_def from_option_def guard_op_def)

lemma reverse_journal_Inr:
  assumes "reverse_journal j i tm = Inr r" "\<forall>e \<in> set (j_entries j). entry_ok e"
  shows "j_entries r = map flip (j_entries j)" "j_reverses r = Some (j_id j)" "j_id r = i"
  using assms by (auto simp: reverse_journal_def map_reversed_ok result_simps mk_journal_Inr_iff)

text \<open>
  C9. A reversal undoes the posting and nothing else: every account's balance changes by exactly the
  opposite of what the transaction's entries contributed to it; the transaction is found marked as
  reversed, the correcting one points back at it; and reversing it again is refused.
\<close>

theorem reversal_undoes_the_posting:
  assumes "db_ok s" "unit_of_work (reverse_transaction ctx i effective) s = (Inr out, s')"
  shows "(\<forall>a. book_balance (led s') a = book_balance (led s) a
            - sum_signed (a_normal a) (filter (\<lambda>e. e_account e = a_id a) (entries_for_transaction i (led s))))
     \<and> (\<exists>row. txn_get i (c_tenant ctx) (c_mode ctx) (led s') = Some row \<and> t_status row = REVERSED)
     \<and> (\<exists>t \<in> set (transactions (led s')). t_reverses t = Some i)
     \<and> fst (unit_of_work (reverse_transaction ctx i again) s') = Inl (AppExn AlreadyReversed)"
proof -
  let ?s0 = "s\<lparr>tx_now := wall s\<rparr>"
  from assms(2) have run: "reverse_transaction ctx i effective ?s0 = (Inr out, s')"
    by (simp add: unit_of_work_Inr_iff)
  have ok: "ledger_ok (led ?s0)" using assms(1) by (simp add: db_ok_def)
  obtain original es j reversal row l1 l2 new_rows tm where
    g: "txn_get i (c_tenant ctx) (c_mode ctx) (led ?s0) = Some original"
    and es: "list_all2 (\<lambda>r e. entry_to_domain r = Inr e) (entries_for_transaction i (led ?s0)) es"
    and j: "mk_journal (t_id original) (t_kind original) (Aware (t_effective original)) es (t_metadata original) None = Inr j"
    and rv: "reverse_journal j (fst (transaction_id (idg ?s0))) (Some tm) = Inr reversal"
    and t: "txn_insert (tx_now ?s0) reversal (c_tenant ctx) (c_mode ctx) (led ?s0) = (Inr row, l1)"
    and e: "entries_insert_many (tx_now ?s0) reversal None l1 = (Inr new_rows, l2)"
    and l': "led s' = snd (mark_reversed i l2)"
    by (rule reverse_transaction_Inr [OF run])
  have id: "t_id original = i" using g by (auto simp: txn_get_def find_Some_iff)
  have j': "j_entries j = es" "j_id j = i" using j id by (auto simp: mk_journal_Inr_iff)
  have "\<forall>e \<in> set es. entry_ok e" using es entry_to_domain_Inr by (blast dest: list_all2_setD2)
  then have rv': "j_entries reversal = map flip es" "j_reverses reversal = Some i"
    using reverse_journal_Inr [OF rv] j' by simp_all
  note posted = posted_rows [OF ok t e]
  have marked: "entries (led s') = entries l2" by (simp add: l' mark_reversed_def)
  have "book_balance (led s') a = book_balance (led s) a
      - sum_signed (a_normal a) (filter (\<lambda>e. e_account e = a_id a) (entries_for_transaction i (led s)))" for a
    using entries_grow_balance [of "led s'" "led s" new_rows a] marked posted(3)
      posted(7) [of "a_normal a" "a_id a"] rv'(1) flip_delta [of "a_normal a" "a_id a" es]
      domain_delta [OF es, of "a_normal a" "a_id a"] by simp
  moreover have got: "txn_get i (c_tenant ctx) (c_mode ctx) (led s') = Some (original\<lparr>t_status := REVERSED\<rparr>)"
  proof -
    have "txn_get i (c_tenant ctx) (c_mode ctx) (led s')
        = txn_get i (c_tenant ctx) (c_mode ctx) (snd (mark_reversed i ((led ?s0)\<lparr>transactions := transactions (led ?s0) @ [row]\<rparr>)))"
      using posted(2) by (simp add: l' mark_reversed_def txn_get_def)
    with txn_get_marked [OF g] show ?thesis by simp
  qed
  moreover have "\<exists>t \<in> set (transactions (led s')). t_reverses t = Some i"
    using posted(2) txn_insert_Inr(1) [OF t] rv'(2) by (auto simp: l' mark_reversed_def)
  ultimately show ?thesis using reverse_again [OF got, of again] by simp
qed



lemma emit_runs:
  assumes "c_tenant ctx \<in> set (tenants (led s))" "fst (event_id (idg s)) \<notin> o_event ` set (outbox (evt s))"
  shows "\<exists>s'. emit ctx ty key payload s = (Inr (fst (event_id (idg s))), s') \<and> led s' = led s"
  using assms
  by (auto simp: emit_def bind_op_def fresh_id_def split_beta on_evt_def zoom_def append_outbox_def guard_op_def
      Let_def image_iff)

section \<open>Whatever is posted can be reversed\<close>

lemma txn_insert_runs:
  assumes "j_id j \<notin> t_id ` set (transactions l)" "tenant \<in> set (tenants l)"
    "case j_reverses j of None \<Rightarrow> True
       | Some r \<Rightarrow> r \<in> t_id ` set (transactions l) \<and> (\<forall>t \<in> set (transactions l). t_reverses t \<noteq> Some r)"
  shows "\<exists>row. txn_insert now j tenant mode l = (Inr row, l\<lparr>transactions := transactions l @ [row]\<rparr>) \<and> t_id row = j_id j"
  using assms by (auto simp: txn_insert_def bind_op_def guard_op_def Let_def image_iff split: option.splits)

lemma entries_insert_runs:
  "\<lbrakk>j_id j \<in> t_id ` set (transactions l);
    \<forall>e \<in> set es. 0 < minor (ent_amount e) \<and> in_bigint (minor (ent_amount e)) \<and> ent_account e \<in> a_id ` set (accounts l)\<rbrakk> \<Longrightarrow>
   \<exists>rows l'. map_op (entry_insert now j recorded) es l = (Inr rows, l') \<and> tenants l' = tenants l"
proof (induction es arbitrary: l)
  case Nil
  then show ?case by simp
next
  case (Cons e es)
  obtain row where one: "entry_insert now j recorded e l
      = (Inr row, l\<lparr>entry_seq := entry_seq l + 1, entries := entries l @ [row]\<rparr>)"
    using Cons.prems by (auto simp: entry_insert_def bind_op_def guard_op_def Let_def)
  from Cons.IH [of "l\<lparr>entry_seq := entry_seq l + 1, entries := entries l @ [row]\<rparr>"] Cons.prems
  obtain rows l' where "map_op (entry_insert now j recorded) es
      (l\<lparr>entry_seq := entry_seq l + 1, entries := entries l @ [row]\<rparr>) = (Inr rows, l')" "tenants l' = tenants l"
    by auto
  with one show ?case by (simp add: bind_op_def)
qed

definition domain_entry :: "entry_row \<Rightarrow> entry" where
  "domain_entry r = \<lparr>ent_account = e_account r, ent_direction = e_direction r,
     ent_amount = \<lparr>minor = e_amount r, currency = e_currency r\<rparr>\<rparr>"

lemma entry_to_domain_row:
  "money_ok \<lparr>minor = e_amount r, currency = e_currency r\<rparr> \<Longrightarrow> 0 < e_amount r \<Longrightarrow>
   entry_to_domain r = Inr (domain_entry r)"
  using mk_money_self [of "\<lparr>minor = e_amount r, currency = e_currency r\<rparr>"]
  by (simp add: entry_to_domain_def domain_entry_def mk_entry_def is_positive_def)

lemma domain_totals: "side_total d cur (map domain_entry rows) = rows_total d cur rows"
  by (induction rows) (simp_all add: rows_total_def domain_entry_def)

lemma reversal_runs:
  assumes "db_ok s" "txn_get i (c_tenant ctx) (c_mode ctx) (led s) = Some original"
    "t_status original = POSTED" "c_tenant ctx \<in> set (tenants (led s))"
    "\<forall>t \<in> set (transactions (led s)). t_reverses t \<noteq> Some i"
    "2 \<le> length (entries_for_transaction i (led s))"
    "\<forall>r \<in> set (entries_for_transaction i (led s)).
       in_bigint (e_amount r) \<and> money_ok \<lparr>minor = e_amount r, currency = e_currency r\<rparr>"
    "fst (transaction_id (idg s)) \<notin> t_id ` set (transactions (led s))"
    "fst (event_id (snd (transaction_id (idg s)))) \<notin> o_event ` set (outbox (evt s))"
  shows "\<exists>out s'. unit_of_work (reverse_transaction ctx i None) s = (Inr out, s')"
proof -
  let ?s0 = "s\<lparr>tx_now := wall s\<rparr>" and ?rows = "entries_for_transaction i (led s)"
  let ?new = "fst (transaction_id (idg s))"
  define es where "es = map domain_entry ?rows"
  have ok: "ledger_ok (led s)" "all_balanced (led s)" using assms(1) by (simp_all add: db_ok_def)
  have id: "t_id original = i" "original \<in> set (transactions (led s))"
    using assms(2) by (auto simp: txn_get_def find_Some_iff)
  have rows: "?rows = filter (\<lambda>e. e_txn e = i) (entries (led s))" by (rule entries_for_sorted [OF ok(1)])
  have each: "\<forall>r \<in> set ?rows. 0 < e_amount r \<and> e_account r \<in> a_id ` set (accounts (led s))"
    using ok(1) by (auto simp: rows ledger_ok_def entry_row_ok_def)
  have dom: "map_r entry_to_domain ?rows = Inr es"
    unfolding es_def by (rule map_r_all_Inr) (use each assms(7) entry_to_domain_row in blast)
  have eok: "\<forall>e \<in> set es. entry_ok e"
    using each assms(7) by (auto simp: es_def entry_ok_def domain_entry_def is_positive_def)
  have bal: "balanced es"
    using ok(2) unfolding es_def balanced_def domain_totals rows
    by (simp add: all_balanced_def transaction_balanced_iff)
  have len: "2 \<le> length es" using assms(6) by (simp add: es_def)
  let ?j = "\<lparr>j_id = i, j_kind = t_kind original, j_effective = Aware (t_effective original),
     j_entries = es, j_metadata = t_metadata original, j_reverses = None\<rparr>"
  let ?r = "\<lparr>j_id = ?new, j_kind = t_kind original @ ''.reversal'', j_effective = Aware (wall s),
     j_entries = map flip es, j_metadata = t_metadata original, j_reverses = Some i\<rparr>"
  have j: "mk_journal i (t_kind original) (Aware (t_effective original)) es (t_metadata original) None = Inr ?j"
    using len bal by (simp add: mk_journal_eq)
  have r: "reverse_journal ?j ?new (Some (Aware (wall s))) = Inr ?r"
    using len bal map_reversed_ok [OF eok]
    by (simp add: reverse_journal_def mk_journal_eq balanced_flip)
  obtain row where t: "txn_insert (wall s) ?r (c_tenant ctx) (c_mode ctx) (led s)
      = (Inr row, (led s)\<lparr>transactions := transactions (led s) @ [row]\<rparr>)" and row: "t_id row = ?new"
    using txn_insert_runs [of ?r "led s" "c_tenant ctx" "wall s" "c_mode ctx"] assms(4,5,8) id by auto
  let ?l1 = "(led s)\<lparr>transactions := transactions (led s) @ [row]\<rparr>"
  obtain new_rows l2 where e: "entries_insert_many (wall s) ?r None ?l1 = (Inr new_rows, l2)"
    and ten: "tenants l2 = tenants (led s)"
    using entries_insert_runs [of ?r ?l1 "map flip es" "wall s" None] each assms(7) row
    by (auto simp: es_def entries_insert_many_def domain_entry_def)
  let ?l3 = "snd (mark_reversed i l2)" and ?g = "snd (transaction_id (idg s))"
  let ?s1 = "?s0\<lparr>idg := ?g\<rparr>" and ?s2 = "?s0\<lparr>idg := ?g, led := ?l1\<rparr>" and ?s3 = "?s0\<lparr>idg := ?g, led := l2\<rparr>"
  let ?s4 = "?s0\<lparr>idg := ?g, led := ?l3\<rparr>"
  have ten3: "tenants ?l3 = tenants (led s)" using ten by (simp add: mark_reversed_def)
  obtain s' where em: "emit ctx ''transaction.reversed'' (primary_account ?r) (transaction_json row (Some new_rows)) ?s4
      = (Inr (fst (event_id ?g)), s')" and l': "led s' = ?l3"
    using emit_runs [of ctx ?s4 "''transaction.reversed''" "primary_account ?r" "transaction_json row (Some new_rows)"]
      assms(4,9) ten3 by auto
  have s1: "reads_r (\<lambda>s. from_option (AppExn (NotFound (Some ''transaction''))) (txn_get i (c_tenant ctx) (c_mode ctx) (led s))) ?s0 = (Inr original, ?s0)"
    using assms(2) by (simp add: from_option_def)
  have s2: "guard_op (t_status original = REVERSED) (AppExn AlreadyReversed) ?s0 = (Inr (), ?s0)"
    using assms(3) by (simp add: guard_op_def)
  have s3: "reads (\<lambda>s. entries_for_transaction i (led s)) ?s0 = (Inr ?rows, ?s0)" by simp
  have s4: "lift_op (map_r entry_to_domain ?rows) ?s0 = (Inr es, ?s0)" using dom by simp
  have s5: "lift_op (mk_journal (t_id original) (t_kind original) (Aware (t_effective original)) es
      (t_metadata original) None) ?s0 = (Inr ?j, ?s0)" using j id by simp
  have s6: "fresh_id transaction_id ?s0 = (Inr ?new, ?s1)" by (simp add: fresh_id_def split_beta)
  have s7: "reads (\<lambda>s. case None of None \<Rightarrow> Aware (wall s) | Some t \<Rightarrow> t) ?s1 = (Inr (Aware (wall s)), ?s1)" by simp
  have s8: "lift_op (reverse_journal ?j ?new (Some (Aware (wall s)))) ?s1 = (Inr ?r, ?s1)" using r by simp
  have s9: "reads tx_now ?s1 = (Inr (wall s), ?s1)" by simp
  have s10: "on_led (txn_insert (wall s) ?r (c_tenant ctx) (c_mode ctx)) ?s1 = (Inr row, ?s2)"
    using t by (simp add: on_led_def zoom_def)
  have s11: "on_led (entries_insert_many (wall s) ?r None) ?s2 = (Inr new_rows, ?s3)"
    using e by (simp add: on_led_def zoom_def)
  have s12: "on_led (mark_reversed i) ?s3 = (Inr (), ?s4)"
    by (simp add: on_led_def zoom_def mark_reversed_def)
  have "reverse_transaction ctx i None ?s0 = (Inr (transaction_json row (Some new_rows)), s')"
    unfolding reverse_transaction_def Let_def
    by (simp only: bind_op_run(1) s1 s2 s3 s4 s5 s6 s7 s8 s9 s10 s11 s12 em op_run(1))
  note run = this
  have "all_balanced l2"
    by (rule journal_inserted_balanced [OF ok(1) t e _ ok(2)])
      (use bal in \<open>simp add: balanced_flip\<close>)
  then have "all_balanced (led s')" by (simp add: l' mark_reversed_def all_balanced_def transaction_balanced_def)
  with run show ?thesis
    by (auto simp: unit_of_work_Inr_iff deferred_checks_def all_balanced_def list_all_iff)
qed

text \<open>
  Every posted transaction of the tenant that has not been reversed can be reversed, whatever it
  is. In particular a transaction that is itself a reversal can be: the domain's refusal to reverse a
  reversal is never met, because the service rebuilds the journal without saying what it reverses.
\<close>

theorem posted_can_be_reversed:
  assumes "db_ok s" "txn_get i (c_tenant ctx) (c_mode ctx) (led s) = Some original"
    "t_status original = POSTED" "c_tenant ctx \<in> set (tenants (led s))"
    "\<forall>t \<in> set (transactions (led s)). t_reverses t \<noteq> Some i"
    "2 \<le> length (entries_for_transaction i (led s))"
    "\<forall>r \<in> set (entries_for_transaction i (led s)).
       in_bigint (e_amount r) \<and> money_ok \<lparr>minor = e_amount r, currency = e_currency r\<rparr>"
    "fst (transaction_id (idg s)) \<notin> t_id ` set (transactions (led s))"
    "fst (event_id (snd (transaction_id (idg s)))) \<notin> o_event ` set (outbox (evt s))"
  shows "\<exists>out s'. unit_of_work (reverse_transaction ctx i None) s = (Inr out, s')"
  by (rule reversal_runs [OF assms])


section \<open>Witnesses\<close>

theorem accepted_posting_is_recorded_witness:
  "\<exists>out s' row es. unit_of_work (post_transaction demo_ctx ''card_purchase'' demo_roles demo_amount None None [])
       demo_state = (Inr out, s')
     \<and> transactions (led s') = [row] \<and> entries (led s') = es \<and> rows_total DEBIT ''usd'' es = 450
     \<and> map o_type (outbox (evt s')) = [''transaction.created'']"
proof -
  obtain out s' where run: "unit_of_work (post_transaction demo_ctx ''card_purchase'' demo_roles demo_amount None None [])
      demo_state = (Inr out, s')" using demo_post by blast
  have m: "money_ok demo_amount" by (simp add: money_ok_currencies demo_amount_def)
  obtain row es event key where r:
    "led s' = (led demo_state)\<lparr>transactions := transactions (led demo_state) @ [row],
        entries := entries (led demo_state) @ es, entry_seq := entry_seq (led demo_state) + length es\<rparr>"
    "rows_total DEBIT (currency demo_amount) es = minor demo_amount"
    "map o_type (outbox (evt s')) = map o_type (outbox (evt demo_state)) @ [''transaction.created'']"
    using accepted_posting_is_recorded [OF demo_state_ok m run] by auto
  show ?thesis
    using run r by (auto simp: demo_state_def new_database_def demo_amount_def)
qed

theorem floors_are_respected_witness:
  "\<exists>out s'. unit_of_work (post_transaction demo_ctx ''card_purchase'' demo_roles demo_amount None None [])
       demo_state = (Inr out, s')
     \<and> book_balance (led s') (demo_accounts ! 0) < book_balance (led demo_state) (demo_accounts ! 0)
     \<and> - 1000 \<le> book_balance (led s') (demo_accounts ! 0)"
proof -
  let ?a = "demo_accounts ! 0" and ?s = "demo_state\<lparr>tx_now := 5000000\<rparr>"
  have w: "wall demo_state = 5000000" by (simp add: demo_state_def new_database_def)
  obtain out s' where run: "unit_of_work (post_transaction demo_ctx ''card_purchase'' demo_roles demo_amount None None [])
      demo_state = (Inr out, s')" using demo_post by blast
  then have body: "post_transaction demo_ctx ''card_purchase'' demo_roles demo_amount None None [] ?s = (Inr out, s')"
    using w by (simp add: unit_of_work_Inr_iff)
  obtain resolved where res: "resolves demo_ctx (led ?s) demo_roles resolved"
    and p: "post_resolved demo_ctx ''card_purchase'' resolved demo_amount (Aware 5000000) None [] ?s = (Inr out, s')"
    using post_transaction_Inr [OF body] w by auto
  have "resolved = demo_resolved"
    using res resolved_accounts [OF demo_resolves, of 5000000]
    by (auto simp: resolves_def demo_roles_def list_all2_Cons1 prod_eq_iff)
  with p have p: "post_resolved demo_ctx ''card_purchase'' demo_resolved demo_amount (Aware 5000000) None [] ?s = (Inr out, s')"
    by simp
  obtain i txn row l1 es where
    b: "build_transaction i ''card_purchase'' \<lparr>pr_amount = demo_amount, pr_effective = Aware 5000000,
         pr_accounts = map (\<lambda>(role, row). (role, a_id row)) demo_resolved, pr_metadata = []\<rparr> = Inr txn"
    and t: "txn_insert (tx_now ?s) txn (c_tenant demo_ctx) (c_mode demo_ctx) (led ?s) = (Inr row, l1)"
    and e: "entries_insert_many (tx_now ?s) txn None l1 = (Inr es, led s')"
    by (rule post_resolved_Inr [OF p])
  have txn: "txn = demo_txn i" using b demo_built by simp
  have ok: "ledger_ok (led ?s)" using demo_state_ok by (simp add: db_ok_def)
  note posted = posted_rows [OF ok t e]
  have "book_balance (led s') ?a = book_balance (led demo_state) ?a - 450"
    using entries_grow_balance [of "led s'" "led demo_state" es ?a] posted(3) posted(7) [of "a_normal ?a" "a_id ?a"]
    by (simp add: txn demo_txn_def signed_delta_def demo_accounts_def demo_amount_def)
  moreover have "?a \<in> set (accounts (led s'))" "a_minimum ?a = Some (- 1000)"
    using posted(1) by (simp_all add: demo_state_def demo_accounts_def)
  ultimately show ?thesis using floors_are_respected [OF demo_state_ok run, of ?a "- 1000"] run by auto
qed

theorem reachable_books_are_right_witness:
  "\<exists>s. reachable (new_database [''t''] demo_clock 0) s \<and> length (accounts (led s)) = 1
     \<and> global_drift (led s) = Inr [] \<and> reconcile (led s) = Inr []"
proof -
  let ?s0 = "new_database [''t''] demo_clock 0"
  obtain out s where run: "unit_of_work (create_account demo_ctx ''Assets:Cash'' ''asset'' ''USD'' None None []) ?s0 = (Inr out, s)"
    and s: "length (accounts (led s)) = 1" "entries (led s) = []"
    by (simp add: unit_of_work_def create_account_def bind_op_def fresh_id_def split_beta account_type_of_def
        from_option_def on_led_def zoom_def account_create_def guard_op_def Let_def new_database_def demo_ctx_def
        deferred_checks_def)
  have "reachable ?s0 s" by (rule reachable.next_step [OF reachable.start ledger_step.creates [OF run]])
  with reachable_books_are_right [OF this] s show ?thesis by auto
qed

text \<open>A purchase that has been reversed: the reversing transaction is posted like any other.\<close>

definition reversed_tables :: ledger_tables where
  "reversed_tables = demo_tables\<lparr>
     transactions :=
       [\<lparr>t_id = ''txn_1'', t_tenant = ''t'', t_mode = TEST, t_kind = ''card_purchase'',
         t_status = REVERSED, t_effective = 5, t_recorded = 7, t_reverses = None, t_metadata = []\<rparr>,
        \<lparr>t_id = ''txn_2'', t_tenant = ''t'', t_mode = TEST, t_kind = ''card_purchase.reversal'',
         t_status = POSTED, t_effective = 9, t_recorded = 9, t_reverses = Some ''txn_1'', t_metadata = []\<rparr>],
     entries := entries demo_tables @
       [\<lparr>e_id = 3, e_txn = ''txn_2'', e_account = ''acct_2'', e_direction = CREDIT, e_amount = 450,
         e_currency = ''usd'', e_effective = 9, e_recorded = 9\<rparr>,
        \<lparr>e_id = 4, e_txn = ''txn_2'', e_account = ''acct_1'', e_direction = DEBIT, e_amount = 450,
         e_currency = ''usd'', e_effective = 9, e_recorded = 9\<rparr>],
     entry_seq := 5\<rparr>"

definition reversed_state :: st where
  "reversed_state = demo_state\<lparr>led := reversed_tables\<rparr>"

lemma reversed_state_ok: "db_ok reversed_state"
proof -
  have "ledger_ok reversed_tables"
    by (simp add: ledger_ok_def reversed_tables_def demo_tables_def demo_accounts_def entry_row_ok_def
        snapshot_ok_def entries_of_def signed_minor_def normal_balance_def)
  moreover have "transaction_balanced reversed_tables i" for i
    by (cases "i = ''txn_1''"; cases "i = ''txn_2''")
      (simp_all add: transaction_balanced_def reversed_tables_def demo_tables_def rows_total_def)
  ultimately show ?thesis
    by (simp add: db_ok_def all_balanced_def reversed_state_def demo_state_def new_database_def outbox_ok_def)
qed

lemma transaction_id_length: "length (fst (transaction_id g)) = 30"
  by (simp add: transaction_id_def new_id_def ulid_def Let_def)

lemma reversed_state_entries:
  "entries_for_transaction ''txn_2'' (led reversed_state) = drop 2 (entries reversed_tables)"
  by (simp add: entries_for_transaction_def reversed_state_def reversed_tables_def demo_tables_def)

lemma reversed_state_facts:
  "txn_get ''txn_2'' (c_tenant demo_ctx) (c_mode demo_ctx) (led reversed_state) = Some (transactions reversed_tables ! 1)"
  "t_status (transactions reversed_tables ! 1) = POSTED"
  "t_reverses (transactions reversed_tables ! 1) = Some ''txn_1''"
  "c_tenant demo_ctx \<in> set (tenants (led reversed_state))"
  "\<forall>t \<in> set (transactions (led reversed_state)). t_reverses t \<noteq> Some ''txn_2''"
  "2 \<le> length (entries_for_transaction ''txn_2'' (led reversed_state))"
  "\<forall>r \<in> set (entries_for_transaction ''txn_2'' (led reversed_state)).
       in_bigint (e_amount r) \<and> money_ok \<lparr>minor = e_amount r, currency = e_currency r\<rparr>"
  "fst (event_id (snd (transaction_id (idg reversed_state)))) \<notin> o_event ` set (outbox (evt reversed_state))"
  unfolding reversed_state_entries
  by (simp_all add: txn_get_def demo_ctx_def reversed_state_def reversed_tables_def demo_tables_def
      in_bigint_def money_ok_currencies demo_state_def new_database_def)

lemma reversed_state_fresh:
  "fst (transaction_id (idg reversed_state)) \<notin> t_id ` set (transactions (led reversed_state))"
proof
  assume "fst (transaction_id (idg reversed_state)) \<in> t_id ` set (transactions (led reversed_state))"
  then have "fst (transaction_id (idg reversed_state)) \<in> {''txn_1'', ''txn_2''}"
    by (simp add: reversed_state_def reversed_tables_def)
  with transaction_id_length [of "idg reversed_state"] show False by auto
qed

theorem posted_can_be_reversed_witness:
  "t_reverses (transactions reversed_tables ! 1) = Some ''txn_1''
   \<and> (\<exists>out s'. unit_of_work (reverse_transaction demo_ctx ''txn_2'' None) reversed_state = (Inr out, s'))"
  using posted_can_be_reversed [OF reversed_state_ok reversed_state_facts(1,2,4-7) reversed_state_fresh
      reversed_state_facts(8)] reversed_state_facts(3) by simp

theorem reversal_undoes_the_posting_witness:
  "\<exists>out s'. unit_of_work (reverse_transaction demo_ctx ''txn_2'' None) reversed_state = (Inr out, s')
     \<and> book_balance (led reversed_state) (demo_accounts ! 0) = 0
     \<and> book_balance (led s') (demo_accounts ! 0) = - 450"
proof -
  obtain out s' where run: "unit_of_work (reverse_transaction demo_ctx ''txn_2'' None) reversed_state = (Inr out, s')"
    using reversal_runs [OF reversed_state_ok reversed_state_facts(1,2,4-7) reversed_state_fresh
      reversed_state_facts(8)] by blast
  have "book_balance (led s') (demo_accounts ! 0) = book_balance (led reversed_state) (demo_accounts ! 0)
      - sum_signed (a_normal (demo_accounts ! 0)) (filter (\<lambda>e. e_account e = a_id (demo_accounts ! 0))
          (entries_for_transaction ''txn_2'' (led reversed_state)))"
    using reversal_undoes_the_posting [OF reversed_state_ok run] by blast
  then show ?thesis
    using run unfolding reversed_state_entries
    by (simp add: book_balance_def entries_of_def reversed_state_def reversed_tables_def demo_tables_def
        demo_accounts_def signed_minor_def)
qed

end
