(* ===== verification/Auth.thy ===== *)
theory Auth
  imports Webhooks Service_Laws
begin

text \<open>
  \<open>api/auth.py\<close>: API keys, stored as a hash, and the check of a webhook signature. SHA-256,
  HMAC-SHA256 and \<open>secrets.token_urlsafe\<close> are parameters; digests and hex digests are strings.
\<close>

fun mode_value :: "api_mode \<Rightarrow> string" where
  "mode_value TEST = ''test''"
| "mode_value LIVE = ''live''"

definition generate_key :: "string \<Rightarrow> api_mode \<Rightarrow> string" where
  "generate_key token mode = ''lf_'' @ mode_value mode @ ''_'' @ token"

text \<open>\<open>s[-n:]\<close>.\<close>

definition last_chars :: "nat \<Rightarrow> string \<Rightarrow> string" where
  "last_chars n t = drop (length t - n) t"

text \<open>The \<open>INSERT\<close>, with the constraints of \<open>api_keys\<close>.\<close>

definition insert_key :: "string list \<Rightarrow> api_key_row \<Rightarrow> (side_tables, unit) op" where
  "insert_key known_tenants row =
     bind_op (reads api_keys) (\<lambda>ks.
     bind_op (guard_op (\<exists>k \<in> set ks. k_id k = k_id row \<or> k_hash k = k_hash row) (DbExn UniqueViolation)) (\<lambda>_.
     bind_op (guard_op (k_tenant row \<notin> set known_tenants) (DbExn ForeignKeyViolation)) (\<lambda>_.
     writes (\<lambda>t. t\<lparr>api_keys := api_keys t @ [row]\<rparr>))))"

definition create_key :: "(string \<Rightarrow> string) \<Rightarrow> string \<Rightarrow> string \<Rightarrow> api_mode \<Rightarrow> (string \<times> api_key_row) m" where
  "create_key sha256 token tenant mode =
     (let plaintext = generate_key token mode in
      bind_op (fresh_id (new_id ''key'')) (\<lambda>i.
      bind_op (reads tx_now) (\<lambda>now.
      bind_op (reads (\<lambda>s. tenants (led s))) (\<lambda>ts.
      let row = \<lparr>k_id = i, k_tenant = tenant, k_mode = mode, k_hash = sha256 plaintext,
                 k_prefix = take 12 plaintext, k_last4 = last_chars 4 plaintext,
                 k_version = api_version, k_revoked = None, k_created = now\<rparr> in
      bind_op (on_sid (insert_key ts row)) (\<lambda>_. ret_op (plaintext, row))))))"

definition expected_mode :: "string \<Rightarrow> api_mode" where
  "expected_mode token = (if starts_with ''lf_test_'' token then TEST else LIVE)"

definition authenticate :: "(string \<Rightarrow> string) \<Rightarrow> string option \<Rightarrow> api_key_row m" where
  "authenticate sha256 authorization =
     (case authorization of
        None \<Rightarrow> raise_op (AppExn AuthenticationError)
      | Some header \<Rightarrow>
          if header = [] then raise_op (AppExn AuthenticationError)
          else
            (let (scheme, token) = py_partition (CHR 32) header in
             if py_lower scheme \<noteq> ''bearer'' \<or> token = [] then raise_op (AppExn AuthenticationError)
             else
               bind_op (reads (\<lambda>s. List.find (\<lambda>k. k_hash k = sha256 token \<and> k_revoked k = None) (api_keys (sid s))))
                 (\<lambda>row. case row of
                    None \<Rightarrow> raise_op (AppExn AuthenticationError)
                  | Some k \<Rightarrow>
                      if k_mode k \<noteq> expected_mode token then raise_op (AppExn AuthenticationError)
                      else ret_op k)))"

text \<open>\<open>hmac.compare_digest\<close> of two strings refuses characters outside ASCII.\<close>

definition ascii :: "string \<Rightarrow> bool" where
  "ascii t = list_all (\<lambda>c. (of_char c :: nat) < 128) t"

definition verify_signature ::
  "(string \<Rightarrow> string \<Rightarrow> string) \<Rightarrow> string \<Rightarrow> string \<Rightarrow> string \<Rightarrow> string \<Rightarrow> py_error + bool" where
  "verify_signature hmac secret timestamp body signature =
     (let expected = hmac secret (timestamp @ ''.'' @ body) in
      if ascii expected \<and> ascii signature then Inr (expected = signature) else Inl TypeError)"

section \<open>Facts\<close>

definition keys_ok :: "side_tables \<Rightarrow> bool" where
  "keys_ok t \<longleftrightarrow> distinct (map k_id (api_keys t)) \<and> distinct (map k_hash (api_keys t))"

text \<open>Exactly when a header authenticates, and as which key.\<close>

lemma partition_iff:
  "py_partition c header = (a, b) \<and> b \<noteq> [] \<longleftrightarrow> header = a @ c # b \<and> c \<notin> set a \<and> b \<noteq> []"
proof
  let ?a = "takeWhile (\<lambda>x. x \<noteq> c) header" and ?rest = "dropWhile (\<lambda>x. x \<noteq> c) header"
  assume "py_partition c header = (a, b) \<and> b \<noteq> []"
  then have eqs: "a = ?a" "b = drop 1 ?rest" "b \<noteq> []" by (auto simp: py_partition_def)
  then obtain d rest where rest: "?rest = d # rest" by (cases ?rest) auto
  then have "d = c" by (metis (mono_tags, lifting) hd_dropWhile list.discI list.sel(1))
  then have "header = a @ c # b" using rest eqs takeWhile_dropWhile_id [of "\<lambda>x. x \<noteq> c" header] by simp
  moreover have "c \<notin> set a" unfolding eqs(1) by (auto dest: set_takeWhileD)
  ultimately show "header = a @ c # b \<and> c \<notin> set a \<and> b \<noteq> []" using eqs(3) by blast
next
  assume h: "header = a @ c # b \<and> c \<notin> set a \<and> b \<noteq> []"
  then have "takeWhile (\<lambda>x. x \<noteq> c) header = a" "dropWhile (\<lambda>x. x \<noteq> c) header = c # b"
    by (simp_all add: takeWhile_tail takeWhile_append dropWhile_append)
  with h show "py_partition c header = (a, b) \<and> b \<noteq> []" by (simp add: py_partition_def)
qed

text \<open>Exactly when a header authenticates, and as which key.\<close>

definition key_for :: "(string \<Rightarrow> string) \<Rightarrow> string \<Rightarrow> side_tables \<Rightarrow> api_key_row option" where
  "key_for sha256 token t = List.find (\<lambda>k. k_hash k = sha256 token \<and> k_revoked k = None) (api_keys t)"

lemma authenticate_run:
  assumes "CHR 32 \<notin> set scheme" "py_lower scheme = ''bearer''" "token \<noteq> []"
  shows "authenticate sha256 (Some (scheme @ CHR 32 # token)) s =
     (case key_for sha256 token (sid s) of
        None \<Rightarrow> (Inl (AppExn AuthenticationError), s)
      | Some k \<Rightarrow> (if k_mode k = expected_mode token then Inr k else Inl (AppExn AuthenticationError), s))"
proof -
  have "py_partition (CHR 32) (scheme @ CHR 32 # token) = (scheme, token)"
    using partition_iff [of "CHR 32" "scheme @ CHR 32 # token" scheme token] assms by blast
  with assms show ?thesis
    by (simp add: authenticate_def bind_op_def key_for_def split: option.split)
qed

lemma authenticate_cases:
  obtains "authenticate sha256 auth s = (Inl (AppExn AuthenticationError), s)"
  | scheme token k where "auth = Some (scheme @ CHR 32 # token)" "CHR 32 \<notin> set scheme"
      "py_lower scheme = ''bearer''" "token \<noteq> []" "key_for sha256 token (sid s) = Some k"
      "k_mode k = expected_mode token" "authenticate sha256 auth s = (Inr k, s)"
proof (cases auth)
  case None
  then show ?thesis using that(1) by (simp add: authenticate_def)
next
  case (Some header)
  obtain a b where p: "py_partition (CHR 32) header = (a, b)" by fastforce
  show ?thesis
  proof (cases "header = [] \<or> py_lower a \<noteq> ''bearer'' \<or> b = []")
    case True
    then have "authenticate sha256 auth s = (Inl (AppExn AuthenticationError), s)"
      using Some p by (auto simp: authenticate_def)
    then show ?thesis by (rule that(1))
  next
    case False
    then have h: "header = a @ CHR 32 # b" "CHR 32 \<notin> set a" using partition_iff [of "CHR 32" header a b] p by simp_all
    note run = authenticate_run [of a b sha256 s]
    show ?thesis
    proof (cases "key_for sha256 b (sid s)")
      case None
      then have "authenticate sha256 auth s = (Inl (AppExn AuthenticationError), s)" using run False h Some by simp
      then show ?thesis by (rule that(1))
    next
      case (Some k)
      then have r: "authenticate sha256 auth s = (if k_mode k = expected_mode b then Inr k else Inl (AppExn AuthenticationError), s)"
        using run False h \<open>auth = Some header\<close> by simp
      show ?thesis
      proof (cases "k_mode k = expected_mode b")
        case True
        then show ?thesis using that(2) [of a b k] r False h Some \<open>auth = Some header\<close> by simp
      next
        case False
        then show ?thesis using that(1) r by simp
      qed
    qed
  qed
qed

lemma create_key_iff:
  "create_key sha256 token tenant mode s = (Inr (plaintext, k), s') \<longleftrightarrow>
     plaintext = generate_key token mode
     \<and> k = \<lparr>k_id = fst (new_id ''key'' (idg s)), k_tenant = tenant, k_mode = mode, k_hash = sha256 plaintext,
            k_prefix = take 12 plaintext, k_last4 = last_chars 4 plaintext,
            k_version = api_version, k_revoked = None, k_created = tx_now s\<rparr>
     \<and> (\<forall>x \<in> set (api_keys (sid s)). k_id x \<noteq> k_id k \<and> k_hash x \<noteq> k_hash k) \<and> tenant \<in> set (tenants (led s))
     \<and> s' = s\<lparr>idg := snd (new_id ''key'' (idg s)), sid := (sid s)\<lparr>api_keys := api_keys (sid s) @ [k]\<rparr>\<rparr>"
  unfolding create_key_def Let_def
  by (auto simp: result_simps insert_key_def)

lemma expected_mode_of_key: "expected_mode (generate_key token mode) = mode"
  by (cases mode) (simp_all add: expected_mode_def generate_key_def starts_with_def)

lemma find_distinct:
  "\<lbrakk>distinct (map f xs); x \<in> set xs; f x = v; P x\<rbrakk> \<Longrightarrow> List.find (\<lambda>y. f y = v \<and> P y) xs = Some x"
  by (induction xs) (auto simp: image_iff)

lemma key_for_row:
  "\<lbrakk>keys_ok t; k \<in> set (api_keys t); k_hash k = sha256 token; k_revoked k = None\<rbrakk> \<Longrightarrow> key_for sha256 token t = Some k"
  unfolding key_for_def keys_ok_def by (rule find_distinct) auto

lemma key_for_Some:
  "key_for sha256 token t = Some k \<Longrightarrow> k \<in> set (api_keys t) \<and> k_hash k = sha256 token \<and> k_revoked k = None"
  by (auto simp: key_for_def find_Some_iff)

lemma signed_part_split:
  assumes "CHR ''.'' \<notin> set n"
  shows "a @ ''.'' @ b = n @ ''.'' @ c \<longleftrightarrow> a = n \<and> b = c \<or> (\<exists>pre. a = n @ ''.'' @ pre \<and> c = pre @ ''.'' @ b)"
proof
  assume "a @ ''.'' @ b = n @ ''.'' @ c"
  then consider us where "a = n @ us" "us @ ''.'' @ b = ''.'' @ c" | us where "a @ us = n" "''.'' @ b = us @ ''.'' @ c"
    by (auto simp: append_eq_append_conv2)
  then show "a = n \<and> b = c \<or> (\<exists>pre. a = n @ ''.'' @ pre \<and> c = pre @ ''.'' @ b)"
  proof cases
    case (1 us)
    then show ?thesis by (cases us) auto
  next
    case (2 us)
    with assms show ?thesis by (cases us) auto
  qed
qed auto

lemma no_dot_in_numbers: "CHR ''.'' \<notin> set (show_int n)"
proof -
  have "\<not> is_digit (CHR ''.'')" by (simp add: is_digit_def)
  then have "CHR ''.'' \<notin> set (show_nat k)" for k using show_nat_digits by blast
  then show ?thesis by (simp add: show_int_def)
qed

section \<open>Properties\<close>

text \<open>
  A key works as soon as it is created and until it is revoked, whatever the letter case of the scheme:
  the plaintext returned once authenticates as the new row, of the tenant and mode it was created for, in
  every later state that still holds the row; and keys stay unique.
\<close>

theorem created_key_authenticates:
  assumes "unit_of_work (create_key sha256 token tenant mode) s = (Inr (plaintext, k), s')" "keys_ok (sid s)"
    and "keys_ok (sid u)" "k \<in> set (api_keys (sid u))" "CHR 32 \<notin> set scheme" "py_lower scheme = ''bearer''"
  shows "k_tenant k = tenant \<and> k_mode k = mode \<and> k \<in> set (api_keys (sid s')) \<and> keys_ok (sid s')
     \<and> authenticate sha256 (Some (scheme @ CHR 32 # plaintext)) u = (Inr k, u)"
proof -
  have run: "create_key sha256 token tenant mode (s\<lparr>tx_now := wall s\<rparr>) = (Inr (plaintext, k), s')"
    using assms(1) by (simp add: unit_of_work_Inr_iff)
  note c = run [unfolded create_key_iff]
  have "keys_ok (sid s')" using c assms(2) by (fastforce simp: keys_ok_def)
  moreover have k: "k_hash k = sha256 plaintext" "k_revoked k = None" "k_tenant k = tenant" "k_mode k = mode"
    "plaintext = generate_key token mode" "k \<in> set (api_keys (sid s'))" using c by simp_all
  moreover have "plaintext \<noteq> []" using k(5) by (simp add: generate_key_def)
  ultimately show ?thesis
    using authenticate_run [OF assms(5,6), of plaintext sha256 u] key_for_row [of "sid u" k sha256 plaintext] assms(3,4)
    by (simp add: expected_mode_of_key)
qed

theorem created_key_authenticates_witness:
  "let s = new_database [''t''] demo_clock 0; (r, s') = unit_of_work (create_key id ''abc'' ''t'' TEST) s in
   \<exists>k. k_mode k = TEST \<and> authenticate id (Some (''bEARER'' @ CHR 32 # generate_key ''abc'' TEST)) s' = (Inr k, s')"
proof -
  let ?s = "new_database [''t''] demo_clock 0"
  obtain i g where i: "new_id ''key'' (idg ?s) = (i, g)" by fastforce
  let ?p = "generate_key ''abc'' TEST"
  let ?k = "\<lparr>k_id = i, k_tenant = ''t'', k_mode = TEST, k_hash = ?p, k_prefix = take 12 ?p, k_last4 = last_chars 4 ?p,
    k_version = api_version, k_revoked = None, k_created = 0\<rparr>"
  let ?s' = "?s\<lparr>tx_now := 0, idg := g, sid := (sid ?s)\<lparr>api_keys := [?k]\<rparr>\<rparr>"
  have sid: "sid ?s = no_side_tables" "wall ?s = 0" "tenants (led ?s) = [''t'']" by (simp_all add: new_database_def)
  have "create_key id ''abc'' ''t'' TEST (?s\<lparr>tx_now := wall ?s\<rparr>) = (Inr (?p, ?k), ?s')"
    unfolding create_key_iff using i sid by (simp add: no_side_tables_def)
  then have run: "unit_of_work (create_key id ''abc'' ''t'' TEST) ?s = (Inr (?p, ?k), ?s')"
    by (simp add: unit_of_work_Inr_iff deferred_checks_def)
  have bearer: "py_lower ''bEARER'' = ''bearer''" by code_simp
  have "authenticate id (Some (''bEARER'' @ CHR 32 # ?p)) ?s' = (Inr ?k, ?s')"
    by (rule conjunct2 [OF conjunct2 [OF conjunct2 [OF conjunct2 [OF created_key_authenticates [OF run]]]]])
      (simp_all add: keys_ok_def sid no_side_tables_def bearer)
  then show ?thesis unfolding Let_def run by auto
qed

text \<open>
  C20. Authentication fails closed: either the header is a bearer token whose hash is that of a key that is not
  revoked and whose prefix names the key's mode, or the answer is 401, the same for every reason; no check
  changes anything.
\<close>

theorem authenticates_or_401:
  "(\<exists>scheme token k. auth = Some (scheme @ CHR 32 # token) \<and> py_lower scheme = ''bearer''
      \<and> authenticate sha256 auth s = (Inr k, s) \<and> k \<in> set (api_keys (sid s)) \<and> k_hash k = sha256 token
      \<and> k_revoked k = None \<and> (k_mode k = TEST \<longleftrightarrow> starts_with ''lf_test_'' token))
   \<or> authenticate sha256 auth s = (Inl (AppExn AuthenticationError), s)"
proof (rule authenticate_cases [of sha256 auth s])
  fix scheme token k
  assume h: "auth = Some (scheme @ CHR 32 # token)" "py_lower scheme = ''bearer''"
    "key_for sha256 token (sid s) = Some k" "k_mode k = expected_mode token" "authenticate sha256 auth s = (Inr k, s)"
  have "k_mode k = TEST \<longleftrightarrow> starts_with ''lf_test_'' token" using h(4) by (simp add: expected_mode_def)
  then show ?thesis using h key_for_Some [OF h(3)] by (intro disjI1 exI [of _ scheme] exI [of _ token] exI [of _ k]) simp
qed simp

text \<open>
  C21. What a receiver that checks the signature of a delivery accepts, short of a collision of the HMAC: the timestamp and
  the body that were sent, and no other pair whose timestamp is a number. The signature covers the text timestamp, dot, body,
  not the place of the dot, and the checker takes the timestamp as any string: it also accepts every pair in which the
  received timestamp runs on, over that dot, to a later dot of the body, and the received body is the rest.
\<close>

theorem signature_covers_time_and_body:
  assumes "ascii (hmac secret (timestamp @ ''.'' @ body'))" "ascii (sign hmac secret t body)"
    and "hmac secret (timestamp @ ''.'' @ body') = hmac secret (show_int t @ ''.'' @ body) \<Longrightarrow>
      timestamp @ ''.'' @ body' = show_int t @ ''.'' @ body"
  shows "verify_signature hmac secret timestamp body' (sign hmac secret t body)
     = Inr (timestamp = show_int t \<and> body' = body
            \<or> (\<exists>pre. timestamp = show_int t @ ''.'' @ pre \<and> body = pre @ ''.'' @ body'))"
  using assms signed_part_split [OF no_dot_in_numbers [of t], of timestamp body' body]
  by (auto simp: verify_signature_def sign_def Let_def)

text \<open>The pair that was sent, the same text cut at its second dot, and another body.\<close>

theorem signature_covers_time_and_body_witness:
  "verify_signature (@) ''k'' ''17'' ''x.y'' (sign (@) ''k'' 17 ''x.y'') = Inr True
   \<and> verify_signature (@) ''k'' ''17.x'' ''y'' (sign (@) ''k'' 17 ''x.y'') = Inr True
   \<and> verify_signature (@) ''k'' ''17'' ''x.z'' (sign (@) ''k'' 17 ''x.y'') = Inr False"
proof -
  have n: "show_int 17 = ''17''" by code_simp
  have a: "ascii (''k'' @ ts @ ''.'' @ b)" if "ascii ts" "ascii b" for ts b using that by (simp add: ascii_def)
  have s: "ascii (sign (@) ''k'' 17 ''x.y'')" by (simp add: ascii_def sign_def n)
  note t = signature_covers_time_and_body [where hmac = "(@)" and secret = "''k''", OF a s, unfolded n]
  show ?thesis
    using t [of "''17''" "''x.y''"] t [of "''17.x''" "''y''"] t [of "''17''" "''x.z''"]
    by (simp add: ascii_def)
qed
end
