(* ===== verification/Versioning.thy ===== *)
theory Versioning
  imports Side_Tables Json
begin

text \<open>
  \<open>api/versioning.py\<close>: handlers speak the newest schema; a response goes through the transformers of
  every change made after the caller's version, newest first. \<open>downgrade\<close> registers one and keeps the
  list sorted, newest first, in the order of registration among equal dates.
\<close>

type_synonym transformer = "json \<Rightarrow> py_error + json"
type_synonym changes = "(date \<times> transformer) list"

text \<open>\<open>list.sort(key=..., reverse=True)\<close>: stable, so equal keys keep their order.\<close>

definition newest_first :: "changes \<Rightarrow> changes" where
  "newest_first cs = rev (sort_key fst (rev cs))"

definition downgrade :: "date \<Rightarrow> transformer \<Rightarrow> changes \<Rightarrow> changes" where
  "downgrade introduced fn cs = newest_first (cs @ [(introduced, fn)])"

fun apply_changes :: "changes \<Rightarrow> date \<Rightarrow> json \<Rightarrow> py_error + json" where
  "apply_changes [] requested body = Inr body"
| "apply_changes ((introduced, transform) # cs) requested body =
     (if requested < introduced then bind_r (transform body) (apply_changes cs requested)
      else apply_changes cs requested body)"

definition apply_version :: "changes \<Rightarrow> json \<Rightarrow> date option \<Rightarrow> py_error + json" where
  "apply_version cs body requested =
     (case requested of
        None \<Rightarrow> Inr body
      | Some d \<Rightarrow> if api_version \<le> d then Inr body else apply_changes cs d body)"

definition drop_key :: "string \<Rightarrow> (string \<times> json) list \<Rightarrow> (string \<times> json) list" where
  "drop_key key d = filter (\<lambda>p. fst p \<noteq> key) d"

definition balance_without_basis :: transformer where
  "balance_without_basis body =
     bind_r (jget body ''object'' JNull) (\<lambda>v.
     Inr (if v = JStr ''balance''
          then (case body of JObj d \<Rightarrow> JObj (drop_key ''basis'' d) | _ \<Rightarrow> body) else body))"

definition CHANGES :: changes where
  "CHANGES = downgrade (2026, 9, 17) balance_without_basis []"

section \<open>Facts\<close>

lemma newest_first_sorted: "sorted_wrt (\<lambda>a b. fst b \<le> fst a) (newest_first cs)"
proof -
  have "sorted (map fst (sort_key fst (rev cs)))" by simp
  then have "sorted_wrt (\<lambda>a b. fst a \<le> fst b) (sort_key fst (rev cs))" by (simp add: sorted_wrt_map)
  then show ?thesis by (simp add: newest_first_def sorted_wrt_rev)
qed

lemma newest_first_set [simp]: "set (newest_first cs) = set cs"
  by (simp add: newest_first_def)

text \<open>On a list that is newest first, only an initial piece is applied, in order.\<close>

lemma apply_changes_prefix:
  assumes "sorted_wrt (\<lambda>a b. fst b \<le> fst a) cs"
  shows "apply_changes cs requested body =
     foldl (\<lambda>r c. bind_r r (snd c)) (Inr body) (takeWhile (\<lambda>c. requested < fst c) cs)"
proof -
  have idle: "apply_changes cs requested body = Inr body" if "\<forall>c \<in> set cs. \<not> requested < fst c" for cs body
    using that by (induction cs) (auto split: prod.splits)
  have failed: "foldl (\<lambda>r c. bind_r r (snd c)) (Inl e) xs = Inl e" for e and xs :: changes
    by (induction xs) auto
  show ?thesis using assms
  proof (induction cs arbitrary: body)
    case Nil
    then show ?case by simp
  next
    case (Cons c cs)
    show ?case
    proof (cases "requested < fst c")
      case True
      then show ?thesis using Cons by (cases c; cases "snd c body") (auto simp: failed)
    next
      case False
      then have "\<forall>x \<in> set (c # cs). \<not> requested < fst x" using Cons.prems by force
      from idle [OF this] False show ?thesis by simp
    qed
  qed
qed

lemma registered_sorted:
  "fold (\<lambda>(d, f) cs. downgrade d f cs) registered [] = newest_first registered"
proof (induction registered rule: rev_induct)
  case Nil
  then show ?case by (simp add: newest_first_def)
next
  case (snoc c cs)
  have "newest_first (newest_first cs @ [c]) = newest_first (cs @ [c])"
    by (simp add: newest_first_def sort_key_id_if_sorted)
  with snoc show ?case by (cases c) (simp add: downgrade_def)
qed

lemma current_changes: "CHANGES = [((2026, 9, 17), balance_without_basis)]"
  by (simp add: CHANGES_def downgrade_def newest_first_def)

lemma drop_key_other: "k \<noteq> key \<Longrightarrow> map_of (drop_key key d) k = map_of d k"
  by (induction d) (auto simp: drop_key_def)

lemma drop_key_gone: "map_of (drop_key key d) key = None"
  by (auto simp: drop_key_def map_of_eq_None_iff)

lemma apply_version_object:
  "apply_version CHANGES (JObj d) requested =
     Inr (JObj (if (\<exists>v. requested = Some v \<and> v < api_version) \<and> map_of d ''object'' = Some (JStr ''balance'')
                then drop_key ''basis'' d else d))"
  by (cases requested)
    (auto simp: apply_version_def current_changes api_version_def balance_without_basis_def not_le split: option.split)

section \<open>Properties\<close>

text \<open>
  Whatever changes are registered in whatever order, a caller gets the newest schema with exactly the
  changes made after the pinned version undone, newest first.
\<close>

theorem versions_compose_newest_first:
  assumes "requested < api_version"
  shows "apply_version (fold (\<lambda>(d, f) cs. downgrade d f cs) registered []) body (Some requested)
     = foldl (\<lambda>r c. bind_r r (snd c)) (Inr body)
         (takeWhile (\<lambda>c. requested < fst c) (newest_first registered))
   \<and> sorted_wrt (\<lambda>a b. fst b \<le> fst a) (newest_first registered)"
proof -
  show ?thesis
    using leD [of api_version requested] assms apply_changes_prefix [OF newest_first_sorted] newest_first_sorted
    by (auto simp: apply_version_def registered_sorted)
qed

theorem versions_compose_newest_first_witness:
  "apply_version (fold (\<lambda>(d, f) cs. downgrade d f cs)
       [((2026, 1, 1), \<lambda>b. Inr (JArr [b])), ((2026, 9, 17), balance_without_basis)] [])
     (JObj [(''object'', JStr ''balance''), (''basis'', JStr ''settled'')]) (Some (2025, 12, 31))
   = Inr (JArr [JObj [(''object'', JStr ''balance'')]])"
  by (subst conjunct1 [OF versions_compose_newest_first])
    (simp_all add: api_version_def newest_first_def balance_without_basis_def drop_key_def)

text \<open>
  What a pinned caller receives: a balance loses exactly its basis and every other object of the API is
  untouched; a caller on the current version, or none, gets the response as it is.
\<close>

theorem pinned_balance_loses_only_its_basis:
  "\<exists>d'. apply_version CHANGES (JObj d) requested = Inr (JObj d')
     \<and> (\<forall>k. k \<noteq> ''basis'' \<longrightarrow> map_of d' k = map_of d k)
     \<and> map_of d' ''basis'' =
         (if (\<exists>v. requested = Some v \<and> v < api_version) \<and> map_of d ''object'' = Some (JStr ''balance'') then None
          else map_of d ''basis'')"
  unfolding apply_version_object by (auto simp: drop_key_other drop_key_gone)

theorem pinned_balance_loses_only_its_basis_witness:
  "map_of [(''object'', JStr ''balance'')] ''basis'' = None \<and>
   (\<exists>d'. apply_version CHANGES (JObj [(''object'', JStr ''balance''), (''basis'', JStr ''settled'')]) (Some (2026, 1, 1))
       = Inr (JObj d') \<and> map_of d' ''basis'' = None)"
  using pinned_balance_loses_only_its_basis [of "[(''object'', JStr ''balance''), (''basis'', JStr ''settled'')]"
      "Some (2026, 1, 1)"]
  by (auto simp: api_version_def)

end
