(* ===== verification/RateLimit.thy ===== *)
theory RateLimit
  imports Service_Laws
begin

text \<open>
  \<open>api/ratelimit.py\<close>: the token bucket, as the Lua script Redis runs and as the one statement Postgres
  runs instead. Both are atomic, so a check is one function of the bucket. Floats are reals. What the
  two promise is the locale \<open>token_bucket\<close>, which both interpret.
\<close>

record decision =
  d_allowed :: bool
  d_limit :: int
  d_remaining :: int
  d_reset_at :: int

record rate_limiter =
  rl_capacity :: int

definition rl_refill :: "rate_limiter \<Rightarrow> real" where
  "rl_refill rl = rl_capacity rl / 60"

text \<open>\<open>RateLimiter()\<close> with the configured default.\<close>

definition rate_limit_per_minute :: int where "rate_limit_per_minute = 600"

definition default_limiter :: rate_limiter where
  "default_limiter = \<lparr>rl_capacity = rate_limit_per_minute\<rparr>"

section \<open>The Lua script\<close>

text \<open>The hash as \<open>HMGET\<close> finds it: an expired key is no key.\<close>

definition live_bucket :: "real \<Rightarrow> redis_bucket option \<Rightarrow> redis_bucket option" where
  "live_bucket now b = (case b of None \<Rightarrow> None | Some x \<Rightarrow> if now < rb_expires x then Some x else None)"

text \<open>Redis returns the script's numbers truncated to integers.\<close>

definition lua_script ::
  "real \<Rightarrow> real \<Rightarrow> real \<Rightarrow> real \<Rightarrow> redis_bucket option \<Rightarrow> (bool \<times> int) \<times> redis_bucket" where
  "lua_script capacity refill now cost bucket =
     (let (tokens0, updated) = (case live_bucket now bucket of
            None \<Rightarrow> (capacity, now)
          | Some b \<Rightarrow> (rb_tokens b, rb_updated b));
          tokens1 = min capacity (tokens0 + (now - updated) * refill);
          allowed = (cost \<le> tokens1);
          tokens = (if allowed then tokens1 - cost else tokens1)
      in ((allowed, \<lfloor>tokens\<rfloor>),
          \<lparr>rb_tokens = tokens, rb_updated = now, rb_expires = now + of_int (\<lceil>capacity / refill\<rceil> * 2)\<rparr>))"

section \<open>The Postgres statement\<close>

definition pg_upsert :: "real \<Rightarrow> real \<Rightarrow> int \<Rightarrow> real \<Rightarrow> bucket_row option \<Rightarrow> bucket_row" where
  "pg_upsert capacity refill now cost bucket =
     (case bucket of
        None \<Rightarrow> \<lparr>bk_tokens = capacity - cost, bk_updated = now\<rparr>
      | Some b \<Rightarrow>
          \<lparr>bk_tokens = max (- cost)
             (min capacity (bk_tokens b + (of_int (now - bk_updated b) / 1000000) * refill) - cost),
           bk_updated = now\<rparr>)"

section \<open>The limiter\<close>

definition decision_of :: "rate_limiter \<Rightarrow> bool \<Rightarrow> real \<Rightarrow> real \<Rightarrow> decision" where
  "decision_of rl allowed tokens now =
     (let deficit = max 0 (1 - tokens) in
      \<lparr>d_allowed = allowed, d_limit = rl_capacity rl, d_remaining = \<lfloor>max 0 tokens\<rfloor>,
       d_reset_at = \<lfloor>now + (if rl_refill rl = 0 then 0 else deficit / rl_refill rl)\<rfloor>\<rparr>)"

definition check_pg :: "rate_limiter \<Rightarrow> string \<Rightarrow> int \<Rightarrow> decision m" where
  "check_pg rl key cost s =
     (let b = pg_upsert (rl_capacity rl) (rl_refill rl) (wall s) cost (dget (rate_buckets (sid s)) key);
          tokens = bk_tokens b
      in (Inr (decision_of rl (0 \<le> tokens) (max tokens 0) (wall s / 1000000)),
          s\<lparr>sid := (sid s)\<lparr>rate_buckets := dset key b (rate_buckets (sid s))\<rparr>\<rparr>))"

text \<open>\<open>check\<close>: Redis when it is configured and answers (\<open>up\<close>), Postgres otherwise.\<close>

definition check_limit :: "bool \<Rightarrow> rate_limiter \<Rightarrow> string \<Rightarrow> int \<Rightarrow> decision m" where
  "check_limit up rl key cost s =
     (case redis s of
        None \<Rightarrow> check_pg rl key cost s
      | Some store \<Rightarrow>
          if up then
            (let k = ''ratelimit:'' @ key;
                 ((allowed, tokens), b) =
                   lua_script (rl_capacity rl) (rl_refill rl) (wall s / 1000000) cost (dget store k)
             in (Inr (decision_of rl allowed tokens (wall s / 1000000)), s\<lparr>redis := Some (dset k b store)\<rparr>))
          else check_pg rl key cost s)"

section \<open>What a bucket promises\<close>

text \<open>
  A bucket of states \<open>'s\<close>: a check at a time no earlier than the last one spends the cost out of what
  was there and what has flowed in since, and allows only what it can spend.
\<close>

locale token_bucket =
  fixes check :: "'t \<Rightarrow> 's \<Rightarrow> bool \<times> 's" and secs :: "'t \<Rightarrow> real"
    and level :: "'s \<Rightarrow> real" and seen :: "'s \<Rightarrow> real" and ok :: "'s \<Rightarrow> bool"
    and capacity :: real and rate :: real and cost :: real
  assumes rate_pos: "0 < rate" and cost_pos: "0 < cost"
    and seen_now: "seen (snd (check now s)) = secs now"
    and check_ok: "\<lbrakk>ok s; seen s \<le> secs now\<rbrakk> \<Longrightarrow> ok (snd (check now s))"
    and spends: "\<lbrakk>ok s; seen s \<le> secs now\<rbrakk> \<Longrightarrow>
      level (snd (check now s)) + (if fst (check now s) then cost else 0) \<le> level s + (secs now - seen s) * rate"
    and capped: "\<lbrakk>ok s; seen s \<le> secs now\<rbrakk> \<Longrightarrow> level (snd (check now s)) \<le> capacity"
    and pays: "\<lbrakk>ok s; seen s \<le> secs now; fst (check now s)\<rbrakk> \<Longrightarrow> 0 \<le> level (snd (check now s))"
begin

text \<open>How many of the checks at the given times are allowed.\<close>

primrec admitted :: "'t list \<Rightarrow> 's \<Rightarrow> nat" where
  "admitted [] s = 0"
| "admitted (now # ts) s = (if fst (check now s) then 1 else 0) + admitted ts (snd (check now s))"

text \<open>Whatever the times, what is let through is what was there and what flowed in.\<close>

lemma admitted_bound:
  "\<lbrakk>ok s; sorted (seen s # map secs ts); \<forall>t \<in> set ts. secs t \<le> finish; seen s \<le> finish\<rbrakk> \<Longrightarrow>
   of_nat (admitted ts s) * cost \<le> max 0 (level s + (finish - seen s) * rate)"
proof (induction ts arbitrary: s)
  case Nil
  then show ?case by simp
next
  case (Cons now ts)
  let ?s = "snd (check now s)" and ?a = "fst (check now s)"
  have now: "seen s \<le> secs now" "secs now \<le> finish" using Cons.prems by auto
  note sp = spends [OF Cons.prems(1) now(1)]
  have IH: "of_nat (admitted ts ?s) * cost \<le> max 0 (level ?s + (finish - secs now) * rate)"
    using Cons.IH [OF check_ok [OF Cons.prems(1) now(1)]] Cons.prems now by (auto simp: seen_now)
  have flow: "level s + (secs now - seen s) * rate + (finish - secs now) * rate = level s + (finish - seen s) * rate"
    by (simp add: algebra_simps)
  have later: "0 \<le> (finish - secs now) * rate" using now(2) rate_pos by simp
  show ?case
  proof (cases ?a)
    case True
    have "0 \<le> level ?s" by (rule pays [OF Cons.prems(1) now(1) True])
    with IH later have "of_nat (admitted ts ?s) * cost \<le> level ?s + (finish - secs now) * rate" by simp
    with sp True flow show ?thesis by (simp add: algebra_simps)
  next
    case False
    with IH sp flow show ?thesis by (simp add: algebra_simps max_def split: if_splits)
  qed
qed

end

section \<open>Both back ends are token buckets\<close>

definition lua_check :: "rate_limiter \<Rightarrow> real \<Rightarrow> redis_bucket \<Rightarrow> bool \<times> redis_bucket" where
  "lua_check rl now b =
     (let ((allowed, _), b') = lua_script (rl_capacity rl) (rl_refill rl) now 1 (Some b) in (allowed, b'))"

definition lua_ok :: "rate_limiter \<Rightarrow> redis_bucket \<Rightarrow> bool" where
  "lua_ok rl b \<longleftrightarrow> 0 \<le> rb_tokens b \<and> rb_tokens b \<le> rl_capacity rl
     \<and> rb_expires b = rb_updated b + of_int (\<lceil>rl_capacity rl / rl_refill rl\<rceil> * 2)"

definition pg_check :: "rate_limiter \<Rightarrow> int \<Rightarrow> bucket_row \<Rightarrow> bool \<times> bucket_row" where
  "pg_check rl now b = (let b' = pg_upsert (rl_capacity rl) (rl_refill rl) now 1 (Some b) in (0 \<le> bk_tokens b', b'))"

definition pg_ok :: "rate_limiter \<Rightarrow> bucket_row \<Rightarrow> bool" where
  "pg_ok rl b \<longleftrightarrow> - 1 \<le> bk_tokens b \<and> bk_tokens b \<le> rl_capacity rl - 1"

lemma refill_pos: "0 < rl_capacity rl \<Longrightarrow> 0 < rl_refill rl"
  by (simp add: rl_refill_def)

text \<open>A key that has expired would have been full by then.\<close>

lemma expiry_refills:
  assumes "0 < rl_capacity rl" "lua_ok rl b" "rb_expires b \<le> now"
  shows "rl_capacity rl \<le> rb_tokens b + (now - rb_updated b) * rl_refill rl"
proof -
  have pos: "0 < rl_refill rl" using refill_pos assms(1) .
  let ?full = "rl_capacity rl / rl_refill rl"
  have "0 \<le> ?full" using assms(1) pos by simp
  then have "?full \<le> of_int (\<lceil>?full\<rceil> * 2)" using le_of_int_ceiling [of ?full] by linarith
  moreover have "rb_expires b = rb_updated b + of_int (\<lceil>?full\<rceil> * 2)" using assms(2) unfolding lua_ok_def by blast
  ultimately have "?full \<le> now - rb_updated b" using assms(3) by linarith
  then have "rl_capacity rl \<le> (now - rb_updated b) * rl_refill rl" using pos by (simp add: pos_divide_le_eq)
  with assms(2) show ?thesis by (simp add: lua_ok_def)
qed

lemma lua_token_bucket:
  assumes "0 < rl_capacity rl"
  shows "token_bucket (lua_check rl) id rb_tokens rb_updated (lua_ok rl) (rl_capacity rl) (rl_refill rl) 1"
proof
  have one: "1 \<le> real_of_int (rl_capacity rl)" using assms by simp
  fix now :: real and b :: redis_bucket
  show "0 < rl_refill rl" "(0 :: real) < 1" using refill_pos assms by simp_all
  show "rb_updated (snd (lua_check rl now b)) = id now"
    by (simp add: lua_check_def lua_script_def split_beta Let_def)
  assume ok: "lua_ok rl b" and now: "rb_updated b \<le> id now"
  have flow: "0 \<le> (now - rb_updated b) * rl_refill rl" using now refill_pos [OF assms] by simp
  show "lua_ok rl (snd (lua_check rl now b))"
    using ok flow one
    by (auto simp: lua_ok_def lua_check_def lua_script_def live_bucket_def split_beta Let_def split: if_splits)
  show "rb_tokens (snd (lua_check rl now b)) + (if fst (lua_check rl now b) then 1 else 0)
      \<le> rb_tokens b + (id now - rb_updated b) * rl_refill rl"
    using expiry_refills [OF assms ok] ok flow
    by (auto simp: lua_ok_def lua_check_def lua_script_def live_bucket_def split_beta Let_def)
  show "rb_tokens (snd (lua_check rl now b)) \<le> rl_capacity rl"
    by (auto simp: lua_check_def lua_script_def split_beta Let_def)
  show "0 \<le> rb_tokens (snd (lua_check rl now b))" if "fst (lua_check rl now b)"
    using that by (auto simp: lua_check_def lua_script_def split_beta Let_def)
qed

lemma pg_token_bucket:
  assumes "0 < rl_capacity rl"
  shows "token_bucket (pg_check rl) (\<lambda>t. t / 1000000) bk_tokens (\<lambda>b. bk_updated b / 1000000) (pg_ok rl)
     (rl_capacity rl) (rl_refill rl) 1"
proof
  have one: "1 \<le> real_of_int (rl_capacity rl)" using assms by simp
  fix now :: int and b :: bucket_row
  show "0 < rl_refill rl" "(0 :: real) < 1" using refill_pos assms by simp_all
  show "bk_updated (snd (pg_check rl now b)) / 1000000 = now / 1000000"
    by (simp add: pg_check_def pg_upsert_def Let_def)
  assume ok: "pg_ok rl b" and now: "bk_updated b / 1000000 \<le> real_of_int now / 1000000"
  have flow: "0 \<le> (real_of_int (now - bk_updated b) / 1000000) * rl_refill rl"
    using now refill_pos [OF assms] by simp
  show "pg_ok rl (snd (pg_check rl now b))"
    using ok flow one by (auto simp: pg_ok_def pg_check_def pg_upsert_def Let_def)
  show "bk_tokens (snd (pg_check rl now b)) + (if fst (pg_check rl now b) then 1 else 0)
      \<le> bk_tokens b + (real_of_int now / 1000000 - bk_updated b / 1000000) * rl_refill rl"
    using ok flow by (auto simp: pg_ok_def pg_check_def pg_upsert_def Let_def diff_divide_distrib max_def)
  show "bk_tokens (snd (pg_check rl now b)) \<le> rl_capacity rl"
    using one by (auto simp: pg_check_def pg_upsert_def Let_def)
  show "0 \<le> bk_tokens (snd (pg_check rl now b))" if "fst (pg_check rl now b)"
    using that by (simp add: pg_check_def Let_def)
qed

interpretation lua: token_bucket "lua_check default_limiter" id rb_tokens rb_updated "lua_ok default_limiter" 600 10 1
  using lua_token_bucket [of default_limiter] by (simp add: default_limiter_def rate_limit_per_minute_def rl_refill_def)

interpretation fallback: token_bucket "pg_check default_limiter" "\<lambda>t. t / 1000000" bk_tokens
    "\<lambda>b. bk_updated b / 1000000" "pg_ok default_limiter" 600 10 1
  using pg_token_bucket [of default_limiter] by (simp add: default_limiter_def rate_limit_per_minute_def rl_refill_def)

section \<open>A client's requests\<close>

text \<open>How many of one key's checks at the given times (in microseconds) are let through.\<close>

fun served :: "bool \<Rightarrow> rate_limiter \<Rightarrow> string \<Rightarrow> int list \<Rightarrow> st \<Rightarrow> nat" where
  "served up rl key [] s = 0"
| "served up rl key (t # ts) s =
     (case check_limit up rl key 1 (s\<lparr>wall := t\<rparr>) of
        (Inl e, s') \<Rightarrow> 0
      | (Inr d, s') \<Rightarrow> (if d_allowed d then 1 else 0) + served up rl key ts s')"

definition uses_redis :: "bool \<Rightarrow> st \<Rightarrow> bool" where
  "uses_redis up s \<longleftrightarrow> up \<and> redis s \<noteq> None"

lemma check_falls_back:
  "\<not> uses_redis up s \<Longrightarrow> check_limit up rl key cost (s\<lparr>wall := t\<rparr>) = check_pg rl key cost (s\<lparr>wall := t\<rparr>)"
  by (auto simp: check_limit_def uses_redis_def split: option.split)

lemma served_pg:
  "\<lbrakk>0 < rl_capacity rl; \<not> uses_redis up s; dget (rate_buckets (sid s)) key = Some b\<rbrakk> \<Longrightarrow>
   served up rl key ts s = token_bucket.admitted (pg_check rl) ts b"
proof (induction ts arbitrary: s b)
  case Nil
  then show ?case by (simp add: token_bucket.admitted.simps [OF pg_token_bucket])
next
  case (Cons t ts)
  let ?s = "s\<lparr>wall := t\<rparr>" and ?b = "snd (pg_check rl t b)"
  have "check_limit up rl key 1 ?s = check_pg rl key 1 ?s" using check_falls_back Cons.prems(2) .
  then obtain d s' where d: "check_limit up rl key 1 ?s = (Inr d, s')" "d_allowed d = fst (pg_check rl t b)"
    "dget (rate_buckets (sid s')) key = Some ?b" "redis s' = redis s"
    using Cons.prems(3) by (auto simp: check_pg_def Let_def pg_check_def decision_of_def update_conv')
  have "served up rl key ts s' = token_bucket.admitted (pg_check rl) ts ?b"
    by (rule Cons.IH) (use Cons.prems d in \<open>simp_all add: uses_redis_def\<close>)
  with d show ?case by (simp add: token_bucket.admitted.simps [OF pg_token_bucket [OF Cons.prems(1)]])
qed

lemma served_lua:
  "\<lbrakk>0 < rl_capacity rl; up; redis s = Some store; dget store (''ratelimit:'' @ key) = Some b\<rbrakk> \<Longrightarrow>
   served up rl key ts s = token_bucket.admitted (lua_check rl) (map (\<lambda>t. real_of_int t / 1000000) ts) b"
proof (induction ts arbitrary: s store b)
  case Nil
  then show ?case by (simp add: token_bucket.admitted.simps [OF lua_token_bucket])
next
  case (Cons t ts)
  let ?s = "s\<lparr>wall := t\<rparr>" and ?b = "snd (lua_check rl (t / 1000000) b)" and ?k = "''ratelimit:'' @ key"
  obtain d where d: "check_limit up rl key 1 ?s = (Inr d, ?s\<lparr>redis := Some (dset ?k ?b store)\<rparr>)"
    "d_allowed d = fst (lua_check rl (t / 1000000) b)"
    using Cons.prems(2-4) by (auto simp: check_limit_def Let_def lua_check_def decision_of_def split_beta)
  have "served up rl key ts (?s\<lparr>redis := Some (dset ?k ?b store)\<rparr>)
      = token_bucket.admitted (lua_check rl) (map (\<lambda>t. real_of_int t / 1000000) ts) ?b"
    by (rule Cons.IH [where store = "dset ?k ?b store"]) (use Cons.prems in \<open>simp_all add: update_conv'\<close>)
  with d show ?case by (simp add: token_bucket.admitted.simps [OF lua_token_bucket [OF Cons.prems(1)]])
qed

text \<open>The first check of a key finds a full bucket and pays out of it.\<close>

definition fresh_key :: "string \<Rightarrow> st \<Rightarrow> bool" where
  "fresh_key key s \<longleftrightarrow> dget (rate_buckets (sid s)) key = None
     \<and> (\<forall>store. redis s = Some store \<longrightarrow> dget store (''ratelimit:'' @ key) = None)"

lemma served_first:
  assumes "0 < rl_capacity rl" "fresh_key key s"
  shows "served up rl key (t # ts) s = 1 +
     (if uses_redis up s
      then token_bucket.admitted (lua_check rl) (map (\<lambda>t. real_of_int t / 1000000) ts)
             \<lparr>rb_tokens = rl_capacity rl - 1, rb_updated = t / 1000000,
              rb_expires = t / 1000000 + of_int (\<lceil>rl_capacity rl / rl_refill rl\<rceil> * 2)\<rparr>
      else token_bucket.admitted (pg_check rl) ts \<lparr>bk_tokens = rl_capacity rl - 1, bk_updated = t\<rparr>)"
proof (cases "uses_redis up s")
  case True
  then obtain store where store: "redis s = Some store" "up" by (auto simp: uses_redis_def)
  let ?b = "\<lparr>rb_tokens = rl_capacity rl - 1, rb_updated = t / 1000000,
     rb_expires = t / 1000000 + of_int (\<lceil>rl_capacity rl / rl_refill rl\<rceil> * 2)\<rparr>"
  let ?s = "s\<lparr>wall := t, redis := Some (dset (''ratelimit:'' @ key) ?b store)\<rparr>"
  obtain d where "check_limit up rl key 1 (s\<lparr>wall := t\<rparr>) = (Inr d, ?s)" "d_allowed d"
    using assms store by (auto simp: check_limit_def fresh_key_def lua_script_def live_bucket_def Let_def decision_of_def)
  moreover have "served up rl key ts ?s = token_bucket.admitted (lua_check rl) (map (\<lambda>t. real_of_int t / 1000000) ts) ?b"
    by (rule served_lua [OF assms(1) store(2), where store = "dset (''ratelimit:'' @ key) ?b store"])
      (simp_all add: update_conv')
  ultimately show ?thesis using True by simp
next
  case False
  let ?b = "\<lparr>bk_tokens = rl_capacity rl - 1, bk_updated = t\<rparr>"
  let ?s = "s\<lparr>wall := t, sid := (sid s)\<lparr>rate_buckets := dset key ?b (rate_buckets (sid s))\<rparr>\<rparr>"
  obtain d where "check_limit up rl key 1 (s\<lparr>wall := t\<rparr>) = (Inr d, ?s)" "d_allowed d"
    using assms unfolding check_falls_back [OF False]
    by (auto simp: check_pg_def pg_upsert_def fresh_key_def Let_def decision_of_def)
  moreover have "served up rl key ts ?s = token_bucket.admitted (pg_check rl) ts ?b"
    by (rule served_pg [OF assms(1), where b = ?b]) (use False in \<open>simp_all add: uses_redis_def update_conv'\<close>)
  ultimately show ?thesis using False by simp
qed

section \<open>Starvation\<close>

text \<open>Arrivals no further apart than one refill.\<close>

definition steady :: "rate_limiter \<Rightarrow> int list \<Rightarrow> bool" where
  "steady rl ts \<longleftrightarrow> successively (\<lambda>a b. a \<le> b \<and> (b - a) * rl_capacity rl \<le> 60000000) ts"

lemma steady_sorted: "steady rl ts \<Longrightarrow> sorted ts"
  unfolding steady_def by (induction ts rule: induct_list012) auto

lemma pg_denies_steady:
  "\<lbrakk>0 < rl_capacity rl; bk_tokens b < 0; - 1 \<le> bk_tokens b; steady rl (bk_updated b # ts)\<rbrakk> \<Longrightarrow>
   token_bucket.admitted (pg_check rl) ts b = 0"
proof (induction ts arbitrary: b)
  case Nil
  then show ?case by (simp add: token_bucket.admitted.simps [OF pg_token_bucket])
next
  case (Cons t ts)
  let ?b = "snd (pg_check rl t b)" and ?cap = "rl_capacity rl"
  have gap: "(t - bk_updated b) * ?cap \<le> 60000000" using Cons.prems(4) by (simp add: steady_def)
  then have "real_of_int ((t - bk_updated b) * ?cap) \<le> 60000000" by linarith
  then have flow: "(real_of_int (t - bk_updated b) / 1000000) * rl_refill rl \<le> 1"
    by (simp add: rl_refill_def field_simps)
  have denied: "bk_tokens ?b < 0" "- 1 \<le> bk_tokens ?b" "bk_updated ?b = t" "\<not> fst (pg_check rl t b)"
    using flow Cons.prems(2) by (auto simp: pg_check_def pg_upsert_def Let_def)
  have "steady rl (bk_updated ?b # ts)" using Cons.prems(4) denied(3) by (cases ts) (auto simp: steady_def)
  from Cons.IH [OF Cons.prems(1) denied(1,2) this] denied(4) show ?case
    by (simp add: token_bucket.admitted.simps [OF pg_token_bucket [OF Cons.prems(1)]])
qed

lemma lua_serves_again:
  "\<lbrakk>0 < rl_capacity rl; lua_ok rl b; sorted (rb_updated b # ts); ts \<noteq> [];
    1 \<le> rb_tokens b + (last ts - rb_updated b) * rl_refill rl\<rbrakk> \<Longrightarrow>
   1 \<le> token_bucket.admitted (lua_check rl) ts b"
proof (induction ts arbitrary: b)
  case Nil
  then show ?case by simp
next
  case (Cons t ts)
  let ?b = "snd (lua_check rl t b)"
  note tb = lua_token_bucket [OF Cons.prems(1)]
  have now: "rb_updated b \<le> id t" using Cons.prems(3) by simp
  show ?case
  proof (cases "fst (lua_check rl t b)")
    case True
    then show ?thesis by (simp add: token_bucket.admitted.simps [OF tb])
  next
    case False
    then have kept: "rb_tokens ?b = rb_tokens b + (t - rb_updated b) * rl_refill rl" "rb_tokens ?b < 1" "rb_updated ?b = t"
      using Cons.prems(1) expiry_refills [OF Cons.prems(1,2)]
      by (auto simp: lua_check_def lua_script_def live_bucket_def split_beta Let_def min_def split: if_splits)
    have "ts \<noteq> []" using Cons.prems(5) kept by (cases ts) auto
    moreover have "sorted (rb_updated ?b # ts)" using Cons.prems(3) kept(3) by simp
    moreover have "1 \<le> rb_tokens ?b + (last ts - rb_updated ?b) * rl_refill rl"
      using Cons.prems(5) \<open>ts \<noteq> []\<close> kept(1,3) by (simp add: algebra_simps)
    ultimately have "1 \<le> token_bucket.admitted (lua_check rl) ts ?b"
      using Cons.IH token_bucket.check_ok [OF tb Cons.prems(2) now] Cons.prems(1) by blast
    then show ?thesis by (simp add: token_bucket.admitted.simps [OF tb])
  qed
qed

lemma sorted_upto_last: "sorted (t # ts) \<Longrightarrow> (\<forall>x \<in> set (t # ts). x \<le> last (t # ts))" for t :: "'a :: linorder"
  by (induction ts arbitrary: t) fastforce+

lemma sorted_secs:
  "sorted (t # ts) \<Longrightarrow> sorted (real_of_int t / 1000000 # map (\<lambda>t. real_of_int t / 1000000) ts)"
  by (induction ts arbitrary: t) (auto simp: divide_right_mono)

lemma lua_starts_full:
  fixes t :: int
  assumes "0 < rl_capacity rl" "sorted (t # ts)"
  defines "b \<equiv> \<lparr>rb_tokens = rl_capacity rl - 1, rb_updated = t / 1000000,
     rb_expires = t / 1000000 + of_int (\<lceil>rl_capacity rl / rl_refill rl\<rceil> * 2)\<rparr>"
  shows "token_bucket.admitted (lua_check rl) (map (\<lambda>t. real_of_int t / 1000000) ts) b
     \<le> rl_capacity rl - 1 + real_of_int (last (t # ts) - t) / 1000000 * (rl_capacity rl / 60)"
proof -
  let ?finish = "real_of_int (last (t # ts)) / 1000000"
  note last = sorted_upto_last [OF assms(2)]
  have "0 \<le> rl_capacity rl * (last (t # ts) - t)" using last assms(1) by (auto intro!: mult_nonneg_nonneg)
  then have "0 \<le> real_of_int (rl_capacity rl * (last (t # ts) - t))" by linarith
  then have flow: "0 \<le> (?finish - t / 1000000) * rl_refill rl" by (simp add: rl_refill_def field_simps)
  have ok: "lua_ok rl b" using assms(1) by (simp add: lua_ok_def b_def)
  have "of_nat (token_bucket.admitted (lua_check rl) (map (\<lambda>t. real_of_int t / 1000000) ts) b) * 1
      \<le> max 0 (rb_tokens b + (?finish - rb_updated b) * rl_refill rl)"
    by (rule token_bucket.admitted_bound [OF lua_token_bucket [OF assms(1)] ok])
      (use last sorted_secs [OF assms(2)] in \<open>auto simp: b_def divide_right_mono\<close>)
  then show ?thesis using flow assms(1) by (simp add: b_def rl_refill_def max_def diff_divide_distrib del: last.simps)
qed

lemma pg_starts_full:
  assumes "0 < rl_capacity rl" "sorted (t # ts)"
  defines "b \<equiv> \<lparr>bk_tokens = rl_capacity rl - 1, bk_updated = t\<rparr>"
  shows "token_bucket.admitted (pg_check rl) ts b
     \<le> rl_capacity rl - 1 + real_of_int (last (t # ts) - t) / 1000000 * (rl_capacity rl / 60)"
proof -
  let ?finish = "real_of_int (last (t # ts)) / 1000000"
  note last = sorted_upto_last [OF assms(2)]
  have "0 \<le> rl_capacity rl * (last (t # ts) - t)" using last assms(1) by (auto intro!: mult_nonneg_nonneg)
  then have "0 \<le> real_of_int (rl_capacity rl * (last (t # ts) - t))" by linarith
  then have flow: "0 \<le> (?finish - t / 1000000) * rl_refill rl" by (simp add: rl_refill_def field_simps)
  have ok: "pg_ok rl b" using assms(1) by (simp add: pg_ok_def b_def)
  have "of_nat (token_bucket.admitted (pg_check rl) ts b) * 1
      \<le> max 0 (bk_tokens b + (?finish - bk_updated b / 1000000) * rl_refill rl)"
    by (rule token_bucket.admitted_bound [OF pg_token_bucket [OF assms(1)] ok])
      (use last sorted_secs [OF assms(2)] in \<open>auto simp: b_def divide_right_mono\<close>)
  then show ?thesis using flow assms(1) by (simp add: b_def rl_refill_def max_def diff_divide_distrib del: last.simps)
qed

section \<open>Properties\<close>

text \<open>
  C23. The limiter limits: whichever back end answers, of one key's checks at any times in order, at most
  the capacity plus what flowed in between the first and the last is let through, and a first check is
  let through.
\<close>

theorem rate_limit_bounds_bursts:
  assumes "0 < rl_capacity rl" "fresh_key key s" "sorted (t # ts)"
  shows "1 \<le> served up rl key (t # ts) s
     \<and> served up rl key (t # ts) s \<le> rl_capacity rl + real_of_int (last (t # ts) - t) / 1000000 * (rl_capacity rl / 60)"
  using lua_starts_full [OF assms(1,3)] pg_starts_full [OF assms(1,3)]
  unfolding served_first [OF assms(1,2)] by auto

theorem rate_limit_bounds_bursts_witness:
  "let s = new_database [] demo_clock 0 in 1 \<le> served False default_limiter ''read:x'' [0, 100000] s
     \<and> served False default_limiter ''read:x'' [0, 100000] s
         \<le> real_of_int (rl_capacity default_limiter)
           + real_of_int (last [0, 100000] - 0) / 1000000 * (rl_capacity default_limiter / 60)"
  unfolding Let_def
  by (rule rate_limit_bounds_bursts)
    (simp_all add: default_limiter_def rate_limit_per_minute_def fresh_key_def new_database_def no_side_tables_def)

text \<open>
  C24. The Postgres fallback starves a steady client that Redis would serve: once it has been refused
  (a negative bucket), requests no further apart than one token's refill time are refused for ever, although
  they come at the permitted rate, because each refused request is charged too; on Redis the same requests
  are served again as soon as one token has flowed in.
\<close>

theorem fallback_starves_a_steady_client:
  assumes "0 < rl_capacity rl" "steady rl (u # ts)" "ts \<noteq> []" "60000000 \<le> (last ts - u) * rl_capacity rl"
    and "\<not> uses_redis up s" "dget (rate_buckets (sid s)) key = Some \<lparr>bk_tokens = x, bk_updated = u\<rparr>" "- 1 \<le> x" "x < 0"
    and "redis s' = Some store" "dget store (''ratelimit:'' @ key) = Some b" "lua_ok rl b" "rb_updated b = u / 1000000"
  shows "served up rl key ts s = 0 \<and> 1 \<le> served True rl key ts s'"
proof
  show "served up rl key ts s = 0"
    using served_pg [OF assms(1,5,6)] pg_denies_steady [of rl "\<lparr>bk_tokens = x, bk_updated = u\<rparr>" ts] assms by simp
  have "sorted (u # ts)" using assms(2) by (rule steady_sorted)
  then have srt: "sorted (rb_updated b # map (\<lambda>t. real_of_int t / 1000000) ts)"
    using sorted_secs assms(12) by simp
  have "60000000 \<le> real_of_int ((last ts - u) * rl_capacity rl)" using assms(4) by linarith
  then have "1 \<le> (last ts - u) / 1000000 * rl_refill rl" by (simp add: rl_refill_def field_simps)
  then have "1 \<le> rb_tokens b + (last (map (\<lambda>t. real_of_int t / 1000000) ts) - rb_updated b) * rl_refill rl"
    using assms(3,11) unfolding assms(12) by (simp add: last_map lua_ok_def diff_divide_distrib)
  from lua_serves_again [OF assms(1,11) srt _ this] assms(3)
  show "1 \<le> served True rl key ts s'"
    using served_lua [OF assms(1) _ assms(9,10), of True ts] by simp
qed

theorem fallback_starves_a_steady_client_witness:
  "let st0 = new_database [] demo_clock 0; u = 0; ts = [100000];
       s = st0\<lparr>sid := (sid st0)\<lparr>rate_buckets := [(''k'', \<lparr>bk_tokens = - 1, bk_updated = u\<rparr>)]\<rparr>\<rparr>;
       s' = st0\<lparr>redis := Some [(''ratelimit:k'', \<lparr>rb_tokens = 0, rb_updated = 0, rb_expires = 120\<rparr>)]\<rparr>
   in served False default_limiter ''k'' ts s = 0 \<and> 1 \<le> served True default_limiter ''k'' ts s'"
  unfolding Let_def
  by (rule fallback_starves_a_steady_client [where u = 0 and x = "- 1" and
      b = "\<lparr>rb_tokens = 0, rb_updated = 0, rb_expires = 120\<rparr>" and
      store = "[(''ratelimit:k'', \<lparr>rb_tokens = 0, rb_updated = 0, rb_expires = 120\<rparr>)]"])
    (simp_all add: default_limiter_def rate_limit_per_minute_def steady_def uses_redis_def lua_ok_def
      rl_refill_def new_database_def)

end
