(* ===== verification/Deps.thy ===== *)
theory Deps
  imports Auth Versioning RateLimit
begin

text \<open>
  \<open>api/deps.py\<close>: timestamps, and the dependency every endpoint has: who calls, which version, and
  whether the limiter lets the request through. What the request's state carries afterwards is
  \<open>req_state\<close>; the middleware reads it, also after a failure. SHA-256, HMAC, the ISO 8601 parsers of
  the standard library, pydantic's ISO output, the text of a float, random tokens and exception
  messages are the environment's.
\<close>

record api_env =
  ae_sha256 :: "string \<Rightarrow> string"
  ae_float :: "real \<Rightarrow> string"
  ae_iso_date :: "string \<Rightarrow> date option"          \<comment> \<open>\<open>date.fromisoformat\<close>, \<open>None\<close> its \<open>ValueError\<close>\<close>
  ae_iso_datetime :: "string \<Rightarrow> datetime option"
  ae_show_datetime :: "datetime \<Rightarrow> string"
  ae_redis_up :: bool
  ae_busy :: bool                                  \<comment> \<open>the wait for a key's lock times out\<close>
  ae_token :: string
  ae_message :: "exn \<Rightarrow> string"

record request =
  rq_method :: string
  rq_authorization :: "string option"
  rq_version :: "string option"
  rq_key :: "string option"

record req_state =
  qs_ctx :: "tenant_ctx option"
  qs_version :: "date option"
  qs_limit :: "decision option"
  qs_replay :: bool

definition no_req_state :: req_state where
  "no_req_state = \<lparr>qs_ctx = None, qs_version = None, qs_limit = None, qs_replay = False\<rparr>"

section \<open>Timestamps\<close>

definition py_isdigit :: "string \<Rightarrow> bool" where
  "py_isdigit t \<longleftrightarrow> t \<noteq> [] \<and> list_all is_digit t"

text \<open>\<open>s.replace("Z", text)\<close>.\<close>

definition replace_char :: "char \<Rightarrow> string \<Rightarrow> string \<Rightarrow> string" where
  "replace_char c t s = concat (map (\<lambda>x. if x = c then t else [x]) s)"

text \<open>
  \<open>datetime.fromtimestamp(n, tz=UTC)\<close> of a natural number, in microseconds: past the year 9999 a
  \<open>ValueError\<close>, past what \<open>gmtime\<close> can break down an \<open>OSError\<close>, past 64 bits an \<open>OverflowError\<close>.
\<close>

definition from_timestamp :: "int \<Rightarrow> py_error + int" where
  "from_timestamp n =
     (if n \<le> 253402300799 then Inr (n * 1000000)
      else if n \<le> 67768036191676799 then Inl ValueError
      else if n < 2 ^ 63 then Inl OSError
      else Inl OverflowError)"

text \<open>Only a \<open>ValueError\<close> is caught.\<close>

definition parse_timestamp :: "api_env \<Rightarrow> string option \<Rightarrow> exn + datetime option" where
  "parse_timestamp env v =
     (case v of
        None \<Rightarrow> Inr None
      | Some t \<Rightarrow>
          if py_isdigit t then
            (case py_int t of
               None \<Rightarrow> Inl (AppExn (LedgerFlowError None))
             | Some n \<Rightarrow>
                 (case from_timestamp n of
                    Inl ValueError \<Rightarrow> Inl (AppExn (LedgerFlowError None))
                  | Inl e \<Rightarrow> Inl (PyExn e)
                  | Inr us \<Rightarrow> Inr (Some (Aware us))))
          else
            (case ae_iso_datetime env (replace_char (CHR ''Z'') ''+00:00'' t) of
               None \<Rightarrow> Inl (AppExn (LedgerFlowError None))
             | Some d \<Rightarrow> Inr (Some (Aware (instant d)))))"

section \<open>The context of a request\<close>

definition bucket_of :: "request \<Rightarrow> tenant_ctx \<Rightarrow> string" where
  "bucket_of rq ctx = c_api_key ctx @ '':'' @ (if rq_method rq = ''POST'' then ''w'' else ''r'')"

definition read_limiter :: rate_limiter where "read_limiter = default_limiter"
definition write_limiter :: rate_limiter where "write_limiter = default_limiter"

definition limiter_of :: "request \<Rightarrow> rate_limiter" where
  "limiter_of rq = (if rq_method rq \<in> {''POST'', ''DELETE'', ''PATCH''} then write_limiter else read_limiter)"

definition requested_version :: "api_env \<Rightarrow> request \<Rightarrow> api_key_row \<Rightarrow> exn + date" where
  "requested_version env rq k =
     (case rq_version rq of
        None \<Rightarrow> Inr (k_version k)
      | Some v \<Rightarrow>
          if v = [] then Inr (k_version k)
          else (case ae_iso_date env v of
                  None \<Rightarrow> Inl (AppExn (LedgerFlowError None))
                | Some d \<Rightarrow> Inr d))"

definition ctx_of :: "api_key_row \<Rightarrow> tenant_ctx" where
  "ctx_of k = \<lparr>c_tenant = k_tenant k, c_api_key = k_id k, c_mode = k_mode k\<rparr>"

definition limited :: "decision \<Rightarrow> int \<Rightarrow> exn" where
  "limited d now = AppExn (RateLimited (max 1 (d_reset_at d - now div 1000000)))"

text \<open>The result, the request's state and the database's.\<close>

definition context_of :: "api_env \<Rightarrow> request \<Rightarrow> st \<Rightarrow> ((exn + tenant_ctx) \<times> req_state) \<times> st" where
  "context_of env rq s =
     (case read_only (authenticate (ae_sha256 env) (rq_authorization rq)) s of
        (Inl e, s1) \<Rightarrow> ((Inl e, no_req_state), s1)
      | (Inr k, s1) \<Rightarrow>
          let ctx = ctx_of k in
          (case requested_version env rq k of
             Inl e \<Rightarrow> ((Inl e, no_req_state), s1)
           | Inr v \<Rightarrow>
               let qs = no_req_state\<lparr>qs_version := Some v, qs_ctx := Some ctx\<rparr> in
               (case check_limit (ae_redis_up env) (limiter_of rq) (bucket_of rq ctx) 1 s1 of
                  (Inl e, s2) \<Rightarrow> ((Inl e, qs), s2)
                | (Inr d, s2) \<Rightarrow>
                    let qs = qs\<lparr>qs_limit := Some d\<rparr> in
                    if d_allowed d then ((Inr ctx, qs), s2) else ((Inl (limited d (wall s2)), qs), s2))))"

section \<open>Facts\<close>

lemma read_only_read:
  assumes "\<And>s. snd (body s) = s"
  shows "read_only body s = (fst (body (s\<lparr>tx_now := wall s\<rparr>)),
     case fst (body (s\<lparr>tx_now := wall s\<rparr>)) of Inl _ \<Rightarrow> rollback s (s\<lparr>tx_now := wall s\<rparr>) | Inr _ \<Rightarrow> s\<lparr>tx_now := wall s\<rparr>)"
proof -
  obtain r where "body (s\<lparr>tx_now := wall s\<rparr>) = (r, s\<lparr>tx_now := wall s\<rparr>)"
    using assms [of "s\<lparr>tx_now := wall s\<rparr>"] by (metis prod.collapse)
  then show ?thesis
    by (cases r) (simp_all add: read_only_def unit_of_work_def deferred_checks_def)
qed

lemma rollback_same [simp]: "rollback s (s\<lparr>tx_now := t\<rparr>) = s\<lparr>tx_now := t\<rparr>"
  by (simp add: rollback_def)

text \<open>A body that only reads leaves the state, but for the transaction's clock.\<close>

lemma read_only_keeps:
  "(\<And>s. snd (body s) = s) \<Longrightarrow> read_only body s = (fst (body (s\<lparr>tx_now := wall s\<rparr>)), s\<lparr>tx_now := wall s\<rparr>)"
  by (subst read_only_read) (auto split: sum.split)

lemma authenticate_reads: "snd (authenticate sha256 auth s) = s"
  by (cases rule: authenticate_cases [of sha256 auth s]) auto

text \<open>Everything but the limiter's buckets and the transaction's clock.\<close>

definition unmetered :: "st \<Rightarrow> st" where
  "unmetered s = s\<lparr>sid := (sid s)\<lparr>rate_buckets := []\<rparr>, redis := None, tx_now := 0\<rparr>"

lemma check_limit_unmetered: "check_limit up rl key cost s = (r, s') \<Longrightarrow> unmetered s' = unmetered s"
  by (auto simp: check_limit_def check_pg_def unmetered_def Let_def split: option.splits if_splits prod.splits)

lemma check_limit_Inr: "\<exists>d s'. check_limit up rl key cost s = (Inr d, s')"
  by (cases "redis s") (auto simp: check_limit_def check_pg_def Let_def split: prod.split)

lemma context_unmetered: "context_of env rq s = (x, s') \<Longrightarrow> unmetered s' = unmetered s"
  unfolding context_of_def read_only_keeps [OF authenticate_reads]
  by (auto simp: Let_def unmetered_def dest!: check_limit_unmetered split: sum.splits prod.splits if_splits)

lemma authenticate_cong:
  "sid t = sid s \<Longrightarrow> fst (authenticate sha256 auth t) = fst (authenticate sha256 auth s)"
  by (auto simp: authenticate_def bind_op_def Let_def split: option.splits prod.splits)

lemma context_of_cases:
  obtains e where "context_of env rq s = ((Inl e, no_req_state), s\<lparr>tx_now := wall s\<rparr>)"
      "e = AppExn AuthenticationError \<or> e = AppExn (LedgerFlowError None)"
  | k v d s' where "authenticate (ae_sha256 env) (rq_authorization rq) s = (Inr k, s)"
      "requested_version env rq k = Inr v"
      "check_limit (ae_redis_up env) (limiter_of rq) (bucket_of rq (ctx_of k)) 1 (s\<lparr>tx_now := wall s\<rparr>) = (Inr d, s')"
      "context_of env rq s =
         ((if d_allowed d then Inr (ctx_of k) else Inl (limited d (wall s')),
           \<lparr>qs_ctx = Some (ctx_of k), qs_version = Some v, qs_limit = Some d, qs_replay = False\<rparr>), s')"
proof -
  let ?s = "s\<lparr>tx_now := wall s\<rparr>" and ?auth = "authenticate (ae_sha256 env) (rq_authorization rq)"
  have ro: "read_only ?auth s = (fst (?auth s), ?s)"
    using read_only_keeps [OF authenticate_reads] authenticate_cong [of ?s s] by simp
  show ?thesis
  proof (cases rule: authenticate_cases [of "ae_sha256 env" "rq_authorization rq" s])
    case 1
    then show ?thesis using that(1) ro by (simp add: context_of_def)
  next
    case (2 scheme token k)
    show ?thesis
    proof (cases "requested_version env rq k")
      case (Inl e)
      then have "e = AppExn (LedgerFlowError None)"
        by (auto simp: requested_version_def split: option.splits if_splits)
      with Inl 2 show ?thesis using that(1) ro by (simp add: context_of_def Let_def)
    next
      case (Inr v)
      obtain d s' where d: "check_limit (ae_redis_up env) (limiter_of rq) (bucket_of rq (ctx_of k)) 1 ?s = (Inr d, s')"
        using check_limit_Inr by blast
      then have "context_of env rq s =
         ((if d_allowed d then Inr (ctx_of k) else Inl (limited d (wall s')),
           \<lparr>qs_ctx = Some (ctx_of k), qs_version = Some v, qs_limit = Some d, qs_replay = False\<rparr>), s')"
        using 2 ro Inr by (simp add: context_of_def Let_def no_req_state_def)
      from that(2) [OF 2(7) Inr d this] show ?thesis .
    qed
  qed
qed

end
