(* ===== verification/Schemas.thy ===== *)
theory Schemas
  imports Deps
begin

text \<open>
  \<open>api/schemas.py\<close>: request bodies after validation, the validators the code writes itself, and
  \<open>model_dump(mode="json")\<close>, which the idempotency fingerprint is computed from. What pydantic does
  between the two validators of an amount (reading an integer) is a parameter.
\<close>

definition reject_floats :: "json \<Rightarrow> py_error + json" where
  "reject_floats v =
     (case v of
        JReal _ \<Rightarrow> Inl ValueError
      | JStr t \<Rightarrow> if CHR ''.'' \<in> set t then Inl ValueError else Inr v
      | _ \<Rightarrow> Inr v)"

definition positive_amount :: "int \<Rightarrow> py_error + int" where
  "positive_amount v = (if v \<le> 0 then Inl ValueError else Inr v)"

definition amount_field :: "(json \<Rightarrow> int option) \<Rightarrow> json \<Rightarrow> py_error + int" where
  "amount_field read_int v =
     bind_r (reject_floats v) (\<lambda>w.
     case read_int w of None \<Rightarrow> Inl ValueError | Some n \<Rightarrow> positive_amount n)"

definition currency_field :: "string \<Rightarrow> bool" where
  "currency_field cur \<longleftrightarrow> length cur = 3"

record account_body =
  ab_name :: string
  ab_type :: string
  ab_currency :: string
  ab_external :: "string option"
  ab_minimum :: "int option"
  ab_metadata :: "(string \<times> json) list"

record txn_body =
  tb_amount :: int
  tb_currency :: string
  tb_kind :: string
  tb_accounts :: "(string, string) dict"
  tb_effective :: "datetime option"
  tb_descriptor :: "string option"
  tb_metadata :: metadata

record transfer_body =
  fb_amount :: int
  fb_currency :: string
  fb_source :: string
  fb_destination :: string
  fb_effective :: "datetime option"
  fb_metadata :: metadata

record reversal_body =
  vb_effective :: "datetime option"

record endpoint_body =
  eb_url :: string
  eb_events :: "string list"

record replay_body =
  yb_group :: string
  yb_topic :: string
  yb_from :: nat
  yb_reason :: string

definition time_json :: "api_env \<Rightarrow> datetime option \<Rightarrow> json" where
  "time_json env t = jopt (\<lambda>t. JStr (ae_show_datetime env t)) t"

definition account_dump :: "account_body \<Rightarrow> json" where
  "account_dump b = JObj
     [(''name'', JStr (ab_name b)), (''type'', JStr (ab_type b)), (''currency'', JStr (ab_currency b)),
      (''external_id'', jopt JStr (ab_external b)), (''minimum_balance'', jopt JInt (ab_minimum b)),
      (''metadata'', JObj (ab_metadata b))]"

definition txn_dump :: "api_env \<Rightarrow> txn_body \<Rightarrow> json" where
  "txn_dump env b = JObj
     [(''amount'', JInt (tb_amount b)), (''currency'', JStr (tb_currency b)), (''kind'', JStr (tb_kind b)),
      (''accounts'', jstr_dict (tb_accounts b)), (''effective_at'', time_json env (tb_effective b)),
      (''descriptor'', jopt JStr (tb_descriptor b)), (''metadata'', jstr_dict (tb_metadata b))]"

definition transfer_dump :: "api_env \<Rightarrow> transfer_body \<Rightarrow> json" where
  "transfer_dump env b = JObj
     [(''amount'', JInt (fb_amount b)), (''currency'', JStr (fb_currency b)), (''source'', JStr (fb_source b)),
      (''destination'', JStr (fb_destination b)), (''effective_at'', time_json env (fb_effective b)),
      (''metadata'', jstr_dict (fb_metadata b))]"

definition reversal_dump :: "api_env \<Rightarrow> reversal_body \<Rightarrow> json" where
  "reversal_dump env b = JObj [(''effective_at'', time_json env (vb_effective b))]"

end
