(* ===== verification/Idempotency.thy ===== *)
theory Idempotency
  imports Webhooks Service_Laws
begin

text \<open>
  \<open>api/idempotency.py\<close>: the idempotency key is claimed, the work is done and the response is stored in
  one transaction. Whether another transaction holds the key uncommitted for longer than the lock
  timeout is the environment's (\<open>busy\<close>); SHA-256 and \<open>float.__repr__\<close> are parameters. A request's work
  is a body that returns the resource; that it leaves the key table alone is the locale
  \<open>idempotent_work\<close>.
\<close>

definition fingerprint ::
  "(string \<Rightarrow> string) \<Rightarrow> (real \<Rightarrow> string) \<Rightarrow> string \<Rightarrow> string \<Rightarrow> json \<Rightarrow> string" where
  "fingerprint sha256 fl method path body =
     sha256 (py_upper method @ '' '' @ path @ '' '' @ dumps True fl body)"

text \<open>What \<open>x or {}\<close> replaces.\<close>

fun falsy :: "json \<Rightarrow> bool" where
  "falsy JNull = True"
| "falsy (JBool b) = (\<not> b)"
| "falsy (JInt i) = (i = 0)"
| "falsy (JReal r) = (r = 0)"
| "falsy (JStr s) = (s = [])"
| "falsy (JArr xs) = (xs = [])"
| "falsy (JObj d) = (d = [])"

definition stored_response :: "json option \<Rightarrow> json" where
  "stored_response v = (case v of None \<Rightarrow> JObj [] | Some b \<Rightarrow> if falsy b then JObj [] else b)"

fun str_of :: "json \<Rightarrow> string option" where
  "str_of (JStr s) = Some s"
| "str_of _ = None"

text \<open>The body of a handler's \<open>with\<close> block: the work, then \<open>slot.complete(code, result, result["id"])\<close>.\<close>

definition do_work :: "string option \<Rightarrow> int \<Rightarrow> json m \<Rightarrow> (bool \<times> json) m" where
  "do_work record_id code work =
     bind_op work (\<lambda>result.
     bind_op (lift_op (map_sum PyExn id (jindex result ''id''))) (\<lambda>rid.
     bind_op (if record_id = None then ret_op () else on_idm (idem_complete record_id code result (str_of rid))) (\<lambda>_.
     ret_op (False, result))))"

definition hold_key :: "tenant_ctx \<Rightarrow> bool \<Rightarrow> string \<Rightarrow> string \<Rightarrow> int \<Rightarrow> json m \<Rightarrow> (bool \<times> json) m" where
  "hold_key ctx busy key hash code work =
     bind_op (fresh_id (new_id ''idem'')) (\<lambda>i.
     bind_op (reads tx_now) (\<lambda>now.
     bind_op (guard_op busy (AppExn RequestInFlight)) (\<lambda>_.
     bind_op (on_idm (idem_claim now i (c_tenant ctx) (c_api_key ctx) key hash
                        idempotency_lease_seconds idempotency_ttl_hours)) (\<lambda>claimed_row.
     case claimed_row of
       Some row \<Rightarrow> do_work (Some (i_id row)) code work
     | None \<Rightarrow>
         bind_op (reads (\<lambda>s. idem_get now (c_api_key ctx) key (idm s))) (\<lambda>existing.
         case existing of
           None \<Rightarrow> do_work None code work
         | Some (row, expired) \<Rightarrow>
             if i_status row = COMPLETED then
               (if i_hash row \<noteq> hash then raise_op (AppExn IdempotencyKeyReuse)
                else ret_op (True, stored_response (i_body row)))
             else if \<not> expired then raise_op (AppExn RequestInFlight)
             else bind_op (on_idm (take_over_expired now (c_api_key ctx) key hash idempotency_lease_seconds)) (\<lambda>taken.
               case taken of
                 None \<Rightarrow> raise_op (AppExn RequestInFlight)
               | Some row' \<Rightarrow> do_work (Some (i_id row')) code work))))))"

text \<open>A whole request: whether it was replayed, and the response.\<close>

definition idempotent ::
  "tenant_ctx \<Rightarrow> bool \<Rightarrow> string option \<Rightarrow> string \<Rightarrow> int \<Rightarrow> json m \<Rightarrow> (bool \<times> json) m" where
  "idempotent ctx busy key hash code work =
     unit_of_work (case key of
         None \<Rightarrow> do_work None code work
       | Some k \<Rightarrow> hold_key ctx busy k hash code work)"

section \<open>Rolling back\<close>

text \<open>The same rows; only sequences may have advanced.\<close>

definition same_rows :: "st \<Rightarrow> st \<Rightarrow> bool" where
  "same_rows s s' \<longleftrightarrow> led s' = (led s)\<lparr>entry_seq := entry_seq (led s')\<rparr>
     \<and> evt s' = (evt s)\<lparr>outbox_seq := outbox_seq (evt s')\<rparr> \<and> nrm s' = nrm s \<and> rsk s' = rsk s
     \<and> hks s' = hks s \<and> idm s' = idm s \<and> sid s' = sid s"

lemma same_rows_refl [simp, intro]: "same_rows s s"
  by (simp add: same_rows_def)

lemma same_rows_rollback [simp, intro]: "same_rows s (rollback s s')"
  by (simp add: same_rows_def rollback_def)

lemma unit_of_work_fails: "unit_of_work body s = (Inl e, s') \<Longrightarrow> same_rows s s'"
  using unit_of_work_Inl by blast

section \<open>The abstract protocol\<close>

text \<open>What a client may rely on: a map from keys to the request's hash and the response.\<close>

type_synonym responses = "string \<times> string \<Rightarrow> (string \<times> json) option"

definition responses_of :: "idem_tables \<Rightarrow> responses" where
  "responses_of rows = (\<lambda>(api_key, key).
     map_option (\<lambda>r. (i_hash r, stored_response (i_body r)))
       (List.find (\<lambda>r. i_api_key r = api_key \<and> i_key r = key) rows))"

text \<open>Between transactions every key is completed, with a response that is an object of its own.\<close>

definition settled_keys :: "idem_tables \<Rightarrow> bool" where
  "settled_keys rows \<longleftrightarrow> idem_ok rows
     \<and> (\<forall>r \<in> set rows. i_status r = COMPLETED \<and> (\<exists>d. stored_response (i_body r) = JObj d))"

lemma find_append:
  "List.find P (xs @ ys) = (case List.find P xs of None \<Rightarrow> List.find P ys | Some x \<Rightarrow> Some x)"
  by (induction xs) auto

lemma find_map_id:
  "(\<And>r. P (f r) = P r) \<Longrightarrow> List.find P (map f xs) = map_option f (List.find P xs)"
  by (induction xs) auto

lemma find_None_iff': "List.find P xs = None \<longleftrightarrow> (\<forall>x \<in> set xs. \<not> P x)"
  by (metis find_None_iff)

locale idempotent_work =
  fixes work :: "json m"
  assumes work_keys: "keeps (\<lambda>s. idm s = rows) work"
begin

lemma do_work_run:
  assumes "do_work record_id code work s = (Inr (b, result), s')"
  shows "\<not> b" "\<exists>s1. work s = (Inr result, s1) \<and> led s' = led s1 \<and> evt s' = evt s1 \<and> nrm s' = nrm s1 \<and> rsk s' = rsk s1
      \<and> hks s' = hks s1 \<and> sid s' = sid s1 \<and> strm s' = strm s1"
    "\<exists>rid. idm s' = (if record_id = None then idm s else snd (idem_complete record_id code result rid (idm s)))"
    "\<exists>p d. result = JObj (p # d)"
proof -
  from assms obtain s1 rid where w: "work s = (Inr result, s1)" and j: "jindex result ''id'' = Inr rid"
    and b: "b = False" and s': "(if record_id = None then ret_op () else on_idm (idem_complete record_id code result (str_of rid))) s1 = (Inr (), s')"
    by (cases "jindex result ''id''") (auto simp: do_work_def bind_op_Inr_iff basic_op_iff simp del: op_run split: if_splits sum.splits)
  have keys: "idm s1 = idm s" using keepsD [OF work_keys refl w] .
  show "\<not> b" using b by simp
  from j obtain d where "result = JObj d" "map_of d ''id'' \<noteq> None" by (cases result) (auto split: option.splits)
  then show "\<exists>p d. result = JObj (p # d)" by (cases d) auto
  show "\<exists>s1. work s = (Inr result, s1) \<and> led s' = led s1 \<and> evt s' = evt s1 \<and> nrm s' = nrm s1 \<and> rsk s' = rsk s1
      \<and> hks s' = hks s1 \<and> sid s' = sid s1 \<and> strm s' = strm s1"
    using w s' by (auto simp: on_idm_def zoom_def idem_complete_def split: if_splits)
  show "\<exists>rid. idm s' = (if record_id = None then idm s else snd (idem_complete record_id code result rid (idm s)))"
    using s' keys by (auto simp: on_idm_def zoom_def idem_complete_def split: if_splits)
qed

end

lemma idem_claim_eq:
  "idem_claim now i tenant api_key key hash lease ttl rows =
     (if List.find (\<lambda>r. i_api_key r = api_key \<and> i_key r = key) rows \<noteq> None then (Inr None, rows)
      else if i \<in> i_id ` set rows then (Inl (DbExn UniqueViolation), rows)
      else (let row = \<lparr>i_id = i, i_tenant = tenant, i_api_key = api_key, i_key = key, i_hash = hash,
              i_status = IN_PROGRESS, i_code = None, i_body = None, i_resource = None,
              i_lease = now + seconds lease, i_created = now, i_expires = now + seconds (3600 * ttl)\<rparr> in
            (Inr (Some row), rows @ [row])))"
  by (auto simp: idem_claim_def bind_op_def guard_op_def Let_def find_None_iff' image_iff)

lemma complete_new:
  assumes "i_id row \<notin> i_id ` set rows"
  shows "snd (idem_complete (Some (i_id row)) code b rid (rows @ [row]))
    = rows @ [row\<lparr>i_status := COMPLETED, i_code := Some code, i_body := Some b, i_resource := rid\<rparr>]"
proof -
  have "map (\<lambda>r. if i_id r = i_id row
      then r\<lparr>i_status := COMPLETED, i_code := Some code, i_body := Some b, i_resource := rid\<rparr> else r) rows = rows"
    using assms by (intro map_idI) (metis imageI)
  then show ?thesis by (simp add: idem_complete_def)
qed

text \<open>A key that has an answer: the answer, a refusal, or a request to come back; no row changes.\<close>

lemma idempotent_hit:
  assumes hit: "responses_of (idm s) (c_api_key ctx, key) = Some (h, b)" and ok: "settled_keys (idm s)"
    and run: "idempotent ctx busy (Some key) hash code work s = (r, s')"
  shows "same_rows s s' \<and> r = (if busy then Inl (AppExn RequestInFlight)
     else if h = hash then Inr (True, b) else Inl (AppExn IdempotencyKeyReuse))"
proof -
  from hit obtain row where row: "List.find (\<lambda>r. i_api_key r = c_api_key ctx \<and> i_key r = key) (idm s) = Some row"
    and hb: "h = i_hash row" "b = stored_response (i_body row)" by (auto simp: responses_of_def)
  have "i_status row = COMPLETED" using ok row by (auto simp: settled_keys_def find_Some_iff)
  moreover obtain i g where i: "new_id ''idem'' (idg s) = (i, g)" by fastforce
  ultimately show ?thesis
    using run row hb
    by (cases busy; cases "i_hash row = hash")
      (auto simp: idempotent_def unit_of_work_def hold_key_def bind_op_def fresh_id_def guard_op_def on_idm_def
        zoom_def idem_claim_eq idem_get_def same_rows_def rollback_def)
qed

context idempotent_work
begin

text \<open>A key without an answer: the work is done and its result recorded under the key, or nothing happens.\<close>

lemma idempotent_miss:
  assumes miss: "responses_of (idm s) (c_api_key ctx, key) = None" and ok: "settled_keys (idm s)"
    and run: "idempotent ctx busy (Some key) hash code work s = (r, s')"
  shows "(\<exists>e. r = Inl e \<and> same_rows s s')
   \<or> (\<exists>b s0 s1. r = Inr (False, b) \<and> work s0 = (Inr b, s1)
       \<and> led s0 = led s \<and> evt s0 = evt s \<and> nrm s0 = nrm s \<and> rsk s0 = rsk s \<and> hks s0 = hks s \<and> sid s0 = sid s
       \<and> led s' = led s1 \<and> evt s' = evt s1 \<and> nrm s' = nrm s1 \<and> rsk s' = rsk s1 \<and> hks s' = hks s1 \<and> sid s' = sid s1
       \<and> settled_keys (idm s') \<and> responses_of (idm s') = (responses_of (idm s))((c_api_key ctx, key) \<mapsto> (hash, b)))"
proof (cases r)
  case (Inl e)
  with run unit_of_work_fails show ?thesis unfolding idempotent_def by blast
next
  case (Inr x)
  obtain i g where i: "new_id ''idem'' (idg s) = (i, g)" by fastforce
  let ?s = "s\<lparr>tx_now := wall s, idg := g\<rparr>"
  have none: "List.find (\<lambda>r. i_api_key r = c_api_key ctx \<and> i_key r = key) (idm s) = None"
    using miss by (simp add: responses_of_def)
  have body: "hold_key ctx busy key hash code work (s\<lparr>tx_now := wall s\<rparr>) = (Inr x, s')"
    using run Inr by (simp add: idempotent_def unit_of_work_Inr_iff)
  then have free: "\<not> busy" "i \<notin> i_id ` set (idm s)"
    using none i by (auto simp: hold_key_def bind_op_def fresh_id_def guard_op_def on_idm_def zoom_def idem_claim_eq
        split: if_splits)
  let ?row = "\<lparr>i_id = i, i_tenant = c_tenant ctx, i_api_key = c_api_key ctx, i_key = key, i_hash = hash,
      i_status = IN_PROGRESS, i_code = None, i_body = None, i_resource = None,
      i_lease = wall s + seconds idempotency_lease_seconds, i_created = wall s,
      i_expires = wall s + seconds (3600 * idempotency_ttl_hours)\<rparr>"
  let ?s0 = "?s\<lparr>idm := idm s @ [?row]\<rparr>"
  have work_run: "do_work (Some i) code work ?s0 = (Inr x, s')"
    using body none free i
    by (simp add: hold_key_def bind_op_def fresh_id_def guard_op_def on_idm_def zoom_def idem_claim_eq Let_def)
  obtain f b where x: "x = (f, b)" by fastforce
  note dw = do_work_run [OF work_run [unfolded x]]
  obtain s1 where w: "work ?s0 = (Inr b, s1)" "led s' = led s1" "evt s' = evt s1" "nrm s' = nrm s1"
    "rsk s' = rsk s1" "hks s' = hks s1" "sid s' = sid s1" using dw(2) by blast
  obtain rid where "idm s' = snd (idem_complete (Some i) code b rid (idm s @ [?row]))" using dw(3) by auto
  then have rows: "idm s' = idm s @ [?row\<lparr>i_status := COMPLETED, i_code := Some code, i_body := Some b, i_resource := rid\<rparr>]"
    using complete_new [of ?row "idm s" code b rid] free(2) by simp
  have "settled_keys (idm s')"
    using ok free(2) none dw(4) by (auto simp: rows settled_keys_def idem_ok_def find_None_iff' stored_response_def)
  moreover have "responses_of (idm s') = (responses_of (idm s))((c_api_key ctx, key) \<mapsto> (hash, b))"
    using none dw(4)
    by (auto simp: fun_eq_iff responses_of_def rows find_append stored_response_def split: option.split)
  ultimately show ?thesis using Inr x dw(1) w
    by (intro disjI2 exI [of _ b] exI [of _ ?s0] exI [of _ s1]) simp
qed

end

end
