(* ===== verification/Resources.thy ===== *)
theory Resources
  imports Schemas Idempotency
begin

text \<open>
  \<open>api/routers/resources.py\<close>: the endpoints, over the services and the repositories. Each handler runs
  with the caller's context and a validated body, and returns the response's body; the four money
  endpoints also say whether it was replayed. Bounds of query parameters are checked by FastAPI.
\<close>

definition money_arg :: "int \<Rightarrow> string \<Rightarrow> exn + money" where
  "money_arg amount cur =
     (case mk_money amount cur of
        Inl (MoneyExn e) \<Rightarrow> Inl (AppExn (LedgerFlowError (Some ''currency'')))
      | Inl e \<Rightarrow> Inl e
      | Inr m \<Rightarrow> Inr m)"

section \<open>Writes under an idempotency key\<close>

definition account_work :: "tenant_ctx \<Rightarrow> account_body \<Rightarrow> json m" where
  "account_work ctx b =
     create_account ctx (ab_name b) (ab_type b) (ab_currency b) (ab_external b) (ab_minimum b) (ab_metadata b)"

definition txn_work :: "tenant_ctx \<Rightarrow> txn_body \<Rightarrow> json m" where
  "txn_work ctx b =
     bind_op (lift_op (money_arg (tb_amount b) (tb_currency b))) (\<lambda>amount.
     post_transaction ctx (tb_kind b) (tb_accounts b) amount (tb_effective b) (tb_descriptor b) (tb_metadata b))"

definition transfer_work :: "tenant_ctx \<Rightarrow> transfer_body \<Rightarrow> json m" where
  "transfer_work ctx b =
     bind_op (lift_op (money_arg (fb_amount b) (fb_currency b))) (\<lambda>amount.
     transfer ctx (fb_source b) (fb_destination b) amount (fb_effective b) (fb_metadata b))"

definition keyed :: "api_env \<Rightarrow> request \<Rightarrow> tenant_ctx \<Rightarrow> string \<Rightarrow> json \<Rightarrow> json m \<Rightarrow> (bool \<times> json) m" where
  "keyed env rq ctx path body work =
     idempotent ctx (ae_busy env) (rq_key rq)
       (fingerprint (ae_sha256 env) (ae_float env) ''POST'' path body) 201 work"

definition create_account_api :: "api_env \<Rightarrow> request \<Rightarrow> tenant_ctx \<Rightarrow> account_body \<Rightarrow> (bool \<times> json) m" where
  "create_account_api env rq ctx b = keyed env rq ctx ''/v1/accounts'' (account_dump b) (account_work ctx b)"

definition create_transaction_api :: "api_env \<Rightarrow> request \<Rightarrow> tenant_ctx \<Rightarrow> txn_body \<Rightarrow> (bool \<times> json) m" where
  "create_transaction_api env rq ctx b = keyed env rq ctx ''/v1/transactions'' (txn_dump env b) (txn_work ctx b)"

definition reverse_transaction_api ::
  "api_env \<Rightarrow> request \<Rightarrow> tenant_ctx \<Rightarrow> string \<Rightarrow> reversal_body \<Rightarrow> (bool \<times> json) m" where
  "reverse_transaction_api env rq ctx i b =
     keyed env rq ctx (''/v1/transactions/'' @ i @ ''/reversals'') (reversal_dump env b)
       (reverse_transaction ctx i (vb_effective b))"

definition create_transfer_api :: "api_env \<Rightarrow> request \<Rightarrow> tenant_ctx \<Rightarrow> transfer_body \<Rightarrow> (bool \<times> json) m" where
  "create_transfer_api env rq ctx b = keyed env rq ctx ''/v1/transfers'' (transfer_dump env b) (transfer_work ctx b)"

section \<open>Accounts, transactions and the ledger\<close>

definition with_balance :: "account_row \<Rightarrow> json m" where
  "with_balance row = reads_r (\<lambda>s. bind_r (account_balance (a_id row) (led s)) (\<lambda>b.
     Inr (account_json row (Some (b_balance b)))))"

definition list_accounts_api :: "tenant_ctx \<Rightarrow> nat \<Rightarrow> json m" where
  "list_accounts_api ctx limit =
     read_only
       (bind_op (reads (\<lambda>s. account_list (c_tenant ctx) (c_mode ctx) limit (led s))) (\<lambda>rows.
        bind_op (map_op with_balance rows) (\<lambda>js. ret_op (listing js False))))"

definition get_account_api :: "tenant_ctx \<Rightarrow> string \<Rightarrow> json m" where
  "get_account_api ctx ref = read_only (bind_op (resolve_account ctx ref) with_balance)"

definition get_balance_api :: "api_env \<Rightarrow> tenant_ctx \<Rightarrow> string \<Rightarrow> string option \<Rightarrow> string option \<Rightarrow> json m" where
  "get_balance_api env ctx ref as_of known =
     read_only
       (bind_op (lift_op (parse_timestamp env as_of)) (\<lambda>t.
        bind_op (lift_op (parse_timestamp env known)) (\<lambda>k.
        balance_query ctx ref t k)))"

text \<open>\<open>resolve_account(account)["id"] if account else None\<close>.\<close>

definition account_filter :: "tenant_ctx \<Rightarrow> string option \<Rightarrow> string option m" where
  "account_filter ctx account =
     (case account of
        None \<Rightarrow> ret_op None
      | Some ref \<Rightarrow> if ref = [] then ret_op None
          else bind_op (resolve_account ctx ref) (\<lambda>row. ret_op (Some (a_id row))))"

definition list_transactions_api ::
  "tenant_ctx \<Rightarrow> string option \<Rightarrow> string option \<Rightarrow> string option \<Rightarrow> nat \<Rightarrow> json m" where
  "list_transactions_api ctx account category starting_after limit =
     read_only
       (bind_op (account_filter ctx account) (\<lambda>acct.
        reads (\<lambda>s.
          let rows = txn_list (c_tenant ctx) (c_mode ctx) acct category starting_after (limit + 1) (led s) (nrm s) in
          listing (map (\<lambda>r. listed_json r (Some (entries_for_transaction (t_id (lr_txn r)) (led s)))) (take limit rows))
            (limit < length rows))))"

definition get_transaction_api :: "tenant_ctx \<Rightarrow> string \<Rightarrow> json m" where
  "get_transaction_api ctx i =
     read_only
       (bind_op (reads_r (\<lambda>s. from_option (AppExn (NotFound None)) (txn_get i (c_tenant ctx) (c_mode ctx) (led s)))) (\<lambda>row.
        reads (\<lambda>s. transaction_json row (Some (entries_for_transaction (t_id row) (led s))))))"

definition list_entries_api :: "tenant_ctx \<Rightarrow> string option \<Rightarrow> nat \<Rightarrow> nat \<Rightarrow> json m" where
  "list_entries_api ctx account since limit =
     read_only
       (bind_op (account_filter ctx account) (\<lambda>acct.
        reads (\<lambda>s. listing (map (\<lambda>(e, _). entry_json e) (entries_list acct since limit (led s))) False)))"

section \<open>Events, replays and dead letters\<close>

definition list_events_api :: "tenant_ctx \<Rightarrow> string option \<Rightarrow> nat \<Rightarrow> json m" where
  "list_events_api ctx starting_after limit =
     read_only (reads (\<lambda>s.
       listing (map event_json (event_list (c_tenant ctx) (c_mode ctx) starting_after limit (evt s))) False))"

definition own_event :: "tenant_ctx \<Rightarrow> string \<Rightarrow> outbox_row m" where
  "own_event ctx i =
     reads_r (\<lambda>s. from_option (AppExn (NotFound None)) (event_get i (c_tenant ctx) (c_mode ctx) (evt s)))"

definition get_event_api :: "tenant_ctx \<Rightarrow> string \<Rightarrow> json m" where
  "get_event_api ctx i = read_only (bind_op (own_event ctx i) (\<lambda>row. ret_op (event_json row)))"

definition queue_delivery :: "string \<Rightarrow> endpoint_row \<Rightarrow> json m" where
  "queue_delivery event w =
     bind_op (fresh_id (new_id ''whd'')) (\<lambda>i.
     bind_op (reads tx_now) (\<lambda>now.
     bind_op (on_hks (delivery_enqueue now i (we_id w) event)) (\<lambda>row.
     ret_op (webhook_delivery_json row))))"

definition redeliver_event_api :: "tenant_ctx \<Rightarrow> string \<Rightarrow> json m" where
  "redeliver_event_api ctx i =
     unit_of_work
       (bind_op (own_event ctx i) (\<lambda>event.
        bind_op (reads (\<lambda>s. endpoints_for (c_tenant ctx) (c_mode ctx) (o_type event) (hks s))) (\<lambda>ws.
        bind_op (map_op (queue_delivery i) ws) (\<lambda>queued.
        ret_op (listing queued False)))))"

definition insert_replay :: "replay_row \<Rightarrow> (side_tables, unit) op" where
  "insert_replay row =
     bind_op (reads replays) (\<lambda>rs.
     bind_op (guard_op (\<exists>r \<in> set rs. rp_id r = rp_id row) (DbExn UniqueViolation)) (\<lambda>_.
     bind_op (guard_op (\<not> in_bigint (rp_from row)) (DbExn NumericOutOfRange)) (\<lambda>_.
     writes (\<lambda>t. t\<lparr>replays := replays t @ [row]\<rparr>))))"

text \<open>The events of a range of the stream, and the dedupe claims of a group on them.\<close>

definition events_between :: "string \<Rightarrow> nat \<Rightarrow> nat \<Rightarrow> stream_tables \<Rightarrow> string set" where
  "events_between topic a b t =
     msg_event ` set (filter (\<lambda>m. msg_topic m = topic \<and> a < msg_offset m \<and> msg_offset m \<le> b) (messages t))"

definition clear_claims :: "string \<Rightarrow> string set \<Rightarrow> (event_tables, unit) op" where
  "clear_claims grp events =
     writes (\<lambda>v. v\<lparr>processed := filter (\<lambda>p. \<not> (fst p = grp \<and> snd p \<in> events)) (processed v)\<rparr>)"

definition create_replay_api :: "tenant_ctx \<Rightarrow> replay_body \<Rightarrow> json m" where
  "create_replay_api ctx b =
     bind_op (fresh_id (new_id ''rep'')) (\<lambda>i.
     bind_op (reads (\<lambda>s. pg_head (yb_topic b) (strm s))) (\<lambda>head.
     bind_op (unit_of_work
       (bind_op (reads tx_now) (\<lambda>now.
        bind_op (on_sid (insert_replay
          \<lparr>rp_id = i, rp_group = yb_group b, rp_topic = yb_topic b, rp_from = int (yb_from b), rp_to = head,
           rp_reason = yb_reason b, rp_requested = now\<rparr>)) (\<lambda>_.
        bind_op (reads (\<lambda>s. events_between (yb_topic b) (yb_from b) head (strm s))) (\<lambda>events.
        on_evt (clear_claims (yb_group b) events)))))) (\<lambda>_.
     bind_op (writes (\<lambda>s. s\<lparr>strm := pg_seek (yb_topic b) (yb_group b) (yb_from b) (strm s)\<rparr>)) (\<lambda>_.
     ret_op (JObj
       [(''id'', JStr i), (''object'', JStr ''replay''), (''consumer_group'', JStr (yb_group b)),
        (''topic'', JStr (yb_topic b)), (''from_offset'', JInt (int (yb_from b))), (''to_offset'', JInt (int head)),
        (''reason'', JStr (yb_reason b))])))))"

definition list_dead_letters_api :: "string option \<Rightarrow> bool \<Rightarrow> nat \<Rightarrow> json m" where
  "list_dead_letters_api consumer_group unresolved limit =
     read_only (reads (\<lambda>s.
       listing (map dead_letter_json (list_dead_letters consumer_group unresolved limit (evt s))) False))"

definition redrive_api :: "string \<Rightarrow> json m" where
  "redrive_api i =
     unit_of_work
       (bind_op (reads tx_now) (\<lambda>now.
        bind_op (on_evt (resolve_dead_letter now i)) (\<lambda>hit.
        bind_op (lift_op (from_option (AppExn (NotFound None)) hit)) (\<lambda>row.
        bind_op (on_evt (release_claim (dl_group row) (dl_event row))) (\<lambda>_.
        ret_op (dead_letter_json row))))))"

section \<open>Webhooks\<close>

definition create_webhook_endpoint_api :: "api_env \<Rightarrow> tenant_ctx \<Rightarrow> endpoint_body \<Rightarrow> json m" where
  "create_webhook_endpoint_api env ctx b =
     (let secret = ''whsec_'' @ ae_token env in
      bind_op (unit_of_work
        (bind_op (fresh_id (new_id ''whe'')) (\<lambda>i.
         bind_op (reads tx_now) (\<lambda>now.
         bind_op (reads (\<lambda>s. tenants (led s))) (\<lambda>ts.
         on_hks (create_endpoint ts now i (c_tenant ctx) (c_mode ctx) (eb_url b) (ae_sha256 env secret) (eb_events b))))))) (\<lambda>row.
      ret_op (case webhook_endpoint_json row of JObj d \<Rightarrow> JObj (d @ [(''secret'', JStr secret)]) | j \<Rightarrow> j)))"

definition list_deliveries_api :: "tenant_ctx \<Rightarrow> string \<Rightarrow> nat \<Rightarrow> json m" where
  "list_deliveries_api ctx i limit =
     read_only
       (bind_op (reads (\<lambda>s. get_endpoint i (hks s))) (\<lambda>hit.
        bind_op (guard_op (case hit of None \<Rightarrow> True | Some w \<Rightarrow> we_tenant w \<noteq> c_tenant ctx) (AppExn (NotFound None))) (\<lambda>_.
        reads (\<lambda>s. listing (map webhook_delivery_json (deliveries_for i limit (hks s))) False))))"

definition retry_delivery_api :: "string \<Rightarrow> json m" where
  "retry_delivery_api i =
     unit_of_work
       (bind_op (reads tx_now) (\<lambda>now.
        bind_op (on_hks (delivery_retry now i)) (\<lambda>hit.
        bind_op (lift_op (from_option (AppExn (NotFound None)) hit)) (\<lambda>row.
        ret_op (webhook_delivery_json row)))))"

section \<open>What the bodies leave alone\<close>

text \<open>The idempotency keys and the stream.\<close>

lemma keeps_side_frame [keeps_intros]:
  "keeps (\<lambda>s. Q (idm s) (strm s)) (on_led m1)" "keeps (\<lambda>s. Q (idm s) (strm s)) (on_evt m2)"
  "keeps (\<lambda>s. Q (idm s) (strm s)) (on_nrm m3)" "keeps (\<lambda>s. Q (idm s) (strm s)) (on_rsk m4)"
  "keeps (\<lambda>s. Q (idm s) (strm s)) (on_hks m5)" "keeps (\<lambda>s. Q (idm s) (strm s)) (on_sid m6)"
  "keeps (\<lambda>s. Q (idm s) (strm s)) (fresh_id g)"
  by (auto simp: keeps_def on_led_def on_evt_def on_nrm_def on_rsk_def on_hks_def on_sid_def
      fresh_id_def zoom_def split_beta Let_def)

lemma keeps_side_services [keeps_intros]:
  "keeps (\<lambda>s. Q (idm s) (strm s)) (create_account ctx name ty cur ext minimum props)"
  "keeps (\<lambda>s. Q (idm s) (strm s)) (post_transaction ctx kind accts amount effective descriptor md)"
  "keeps (\<lambda>s. Q (idm s) (strm s)) (reverse_transaction ctx i effective)"
  "keeps (\<lambda>s. Q (idm s) (strm s)) (transfer ctx source destination amount effective md)"
  unfolding create_account_def post_transaction_def post_resolved_def reverse_transaction_def transfer_def
    insert_descriptor_def emit_def Let_def
  by (intro keeps_intros)+

lemma keeps_side_works [keeps_intros]:
  "keeps (\<lambda>s. Q (idm s) (strm s)) (account_work ctx ab)"
  "keeps (\<lambda>s. Q (idm s) (strm s)) (txn_work ctx tb)"
  "keeps (\<lambda>s. Q (idm s) (strm s)) (transfer_work ctx fb)"
  unfolding account_work_def txn_work_def transfer_work_def by (intro keeps_intros)+

interpretation account_key: idempotent_work "account_work ctx b" for ctx b
  by unfold_locales (rule keeps_side_works)

interpretation transaction_key: idempotent_work "txn_work ctx b" for ctx b
  by unfold_locales (rule keeps_side_works)

interpretation transfer_key: idempotent_work "transfer_work ctx b" for ctx b
  by unfold_locales (rule keeps_side_works)

interpretation reversal_key: idempotent_work "reverse_transaction ctx i t" for ctx i t
  by unfold_locales (rule keeps_side_services)

end
