(* ===== verification/Analytics.thy ===== *)
theory Analytics
  imports Resources
begin

text \<open>
  The operations and analytics endpoints of \<open>api/routers/resources.py\<close>: who a key is, health, fraud
  signals, reconciliation, and the series a chart shows.
\<close>

section \<open>Operations\<close>

definition newest_txn :: "tenant_ctx \<Rightarrow> ledger_tables \<Rightarrow> int option" where
  "newest_txn ctx l =
     (case filter (\<lambda>t. t_tenant t = c_tenant ctx \<and> t_mode t = c_mode ctx) (transactions l) of
        [] \<Rightarrow> None
      | t # ts \<Rightarrow> Some (foldl (\<lambda>m x. max m (t_effective x)) (t_effective t) ts))"

definition whoami_api :: "tenant_ctx \<Rightarrow> json m" where
  "whoami_api ctx =
     read_only (reads (\<lambda>s. JObj
       [(''object'', JStr ''connection''), (''tenant'', JStr (c_tenant ctx)),
        (''tenant_name'', jopt JStr (dget (tenant_names (sid s)) (c_tenant ctx))),
        (''mode'', JStr (mode_value (c_mode ctx))),
        (''key'', jopt (\<lambda>k. JStr (k_prefix k @ ''...'' @ k_last4 k))
           (List.find (\<lambda>k. k_id k = c_api_key ctx) (api_keys (sid s)))),
        (''accounts'', JInt (int (length (filter (\<lambda>a. a_tenant a = c_tenant ctx \<and> a_mode a = c_mode ctx)
           (accounts (led s)))))),
        (''transactions'', JInt (int (length (filter (\<lambda>t. t_tenant t = c_tenant ctx \<and> t_mode t = c_mode ctx)
           (transactions (led s)))))),
        (''newest_transaction'', jopt ts_json (newest_txn ctx (led s)))]))"

definition health_api :: "json m" where
  "health_api = read_only health"

definition list_fraud_signals_api :: "tenant_ctx \<Rightarrow> string option \<Rightarrow> nat \<Rightarrow> json m" where
  "list_fraud_signals_api ctx account limit =
     read_only
       (bind_op (account_filter ctx account) (\<lambda>acct.
        reads (\<lambda>s. listing (map (\<lambda>(r, _). fraud_signal_json r)
          (list_signals (c_tenant ctx) acct limit (led s) (rsk s))) False)))"

definition spend_by_category_api :: "tenant_ctx \<Rightarrow> string option \<Rightarrow> int \<Rightarrow> json m" where
  "spend_by_category_api ctx account days =
     read_only
       (bind_op (account_filter ctx account) (\<lambda>acct.
        reads_r (\<lambda>s. bind_r (spend_by_category (tx_now s) (c_tenant ctx) (c_mode ctx) acct days (led s) (nrm s)) (\<lambda>rows.
          Inr (listing (map (\<lambda>r. JObj
            [(''object'', JStr ''category_spend''), (''category'', JStr (cg_category r)),
             (''spend'', JInt (cg_spend r)), (''txn_count'', JInt (int (cg_txns r))),
             (''unresolved'', JInt (int (cg_unresolved r)))]) rows) False)))))"

definition mismatch_json :: "mismatch_row \<Rightarrow> json" where
  "mismatch_json r = JObj
     [(''account_id'', JStr (m_account r)), (''recomputed'', JInt (m_recomputed r)), (''cached'', JInt (m_cached r)),
      (''up_to_entry_id'', JInt (int (m_up_to r))), (''uncached_delta'', JInt (m_delta r))]"

definition reconcile_api :: "json m" where
  "reconcile_api =
     read_only
       (reads_r (\<lambda>s. bind_r (reconcile (led s)) (\<lambda>mismatches. bind_r (global_drift (led s)) (\<lambda>drift.
          Inr (JObj
            [(''object'', JStr ''reconciliation''), (''mismatches'', JArr (map mismatch_json mismatches)),
             (''ledger_drift'', JArr (map (\<lambda>(c, d). JObj [(''currency'', JStr c), (''drift'', JInt d)]) drift)),
             (''ok'', JBool (mismatches = [] \<and> drift = []))])))))"

section \<open>Windows\<close>

definition window :: "api_env \<Rightarrow> int \<Rightarrow> string option \<Rightarrow> string option \<Rightarrow> int \<Rightarrow> exn + int \<times> int" where
  "window env days start finish now =
     bind_r (parse_timestamp env finish) (\<lambda>f.
     let finish = (case f of None \<Rightarrow> now | Some t \<Rightarrow> instant t) in
     bind_r (parse_timestamp env start) (\<lambda>b.
     bind_r (case b of
               Some t \<Rightarrow> Inr (instant t)
             | None \<Rightarrow> let t = finish - days * microseconds_per_day in
                 if t < min_datetime then Inl (PyExn OverflowError) else Inr t) (\<lambda>begin_at.
     if finish \<le> begin_at then Inl (AppExn (LedgerFlowError (Some ''start'')))
     else Inr (begin_at, finish))))"

section \<open>Balance history\<close>

record balance_series =
  bs_id :: string
  bs_name :: string
  bs_type :: account_type
  bs_points :: "(int \<times> int) list"

definition add_balance :: "(string, balance_series) dict \<Rightarrow> history_row \<Rightarrow> (string, balance_series) dict" where
  "add_balance series row =
     (let old = (case dget series (h_id row) of
                   None \<Rightarrow> \<lparr>bs_id = h_id row, bs_name = h_name row, bs_type = h_type row, bs_points = []\<rparr>
                 | Some x \<Rightarrow> x)
      in dset (h_id row) (old\<lparr>bs_points := bs_points old @ [(ts_seconds (h_at row), h_balance row)]\<rparr>) series)"

definition moved :: "balance_series \<Rightarrow> bool" where
  "moved x \<longleftrightarrow> (\<exists>p \<in> set (bs_points x). snd p \<noteq> 0)"

definition balance_listing :: "bool \<Rightarrow> history_row list \<Rightarrow> balance_series list" where
  "balance_listing one_account rows =
     (let series = map snd (foldl add_balance [] rows);
          live = filter moved series
      in sort_key bs_name (if live = [] \<and> one_account then series else live))"

definition balance_series_json :: "balance_series \<Rightarrow> json" where
  "balance_series_json x = JObj
     [(''object'', JStr ''balance_series''), (''account'', JStr (bs_id x)), (''name'', JStr (bs_name x)),
      (''type'', JStr (type_value (bs_type x))),
      (''points'', JArr (map (\<lambda>(t, b). JObj [(''at'', JInt t), (''balance'', JInt b)]) (bs_points x)))]"

definition balance_history_api ::
  "api_env \<Rightarrow> tenant_ctx \<Rightarrow> int \<Rightarrow> string option \<Rightarrow> string option \<Rightarrow> nat \<Rightarrow> string option \<Rightarrow> json m" where
  "balance_history_api env ctx days start finish points account =
     bind_op (reads_r (\<lambda>s. window env days start finish (wall s))) (\<lambda>(b, f).
     read_only
       (bind_op (account_filter ctx account) (\<lambda>acct.
        reads_r (\<lambda>s. bind_r (balance_history (c_tenant ctx) (c_mode ctx) b f points [ASSET, LIABILITY] acct (led s)) (\<lambda>rows.
          Inr (listing (map balance_series_json (balance_listing (acct \<noteq> None \<and> acct \<noteq> Some []) rows)) False))))))"

section \<open>Spending history\<close>

type_synonym spend_points = "(int \<times> int) list"

definition add_spend :: "(string, spend_points) dict \<Rightarrow> string \<times> int \<times> int \<Rightarrow> (string, spend_points) dict" where
  "add_spend series row =
     (let (category, t, spend) = row in
      dset category ((case dget series category of None \<Rightarrow> [] | Some ps \<Rightarrow> ps) @ [(ts_seconds t, spend)]) series)"

definition last_spend :: "spend_points \<Rightarrow> int" where
  "last_spend ps = (if ps = [] then 0 else snd (last ps))"

text \<open>The tail's points, added up at each instant; \<open>sorted(merged.items())\<close>.\<close>

definition merge_points :: "spend_points list \<Rightarrow> (int, int) dict" where
  "merge_points tail = foldl (\<lambda>d p. dbump (fst p) (snd p) d) [] (concat tail)"

definition spend_listing :: "nat \<Rightarrow> (string \<times> int \<times> int) list \<Rightarrow> (string \<times> spend_points) list" where
  "spend_listing n rows =
     (let series = foldl add_spend [] rows;
          ranked = sort_key (\<lambda>x. - last_spend (snd x)) series;
          shown = filter (\<lambda>x. snd x \<noteq> [] \<and> 0 < last_spend (snd x)) (take n ranked);
          merged = merge_points (map snd (drop n ranked))
      in shown @ (if \<exists>p \<in> set merged. snd p \<noteq> 0 then [(''Other'', sort_key fst merged)] else []))"

definition spend_series_json :: "string \<times> spend_points \<Rightarrow> json" where
  "spend_series_json x = JObj
     [(''object'', JStr ''spend_series''), (''category'', JStr (fst x)),
      (''points'', JArr (map (\<lambda>(t, v). JObj [(''at'', JInt t), (''spend'', JInt v)]) (snd x)))]"

definition spending_history_api ::
  "api_env \<Rightarrow> tenant_ctx \<Rightarrow> int \<Rightarrow> string option \<Rightarrow> string option \<Rightarrow> nat \<Rightarrow> nat \<Rightarrow> json m" where
  "spending_history_api env ctx days start finish points n =
     bind_op (reads_r (\<lambda>s. window env days start finish (wall s))) (\<lambda>(b, f).
     read_only
       (reads_r (\<lambda>s. bind_r (spending_history (c_tenant ctx) (c_mode ctx) b f points (led s)) (\<lambda>rows.
          Inr (listing (map spend_series_json (spend_listing n rows)) False)))))"

end
