(* ===== verification/Api.thy ===== *)
theory Api
  imports Analytics
begin

text \<open>
  \<open>api/main.py\<close>: a request goes through its context, its endpoint, the exception handlers and the two
  middlewares. Routing and validation are FastAPI's: a request arrives as a validated call, or as the list
  of its validation errors, each a location and a message. The handler for unexpected exceptions runs
  outside the middlewares, where Starlette puts it. Logging, \<open>/healthz\<close> and static files are left out.
\<close>

datatype endpoint =
    CreateAccount account_body
  | ListAccounts nat
  | GetAccount string
  | GetBalance string "string option" "string option"
  | CreateTransaction txn_body
  | ListTransactions "string option" "string option" "string option" nat
  | GetTransaction string
  | CreateReversal string reversal_body
  | CreateTransfer transfer_body
  | ListEntries "string option" nat nat
  | ListEvents "string option" nat
  | GetEvent string
  | RedeliverEvent string
  | CreateReplay replay_body
  | ListDeadLetters "string option" bool nat
  | Redrive string
  | CreateWebhookEndpoint endpoint_body
  | ListDeliveries string nat
  | RetryDelivery string
  | WhoAmI
  | Health
  | ListFraudSignals "string option" nat
  | SpendByCategory "string option" int
  | BalanceHistory int "string option" "string option" nat "string option"
  | SpendingHistory int "string option" "string option" nat nat
  | Reconcile

text \<open>The decorators: \<open>@router.post(...)\<close> and \<open>status_code=\<close>.\<close>

fun method_of :: "endpoint \<Rightarrow> string" where
  "method_of (CreateAccount _) = ''POST''"
| "method_of (CreateTransaction _) = ''POST''"
| "method_of (CreateReversal _ _) = ''POST''"
| "method_of (CreateTransfer _) = ''POST''"
| "method_of (RedeliverEvent _) = ''POST''"
| "method_of (CreateReplay _) = ''POST''"
| "method_of (Redrive _) = ''POST''"
| "method_of (CreateWebhookEndpoint _) = ''POST''"
| "method_of (RetryDelivery _) = ''POST''"
| "method_of Reconcile = ''POST''"
| "method_of _ = ''GET''"

fun status_of :: "endpoint \<Rightarrow> nat" where
  "status_of (CreateAccount _) = 201"
| "status_of (CreateTransaction _) = 201"
| "status_of (CreateReversal _ _) = 201"
| "status_of (CreateTransfer _) = 201"
| "status_of (CreateWebhookEndpoint _) = 201"
| "status_of (RedeliverEvent _) = 202"
| "status_of (CreateReplay _) = 202"
| "status_of (Redrive _) = 202"
| "status_of (RetryDelivery _) = 202"
| "status_of _ = 200"

definition plain :: "json m \<Rightarrow> (bool \<times> json) m" where
  "plain body = bind_op body (\<lambda>j. ret_op (False, j))"

text \<open>Whether the response was replayed, and the response.\<close>

fun handle :: "api_env \<Rightarrow> request \<Rightarrow> tenant_ctx \<Rightarrow> endpoint \<Rightarrow> (bool \<times> json) m" where
  "handle env rq ctx (CreateAccount b) = create_account_api env rq ctx b"
| "handle env rq ctx (CreateTransaction b) = create_transaction_api env rq ctx b"
| "handle env rq ctx (CreateReversal i b) = reverse_transaction_api env rq ctx i b"
| "handle env rq ctx (CreateTransfer b) = create_transfer_api env rq ctx b"
| "handle env rq ctx (ListAccounts n) = plain (list_accounts_api ctx n)"
| "handle env rq ctx (GetAccount r) = plain (get_account_api ctx r)"
| "handle env rq ctx (GetBalance r t k) = plain (get_balance_api env ctx r t k)"
| "handle env rq ctx (ListTransactions a c p n) = plain (list_transactions_api ctx a c p n)"
| "handle env rq ctx (GetTransaction i) = plain (get_transaction_api ctx i)"
| "handle env rq ctx (ListEntries a since n) = plain (list_entries_api ctx a since n)"
| "handle env rq ctx (ListEvents p n) = plain (list_events_api ctx p n)"
| "handle env rq ctx (GetEvent i) = plain (get_event_api ctx i)"
| "handle env rq ctx (RedeliverEvent i) = plain (redeliver_event_api ctx i)"
| "handle env rq ctx (CreateReplay b) = plain (create_replay_api ctx b)"
| "handle env rq ctx (ListDeadLetters g u n) = plain (list_dead_letters_api g u n)"
| "handle env rq ctx (Redrive i) = plain (redrive_api i)"
| "handle env rq ctx (CreateWebhookEndpoint b) = plain (create_webhook_endpoint_api env ctx b)"
| "handle env rq ctx (ListDeliveries i n) = plain (list_deliveries_api ctx i n)"
| "handle env rq ctx (RetryDelivery i) = plain (retry_delivery_api i)"
| "handle env rq ctx WhoAmI = plain (whoami_api ctx)"
| "handle env rq ctx Health = plain health_api"
| "handle env rq ctx (ListFraudSignals a n) = plain (list_fraud_signals_api ctx a n)"
| "handle env rq ctx (SpendByCategory a d) = plain (spend_by_category_api ctx a d)"
| "handle env rq ctx (BalanceHistory d b f n a) = plain (balance_history_api env ctx d b f n a)"
| "handle env rq ctx (SpendingHistory d b f n k) = plain (spending_history_api env ctx d b f n k)"
| "handle env rq ctx Reconcile = plain reconcile_api"

section \<open>Errors\<close>

record response =
  rs_status :: nat
  rs_body :: json
  rs_headers :: "(string, string) dict"

definition error_fields :: "string \<Rightarrow> string \<Rightarrow> string \<Rightarrow> string \<Rightarrow> string option \<Rightarrow> (string \<times> json) list" where
  "error_fields rid ty code message param =
     [(''type'', JStr ty), (''code'', JStr code), (''message'', JStr message), (''param'', jopt JStr param),
      (''request_id'', JStr rid), (''doc_url'', JStr (''https://docs.ledgerflow.dev/errors/'' @ code))]"

definition error_response :: "nat \<Rightarrow> (string \<times> json) list \<Rightarrow> (string, string) dict \<Rightarrow> response" where
  "error_response status members headers =
     \<lparr>rs_status = status, rs_body = JObj [(''error'', JObj members)], rs_headers = headers\<rparr>"

text \<open>What an application error carries besides \<open>retry_after\<close>.\<close>

fun error_extra :: "app_error \<Rightarrow> (string \<times> json) list" where
  "error_extra (InsufficientFunds acct available required) =
     [(''account'', JStr acct), (''available'', JInt available), (''required'', JInt required)]"
| "error_extra (TransactionDeclined d) =
     [(''rule'', JStr (dc_rule d)), (''score'', JReal (dc_score d)), (''account'', JStr (dc_account d)),
      (''declined_amount'', JInt (dc_amount d)),
      (''features'', JObj [(''txn_count_1h'', JInt (dc_txn_count d)), (''max_amount_1h'', JInt (dc_max_amount d))])]"
| "error_extra _ = []"

definition app_response :: "api_env \<Rightarrow> string \<Rightarrow> app_error \<Rightarrow> response" where
  "app_response env rid e =
     error_response (status_code e)
       (error_fields rid (error_type e) (error_code e) (ae_message env (AppExn e)) (error_param e) @ error_extra e)
       (case retry_after e of None \<Rightarrow> [] | Some n \<Rightarrow> if n = 0 then [] else [(''Retry-After'', show_int n)])"

text \<open>A decline is recorded on the way out, and a failure to record it is swallowed.\<close>

definition handle_app_error :: "api_env \<Rightarrow> string \<Rightarrow> req_state \<Rightarrow> app_error \<Rightarrow> st \<Rightarrow> response \<times> st" where
  "handle_app_error env rid qs e s =
     (app_response env rid e,
      case (e, qs_ctx qs) of
        (TransactionDeclined d, Some ctx) \<Rightarrow> snd (record_decline ctx d s)
      | _ \<Rightarrow> s)"

definition strip_prefix :: "string \<Rightarrow> string \<Rightarrow> string" where
  "strip_prefix p t = (if starts_with p t then drop (length p) t else t)"

definition handle_validation :: "string \<Rightarrow> (string list \<times> string) list \<Rightarrow> response" where
  "handle_validation rid errors =
     (let (loc, msg) = (case errors of [] \<Rightarrow> ([], ''invalid request'') | e # _ \<Rightarrow> e);
          param = py_join ''.'' (filter (\<lambda>p. p \<noteq> ''body'' \<and> p \<noteq> ''query'') loc);
          message = strip_prefix ''Assertion failed, '' (strip_prefix ''Value error, '' msg)
      in error_response 400
           (error_fields rid ''invalid_request_error'' ''parameter_invalid'' message
              (if param = [] then None else Some param)) [])"

definition handle_unexpected :: "string \<Rightarrow> response" where
  "handle_unexpected rid =
     error_response 500
       (error_fields rid ''api_error'' ''internal_error''
          ''an unexpected error occurred; quote the request id to support'' None) []"

section \<open>Middlewares\<close>

definition envelope :: "string \<Rightarrow> req_state \<Rightarrow> response \<Rightarrow> response" where
  "envelope rid qs r =
     r\<lparr>rs_headers := rs_headers r
        @ [(''Request-Id'', rid),
           (''LedgerFlow-Version'', show_date (case qs_version qs of None \<Rightarrow> api_version | Some v \<Rightarrow> v))]
        @ (if qs_replay qs then [(''Idempotent-Replay'', ''true'')] else [])
        @ (case qs_limit qs of None \<Rightarrow> []
           | Some d \<Rightarrow> [(''RateLimit-Limit'', show_int (d_limit d)), (''RateLimit-Remaining'', show_int (d_remaining d)),
                        (''RateLimit-Reset'', show_int (d_reset_at d))])\<rparr>"

text \<open>A \<open>TypeError\<close> of a transformer empties the response; any other goes to the handler outside.\<close>

definition version_responses :: "string \<Rightarrow> req_state \<Rightarrow> response \<Rightarrow> response" where
  "version_responses rid qs r =
     (case apply_version CHANGES (rs_body r) (qs_version qs) of
        Inr body \<Rightarrow> r\<lparr>rs_body := body\<rparr>
      | Inl TypeError \<Rightarrow> r\<lparr>rs_body := JNull\<rparr>
      | Inl e \<Rightarrow> handle_unexpected rid)"

definition finish :: "string \<Rightarrow> req_state \<Rightarrow> response \<Rightarrow> response" where
  "finish rid qs r = version_responses rid qs (envelope rid qs r)"

definition fail_request :: "api_env \<Rightarrow> string \<Rightarrow> req_state \<Rightarrow> exn \<Rightarrow> st \<Rightarrow> response \<times> st" where
  "fail_request env rid qs e s =
     (case e of
        AppExn a \<Rightarrow>
          (let (r, s') = handle_app_error env rid qs a s in (finish rid qs r, s'))
      | MoneyExn _ \<Rightarrow>
          (finish rid qs (error_response 400
             (error_fields rid ''invalid_request_error'' ''invalid_amount'' (ae_message env e) (Some ''amount'')) []), s)
      | LedgerExn _ \<Rightarrow>
          (finish rid qs (error_response 400
             (error_fields rid ''invalid_request_error'' ''invalid_posting'' (ae_message env e) None) []), s)
      | _ \<Rightarrow> (handle_unexpected rid, s))"

section \<open>A request\<close>

definition route_method :: "(string list \<times> string) list \<times> string + endpoint \<Rightarrow> string" where
  "route_method call = (case call of Inl (_, meth) \<Rightarrow> meth | Inr ep \<Rightarrow> method_of ep)"

text \<open>From the headers and the call, valid or not, to the response.\<close>

definition serve ::
  "api_env \<Rightarrow> request \<Rightarrow> (string list \<times> string) list \<times> string + endpoint \<Rightarrow> st \<Rightarrow> response \<times> st" where
  "serve env rq call s =
     (case fresh_id request_id s of
        (Inl e, s0) \<Rightarrow> (handle_unexpected [], s0)
      | (Inr rid, s0) \<Rightarrow>
          (case context_of env (rq\<lparr>rq_method := route_method call\<rparr>) s0 of
             ((Inl e, qs), s1) \<Rightarrow> fail_request env rid qs e s1
           | ((Inr ctx, qs), s1) \<Rightarrow>
               (case call of
                  Inl (errors, _) \<Rightarrow> (finish rid qs (handle_validation rid errors), s1)
                | Inr ep \<Rightarrow>
                    (case handle env rq ctx ep s1 of
                       (Inl e, s2) \<Rightarrow> fail_request env rid qs e s2
                     | (Inr (replayed, body), s2) \<Rightarrow>
                         (finish rid (qs\<lparr>qs_replay := replayed\<rparr>)
                            \<lparr>rs_status = status_of ep, rs_body = body, rs_headers = []\<rparr>, s2)))))"

end
