(* ===== verification/Api_Laws.thy ===== *)
theory Api_Laws
  imports Api
begin

text \<open>
  What the API promises over \<open>serve\<close>: a request that fails changes no row, a decline leaves exactly its
  evidence, a retried request is answered and not executed again, and every response has a shape.
\<close>

section \<open>All or nothing\<close>

definition all_or_nothing :: "'a m \<Rightarrow> bool" where
  "all_or_nothing body \<longleftrightarrow> (\<forall>s e s'. body s = (Inl e, s') \<longrightarrow> same_rows s s' \<and> strm s' = strm s)"

named_theorems atomic_intros \<open>bodies that change nothing when they fail\<close>

lemma atomic_unit [atomic_intros]:
  assumes "\<And>x. keeps (\<lambda>s. strm s = x) body"
  shows "all_or_nothing (unit_of_work body)"
  unfolding all_or_nothing_def
proof (intro allI impI)
  fix s e s'
  assume run: "unit_of_work body s = (Inl e, s')"
  then obtain r s1 where b: "body (s\<lparr>tx_now := wall s\<rparr>) = (r, s1)" "s' = rollback s s1"
    by (auto dest: unit_of_work_Inl)
  have "strm s1 = strm s" using keepsD [OF assms _ b(1)] by simp
  then have "strm s' = strm s" using b(2) by (simp add: rollback_def)
  then show "same_rows s s' \<and> strm s' = strm s" using unit_of_work_fails [OF run] by blast
qed

lemma atomic_read_only [atomic_intros]:
  "(\<And>x. keeps (\<lambda>s. strm s = x) body) \<Longrightarrow> all_or_nothing (read_only body)"
  unfolding read_only_def by (rule atomic_unit)

lemma atomic_plain [atomic_intros]: "all_or_nothing body \<Longrightarrow> all_or_nothing (plain body)"
  by (auto simp: all_or_nothing_def plain_def result_simps)

lemma atomic_after_read [atomic_intros]:
  "(\<And>x. all_or_nothing (f x)) \<Longrightarrow> all_or_nothing (bind_op (reads_r h) f)"
  by (auto simp: all_or_nothing_def result_simps)

lemma atomic_prod [atomic_intros]: "(\<And>x y. all_or_nothing (f x y)) \<Longrightarrow> all_or_nothing (case p of (x, y) \<Rightarrow> f x y)"
  by (cases p) simp

lemma atomic_then_ret [atomic_intros]: "all_or_nothing m \<Longrightarrow> all_or_nothing (bind_op m (\<lambda>x. ret_op (f x)))"
  by (auto simp: all_or_nothing_def result_simps)

lemma keeps_strm_services [keeps_intros]:
  "keeps (\<lambda>s. R (strm s)) (create_account ctx name ty cur ext minimum props)"
  "keeps (\<lambda>s. R (strm s)) (account_work ctx ab)" "keeps (\<lambda>s. R (strm s)) (txn_work ctx tb)"
  "keeps (\<lambda>s. R (strm s)) (transfer_work ctx fb)" "keeps (\<lambda>s. R (strm s)) (reverse_transaction ctx i effective)"
  using keeps_side_services [where Q = "\<lambda>_. R"] keeps_side_works [where Q = "\<lambda>_. R"] by simp_all

lemma keeps_strm_idempotent [keeps_intros]:
  assumes "keeps (\<lambda>s. R (strm s)) work"
  shows "keeps (\<lambda>s. R (strm s)) (do_work i code work)" "keeps (\<lambda>s. R (strm s)) (hold_key ctx busy key hash code work)"
proof -
  have dw: "keeps (\<lambda>s. R (strm s)) (do_work j code work)" for j
    unfolding do_work_def by (intro keeps_intros assms)
  show "keeps (\<lambda>s. R (strm s)) (do_work i code work)" by (rule dw)
  show "keeps (\<lambda>s. R (strm s)) (hold_key ctx busy key hash code work)"
    unfolding hold_key_def by (intro keeps_intros dw)
qed

lemma atomic_keyed [atomic_intros]:
  "(\<And>x. keeps (\<lambda>s. strm s = x) work) \<Longrightarrow> all_or_nothing (keyed env rq ctx path body work)"
  unfolding keyed_def idempotent_def by (intro atomic_unit keeps_option keeps_strm_idempotent)

lemma keeps_account_filter [keeps_intros]: "keeps P (account_filter ctx account)"
  unfolding account_filter_def by (intro keeps_intros)

lemma keeps_with_balance [keeps_intros]: "keeps P (with_balance row)"
  unfolding with_balance_def by (intro keeps_intros)

lemma keeps_reads_services [keeps_intros]: "keeps P (balance_query ctx ref t k)" "keeps P health" "keeps P (own_event ctx i)"
  unfolding balance_query_def health_def own_event_def by (intro keeps_intros)+

lemma keeps_queue_delivery [keeps_intros]: "keeps (\<lambda>s. R (strm s)) (queue_delivery event w)"
  unfolding queue_delivery_def by (intro keeps_intros)

lemma atomic_create_replay: "all_or_nothing (create_replay_api ctx b)"
proof -
  have "all_or_nothing (unit_of_work
       (bind_op (reads tx_now) (\<lambda>now.
        bind_op (on_sid (insert_replay
          \<lparr>rp_id = i, rp_group = yb_group b, rp_topic = yb_topic b, rp_from = int (yb_from b), rp_to = head,
           rp_reason = yb_reason b, rp_requested = now\<rparr>)) (\<lambda>_.
        bind_op (reads (\<lambda>s. events_between (yb_topic b) (yb_from b) head (strm s))) (\<lambda>events.
        on_evt (clear_claims (yb_group b) events))))))" (is "all_or_nothing (?body i head)") for i head
    by (intro atomic_intros keeps_intros)
  then show ?thesis
    unfolding create_replay_api_def all_or_nothing_def
    by (fastforce simp: result_simps same_rows_def)
qed

lemma handle_all_or_nothing: "all_or_nothing (handle env rq ctx ep)"
  by (cases ep; simp only: handle.simps create_account_api_def create_transaction_api_def reverse_transaction_api_def
      create_transfer_api_def list_accounts_api_def get_account_api_def get_balance_api_def list_transactions_api_def
      get_transaction_api_def list_entries_api_def list_events_api_def get_event_api_def redeliver_event_api_def
      list_dead_letters_api_def redrive_api_def create_webhook_endpoint_api_def list_deliveries_api_def
      retry_delivery_api_def whoami_api_def health_api_def list_fraud_signals_api_def spend_by_category_api_def
      balance_history_api_def spending_history_api_def reconcile_api_def Let_def;
    intro atomic_intros keeps_intros atomic_create_replay)

section \<open>Responses are objects\<close>

definition returns :: "('a \<Rightarrow> bool) \<Rightarrow> 'a m \<Rightarrow> bool" where
  "returns P m \<longleftrightarrow> (\<forall>s x s'. m s = (Inr x, s') \<longrightarrow> P x)"

named_theorems returns_intros \<open>what a body returns\<close>

lemma returns_basic [returns_intros]:
  "P x \<Longrightarrow> returns P (ret_op x)" "(\<And>s. P (f s)) \<Longrightarrow> returns P (reads f)"
  "(\<And>s x. h s = Inr x \<Longrightarrow> P x) \<Longrightarrow> returns P (reads_r h)"
  by (auto simp: returns_def)

lemma returns_bind [returns_intros]: "(\<And>x. returns P (f x)) \<Longrightarrow> returns P (bind_op m f)"
  by (auto simp: returns_def result_simps)

lemma returns_unit [returns_intros]: "returns P m \<Longrightarrow> returns P (unit_of_work m)" "returns P m \<Longrightarrow> returns P (read_only m)"
  by (auto simp: returns_def result_simps read_only_def)

lemma returns_case [returns_intros]: "(\<And>x y. returns P (f x y)) \<Longrightarrow> returns P (case p of (x, y) \<Rightarrow> f x y)"
  by (cases p) simp

definition object :: "json \<Rightarrow> bool" where
  "object j \<longleftrightarrow> (\<exists>d. j = JObj d)"

lemma objects [simp]:
  "object (JObj d)" "object (listing js has_more)" "object (account_json row b)" "object (transaction_json t es)"
  "object (event_json e)" "object (dead_letter_json dl)" "object (webhook_delivery_json wd)" "object (webhook_endpoint_json wh)"
  by (simp_all add: object_def listing_def account_json_def transaction_json_def event_json_def dead_letter_json_def
      webhook_delivery_json_def webhook_endpoint_json_def)

lemma returns_plain: "returns object m \<Longrightarrow> returns (\<lambda>x. \<not> fst x \<and> object (snd x)) (plain m)"
  by (auto simp: returns_def plain_def result_simps)

lemma returns_balance_query: "returns object (balance_query ctx ref t k)" "returns object (with_balance row)"
  unfolding balance_query_def with_balance_def
  by (intro returns_intros | auto simp: bind_r_def split: sum.splits)+

lemma returns_health: "returns object health"
  unfolding health_def by (intro returns_intros) (auto simp: split_beta Let_def)

text \<open>The four endpoints that take an idempotency key.\<close>

fun takes_key :: "endpoint \<Rightarrow> bool" where
  "takes_key (CreateAccount _) = True"
| "takes_key (CreateTransaction _) = True"
| "takes_key (CreateReversal _ _) = True"
| "takes_key (CreateTransfer _) = True"
| "takes_key _ = False"

lemma plain_objects:
  "\<not> takes_key ep \<Longrightarrow> returns (\<lambda>x. \<not> fst x \<and> object (snd x)) (handle env rq ctx ep)"
  by (cases ep; simp only: takes_key.simps not_True_eq_False not_False_eq_True
      handle.simps list_accounts_api_def get_account_api_def get_balance_api_def list_transactions_api_def
      get_transaction_api_def list_entries_api_def list_events_api_def get_event_api_def redeliver_event_api_def
      create_replay_api_def list_dead_letters_api_def redrive_api_def create_webhook_endpoint_api_def
      list_deliveries_api_def retry_delivery_api_def whoami_api_def health_api_def list_fraud_signals_api_def
      spend_by_category_api_def balance_history_api_def spending_history_api_def reconcile_api_def Let_def;
    intro returns_plain returns_intros returns_balance_query returns_health;
    auto simp: bind_r_def webhook_endpoint_json_def split: sum.splits)

fun work_of :: "tenant_ctx \<Rightarrow> endpoint \<Rightarrow> json m" where
  "work_of ctx (CreateAccount b) = account_work ctx b"
| "work_of ctx (CreateTransaction b) = txn_work ctx b"
| "work_of ctx (CreateReversal i b) = reverse_transaction ctx i (vb_effective b)"
| "work_of ctx (CreateTransfer b) = transfer_work ctx b"
| "work_of ctx _ = raise_op (PyExn TypeError)"

definition post_hash :: "api_env \<Rightarrow> string \<Rightarrow> json \<Rightarrow> string" where
  "post_hash env = fingerprint (ae_sha256 env) (ae_float env) ''POST''"

fun hash_of :: "api_env \<Rightarrow> endpoint \<Rightarrow> string" where
  "hash_of env (CreateAccount b) = post_hash env ''/v1/accounts'' (account_dump b)"
| "hash_of env (CreateTransaction b) = post_hash env ''/v1/transactions'' (txn_dump env b)"
| "hash_of env (CreateReversal i b) = post_hash env (''/v1/transactions/'' @ i @ ''/reversals'') (reversal_dump env b)"
| "hash_of env (CreateTransfer b) = post_hash env ''/v1/transfers'' (transfer_dump env b)"
| "hash_of env _ = []"

lemma handle_keyed:
  "takes_key ep \<Longrightarrow> handle env rq ctx ep = idempotent ctx (ae_busy env) (rq_key rq) (hash_of env ep) 201 (work_of ctx ep)"
  by (cases ep) (simp_all add: create_account_api_def create_transaction_api_def reverse_transaction_api_def
      create_transfer_api_def keyed_def post_hash_def)

lemma work_of_contract: "takes_key ep \<Longrightarrow> idempotent_work (work_of ctx ep)"
  using account_key.idempotent_work_axioms transaction_key.idempotent_work_axioms transfer_key.idempotent_work_axioms
    reversal_key.idempotent_work_axioms
  by (cases ep) simp_all

lemma responses_of_object:
  "settled_keys rows \<Longrightarrow> responses_of rows k = Some (h, b) \<Longrightarrow> object b"
  by (cases k) (auto simp: responses_of_def settled_keys_def object_def find_Some_iff)

lemma keyed_objects:
  assumes ep: "takes_key ep" and ok: "settled_keys (idm s)" and run: "handle env rq ctx ep s = (Inr (f, b), s')"
  shows "object b \<and> settled_keys (idm s')"
proof (cases "rq_key rq")
  case None
  let ?w = "work_of ctx ep"
  have "do_work None 201 ?w (s\<lparr>tx_now := wall s\<rparr>) = (Inr (f, b), s')"
    using run None by (simp add: handle_keyed [OF ep] idempotent_def unit_of_work_Inr_iff)
  from idempotent_work.do_work_run [OF work_of_contract [OF ep] this] ok show ?thesis
    by (auto simp: object_def)
next
  case (Some key)
  then have r: "idempotent ctx (ae_busy env) (Some key) (hash_of env ep) 201 (work_of ctx ep) s = (Inr (f, b), s')"
    using run by (simp add: handle_keyed [OF ep])
  show ?thesis
  proof (cases "responses_of (idm s) (c_api_key ctx, key)")
    case None
    from idempotent_work.idempotent_miss [OF work_of_contract [OF ep] None ok r]
    have "settled_keys (idm s')" "responses_of (idm s') (c_api_key ctx, key) = Some (hash_of env ep, b)" by auto
    then show ?thesis using responses_of_object by blast
  next
    case (Some hb)
    then obtain h b' where hb: "responses_of (idm s) (c_api_key ctx, key) = Some (h, b')" by (cases hb) auto
    from idempotent_hit [OF hb ok r] have "b = b'" "idm s' = idm s" by (auto simp: same_rows_def split: if_splits)
    then show ?thesis using responses_of_object [OF ok hb] ok by simp
  qed
qed

lemma handle_object: "settled_keys (idm s) \<Longrightarrow> handle env rq ctx ep s = (Inr (f, b), s') \<Longrightarrow> object b"
  using keyed_objects plain_objects [of ep env rq ctx] unfolding returns_def by (metis snd_conv)

section \<open>Outcomes of a request\<close>

text \<open>The rows of every table but the limiter's buckets, and the stream.\<close>

definition tables_of ::
  "st \<Rightarrow> ledger_tables \<times> event_tables \<times> norm_tables \<times> risk_tables \<times> hook_tables \<times> idem_tables \<times> side_tables \<times> stream_tables" where
  "tables_of s =
     ((led s)\<lparr>entry_seq := 0\<rparr>, (evt s)\<lparr>outbox_seq := 0\<rparr>, nrm s, rsk s, hks s, idm s, (sid s)\<lparr>rate_buckets := []\<rparr>, strm s)"

definition rows_kept :: "st \<Rightarrow> st \<Rightarrow> bool" where
  "rows_kept s s' \<longleftrightarrow> tables_of s' = tables_of s"

lemma rows_kept_refl [simp, intro]: "rows_kept s s"
  by (simp add: rows_kept_def)

lemma rows_kept_trans [trans]: "rows_kept s t \<Longrightarrow> rows_kept t u \<Longrightarrow> rows_kept s u"
  by (simp add: rows_kept_def)

lemma rows_kept_same:
  assumes "same_rows s s'" "strm s' = strm s"
  shows "rows_kept s s'"
proof -
  obtain a b where "led s' = (led s)\<lparr>entry_seq := a\<rparr>" "evt s' = (evt s)\<lparr>outbox_seq := b\<rparr>"
    using assms(1) by (auto simp: same_rows_def)
  with assms show ?thesis by (simp add: rows_kept_def tables_of_def same_rows_def)
qed

lemma rows_kept_unmetered: "unmetered t = unmetered s \<Longrightarrow> rows_kept s t"
proof -
  assume eq: "unmetered t = unmetered s"
  have "tables_of u = tables_of (unmetered u)" for u by (simp add: tables_of_def unmetered_def)
  with eq show "rows_kept s t" unfolding rows_kept_def by metis
qed

lemma rows_kept_idm: "rows_kept s t \<Longrightarrow> idm t = idm s \<and> api_keys (sid t) = api_keys (sid s)"
  by (auto simp: rows_kept_def tables_of_def dest: arg_cong [where f = api_keys])

lemma rows_kept_fresh: "rows_kept s (s\<lparr>idg := g\<rparr>)" "rows_kept s (s\<lparr>tx_now := w\<rparr>)"
  by (simp_all add: rows_kept_def tables_of_def)

text \<open>What the recording of a decline leaves: the evidence, unless the table's constraints refuse it.\<close>

definition evidence :: "tenant_ctx \<Rightarrow> decline \<Rightarrow> signal_row \<Rightarrow> bool" where
  "evidence ctx d row \<longleftrightarrow> fs_action row = BLOCK \<and> fs_tenant row = c_tenant ctx \<and> fs_account row = dc_account d
     \<and> fs_txn row = None \<and> fs_rule row = dc_rule d \<and> fs_amount row = Some (dc_amount d) \<and> fs_reason row = Some (dc_message d)"

definition recordable :: "tenant_ctx \<Rightarrow> decline \<Rightarrow> st \<Rightarrow> bool" where
  "recordable ctx d s \<longleftrightarrow> in_bigint (dc_amount d) \<and> fst (new_id ''sig'' (idg s)) \<notin> fs_id ` set (signals (rsk s))
     \<and> c_tenant ctx \<in> set (tenants (led s)) \<and> dc_account d \<in> a_id ` set (accounts (led s))"

definition decline_recorded :: "tenant_ctx \<Rightarrow> decline \<Rightarrow> st \<Rightarrow> st \<Rightarrow> bool" where
  "decline_recorded ctx d s s' \<longleftrightarrow>
     (if recordable ctx d s
      then \<exists>row. evidence ctx d row \<and> rows_kept (s\<lparr>rsk := (rsk s)\<lparr>signals := signals (rsk s) @ [row]\<rparr>\<rparr>) s'
      else rows_kept s s')"

lemma record_decline_run: "decline_recorded ctx d s (snd (record_decline ctx d s))"
proof -
  obtain i g where i: "new_id ''sig'' (idg s) = (i, g)" by fastforce
  let ?row = "\<lparr>fs_id = i, fs_tenant = c_tenant ctx, fs_account = dc_account d, fs_txn = None, fs_rule = dc_rule d,
     fs_score = dc_score d, fs_features = JObj [(''txn_count_1h'', JInt (dc_txn_count d)),
       (''max_amount_1h'', JInt (dc_max_amount d))],
     fs_at = wall s, fs_action = BLOCK, fs_amount = Some (dc_amount d), fs_reason = Some (dc_message d)\<rparr>"
  note defs = record_decline_def rows_kept_def tables_of_def unit_of_work_def bind_op_def fresh_id_def i on_rsk_def
    zoom_def decline_insert_def insert_signal_def guard_op_def rollback_def deferred_checks_def Let_def recordable_def
  show ?thesis
  proof (cases "recordable ctx d s")
    case True
    then have "rows_kept (s\<lparr>rsk := (rsk s)\<lparr>signals := signals (rsk s) @ [?row]\<rparr>\<rparr>) (snd (record_decline ctx d s))"
      by (auto simp: defs image_iff)
    moreover have "evidence ctx d ?row" by (simp add: evidence_def)
    ultimately show ?thesis using True unfolding decline_recorded_def by (simp only: if_True) (rule exI [of _ ?row], simp)
  next
    case False
    then have "rows_kept s (snd (record_decline ctx d s))" by (auto simp: defs image_iff)
    with False show ?thesis by (simp add: decline_recorded_def)
  qed
qed

section \<open>The exception handlers and the middlewares\<close>

lemma finish_object:
  assumes "rs_body r = JObj d"
  shows "rs_status (finish rid qs r) = rs_status r" "rs_headers (finish rid qs r) = rs_headers (envelope rid qs r)"
    "object (rs_body (finish rid qs r))"
    "map_of d ''object'' = None \<Longrightarrow> rs_body (finish rid qs r) = JObj d"
  using assms by (auto simp: finish_def envelope_def version_responses_def apply_version_object object_def)

definition error_shape :: "string \<Rightarrow> response \<Rightarrow> bool" where
  "error_shape rid r \<longleftrightarrow> (\<exists>members code. rs_body r = JObj [(''error'', JObj members)]
     \<and> map_of members ''request_id'' = Some (JStr rid) \<and> map_of members ''code'' = Some (JStr code))"

lemma finish_error:
  "rs_status (finish rid qs (error_response n (error_fields rid ty code msg param @ extra) hs)) = n"
  "error_shape rid (finish rid qs (error_response n (error_fields rid ty code msg param @ extra) hs))"
  "(''Request-Id'', rid) \<in> set (rs_headers (finish rid qs (error_response n (error_fields rid ty code msg param @ extra) hs)))"
proof -
  let ?r = "error_response n (error_fields rid ty code msg param @ extra) hs"
  have body: "rs_body ?r = JObj [(''error'', JObj (error_fields rid ty code msg param @ extra))]"
    by (simp add: error_response_def)
  note f = finish_object [OF body, of rid qs]
  show "rs_status (finish rid qs ?r) = n" using f(1) by (simp add: error_response_def)
  show "error_shape rid (finish rid qs ?r)" using f(4) by (simp add: error_shape_def error_fields_def)
  show "(''Request-Id'', rid) \<in> set (rs_headers (finish rid qs ?r))" using f(2) by (simp add: envelope_def)
qed

lemma finish_error':
  "rs_status (finish rid qs (error_response n (error_fields rid ty code msg param) hs)) = n"
  "error_shape rid (finish rid qs (error_response n (error_fields rid ty code msg param) hs))"
  "(''Request-Id'', rid) \<in> set (rs_headers (finish rid qs (error_response n (error_fields rid ty code msg param) hs)))"
  using finish_error [where extra = "[]"] by simp_all

lemma unexpected_error: "rs_status (handle_unexpected rid) = 500" "error_shape rid (handle_unexpected rid)"
  "rs_headers (handle_unexpected rid) = []"
  by (simp_all add: handle_unexpected_def error_response_def error_shape_def error_fields_def)

definition client_error :: "string \<Rightarrow> response \<Rightarrow> bool" where
  "client_error rid r \<longleftrightarrow> rs_status r \<in> {400, 401, 402, 403, 404, 409, 429} \<and> error_shape rid r
     \<and> (''Request-Id'', rid) \<in> set (rs_headers r)"

lemma fail_request_response:
  "fail_request env rid qs e s = (r, s') \<Longrightarrow> client_error rid r \<or> r = handle_unexpected rid"
proof (cases e)
  case (AppExn a)
  assume run: "fail_request env rid qs e s = (r, s')"
  have r: "r = finish rid qs (app_response env rid a)"
    using run AppExn by (simp add: fail_request_def handle_app_error_def)
  have "status_code a \<in> {400, 401, 402, 403, 404, 409, 429}" by (cases a) simp_all
  then show ?thesis using finish_error unfolding r app_response_def client_error_def by simp
qed (auto simp: fail_request_def client_error_def finish_error')

lemma fail_request_state:
  "fail_request env rid qs e s = (r, s') \<Longrightarrow>
     s' = s \<or> (rs_status r = 402 \<and> (\<exists>d ctx. e = AppExn (TransactionDeclined d) \<and> qs_ctx qs = Some ctx
       \<and> s' = snd (record_decline ctx d s)))"
  using finish_error(1)
  by (auto simp: fail_request_def handle_app_error_def app_response_def split: exn.splits app_error.splits option.splits)

section \<open>A request, case by case\<close>

lemma fresh_request: "fresh_id g s = (Inr (fst (g (idg s))), s\<lparr>idg := snd (g (idg s))\<rparr>)"
  by (simp add: fresh_id_def split_beta)

lemma context_rows: "context_of env rq s = (x, s') \<Longrightarrow> rows_kept s s'"
  by (rule rows_kept_unmetered) (rule context_unmetered)

lemma handle_fails_rows: "handle env rq ctx ep s = (Inl e, s') \<Longrightarrow> rows_kept s s'"
  using handle_all_or_nothing [of env rq ctx ep] rows_kept_same unfolding all_or_nothing_def by blast

abbreviation as_called :: "(string list \<times> string) list \<times> string + endpoint \<Rightarrow> request \<Rightarrow> request" where
  "as_called call rq \<equiv> rq\<lparr>rq_method := route_method call\<rparr>"

lemma serve_cases:
  assumes run: "serve env rq call s = (r, s')"
  defines "rid \<equiv> fst (request_id (idg s))"
  obtains (refused) s0 e qs s1 where "rows_kept s s0" "idg s0 = snd (request_id (idg s))"
      "context_of env (as_called call rq) s0 = ((Inl e, qs), s1)" "rows_kept s s1" "fail_request env rid qs e s1 = (r, s')"
  | (invalid) qs errors meth where "call = Inl (errors, meth)" "r = finish rid qs (handle_validation rid errors)" "rows_kept s s'"
  | (failed) s0 ctx qs s1 ep e s2 where "call = Inr ep" "context_of env (as_called call rq) s0 = ((Inr ctx, qs), s1)"
      "rows_kept s s0" "rows_kept s s1" "handle env rq ctx ep s1 = (Inl e, s2)" "rows_kept s s2"
      "fail_request env rid qs e s2 = (r, s')" "s0 = s\<lparr>idg := snd (request_id (idg s))\<rparr>"
  | (answered) s0 ctx qs s1 ep replayed body where "call = Inr ep"
      "context_of env (as_called call rq) s0 = ((Inr ctx, qs), s1)" "rows_kept s s0" "rows_kept s s1"
      "handle env rq ctx ep s1 = (Inr (replayed, body), s')"
      "r = finish rid (qs\<lparr>qs_replay := replayed\<rparr>) \<lparr>rs_status = status_of ep, rs_body = body, rs_headers = []\<rparr>"
proof -
  let ?s0 = "s\<lparr>idg := snd (request_id (idg s))\<rparr>"
  have s0: "rows_kept s ?s0" by (rule rows_kept_fresh)
  obtain c qs s1 where ctx: "context_of env (as_called call rq) ?s0 = ((c, qs), s1)" by (metis prod.collapse)
  note s1 = rows_kept_trans [OF s0 context_rows [OF ctx]]
  have eq: "serve env rq call s =
     (case c of Inl e \<Rightarrow> fail_request env rid qs e s1
      | Inr ctx \<Rightarrow>
         (case call of
            Inl (errors, _) \<Rightarrow> (finish rid qs (handle_validation rid errors), s1)
          | Inr ep \<Rightarrow>
              (case handle env rq ctx ep s1 of
                 (Inl e, s2) \<Rightarrow> fail_request env rid qs e s2
               | (Inr (replayed, body), s2) \<Rightarrow>
                   (finish rid (qs\<lparr>qs_replay := replayed\<rparr>)
                      \<lparr>rs_status = status_of ep, rs_body = body, rs_headers = []\<rparr>, s2))))"
    by (simp add: serve_def fresh_request ctx rid_def split: sum.split prod.split)
  show ?thesis
  proof (cases c)
    case (Inl e)
    have "fail_request env rid qs e s1 = (r, s')" using run eq Inl by simp
    from refused [OF s0 _ ctx [unfolded Inl] s1 this] show ?thesis by simp
  next
    case ok: (Inr ct)
    show ?thesis
    proof (cases call)
      case (Inl bad)
      obtain errors meth where bad: "bad = (errors, meth)" by fastforce
      show ?thesis
        by (rule invalid [of errors meth qs]) (use run eq ok Inl bad s1 in simp_all)
    next
      case (Inr ep)
      obtain q s2 where h: "handle env rq ct ep s1 = (q, s2)" by fastforce
      show ?thesis
      proof (cases q)
        case (Inl e)
        have "fail_request env rid qs e s2 = (r, s')" using run eq ok Inr h Inl by simp
        from failed [OF Inr ctx [unfolded ok] s0 s1 h [unfolded Inl] _ this refl] show ?thesis
          using rows_kept_trans [OF s1 handle_fails_rows [OF h [unfolded Inl]]] by blast
      next
        case (Inr x)
        obtain f b where x: "x = (f, b)" by fastforce
        have "r = finish rid (qs\<lparr>qs_replay := f\<rparr>) \<lparr>rs_status = status_of ep, rs_body = b, rs_headers = []\<rparr>" "s2 = s'"
          using run eq ok \<open>call = Inr ep\<close> h Inr x by simp_all
        from answered [OF \<open>call = Inr ep\<close> ctx [unfolded ok] s0 s1 _ this(1)] this(2) h Inr x show ?thesis by blast
      qed
    qed
  qed
qed

lemma context_ctx: "context_of env rq s = ((Inr ctx, qs), s') \<Longrightarrow> qs_ctx qs = Some ctx"
  by (rule context_of_cases [of env rq s]) (auto split: if_splits)

lemma context_refuses: "context_of env rq s = ((Inl e, qs), s') \<Longrightarrow> e \<noteq> AppExn (TransactionDeclined d)"
  by (rule context_of_cases [of env rq s]) (auto simp: limited_def split: if_splits)

lemma answered_object:
  assumes "rows_kept s s1" "settled_keys (idm s)" "handle env rq ctx ep s1 = (Inr (replayed, body), s')"
  obtains d where "body = JObj d"
proof -
  have "settled_keys (idm s1)" using rows_kept_idm [OF assms(1)] assms(2) by simp
  from handle_object [OF this assms(3)] show ?thesis using that by (auto simp: object_def)
qed

lemma status_of_success: "status_of ep \<in> {200, 201, 202}"
  by (cases ep) simp_all

lemma no_header_refused:
  "context_of env (rq\<lparr>rq_authorization := None\<rparr>) s = ((Inl (AppExn AuthenticationError), no_req_state), s\<lparr>tx_now := wall s\<rparr>)"
  by (simp add: context_of_def read_only_keeps [OF authenticate_reads]) (simp add: authenticate_def)

lemma serve_no_header:
  "fst (serve env (rq\<lparr>rq_authorization := None\<rparr>) call s)
    = finish (fst (request_id (idg s))) no_req_state (app_response env (fst (request_id (idg s))) AuthenticationError)"
proof -
  have eq: "rq\<lparr>rq_authorization := None, rq_method := m\<rparr> = (rq\<lparr>rq_method := m\<rparr>)\<lparr>rq_authorization := None\<rparr>" for m by simp
  show ?thesis
    unfolding serve_def eq no_header_refused fresh_request
    by (simp add: fail_request_def handle_app_error_def)
qed

section \<open>The same caller again\<close>

lemma authenticate_again:
  "api_keys (sid t) = api_keys (sid s) \<Longrightarrow> fst (authenticate sha256 auth t) = fst (authenticate sha256 auth s)"
  by (auto simp: authenticate_def bind_op_def Let_def split: option.splits prod.splits)

text \<open>Who calls and which version depends on the headers and the keys only; the limiter may refuse.\<close>

lemma context_again:
  assumes ok: "context_of env rq s = ((Inr ctx, qs), s')" and keys: "api_keys (sid t) = api_keys (sid s)"
  shows "\<exists>qs2 t'. qs_version qs2 = qs_version qs \<and> (context_of env rq t = ((Inr ctx, qs2), t')
     \<or> (\<exists>d now. context_of env rq t = ((Inl (limited d now), qs2), t')))"
proof (rule context_of_cases [of env rq s])
  fix k v d s''
  assume a: "authenticate (ae_sha256 env) (rq_authorization rq) s = (Inr k, s)" and v: "requested_version env rq k = Inr v"
    and c: "context_of env rq s = ((if d_allowed d then Inr (ctx_of k) else Inl (limited d (wall s'')),
           \<lparr>qs_ctx = Some (ctx_of k), qs_version = Some v, qs_limit = Some d, qs_replay = False\<rparr>), s'')"
  have k: "fst (authenticate (ae_sha256 env) (rq_authorization rq) t) = Inr k" using authenticate_again [OF keys] a by simp
  have same: "ctx = ctx_of k" "qs_version qs = Some v" using ok c by (auto split: if_splits)
  show ?thesis
  proof (rule context_of_cases [of env rq t])
    fix e
    assume ct: "context_of env rq t = ((Inl e, no_req_state), t\<lparr>tx_now := wall t\<rparr>)"
    have "read_only (authenticate (ae_sha256 env) (rq_authorization rq)) t = (Inr k, t\<lparr>tx_now := wall t\<rparr>)"
      using read_only_keeps [OF authenticate_reads] authenticate_cong [of "t\<lparr>tx_now := wall t\<rparr>" t] k by simp
    then show ?thesis using ct v check_limit_Inr
      by (auto simp: context_of_def Let_def no_req_state_def split: prod.splits sum.splits if_splits)
  next
    fix k' v' d' t'
    assume a': "authenticate (ae_sha256 env) (rq_authorization rq) t = (Inr k', t)"
      and v': "requested_version env rq k' = Inr v'"
      and c': "context_of env rq t = ((if d_allowed d' then Inr (ctx_of k') else Inl (limited d' (wall t')),
           \<lparr>qs_ctx = Some (ctx_of k'), qs_version = Some v', qs_limit = Some d', qs_replay = False\<rparr>), t')"
    have "k' = k" "v' = v" using a' k v v' by auto
    then show ?thesis using c' same by (cases "d_allowed d'") auto
  qed
qed (use ok in auto)

lemma keyed_run_recorded:
  assumes ep: "takes_key ep" and key: "rq_key rq = Some key" and ok: "settled_keys (idm s)"
    and run: "handle env rq ctx ep s = (Inr (f, b), s')"
  shows "responses_of (idm s') (c_api_key ctx, key) = Some (hash_of env ep, b)"
proof -
  have r: "idempotent ctx (ae_busy env) (Some key) (hash_of env ep) 201 (work_of ctx ep) s = (Inr (f, b), s')"
    using run key by (simp add: handle_keyed [OF ep])
  show ?thesis
  proof (cases "responses_of (idm s) (c_api_key ctx, key)")
    case None
    from idempotent_work.idempotent_miss [OF work_of_contract [OF ep] None ok r] show ?thesis by auto
  next
    case (Some hb)
    then obtain h b' where hb: "responses_of (idm s) (c_api_key ctx, key) = Some (h, b')" by (cases hb) auto
    from idempotent_hit [OF hb ok r] have "b = b'" "h = hash_of env ep" "idm s' = idm s"
      by (auto simp: same_rows_def split: if_splits)
    then show ?thesis using hb by simp
  qed
qed

lemma keyed_hit:
  assumes ep: "takes_key ep" and key: "rq_key rq = Some key" and ok: "settled_keys (idm s)" and free: "\<not> ae_busy env"
    and hit: "responses_of (idm s) (c_api_key ctx, key) = Some (h, b)"
  shows "\<exists>s'. rows_kept s s' \<and> handle env rq ctx ep s =
     (if h = hash_of env ep then Inr (True, b) else Inl (AppExn IdempotencyKeyReuse), s')"
proof -
  obtain r s' where run: "handle env rq ctx ep s = (r, s')" by fastforce
  then have id: "idempotent ctx (ae_busy env) (Some key) (hash_of env ep) 201 (work_of ctx ep) s = (r, s')"
    using key by (simp add: handle_keyed [OF ep])
  note h = idempotent_hit [OF hit ok id]
  have "keeps (\<lambda>s. strm s = strm0) (work_of ctx ep)" for strm0
    using ep by (cases ep) (auto intro: keeps_intros)
  then have "keeps (\<lambda>s. strm s = strm0) (idempotent ctx (ae_busy env) (Some key) (hash_of env ep) 201 (work_of ctx ep))" for strm0
    unfolding idempotent_def option.case by (intro keeps_unit_strm keeps_strm_idempotent)
  from keepsD [OF this refl id] have "strm s' = strm s" by simp
  with h free run show ?thesis using rows_kept_same by auto
qed

text \<open>A keyed request whose key is answered: the answer, in the caller's version, or a refusal.\<close>

lemma serve_hit:
  assumes ep: "takes_key ep" and key: "rq_key rq = Some key" "\<not> ae_busy env" and ok: "settled_keys (idm u)"
    and held: "responses_of (idm u) (c_api_key ctx, key) = Some (h, b)"
    and ctx: "context_of env (as_called (Inr ep) rq) (u\<lparr>idg := snd (request_id (idg u))\<rparr>) = ((Inr ctx, qs), u1)"
    and run: "serve env rq (Inr ep) u = (r, u')"
  shows "rows_kept u u' \<and>
     (if h = hash_of env ep
      then rs_status r = 201 \<and> apply_version CHANGES b (qs_version qs) = Inr (rs_body r)
        \<and> (''Idempotent-Replay'', ''true'') \<in> set (rs_headers r)
      else rs_status r = 409)"
proof -
  let ?rid = "fst (request_id (idg u))"
  have u1: "rows_kept u u1" using rows_kept_trans [OF rows_kept_fresh(1) context_rows [OF ctx]] .
  have ok1: "settled_keys (idm u1)" "responses_of (idm u1) (c_api_key ctx, key) = Some (h, b)"
    using rows_kept_idm [OF u1] ok held by simp_all
  obtain d where d: "b = JObj d" using responses_of_object [OF ok held] by (auto simp: object_def)
  obtain u2 where u2: "rows_kept u1 u2"
    "handle env rq ctx ep u1 = (if h = hash_of env ep then Inr (True, b) else Inl (AppExn IdempotencyKeyReuse), u2)"
    using keyed_hit [where rq = rq, OF ep key(1) ok1(1) key(2) ok1(2)] by blast
  have kept: "rows_kept u u2" using rows_kept_trans [OF u1 u2(1)] .
  have st: "status_of ep = 201" using ep by (cases ep) simp_all
  show ?thesis
  proof (cases "h = hash_of env ep")
    case True
    then have "u' = u2" and r: "r = finish ?rid (qs\<lparr>qs_replay := True\<rparr>) \<lparr>rs_status = 201, rs_body = b, rs_headers = []\<rparr>"
      using run ctx u2(2) st by (auto simp: serve_def fresh_request)
    moreover have "rs_status r = 201" "(''Idempotent-Replay'', ''true'') \<in> set (rs_headers r)"
      unfolding r by (simp_all add: finish_object [where d = d] d) (simp add: envelope_def)
    moreover have "apply_version CHANGES b (qs_version qs) = Inr (rs_body r)"
      by (simp add: r d finish_def envelope_def version_responses_def apply_version_object)
    ultimately show ?thesis using True kept by simp
  next
    case False
    then have "fail_request env ?rid qs (AppExn IdempotencyKeyReuse) u2 = (r, u')"
      using run ctx u2(2) by (simp add: serve_def fresh_request)
    then have "u' = u2" "rs_status r = 409"
      by (auto simp: fail_request_def handle_app_error_def app_response_def finish_error')
    then show ?thesis using False kept by simp
  qed
qed

lemma serve_limited:
  assumes "context_of env (as_called call rq) (u\<lparr>idg := snd (request_id (idg u))\<rparr>) = ((Inl (limited d now), qs), u1)"
    and "serve env rq call u = (r, u')"
  shows "rows_kept u u' \<and> rs_status r = 429"
proof -
  have "fail_request env (fst (request_id (idg u))) qs (limited d now) u1 = (r, u')"
    using assms by (simp add: serve_def fresh_request)
  then have "u' = u1" "rs_status r = 429"
    by (auto simp: limited_def fail_request_def handle_app_error_def app_response_def finish_error')
  then show ?thesis using rows_kept_trans [OF rows_kept_fresh(1) context_rows [OF assms(1)]] by simp
qed

text \<open>What a first answer under a key leaves: the answer, under the caller's key.\<close>

lemma serve_keyed_answer:
  assumes "serve env rq (Inr ep) s = (r, s')" "rs_status r = 201" "settled_keys (idm s)" "takes_key ep" "rq_key rq = Some key"
  obtains s0 ctx qs s1 b where "context_of env (as_called (Inr ep) rq) s0 = ((Inr ctx, qs), s1)" "rows_kept s s0"
    "responses_of (idm s') (c_api_key ctx, key) = Some (hash_of env ep, b)"
    "apply_version CHANGES b (qs_version qs) = Inr (rs_body r)"
  using assms(1)
proof (cases rule: serve_cases)
  case (answered s0 ctx qs s1 ep' f b)
  then have [simp]: "ep' = ep" by simp
  obtain d where d: "b = JObj d" using answered_object [OF answered(4) assms(3) answered(5)] .
  have "settled_keys (idm s1)" using rows_kept_idm [OF answered(4)] assms(3) by simp
  then have "responses_of (idm s') (c_api_key ctx, key) = Some (hash_of env ep, b)"
    using keyed_run_recorded [OF assms(4,5)] answered(5) by simp
  moreover have "apply_version CHANGES b (qs_version qs) = Inr (rs_body r)"
    by (simp add: answered(6) d finish_def envelope_def version_responses_def apply_version_object)
  ultimately show ?thesis using that answered(2,3) by simp
qed (use assms(2) in \<open>auto simp: client_error_def unexpected_error dest!: fail_request_response\<close>)

end
