(* ===== verification/Api_Properties.thy ===== *)
theory Api_Properties
  imports Api_Laws
begin

text \<open>The properties of the API over whole requests, with a concrete client to witness them.\<close>

section \<open>A client\<close>

definition demo_env :: api_env where
  "demo_env = \<lparr>ae_sha256 = id, ae_float = (\<lambda>_. []), ae_iso_date = (\<lambda>_. None), ae_iso_datetime = (\<lambda>_. None),
     ae_show_datetime = (\<lambda>_. []), ae_redis_up = False, ae_busy = False, ae_token = [], ae_message = (\<lambda>_. [])\<rparr>"

definition demo_key :: api_key_row where
  "demo_key = \<lparr>k_id = ''key'', k_tenant = ''t'', k_mode = TEST, k_hash = ''lf_test_x'', k_prefix = ''lf_test_x'',
     k_last4 = ''st_x'', k_version = api_version, k_revoked = None, k_created = 0\<rparr>"

definition demo_db :: st where
  "demo_db = (let s = new_database [''t''] demo_clock 5000000 in s\<lparr>sid := (sid s)\<lparr>api_keys := [demo_key]\<rparr>\<rparr>)"

definition demo_request :: request where
  "demo_request = \<lparr>rq_method = ''POST'', rq_authorization = Some (''Bearer'' @ CHR 32 # ''lf_test_x''), rq_version = None,
     rq_key = Some ''once''\<rparr>"

definition demo_account :: account_body where
  "demo_account = \<lparr>ab_name = ''Cash'', ab_type = ''asset'', ab_currency = ''usd'', ab_external = None, ab_minimum = None,
     ab_metadata = []\<rparr>"

lemma demo_settled: "settled_keys (idm demo_db)"
  by (simp add: demo_db_def new_database_def settled_keys_def idem_ok_def Let_def)

section \<open>Shape\<close>

text \<open>
  C22. Every response is an object: of a success with the endpoint's status, or an error with one of the statuses
  of the API, a code and the request's id. The request's id is in the headers of every response but that
  of an unexpected error, which has no header at all.
\<close>

theorem responses_are_well_formed:
  assumes "serve env rq call s = (r, s')" "settled_keys (idm s)"
  shows "object (rs_body r)
     \<and> ((\<exists>ep. call = Inr ep \<and> rs_status r = status_of ep) \<or> client_error (fst (request_id (idg s))) r
        \<or> rs_status r = 500 \<and> error_shape (fst (request_id (idg s))) r)
     \<and> (if rs_status r = 500 then rs_headers r = [] else (''Request-Id'', fst (request_id (idg s))) \<in> set (rs_headers r))"
proof -
  let ?rid = "fst (request_id (idg s))"
  have shaped: "object (rs_body x)" if "error_shape ?rid x" for x using that by (auto simp: error_shape_def object_def)
  have failed: ?thesis if "client_error ?rid r \<or> r = handle_unexpected ?rid"
    using that shaped unexpected_error [of ?rid] by (auto simp: client_error_def)
  from assms(1) show ?thesis
  proof (cases rule: serve_cases)
    case refused
    then show ?thesis using failed fail_request_response by blast
  next
    case (invalid qs errors meth)
    then have "client_error ?rid r"
      by (auto simp: handle_validation_def client_error_def finish_error' split_beta Let_def)
    then show ?thesis using failed by blast
  next
    case failed
    then show ?thesis using \<open>client_error ?rid r \<or> r = handle_unexpected ?rid \<Longrightarrow> ?thesis\<close> fail_request_response by blast
  next
    case (answered s0 ctx qs s1 ep replayed body)
    obtain d where d: "body = JObj d" using answered_object [OF answered(4) assms(2) answered(5)] .
    let ?r = "\<lparr>rs_status = status_of ep, rs_body = body, rs_headers = []\<rparr>"
    have "rs_body ?r = JObj d" using d by simp
    note f = finish_object [OF this, of ?rid "qs\<lparr>qs_replay := replayed\<rparr>"]
    have "status_of ep \<noteq> 500" using status_of_success [of ep] by auto
    moreover have "(''Request-Id'', ?rid) \<in> set (rs_headers r)" using f(2) answered(6) by (simp add: envelope_def)
    ultimately show ?thesis using f answered(1,6) by auto
  qed
qed

theorem responses_are_well_formed_witness:
  "let (r, s') = serve demo_env (demo_request\<lparr>rq_authorization := None\<rparr>) (Inr WhoAmI) demo_db in object (rs_body r)"
proof -
  obtain r s' where run: "serve demo_env (demo_request\<lparr>rq_authorization := None\<rparr>) (Inr WhoAmI) demo_db = (r, s')" by fastforce
  from conjunct1 [OF responses_are_well_formed [OF run demo_settled]] show ?thesis by (simp add: run)
qed

section \<open>A caller\<close>

lemma demo_authenticates:
  "sid s = sid demo_db \<Longrightarrow> authenticate (ae_sha256 demo_env) (rq_authorization demo_request) s = (Inr demo_key, s)"
proof -
  assume sid: "sid s = sid demo_db"
  have "py_lower ''Bearer'' = ''bearer''" by code_simp
  moreover have "key_for id ''lf_test_x'' (sid s) = Some demo_key"
    by (simp add: sid key_for_def demo_db_def demo_key_def Let_def)
  moreover have "k_mode demo_key = expected_mode ''lf_test_x''" by (simp add: demo_key_def expected_mode_def starts_with_def)
  ultimately show ?thesis
    unfolding demo_env_def demo_request_def using authenticate_run [of "''Bearer''" "''lf_test_x''" id s] by simp
qed

lemma demo_context:
  assumes s: "s = demo_db\<lparr>led := l, idg := g\<rparr>"
  shows "\<exists>qs s1. context_of demo_env (as_called call demo_request) s = ((Inr (ctx_of demo_key), qs), s1)
     \<and> led s1 = l \<and> idm s1 = [] \<and> rsk s1 = rsk demo_db \<and> wall s1 = 5000000"
proof -
  let ?rq = "as_called call demo_request" and ?rl = default_limiter
  have auth: "authenticate (ae_sha256 demo_env) (rq_authorization ?rq) s = (Inr demo_key, s)"
    using demo_authenticates [of s] s by simp
  have v: "requested_version demo_env ?rq demo_key = Inr api_version"
    by (simp add: requested_version_def demo_request_def demo_key_def)
  have lim: "limiter_of ?rq = ?rl" by (simp add: limiter_of_def read_limiter_def write_limiter_def)
  have "\<exists>d s1. check_limit False ?rl k 1 (s\<lparr>tx_now := w\<rparr>) = (Inr d, s1) \<and> d_allowed d \<and> led s1 = l \<and> idm s1 = []
      \<and> rsk s1 = rsk demo_db \<and> wall s1 = 5000000"
    for k w
    by (simp add: s check_limit_def check_pg_def pg_upsert_def decision_of_def Let_def demo_db_def new_database_def
        no_side_tables_def default_limiter_def rate_limit_per_minute_def)
  then obtain d s1 where c: "check_limit (ae_redis_up demo_env) (limiter_of ?rq) (bucket_of ?rq (ctx_of demo_key)) 1
      (s\<lparr>tx_now := wall s\<rparr>) = (Inr d, s1)" "d_allowed d" "led s1 = l" "idm s1 = []" "rsk s1 = rsk demo_db" "wall s1 = 5000000"
    unfolding lim by (simp add: demo_env_def) blast
  have ro: "read_only (authenticate (ae_sha256 demo_env) (rq_authorization ?rq)) s = (Inr demo_key, s\<lparr>tx_now := wall s\<rparr>)"
    using read_only_keeps [OF authenticate_reads] authenticate_cong [of "s\<lparr>tx_now := wall s\<rparr>" s] auth by simp
  show ?thesis unfolding context_of_def ro using c v by (simp add: Let_def)
qed

section \<open>Errors\<close>

lemma declined_response:
  assumes "fail_request env rid qs (AppExn (TransactionDeclined d)) s = (r, s')" "qs_ctx qs = Some ctx"
  shows "r = finish rid qs (app_response env rid (TransactionDeclined d))" "rs_status r = 402"
    "s' = snd (record_decline ctx d s)"
proof -
  show r: "r = finish rid qs (app_response env rid (TransactionDeclined d))" and "s' = snd (record_decline ctx d s)"
    using assms by (simp_all add: fail_request_def handle_app_error_def)
  show "rs_status r = 402" unfolding r app_response_def finish_error by simp
qed

lemma only_declines_are_402:
  assumes "fail_request env rid qs e s = (r, s')" "rs_status r = 402"
  shows "\<exists>d. e = AppExn (TransactionDeclined d)"
proof (cases e)
  case (AppExn a)
  then have "r = finish rid qs (app_response env rid a)"
    using assms(1) by (simp add: fail_request_def handle_app_error_def)
  then have "status_code a = 402" using assms(2) finish_error(1) unfolding app_response_def by simp
  then show ?thesis using AppExn by (cases a) simp_all
qed (use assms in \<open>auto simp: fail_request_def finish_error' unexpected_error\<close>)

text \<open>
  C6. A request that fails leaves every row of every table but the limiter's buckets, and the stream, as they were,
  however far it got, unless it fails with 402. That status comes from a declined posting only: the endpoint ran for the
  authenticated caller, rolled back and raised \<open>TransactionDeclined\<close>, and the response carries that decline. Then the
  only difference is one more row in the table of signals, of the action BLOCK, with the caller's tenant and
  the decline's account, rule, amount and message; it is left out only where the table refuses it (\<open>recordable\<close>): the amount does not fit
  a bigint, the drawn id is taken, or the tenant or the account has no row.
\<close>

theorem failed_requests_change_nothing:
  assumes "serve env rq call s = (r, s')" "settled_keys (idm s)" "400 \<le> rs_status r"
  shows "if rs_status r \<noteq> 402 then rows_kept s s'
     else \<exists>ep ctx qs s1 d s2. call = Inr ep
       \<and> context_of env (as_called call rq) (s\<lparr>idg := snd (request_id (idg s))\<rparr>) = ((Inr ctx, qs), s1)
       \<and> handle env rq ctx ep s1 = (Inl (AppExn (TransactionDeclined d)), s2)
       \<and> r = finish (fst (request_id (idg s))) qs (app_response env (fst (request_id (idg s))) (TransactionDeclined d))
       \<and> rows_kept s s2
       \<and> (if recordable ctx d s2
          then \<exists>row. fs_action row = BLOCK \<and> fs_tenant row = c_tenant ctx \<and> fs_account row = dc_account d
             \<and> fs_rule row = dc_rule d \<and> fs_amount row = Some (dc_amount d) \<and> fs_reason row = Some (dc_message d)
             \<and> rows_kept (s2\<lparr>rsk := (rsk s2)\<lparr>signals := signals (rsk s2) @ [row]\<rparr>\<rparr>) s'
          else rows_kept s s')"
  using assms(1)
proof (cases rule: serve_cases)
  case (refused s0 e qs s1)
  with fail_request_state [OF refused(5)] context_refuses [OF refused(3)] only_declines_are_402 [OF refused(5)]
  show ?thesis by auto
next
  case (invalid qs errors meth)
  then have "rs_status r = 400" by (auto simp: handle_validation_def finish_error' split_beta Let_def)
  with invalid show ?thesis by simp
next
  case (failed s0 ctx qs s1 ep e s2)
  show ?thesis
  proof (cases "rs_status r = 402")
    case False
    then show ?thesis using fail_request_state [OF failed(7)] failed(6) by auto
  next
    case True
    then obtain d where d: "e = AppExn (TransactionDeclined d)" using only_declines_are_402 [OF failed(7)] by blast
    note dr = declined_response [OF failed(7) [unfolded d] context_ctx [OF failed(2)]]
    have rec: "decline_recorded ctx d s2 s'" unfolding dr(3) by (rule record_decline_run)
    have "if recordable ctx d s2
        then \<exists>row. fs_action row = BLOCK \<and> fs_tenant row = c_tenant ctx \<and> fs_account row = dc_account d
           \<and> fs_rule row = dc_rule d \<and> fs_amount row = Some (dc_amount d) \<and> fs_reason row = Some (dc_message d)
           \<and> rows_kept (s2\<lparr>rsk := (rsk s2)\<lparr>signals := signals (rsk s2) @ [row]\<rparr>\<rparr>) s'
        else rows_kept s s'"
      using rec rows_kept_trans [OF failed(6)] unfolding decline_recorded_def evidence_def by (auto split: if_splits)
    then show ?thesis
      using failed(1) failed(2) [unfolded failed(8)] failed(5) [unfolded d] failed(6) dr(1)
      by (subst if_not_P, use True in simp)
        (rule exI [of _ ep], rule exI [of _ ctx], rule exI [of _ qs], rule exI [of _ s1],
          rule exI [of _ d], rule exI [of _ s2], simp only: simp_thms)
  qed
next
  case (answered s0 ctx qs s1 ep replayed body)
  obtain d where d: "body = JObj d" using answered_object [OF answered(4) assms(2) answered(5)] .
  have "rs_status r = status_of ep" unfolding answered(6) by (subst finish_object(1)) (simp_all add: d)
  moreover have "status_of ep < 400" using status_of_success [of ep] by auto
  ultimately show ?thesis using assms(3) by simp
qed

text \<open>The fourteenth charge in a burst of thirteen, sent by the client.\<close>

definition burst_db :: st where
  "burst_db = demo_db\<lparr>led := led (charged_state 13)\<rparr>"

definition burst_charge :: endpoint where
  "burst_charge = CreateTransaction \<lparr>tb_amount = 450, tb_currency = ''usd'', tb_kind = ''card_purchase'',
     tb_accounts = demo_roles, tb_effective = None, tb_descriptor = None, tb_metadata = []\<rparr>"

lemma failed_work:
  assumes "\<And>t. led t = led s \<Longrightarrow> wall t = wall s \<Longrightarrow> fst (work t) = Inl e" "idm s = []"
  shows "fst (idempotent ctx False (Some key) hash code work s) = Inl e"
proof -
  obtain i g where i: "new_id ''idem'' (idg s) = (i, g)" by fastforce
  obtain row where c: "idem_claim (wall s) i (c_tenant ctx) (c_api_key ctx) key hash
      idempotency_lease_seconds idempotency_ttl_hours [] = (Inr (Some row), [row])"
    by (simp add: idem_claim_eq Let_def)
  let ?t = "s\<lparr>tx_now := wall s, idg := g, idm := [row]\<rparr>"
  obtain t where w: "work ?t = (Inl e, t)" using assms(1) [of ?t] by (cases "work ?t") simp
  have "hold_key ctx False key hash code work (s\<lparr>tx_now := wall s\<rparr>) = (Inl e, t)"
    using w i c assms(2) by (simp add: hold_key_def bind_op_def fresh_id_def guard_op_def on_idm_def zoom_def do_work_def)
  then show ?thesis by (simp add: idempotent_def unit_of_work_def)
qed

lemma burst_handled:
  assumes "led s = led (charged_state 13)" "wall s = 5000000" "idm s = []"
  shows "fst (handle demo_env demo_request (ctx_of demo_key) burst_charge s)
    = Inl (AppExn (TransactionDeclined (burst_decline ''acct_1'' 450 (map (\<lambda>i. charge i 100) [1 ..< 14]))))"
proof -
  let ?d = "burst_decline ''acct_1'' 450 (map (\<lambda>i. charge i 100) [1 ..< 14])"
  have "py_lower ''usd'' = ''usd''" by code_simp
  then have usd: "money_arg 450 ''usd'' = Inr demo_amount"
    by (simp add: money_arg_def mk_money_def demo_amount_def EXPONENTS_def)
  have ctx: "ctx_of demo_key = demo_ctx" by (simp add: ctx_of_def demo_key_def demo_ctx_def)
  have work: "fst (txn_work demo_ctx \<lparr>tb_amount = 450, tb_currency = ''usd'', tb_kind = ''card_purchase'',
       tb_accounts = demo_roles, tb_effective = None, tb_descriptor = None, tb_metadata = []\<rparr> t) = Inl (AppExn (TransactionDeclined ?d))"
    if "led t = led s" "wall t = wall s" for t
    using charged_declines [of t] that assms by (simp add: txn_work_def usd bind_op_run)
  have key: "rq_key demo_request = Some ''once''" "ae_busy demo_env = False" by (simp_all add: demo_request_def demo_env_def)
  have "takes_key burst_charge" by (simp add: burst_charge_def)
  note hk = handle_keyed [OF this, of demo_env demo_request "ctx_of demo_key", unfolded key ctx]
  show ?thesis
    unfolding ctx hk by (rule failed_work [OF _ assms(3)]) (simp add: burst_charge_def work)
qed

theorem failed_requests_change_nothing_witness:
  "rs_status (fst (serve demo_env demo_request (Inr burst_charge) burst_db)) = 402
   \<and> (\<exists>row. fs_account row = ''acct_1'' \<and> fs_action row = BLOCK \<and> fs_amount row = Some 450
        \<and> signals (rsk (snd (serve demo_env demo_request (Inr burst_charge) burst_db))) = [row])
   \<and> rows_kept demo_db (snd (serve demo_env (demo_request\<lparr>rq_authorization := None\<rparr>) (Inr WhoAmI) demo_db))"
proof (intro conjI)
  show "rows_kept demo_db (snd (serve demo_env (demo_request\<lparr>rq_authorization := None\<rparr>) (Inr WhoAmI) demo_db))"
  proof -
    obtain r s' where run: "serve demo_env (demo_request\<lparr>rq_authorization := None\<rparr>) (Inr WhoAmI) demo_db = (r, s')" by fastforce
    have "rs_status r = 401"
      using serve_no_header [of demo_env demo_request "Inr WhoAmI" demo_db] run by (simp add: app_response_def finish_error')
    with failed_requests_change_nothing [OF run demo_settled] show ?thesis by (simp add: run)
  qed
  let ?s0 = "burst_db\<lparr>idg := snd (request_id (idg burst_db))\<rparr>" and ?call = "Inr burst_charge :: (string list \<times> string) list \<times> string + endpoint"
  let ?d = "burst_decline ''acct_1'' 450 (map (\<lambda>i. charge i 100) [1 ..< 14])"
  obtain qs s1 where c: "context_of demo_env (as_called ?call demo_request) ?s0 = ((Inr (ctx_of demo_key), qs), s1)"
    "led s1 = led (charged_state 13)" "idm s1 = []" "wall s1 = 5000000"
  proof -
    have "?s0 = demo_db\<lparr>led := led (charged_state 13), idg := snd (request_id (idg burst_db))\<rparr>" by (simp add: burst_db_def)
    from demo_context [OF this, of ?call] that show thesis by blast
  qed
  obtain s2 where h: "handle demo_env demo_request (ctx_of demo_key) burst_charge s1 = (Inl (AppExn (TransactionDeclined ?d)), s2)"
    using burst_handled [OF c(2,4,3)] by (metis prod.collapse)
  obtain r s' where f: "fail_request demo_env (fst (request_id (idg burst_db))) qs (AppExn (TransactionDeclined ?d)) s2 = (r, s')" by fastforce
  have run: "serve demo_env demo_request ?call burst_db = (r, s')"
    using c(1) h f by (simp add: serve_def fresh_request)
  have status: "rs_status r = 402" by (rule declined_response(2) [OF f context_ctx [OF c(1)]])
  then show "rs_status (fst (serve demo_env demo_request ?call burst_db)) = 402" by (simp add: run)
  have settled: "settled_keys (idm burst_db)" using demo_settled by (simp add: burst_db_def)
  obtain ep ctx qs' s1' d s2' where w: "?call = Inr ep"
    "context_of demo_env (as_called ?call demo_request) ?s0 = ((Inr ctx, qs'), s1')"
    "handle demo_env demo_request ctx ep s1' = (Inl (AppExn (TransactionDeclined d)), s2')" "rows_kept burst_db s2'"
    "if recordable ctx d s2'
     then \<exists>row. fs_action row = BLOCK \<and> fs_tenant row = c_tenant ctx \<and> fs_account row = dc_account d
       \<and> fs_rule row = dc_rule d \<and> fs_amount row = Some (dc_amount d) \<and> fs_reason row = Some (dc_message d)
       \<and> rows_kept (s2'\<lparr>rsk := (rsk s2')\<lparr>signals := signals (rsk s2') @ [row]\<rparr>\<rparr>) s'
     else rows_kept burst_db s'"
    using failed_requests_change_nothing [OF run settled] status by auto
  have same: "ctx = ctx_of demo_key" "d = ?d" using w(1-3) c(1) h by auto
  have kept: "signals (rsk s2') = []" "tenants (led s2') = [''t'']" "map a_id (accounts (led s2')) = [''acct_1'', ''acct_2'']"
    using w(4) by (auto simp: rows_kept_def tables_of_def burst_db_def demo_db_def new_database_def charged_state_def demo_state_def
      demo_accounts_def Let_def dest: arg_cong [where f = tenants] arg_cong [where f = accounts])
  then have "''acct_1'' \<in> a_id ` set (accounts (led s2'))" by (metis list.set_intros(1) list.set_map)
  then have "recordable ctx d s2'"
    using kept by (simp add: recordable_def same ctx_of_def demo_key_def burst_decline_def in_bigint_def)
  then show "\<exists>row. fs_account row = ''acct_1'' \<and> fs_action row = BLOCK \<and> fs_amount row = Some 450
        \<and> signals (rsk (snd (serve demo_env demo_request ?call burst_db))) = [row]"
    using w(5) kept(1) by (auto simp: run rows_kept_def tables_of_def same burst_decline_def)
qed

section \<open>Retries\<close>

text \<open>
  C5. A request under an idempotency key that was answered is executed once: sent again by the same caller, in
  any later state that still holds the key's answer, it changes no row and receives the same body, marked
  as a replay; a different request under the same key is refused with 409; the limiter may refuse either.
\<close>

theorem retry_is_replayed:
  assumes first: "serve env rq (Inr ep) s = (r, s')" "rs_status r = 201" "settled_keys (idm s)"
    and ep: "takes_key ep" "takes_key ep'" and key: "rq_key rq = Some key" "\<not> ae_busy env"
    and later: "settled_keys (idm u)" "responses_of (idm s') \<subseteq>\<^sub>m responses_of (idm u)" "api_keys (sid u) = api_keys (sid s)"
    and again: "serve env rq (Inr ep') u = (r', u')"
  shows "rows_kept u u' \<and> (rs_status r' = 429
     \<or> (if hash_of env ep' = hash_of env ep
        then rs_status r' = 201 \<and> rs_body r' = rs_body r \<and> (''Idempotent-Replay'', ''true'') \<in> set (rs_headers r')
        else rs_status r' = 409))"
proof -
  let ?u = "u\<lparr>idg := snd (request_id (idg u))\<rparr>"
  have call: "as_called (Inr ep') rq = as_called (Inr ep) rq" using ep by (cases ep; cases ep') (simp_all add: route_method_def)
  obtain s0 ctx qs s1 b where a: "context_of env (as_called (Inr ep) rq) s0 = ((Inr ctx, qs), s1)" "rows_kept s s0"
    "responses_of (idm s') (c_api_key ctx, key) = Some (hash_of env ep, b)"
    "apply_version CHANGES b (qs_version qs) = Inr (rs_body r)"
    using serve_keyed_answer [OF first ep(1) key(1)] .
  have held: "responses_of (idm u) (c_api_key ctx, key) = Some (hash_of env ep, b)"
    using later(2) a(3) by (auto simp: map_le_def dom_def)
  have "api_keys (sid ?u) = api_keys (sid s0)" using later(3) rows_kept_idm [OF a(2)] by simp
  from context_again [OF a(1) this, folded call] obtain qs2 u1 where qs2: "qs_version qs2 = qs_version qs" and
    c: "context_of env (as_called (Inr ep') rq) ?u = ((Inr ctx, qs2), u1)
      \<or> (\<exists>d now. context_of env (as_called (Inr ep') rq) ?u = ((Inl (limited d now), qs2), u1))" by blast
  from c show ?thesis
  proof (elim disjE exE)
    assume "context_of env (as_called (Inr ep') rq) ?u = ((Inr ctx, qs2), u1)"
    from serve_hit [OF ep(2) key later(1) held this again] show ?thesis using a(4) qs2 by (auto split: if_splits)
  next
    fix d now
    assume "context_of env (as_called (Inr ep') rq) ?u = ((Inl (limited d now), qs2), u1)"
    from serve_limited [OF this again] show ?thesis by simp
  qed
qed

lemma demo_handle:
  assumes "led s = led demo_db" "idm s = []"
  shows "\<exists>b s'. handle demo_env demo_request (ctx_of demo_key) (CreateAccount demo_account) s = (Inr (False, b), s')"
proof -
  obtain i g where i: "new_id ''idem'' (idg s) = (i, g)" by fastforce
  obtain a g' where a: "account_id g = (a, g')" by fastforce
  have ty: "account_type_of ''asset'' = Some ASSET" by (simp add: account_type_of_def)
  have "\<exists>b s'. account_work (ctx_of demo_key) demo_account t = (Inr b, s') \<and> (\<exists>v. jindex b ''id'' = Inr v)
      \<and> entries (led s') = entries (led t)"
    if "idg t = g" "led t = led s" for t
    using that a assms(1)
    by (simp add: account_work_def create_account_def demo_account_def bind_op_def fresh_id_def ty from_option_def on_led_def
        zoom_def account_create_def guard_op_def ctx_of_def demo_key_def demo_db_def new_database_def Let_def account_json_def)
  note work = this
  let ?row = "\<lparr>i_id = i, i_tenant = c_tenant (ctx_of demo_key), i_api_key = c_api_key (ctx_of demo_key), i_key = ''once'',
      i_hash = hash_of demo_env (CreateAccount demo_account),
      i_status = IN_PROGRESS, i_code = None, i_body = None, i_resource = None,
      i_lease = wall s + seconds idempotency_lease_seconds, i_created = wall s,
      i_expires = wall s + seconds (3600 * idempotency_ttl_hours)\<rparr>"
  let ?t = "s\<lparr>tx_now := wall s, idg := g, idm := [?row]\<rparr>"
  obtain b s' v where w: "account_work (ctx_of demo_key) demo_account ?t = (Inr b, s')" "jindex b ''id'' = Inr v"
    "entries (led s') = entries (led s)" using work [of ?t] by auto
  have key: "rq_key demo_request = Some ''once''" "ae_busy demo_env = False" by (simp_all add: demo_request_def demo_env_def)
  have "takes_key (CreateAccount demo_account)" by simp
  note hk = handle_keyed [OF this, of demo_env demo_request "ctx_of demo_key", unfolded key]
  show ?thesis
    unfolding hk using i w assms(2)
    by (simp add: idempotent_def unit_of_work_def hold_key_def bind_op_def fresh_id_def guard_op_def on_idm_def zoom_def
        idem_claim_eq do_work_def Let_def idem_complete_def deferred_checks_def)
qed

lemma demo_first:
  obtains r s' where "serve demo_env demo_request (Inr (CreateAccount demo_account)) demo_db = (r, s')" "rs_status r = 201"
    "settled_keys (idm s')"
proof -
  let ?ep = "CreateAccount demo_account" and ?s = "demo_db\<lparr>idg := snd (request_id (idg demo_db))\<rparr>"
  obtain qs s1 where c: "context_of demo_env (as_called (Inr ?ep) demo_request) ?s = ((Inr (ctx_of demo_key), qs), s1)"
    "led s1 = led demo_db" "idm s1 = []"
  proof -
    have "?s = demo_db\<lparr>led := led demo_db, idg := snd (request_id (idg demo_db))\<rparr>" by simp
    from demo_context [OF this, of "Inr ?ep"] that show thesis by blast
  qed
  obtain b s' where h: "handle demo_env demo_request (ctx_of demo_key) ?ep s1 = (Inr (False, b), s')"
    using demo_handle [OF c(2,3)] by blast
  have settled: "settled_keys (idm s1)" using c(3) by (simp add: settled_keys_def idem_ok_def)
  note kept = keyed_objects [OF _ settled h]
  then obtain d where d: "b = JObj d" by (auto simp: object_def)
  have run: "serve demo_env demo_request (Inr ?ep) demo_db =
      (finish (fst (request_id (idg demo_db))) (qs\<lparr>qs_replay := False\<rparr>) \<lparr>rs_status = 201, rs_body = b, rs_headers = []\<rparr>, s')"
    using c h by (simp add: serve_def fresh_request)
  have "rs_status (fst (serve demo_env demo_request (Inr ?ep) demo_db)) = 201"
    unfolding run by (simp add: finish_object [where d = d] d)
  then show ?thesis using that run kept by simp
qed

theorem retry_is_replayed_witness:
  "\<exists>r s' r' u'. serve demo_env demo_request (Inr (CreateAccount demo_account)) demo_db = (r, s')
     \<and> serve demo_env demo_request (Inr (CreateAccount demo_account)) (s'\<lparr>sid := sid demo_db\<rparr>) = (r', u')
     \<and> rows_kept (s'\<lparr>sid := sid demo_db\<rparr>) u'
     \<and> (rs_status r' = 429 \<or> rs_status r' = 201 \<and> rs_body r' = rs_body r \<and> (''Idempotent-Replay'', ''true'') \<in> set (rs_headers r'))"
proof -
  let ?call = "Inr (CreateAccount demo_account)"
  obtain r s' where first: "serve demo_env demo_request ?call demo_db = (r, s')" "rs_status r = 201" "settled_keys (idm s')"
    by (rule demo_first)
  obtain r' u' where again: "serve demo_env demo_request ?call (s'\<lparr>sid := sid demo_db\<rparr>) = (r', u')" by fastforce
  have "rows_kept (s'\<lparr>sid := sid demo_db\<rparr>) u' \<and> (rs_status r' = 429
     \<or> (if hash_of demo_env (CreateAccount demo_account) = hash_of demo_env (CreateAccount demo_account)
        then rs_status r' = 201 \<and> rs_body r' = rs_body r \<and> (''Idempotent-Replay'', ''true'') \<in> set (rs_headers r')
        else rs_status r' = 409))"
    by (rule retry_is_replayed [OF first(1,2) demo_settled _ _ _ _ _ _ _ again, where key = "''once''"])
      (simp_all add: demo_request_def demo_env_def first(3))
  with first(1) again show ?thesis by auto
qed

section \<open>The protocol\<close>

text \<open>The abstract protocol: what a request with a hash under a key may do to the map of answers.\<close>

inductive answer_step :: "string \<times> string \<Rightarrow> string \<Rightarrow> responses \<Rightarrow> exn + bool \<times> json \<Rightarrow> responses \<Rightarrow> bool"
  for k :: "string \<times> string" and hash :: string where
  replay: "m k = Some (hash, b) \<Longrightarrow> answer_step k hash m (Inr (True, b)) m"
| reuse: "\<lbrakk>m k = Some (h, b); h \<noteq> hash\<rbrakk> \<Longrightarrow> answer_step k hash m (Inl (AppExn IdempotencyKeyReuse)) m"
| wait: "answer_step k hash m (Inl (AppExn RequestInFlight)) m"
| failed: "m k = None \<Longrightarrow> answer_step k hash m (Inl e) m"
| fresh: "m k = None \<Longrightarrow> answer_step k hash m (Inr (False, b)) (m(k \<mapsto> (hash, b)))"

inductive_simps answer_step_held: "answer_step k hash m r m'"

text \<open>
  C7. The protocol over the table of keys implements the map of answers: a key that holds an answer gives it to
  the request it belongs to and refuses any other, a key that holds none takes the answer of the work that
  ran or stays free when the work fails, other keys are untouched, and between transactions the table
  holds answers only.
\<close>

theorem keyed_requests_refine_answers:
  assumes "takes_key ep" "rq_key rq = Some key" "settled_keys (idm s)" "handle env rq ctx ep s = (r, s')"
  shows "settled_keys (idm s')
     \<and> answer_step (c_api_key ctx, key) (hash_of env ep) (responses_of (idm s)) r (responses_of (idm s'))"
proof -
  have run: "idempotent ctx (ae_busy env) (Some key) (hash_of env ep) 201 (work_of ctx ep) s = (r, s')"
    using assms(2,4) by (simp add: handle_keyed [OF assms(1)])
  have same: "same_rows s s' \<Longrightarrow> idm s' = idm s" by (simp add: same_rows_def)
  show ?thesis
  proof (cases "responses_of (idm s) (c_api_key ctx, key)")
    case None
    from idempotent_work.idempotent_miss [OF work_of_contract [OF assms(1)] None assms(3) run] show ?thesis
      using same assms(3) None by (auto intro: answer_step.intros)
  next
    case (Some hb)
    then obtain h b where hb: "responses_of (idm s) (c_api_key ctx, key) = Some (h, b)" by (cases hb) auto
    from idempotent_hit [OF hb assms(3) run] show ?thesis
      using same assms(3) hb by (auto intro: answer_step.intros)
  qed
qed

theorem keyed_requests_refine_answers_witness:
  "\<exists>r s'. handle demo_env demo_request (ctx_of demo_key) (CreateAccount demo_account) demo_db = (r, s')
     \<and> answer_step (''key'', ''once'') (hash_of demo_env (CreateAccount demo_account)) (responses_of (idm demo_db)) r
         (responses_of (idm s'))"
proof -
  obtain r s' where run: "handle demo_env demo_request (ctx_of demo_key) (CreateAccount demo_account) demo_db = (r, s')" by fastforce
  have "rq_key demo_request = Some ''once''" by (simp add: demo_request_def)
  from keyed_requests_refine_answers [OF _ this demo_settled run] run show ?thesis
    by (simp add: ctx_of_def demo_key_def)
qed

end
