(* ===== verification/Regex.thy ===== *)
theory Regex
  imports Py_String
begin

text \<open>
  Python's \<open>re\<close> as far as the descriptor patterns use it: a backtracking matcher that gives the ends of a
  match in the order Python tries them, and \<open>sub\<close>, which replaces the matches from left to right. A
  position is what was read, reversed, what is left, and the last group captured.
\<close>

datatype rx =
    One "char \<Rightarrow> bool"                    \<comment> \<open>a character of a class\<close>
  | Many "char \<Rightarrow> bool" nat "nat option"  \<comment> \<open>greedy repetition of a class\<close>
  | Lit string
  | Seq rx rx
  | Alt rx rx
  | Opt rx
  | Ahead rx                              \<comment> \<open>\<open>(?=...)\<close>\<close>
  | Boundary                              \<comment> \<open>\<open>\b\<close>\<close>
  | Group rx

type_synonym pos = "string \<times> string \<times> string"

definition is_lower :: "char \<Rightarrow> bool" where
  "is_lower c = (let n = of_char c :: nat in 97 \<le> n \<and> n \<le> 122)"

definition is_alnum :: "char \<Rightarrow> bool" where
  "is_alnum c \<longleftrightarrow> is_lower c \<or> is_digit c"

definition is_word :: "char \<Rightarrow> bool" where
  "is_word c \<longleftrightarrow> is_alnum c \<or> (let n = of_char c :: nat in 65 \<le> n \<and> n \<le> 90) \<or> c = CHR ''_''"

definition edge :: "string \<Rightarrow> bool" where
  "edge s = (case s of [] \<Rightarrow> False | c # _ \<Rightarrow> is_word c)"

text \<open>Moving over the next \<open>n\<close> characters.\<close>

definition skip :: "nat \<Rightarrow> pos \<Rightarrow> pos" where
  "skip n p = (case p of (b, a, g) \<Rightarrow> (rev (take n a) @ b, drop n a, g))"

definition run_length :: "(char \<Rightarrow> bool) \<Rightarrow> nat option \<Rightarrow> string \<Rightarrow> nat" where
  "run_length P hi a = (let n = length (takeWhile P a) in case hi of None \<Rightarrow> n | Some h \<Rightarrow> min h n)"

fun matches :: "rx \<Rightarrow> pos \<Rightarrow> pos list" where
  "matches (One P) (b, a, g) = (case a of [] \<Rightarrow> [] | c # cs \<Rightarrow> if P c then [(c # b, cs, g)] else [])"
| "matches (Many P lo hi) (b, a, g) =
     map (\<lambda>n. skip n (b, a, g)) (rev [lo ..< Suc (run_length P hi a)])"
| "matches (Lit t) (b, a, g) = (if starts_with t a then [skip (length t) (b, a, g)] else [])"
| "matches (Seq r s) p = concat (map (matches s) (matches r p))"
| "matches (Alt r s) p = matches r p @ matches s p"
| "matches (Opt r) p = matches r p @ [p]"
| "matches (Ahead r) p = (if matches r p = [] then [] else [p])"
| "matches Boundary (b, a, g) = (if edge b \<noteq> edge a then [(b, a, g)] else [])"
| "matches (Group r) (b, a, g) =
     map (\<lambda>(b', a', _). (b', a', take (length a - length a') a)) (matches r (b, a, g))"

text \<open>
  \<open>pattern.sub\<close>, with the replacement as a function of the group: the first match at the first position
  that has one. No pattern of the program matches the empty string; one that did would be passed over here.
\<close>

function sub_from :: "rx \<Rightarrow> (string \<Rightarrow> string) \<Rightarrow> string \<Rightarrow> string \<Rightarrow> string" where
  "sub_from r f b [] = []"
| "sub_from r f b (c # cs) =
     (case matches r (b, c # cs, []) of
        (b', a', g) # _ \<Rightarrow>
          if length a' < length (c # cs) then f g @ sub_from r f b' a' else c # sub_from r f (c # b) cs
      | [] \<Rightarrow> c # sub_from r f (c # b) cs)"
  by pat_completeness auto
termination by (relation "measure (\<lambda>(r, f, b, a). length a)") auto

declare sub_from.simps(2) [simp del]

definition sub :: "rx \<Rightarrow> (string \<Rightarrow> string) \<Rightarrow> string \<Rightarrow> string" where
  "sub r f text = sub_from r f [] text"

section \<open>Facts\<close>

lemma matches_suffix: "(b', a', g') \<in> set (matches r (b, a, g)) \<Longrightarrow> \<exists>u. a = u @ a'"
proof (induction r arbitrary: b a g b' a' g')
  case (Seq r1 r2)
  then show ?case by fastforce
next
  case (Alt r1 r2)
  then show ?case by auto
next
  case (Group r)
  then show ?case by fastforce
next
  case (Many P lo hi)
  then show ?case by (auto simp: skip_def simp del: upt_Suc) (metis append_take_drop_id)+
qed (auto simp: skip_def split: list.splits if_splits, (metis append_take_drop_id)+)

text \<open>A substitution adds no character but those of replacements.\<close>

lemma sub_from_set: "(\<And>g. set (f g) \<subseteq> A) \<Longrightarrow> set (sub_from r f b a) \<subseteq> set a \<union> A"
proof (induction r f b a rule: sub_from.induct)
  case (1 r f b)
  then show ?case by simp
next
  case (2 r f b c cs)
  show ?case
  proof (cases "matches r (b, c # cs, [])")
    case Nil
    from "2.IH"(1) [OF Nil "2.prems"] show ?thesis using Nil by (auto simp: sub_from.simps(2))
  next
    case (Cons p ps)
    obtain b' a' g where p: "p = (b', a', g)" by (cases p)
    then have "(b', a', g) \<in> set (matches r (b, c # cs, []))" using Cons by simp
    then obtain u where u: "c # cs = u @ a'" using matches_suffix by blast
    then have sub: "set a' \<subseteq> set (c # cs)" by simp
    show ?thesis
    proof (cases "length a' < length (c # cs)")
      case True
      have "set (sub_from r f b' a') \<subseteq> set a' \<union> A"
        by (rule "2.IH"(2) [OF Cons p [symmetric] refl True "2.prems"])
      moreover have "sub_from r f b (c # cs) = f g @ sub_from r f b' a'"
        using True by (simp add: sub_from.simps(2) Cons p)
      ultimately show ?thesis using "2.prems" [of g] sub by auto
    next
      case False
      have "set (sub_from r f (c # b) cs) \<subseteq> set cs \<union> A"
        by (rule "2.IH"(3) [OF Cons p [symmetric] refl False "2.prems"])
      moreover have "sub_from r f b (c # cs) = c # sub_from r f (c # b) cs"
        using False by (simp add: sub_from.simps(2) Cons p)
      ultimately show ?thesis by auto
    qed
  qed
qed

lemma sub_One: "sub (One P) (\<lambda>_. t) s = concat (map (\<lambda>c. if P c then t else [c]) s)"
proof -
  have "sub_from (One P) (\<lambda>_. t) b s = concat (map (\<lambda>c. if P c then t else [c]) s)" for b
    by (induction s arbitrary: b) (simp_all add: sub_from.simps(2))
  then show ?thesis by (simp add: sub_def)
qed

end
