(* ===== verification/Clean.thy ===== *)
theory Clean
  imports Regex
begin

text \<open>
  \<open>normalization/clean.py\<close>: a raw card descriptor reduced to the merchant's tokens. The patterns are the
  source's, in its order; text is ASCII, so the curly apostrophe falls under the characters that are blanked.
\<close>

definition VERSION :: int where "VERSION = 3"

definition PREFIXES :: "string list" where
  "PREFIXES =
     [''debit card purchase'', ''recurring payment authorised on'', ''purchase authorized on'',
      ''pos debit'', ''pos purchase'', ''checkcard'', ''visa purchase'', ''ach debit'',
      ''sq *tst*'', ''tst* '', ''sq *'', ''sp '', ''py *'', ''pp*'', ''paypal *'', ''pmnt*'',
      ''dd *'', ''gp *'', ''in *'', ''tst*'', ''wl *'']"

definition SUFFIX_NOISE :: "string list" where
  "SUFFIX_NOISE = [''recurring'', ''purchase'', ''payment'', ''card purchase'', ''pending'']"

definition STATES :: "string list" where
  "STATES =
     [''al'', ''ak'', ''az'', ''ar'', ''ca'', ''co'', ''ct'', ''de'', ''fl'', ''ga'', ''hi'', ''id'',
      ''il'', ''in'', ''ia'', ''ks'', ''ky'', ''la'', ''me'', ''md'', ''ma'', ''mi'', ''mn'', ''ms'',
      ''mo'', ''mt'', ''ne'', ''nv'', ''nh'', ''nj'', ''nm'', ''ny'', ''nc'', ''nd'', ''oh'', ''ok'',
      ''or'', ''pa'', ''ri'', ''sc'', ''sd'', ''tn'', ''tx'', ''ut'', ''vt'', ''va'', ''wa'', ''wv'',
      ''wi'', ''wy'', ''dc'']"

section \<open>The patterns\<close>

definition among :: "string \<Rightarrow> char \<Rightarrow> bool" where
  "among cs c \<longleftrightarrow> c \<in> set cs"

fun seq :: "rx list \<Rightarrow> rx" where
  "seq [] = Lit []"
| "seq [r] = r"
| "seq (r # s # rs) = Seq r (seq (s # rs))"

definition digits :: "nat \<Rightarrow> nat option \<Rightarrow> rx" where
  "digits lo hi = Many is_digit lo hi"

definition phone_sep :: rx where
  "phone_sep = Opt (One (\<lambda>c. among ''-.'' c \<or> is_space c))"

definition date_sep :: rx where
  "date_sep = One (among ''/-'')"

definition PATTERNS :: "rx option list" where
  "PATTERNS =
     [Some (seq [Boundary, digits 3 (Some 3), phone_sep, digits 3 (Some 3), phone_sep, digits 4 (Some 4), Boundary]),
      Some (seq [Boundary, Lit ''8'', digits 2 (Some 2), phone_sep, digits 3 (Some 3), phone_sep, digits 4 (Some 4), Boundary]),
      Some (seq [Lit ''#'', Many is_space 0 None, digits 1 None]),
      Some (seq [Boundary, Lit ''store'', Many is_space 0 None, digits 1 None, Boundary]),
      Some (seq [Boundary, Lit ''term'', Opt (Lit ''inal''), Many is_space 0 None, digits 1 None, Boundary]),
      Some (seq [Boundary, digits 1 (Some 2), date_sep, digits 1 (Some 2), Opt (Seq date_sep (digits 2 (Some 4))), Boundary]),
      None,
      Some (seq [Boundary, Ahead (Seq (Many is_alnum 0 None) (One is_digit)),
                 Ahead (Seq (Many is_alnum 0 None) (One is_lower)), Many is_alnum 6 None, Boundary]),
      Some (seq [Boundary, digits 3 None, Boundary]),
      Some (seq [Boundary, Many is_lower 1 (Some 2), digits 3 None, Boundary])]"

definition DOMAIN :: rx where
  "DOMAIN = seq
     [Opt (seq [Lit ''http'', Opt (Lit ''s''), Lit ''://'']), Opt (Lit ''www.''), Boundary,
      Group (Many (\<lambda>c. is_alnum c \<or> c = CHR ''-'') 1 None), Lit ''.'',
      Alt (Lit ''com'') (Alt (Lit ''net'') (Alt (Lit ''org'') (Alt (Lit ''co'') (Lit ''io'')))), Boundary]"

definition PUNCT :: rx where "PUNCT = Many (among (''*#,;:_/|'' @ [CHR 92])) 1 None"
definition APOSTROPHE :: rx where "APOSTROPHE = One (among [CHR 39])"
definition NONWORD :: rx where "NONWORD = One (\<lambda>c. \<not> (is_alnum c \<or> c = CHR ''&'' \<or> is_space c))"
definition SPACES :: rx where "SPACES = Many is_space 1 None"

definition blank :: "string \<Rightarrow> string" where "blank _ = [CHR 32]"

section \<open>Cleaning\<close>

text \<open>The first prefix that fits is taken off, once.\<close>

fun strip_first :: "string list \<Rightarrow> string \<Rightarrow> string" where
  "strip_first [] text = text"
| "strip_first (p # ps) text =
     (if starts_with p text then py_strip (drop (length p) text) else strip_first ps text)"

fun sub_all :: "rx option list \<Rightarrow> string \<Rightarrow> string" where
  "sub_all [] text = text"
| "sub_all (None # ps) text = sub_all ps text"
| "sub_all (Some r # ps) text = sub_all ps (sub r blank text)"

definition drop_state :: "string list \<Rightarrow> string list" where
  "drop_state tokens =
     (if tokens \<noteq> [] \<and> last tokens \<in> set STATES \<and> 1 < length tokens then butlast tokens else tokens)"

definition drop_noise :: "string \<Rightarrow> string list \<Rightarrow> string list" where
  "drop_noise noise tokens =
     (let parts = py_split noise; n = length tokens - length parts in
      if length parts < length tokens \<and> drop n tokens = parts then take n tokens else tokens)"

definition trim_once :: "string list \<Rightarrow> string list" where
  "trim_once tokens = fold drop_noise SUFFIX_NOISE (drop_state tokens)"

text \<open>\<open>while changed and tokens\<close>: a pass changes the list exactly when it shortens it.\<close>

function trim :: "string list \<Rightarrow> string list" where
  "trim tokens = (let t = trim_once tokens in if length t < length tokens then trim t else tokens)"
  by pat_completeness auto
termination by (relation "measure length") auto

declare trim.simps [simp del]

definition drop_letter :: "string list \<Rightarrow> string list" where
  "drop_letter tokens =
     (let n = length tokens in
      if 2 \<le> n \<and> length (tokens ! (n - 1)) = 1 \<and> 1 < length (tokens ! (n - 2)) then butlast tokens else tokens)"

definition blanked :: "string \<Rightarrow> string" where
  "blanked descriptor =
     (let t1 = strip_first PREFIXES (py_strip (py_lower descriptor));
          t2 = sub DOMAIN (\<lambda>g. g @ '' '') t1;
          t3 = sub_all PATTERNS t2;
          t4 = sub APOSTROPHE (\<lambda>_. []) t3;
          t5 = sub PUNCT blank t4;
          t6 = sub NONWORD blank t5
      in py_strip (sub SPACES blank t6))"

definition clean :: "string \<Rightarrow> string" where
  "clean descriptor = py_strip (py_join [CHR 32] (drop_letter (trim (py_split (blanked descriptor)))))"

section \<open>What a cleaned descriptor looks like\<close>

definition token_char :: "char \<Rightarrow> bool" where
  "token_char c \<longleftrightarrow> is_alnum c \<or> c = CHR ''&''"

definition token :: "string \<Rightarrow> bool" where
  "token t \<longleftrightarrow> t \<noteq> [] \<and> (\<forall>c \<in> set t. \<not> is_space c)"

lemma py_split_Nil [simp]: "py_split [] = []"
  by (simp add: py_split.simps)

lemma space_is_space [simp]: "is_space (CHR 32)"
  by (simp add: is_space_def)

lemma py_strip_set: "set (py_strip s) \<subseteq> set s"
  by (auto simp: py_strip_def dest!: set_dropWhileD)

lemma blanked_chars: "c \<in> set (blanked d) \<Longrightarrow> token_char c \<or> is_space c"
proof -
  let ?A = "{c. token_char c \<or> is_space c}"
  have "set (sub NONWORD blank t) \<subseteq> ?A" for t
    unfolding NONWORD_def blank_def sub_One by (auto simp: token_char_def split: if_splits)
  moreover have "set (sub SPACES blank t) \<subseteq> set t \<union> {CHR 32}" for t
    unfolding sub_def by (rule sub_from_set) (simp add: blank_def)
  moreover have "{CHR 32} \<subseteq> ?A" by simp
  ultimately have "set (py_strip (sub SPACES blank (sub NONWORD blank t))) \<subseteq> ?A" for t
    using py_strip_set by (meson order_trans Un_least)
  then show "c \<in> set (blanked d) \<Longrightarrow> token_char c \<or> is_space c"
    unfolding blanked_def Let_def by blast
qed

lemma py_split_tokens: "t \<in> set (py_split s) \<Longrightarrow> token t \<and> set t \<subseteq> set s"
proof (induction s rule: py_split.induct)
  case (1 s)
  show ?case
  proof (cases "dropWhile is_space s")
    case Nil
    with "1.prems" show ?thesis by (subst (asm) py_split.simps) simp
  next
    case (Cons c cs)
    then have c: "\<not> is_space c" by (metis hd_dropWhile list.discI list.sel(1))
    have sub: "set (c # cs) \<subseteq> set s" using Cons by (metis set_dropWhileD subsetI)
    from "1.prems" Cons consider "t = takeWhile (\<lambda>x. \<not> is_space x) (c # cs)"
      | "t \<in> set (py_split (dropWhile (\<lambda>x. \<not> is_space x) (c # cs)))"
      by (subst (asm) py_split.simps) auto
    then show ?thesis
    proof cases
      case 1
      then show ?thesis using c sub by (auto simp: token_def dest: set_takeWhileD)
    next
      case 2
      have "set (dropWhile (\<lambda>x. \<not> is_space x) (c # cs)) \<subseteq> set (c # cs)" by (meson set_dropWhileD subsetI)
      with "1.IH" [OF Cons 2] sub show ?thesis by (meson order_trans)
    qed
  qed
qed

lemma py_split_token_join:
  "\<forall>t \<in> set ts. token t \<Longrightarrow> py_split (py_join [CHR 32] ts) = ts"
proof (induction ts rule: induct_list012)
  case 1
  then show ?case by (simp add: py_split.simps)
next
  case (2 p)
  then obtain c cs where p: "p = c # cs" "\<not> is_space c" "\<forall>c \<in> set p. \<not> is_space c"
    by (cases p) (auto simp: token_def)
  then have "takeWhile (\<lambda>x. \<not> is_space x) p = p" "dropWhile (\<lambda>x. \<not> is_space x) p = []" by simp_all
  moreover have "py_split p = takeWhile (\<lambda>x. \<not> is_space x) p # py_split (dropWhile (\<lambda>x. \<not> is_space x) p)"
    using p(1,2) by (subst py_split.simps) simp
  ultimately show ?case by (simp only: py_join.simps py_split_Nil)
next
  case (3 p q ps)
  then obtain c cs where p: "p = c # cs" "\<not> is_space c" "\<forall>c \<in> set p. \<not> is_space c"
    by (cases p) (auto simp: token_def)
  let ?r = "py_join [CHR 32] (q # ps)"
  have "takeWhile (\<lambda>x. \<not> is_space x) (p @ [CHR 32] @ ?r) = p"
    "dropWhile (\<lambda>x. \<not> is_space x) (p @ [CHR 32] @ ?r) = CHR 32 # ?r"
    using p(3) by (simp_all add: takeWhile_append2 dropWhile_append2)
  moreover have "py_split (CHR 32 # ?r) = py_split ?r"
    by (subst (1 2) py_split.simps) simp
  moreover have "py_split (p @ [CHR 32] @ ?r)
      = takeWhile (\<lambda>x. \<not> is_space x) (p @ [CHR 32] @ ?r) # py_split (dropWhile (\<lambda>x. \<not> is_space x) (p @ [CHR 32] @ ?r))"
    using p(1,2) by (subst py_split.simps) simp
  ultimately show ?case using 3 by simp
qed

lemma py_join_last:
  "ts \<noteq> [] \<Longrightarrow> \<forall>t \<in> set ts. token t \<Longrightarrow>
    py_join [CHR 32] ts \<noteq> [] \<and> hd (py_join [CHR 32] ts) = hd (hd ts) \<and> last (py_join [CHR 32] ts) = last (last ts)"
  by (induction ts rule: induct_list012) (auto simp: token_def)

lemma py_strip_join: "\<forall>t \<in> set ts. token t \<Longrightarrow> py_strip (py_join [CHR 32] ts) = py_join [CHR 32] ts"
proof (cases "ts = []")
  case False
  assume t: "\<forall>t \<in> set ts. token t"
  let ?j = "py_join [CHR 32] ts"
  note j = py_join_last [OF False t]
  have "token (hd ts)" "token (last ts)" using t False by simp_all
  then have e: "\<not> is_space (hd ?j)" "\<not> is_space (last ?j)" using j by (auto simp: token_def)
  have "dropWhile is_space ?j = ?j" "dropWhile is_space (rev ?j) = rev ?j"
    using j e by (metis dropWhile_eq_self_iff, metis dropWhile_eq_self_iff hd_rev rev_is_Nil_conv)
  then show ?thesis by (simp add: py_strip_def)
qed (simp add: py_strip_def)

lemma drop_state_sub: "set (drop_state ts) \<subseteq> set ts" "drop_state ts = [] \<longleftrightarrow> ts = []"
  by (cases ts rule: rev_cases; auto simp: drop_state_def)+

lemma drop_noise_sub: "set (drop_noise n ts) \<subseteq> set ts" "drop_noise n ts = [] \<longleftrightarrow> ts = []"
  by (auto simp: drop_noise_def Let_def dest: in_set_takeD)

lemma fold_noise_sub:
  "set (fold drop_noise ns us) \<subseteq> set us \<and> (fold drop_noise ns us = [] \<longleftrightarrow> us = [])"
proof (induction ns arbitrary: us)
  case (Cons n ns)
  from Cons [of "drop_noise n us"] drop_noise_sub [of n us] show ?case by auto
qed simp

lemma trim_once_sub: "set (trim_once ts) \<subseteq> set ts" "trim_once ts = [] \<longleftrightarrow> ts = []"
  using fold_noise_sub [of SUFFIX_NOISE "drop_state ts"] drop_state_sub [of ts] by (auto simp: trim_once_def)

lemma trim_sub: "set (trim ts) \<subseteq> set ts \<and> (trim ts = [] \<longleftrightarrow> ts = [])"
proof (induction ts rule: trim.induct)
  case (1 ts)
  show ?case
  proof (cases "length (trim_once ts) < length ts")
    case True
    then have "trim ts = trim (trim_once ts)" by (subst trim.simps) (simp add: Let_def)
    with "1.IH" [OF refl True] trim_once_sub [of ts] show ?thesis by auto
  next
    case False
    then have "trim ts = ts" by (subst trim.simps) (simp add: Let_def)
    then show ?thesis by simp
  qed
qed

lemma drop_letter_sub: "set (drop_letter ts) \<subseteq> set ts" "drop_letter ts = [] \<longleftrightarrow> ts = []"
  by (cases ts rule: rev_cases; auto simp: drop_letter_def Let_def)+

lemma clean_tokens:
  obtains ts where "clean d = py_join [CHR 32] ts" "\<forall>t \<in> set ts. token t \<and> set t \<subseteq> set (blanked d)"
    "ts = [] \<longleftrightarrow> py_split (blanked d) = []"
proof -
  let ?ts = "drop_letter (trim (py_split (blanked d)))"
  have "set ?ts \<subseteq> set (py_split (blanked d))" using drop_letter_sub(1) trim_sub by (meson order_trans)
  then have t: "\<forall>t \<in> set ?ts. token t \<and> set t \<subseteq> set (blanked d)" using py_split_tokens by blast
  then have "clean d = py_join [CHR 32] ?ts" by (simp add: clean_def py_strip_join)
  with t that [of ?ts] show thesis by (simp add: drop_letter_sub trim_sub)
qed

lemma py_join_chars: "set (py_join [CHR 32] ts) \<subseteq> insert (CHR 32) (\<Union>t \<in> set ts. set t)"
  by (induction ts rule: induct_list012) auto

lemma longest_first:
  "starts_with p s \<Longrightarrow> starts_with q s \<Longrightarrow> length p \<le> length q \<Longrightarrow> starts_with p q"
  by (metis starts_with_def take_take min.absorb1)

lemma strip_first_longest:
  assumes "sorted_wrt (\<lambda>p q. \<not> starts_with p q) ps" "p \<in> set ps" "starts_with p text"
  shows "\<exists>q \<in> set ps. starts_with q text \<and> length p \<le> length q
     \<and> strip_first ps text = py_strip (drop (length q) text)"
  using assms
proof (induction ps)
  case Nil
  then show ?case by simp
next
  case (Cons r ps)
  show ?case
  proof (cases "starts_with r text")
    case True
    have "length p \<le> length r"
      using Cons.prems longest_first [OF True Cons.prems(3)] by fastforce
    with True show ?thesis by auto
  next
    case False
    with Cons show ?thesis by auto
  qed
qed

section \<open>Properties\<close>

text \<open>
  A cleaned descriptor is canonical: lower-case letters, digits and ampersands in tokens with one
  space between them (splitting it and joining it again gives it back); and the trimming of states,
  noise words and stray letters never takes the last token, so it is empty exactly when blanking left
  nothing.
\<close>

theorem clean_is_canonical:
  "list_all (\<lambda>c. is_lower c \<or> is_digit c \<or> c = CHR ''&'' \<or> c = CHR 32) (clean d)
   \<and> py_join [CHR 32] (py_split (clean d)) = clean d \<and> py_strip (clean d) = clean d
   \<and> (clean d = [] \<longleftrightarrow> py_split (blanked d) = [])"
proof -
  obtain ts where c: "clean d = py_join [CHR 32] ts" and t: "\<forall>t \<in> set ts. token t \<and> set t \<subseteq> set (blanked d)"
    and e: "ts = [] \<longleftrightarrow> py_split (blanked d) = []" by (rule clean_tokens)
  have tok: "\<forall>t \<in> set ts. token t" using t by simp
  have "is_lower x \<or> is_digit x \<or> x = CHR ''&''" if "x \<in> set t" "t \<in> set ts" for x t
  proof -
    have "x \<in> set (blanked d)" "\<not> is_space x" using t that by (auto simp: token_def)
    with blanked_chars show ?thesis by (auto simp: token_char_def is_alnum_def)
  qed
  then have "\<forall>x \<in> set (clean d). is_lower x \<or> is_digit x \<or> x = CHR ''&'' \<or> x = CHR 32"
    using py_join_chars [of ts] unfolding c by blast
  moreover have "clean d = [] \<longleftrightarrow> ts = []"
    using py_join_last [OF _ tok] by (cases "ts = []") (simp_all add: c)
  ultimately show ?thesis
    using e py_split_token_join [OF tok] py_strip_join [OF tok] by (simp add: c list_all_iff)
qed

text \<open>
  The prefix that is taken off is the longest of the list that fits: \<open>sq *tst*\<close> is consumed before
  \<open>sq *\<close> can match half of it.
\<close>

theorem longest_prefix_is_stripped:
  assumes "p \<in> set PREFIXES" "starts_with p txt"
  shows "\<exists>q \<in> set PREFIXES. starts_with q txt \<and> length p \<le> length q
     \<and> strip_first PREFIXES txt = py_strip (drop (length q) txt)"
proof -
  have "sorted_wrt (\<lambda>p q. \<not> starts_with p q) PREFIXES" by code_simp
  from strip_first_longest [OF this assms] show ?thesis .
qed

theorem longest_prefix_is_stripped_witness:
  "\<exists>q \<in> set PREFIXES. 4 \<le> length q
     \<and> strip_first PREFIXES ''sq *tst* starbucks'' = py_strip (drop (length q) ''sq *tst* starbucks'')"
proof -
  have "''sq *'' \<in> set PREFIXES" "starts_with ''sq *'' ''sq *tst* starbucks''" by code_simp+
  from longest_prefix_is_stripped [OF this] show ?thesis by (simp add: eval_nat_numeral) blast
qed

end
