(* ===== verification/Resolve.thy ===== *)
theory Resolve
  imports Clean Features
begin

text \<open>
  \<open>normalization/resolve.py\<close>: which merchant a cleaned descriptor is, and how sure. The probes are a
  Python set: the order it is iterated in is the environment's choice, as are \<open>pg_trgm\<close>'s operator and
  similarity. Scores and confidences are real numbers.
\<close>

definition MIN_CONFIDENCE :: real where "MIN_CONFIDENCE = 80 / 100"
definition PRIOR_CEILING :: real where "PRIOR_CEILING = 15 / 100"

record match_env =
  mt_similar :: "string \<Rightarrow> string \<Rightarrow> bool"
  mt_sim :: "string \<Rightarrow> string \<Rightarrow> real"
  mt_order :: "string list \<Rightarrow> string list"  \<comment> \<open>the iteration order of a set with these elements\<close>

record resolution =
  rs_merchant :: "string option"
  rs_name :: "string option"
  rs_category :: "string option"
  rs_confidence :: real
  rs_cleaned :: string
  rs_version :: int

definition resolved :: "resolution \<Rightarrow> bool" where
  "resolved r \<longleftrightarrow> rs_merchant r \<noteq> None"

definition prior_boost :: "nat \<Rightarrow> real" where
  "prior_boost count =
     (if count \<le> 0 then 0
      else min PRIOR_CEILING (PRIOR_CEILING * ln (1 + of_nat count) / ln (1 + 20)))"

text \<open>\<open>round(x)\<close> and \<open>round(x, 4)\<close>: to the nearest, ties to the even neighbour.\<close>

definition round_even :: "real \<Rightarrow> int" where
  "round_even x =
     (let f = \<lfloor>x\<rfloor>; d = x - of_int f in
      if d < 1 / 2 then f else if 1 / 2 < d then f + 1 else if even f then f else f + 1)"

definition round4 :: "real \<Rightarrow> real" where
  "round4 x = of_int (round_even (x * 10000)) / 10000"

definition probes :: "string \<Rightarrow> string list" where
  "probes cleaned =
     (let tokens = py_split cleaned in
      remdups (cleaned # map (\<lambda>n. py_join [CHR 32] (take n tokens)) (filter (\<lambda>n. n < length tokens) [1, 2, 3])))"

text \<open>The scored candidates of every probe, and the first of the greatest score.\<close>

definition scored :: "match_env \<Rightarrow> norm_tables \<Rightarrow> string \<Rightarrow> string \<Rightarrow> (real \<times> candidate_row) list" where
  "scored env n cleaned probe =
     map (\<lambda>row. (cd_score row * cd_weight row * (if probe \<noteq> cleaned then 97 / 100 else 1), row))
       (candidates (mt_similar env) (mt_sim env) probe 5 n)"

definition better :: "real \<times> candidate_row \<Rightarrow> (real \<times> candidate_row) option \<Rightarrow> (real \<times> candidate_row) option" where
  "better c best =
     (case best of None \<Rightarrow> Some c | Some b \<Rightarrow> if fst b < fst c then Some c else Some b)"

definition best_candidate :: "match_env \<Rightarrow> norm_tables \<Rightarrow> string \<Rightarrow> (real \<times> candidate_row) option" where
  "best_candidate env n cleaned =
     fold better (concat (map (scored env n cleaned) (mt_order env (probes cleaned)))) None"

definition resolve :: "match_env \<Rightarrow> string \<Rightarrow> string \<Rightarrow> norm_tables \<Rightarrow> resolution" where
  "resolve env tenant descriptor n =
     (let cleaned = clean descriptor;
          nothing = \<lparr>rs_merchant = None, rs_name = None, rs_category = None, rs_confidence = 0,
                     rs_cleaned = cleaned, rs_version = VERSION\<rparr> in
      if cleaned = [] then nothing
      else (case best_candidate env n cleaned of
          None \<Rightarrow> nothing
        | Some (score, row) \<Rightarrow>
            let prior = merchant_prior tenant (cd_merchant row) n;
                confidence = min 1 (score + prior_boost prior) in
            if confidence < MIN_CONFIDENCE then
              \<lparr>rs_merchant = None, rs_name = Some cleaned, rs_category = None,
               rs_confidence = round4 confidence, rs_cleaned = cleaned, rs_version = VERSION\<rparr>
            else
              \<lparr>rs_merchant = Some (cd_merchant row), rs_name = Some (cd_name row),
               rs_category = Some (cd_category row), rs_confidence = round4 confidence,
               rs_cleaned = cleaned, rs_version = VERSION\<rparr>))"

section \<open>Facts\<close>

lemma prior_boost_bounds: "0 \<le> prior_boost n" "prior_boost n \<le> PRIOR_CEILING"
proof -
  have c: "0 \<le> PRIOR_CEILING" by (simp add: PRIOR_CEILING_def)
  then show "0 \<le> prior_boost n" by (simp add: prior_boost_def)
  show "prior_boost n \<le> PRIOR_CEILING"
    using c min.cobounded1 unfolding prior_boost_def by (cases "n \<le> 0") simp_all
qed

lemma round_even_near: "of_int a \<le> x \<Longrightarrow> a \<le> round_even x" "x \<le> of_int b \<Longrightarrow> round_even x \<le> b"
proof -
  show "a \<le> round_even x" if "of_int a \<le> x"
  proof -
    have "a \<le> \<lfloor>x\<rfloor>" using that by (simp add: le_floor_iff)
    then show ?thesis by (simp add: round_even_def Let_def)
  qed
  show "round_even x \<le> b" if "x \<le> of_int b"
  proof (cases "x = of_int b")
    case True
    then show ?thesis by (simp add: round_even_def Let_def)
  next
    case False
    with that have "\<lfloor>x\<rfloor> < b" by (simp add: floor_less_iff)
    then show ?thesis by (simp add: round_even_def Let_def)
  qed
qed

lemma round4_bounds:
  "of_int a / 10000 \<le> x \<Longrightarrow> of_int a / 10000 \<le> round4 x"
  "x \<le> of_int b / 10000 \<Longrightarrow> round4 x \<le> of_int b / 10000"
proof -
  assume "of_int a / 10000 \<le> x"
  then have "of_int a \<le> x * 10000" by simp
  from round_even_near(1) [OF this] show "of_int a / 10000 \<le> round4 x" by (simp add: round4_def)
next
  assume "x \<le> of_int b / 10000"
  then have "x * 10000 \<le> of_int b" by simp
  from round_even_near(2) [OF this] show "round4 x \<le> of_int b / 10000" by (simp add: round4_def)
qed

text \<open>The fold keeps a greatest element of what it saw.\<close>

lemma fold_better:
  "fold better cs best = None \<longleftrightarrow> cs = [] \<and> best = None"
  "fold better cs best = Some b \<Longrightarrow> b \<in> set cs \<union> set_option best \<and> (\<forall>c \<in> set cs \<union> set_option best. fst c \<le> fst b)"
proof (induction cs arbitrary: best)
  case Nil
  { case 1 show ?case by simp }
  { case 2 then show ?case by simp }
next
  case (Cons c cs)
  { case 1 show ?case using Cons.IH(1) [of "better c best"] by (auto simp: better_def split: option.splits) }
  { case 2
    then have b: "b \<in> set cs \<union> set_option (better c best)" "\<forall>x \<in> set cs \<union> set_option (better c best). fst x \<le> fst b"
      using Cons.IH(2) [of "better c best"] by simp_all
    have "set_option (better c best) \<subseteq> {c} \<union> set_option best"
      "\<forall>x \<in> {c} \<union> set_option best. \<exists>y \<in> set_option (better c best). fst x \<le> fst y"
      by (auto simp: better_def split: option.splits)
    with b show ?case by fastforce }
qed

lemma best_candidate_Some:
  assumes "best_candidate env n cleaned = Some (score, row)"
  obtains probe where "probe \<in> set (mt_order env (probes cleaned))"
    "row \<in> set (candidates (mt_similar env) (mt_sim env) probe 5 n)"
    "score = cd_score row * cd_weight row * (if probe \<noteq> cleaned then 97 / 100 else 1)"
  using fold_better(2) [OF assms [unfolded best_candidate_def]] by (auto simp: scored_def)

text \<open>Candidates do not look at what was normalized before.\<close>

lemma candidates_norms [simp]:
  "candidates similar sim cleaned limit (n\<lparr>norms := ns\<rparr>) = candidates similar sim cleaned limit n"
  by (simp add: candidates_def)

lemma scored_norms [simp]: "scored env (n\<lparr>norms := ns\<rparr>) = scored env n"
  by (simp add: scored_def fun_eq_iff)

lemma best_candidate_norms [simp]:
  "best_candidate env (n\<lparr>norms := ns\<rparr>) cleaned = best_candidate env n cleaned"
  by (simp add: best_candidate_def)

section \<open>Properties\<close>

text \<open>
  A merchant is named only on a confident match: the confidence is between 0.8 and 1, the merchant
  is the one of a best candidate, whose own score is at least 0.65 (the tenant's history lifts a match
  by at most 0.15), and no other candidate of any probe has a greater score. Otherwise there is no
  category and at most the cleaned text for a name.
\<close>

theorem resolved_is_confident:
  "case rs_merchant (resolve env tenant d n) of
     None \<Rightarrow> rs_category (resolve env tenant d n) = None
       \<and> rs_name (resolve env tenant d n) \<in> {None, Some (clean d)}
   | Some m \<Rightarrow> 80 / 100 \<le> rs_confidence (resolve env tenant d n) \<and> rs_confidence (resolve env tenant d n) \<le> 1
       \<and> (\<exists>score row. best_candidate env n (clean d) = Some (score, row) \<and> m = cd_merchant row
           \<and> 65 / 100 \<le> score
           \<and> list_all (\<lambda>probe. list_all (\<lambda>c. fst c \<le> score) (scored env n (clean d) probe))
                (mt_order env (probes (clean d))))"
proof (cases "clean d = [] \<or> best_candidate env n (clean d) = None")
  case True
  then show ?thesis by (auto simp: resolve_def Let_def)
next
  case False
  then obtain score row where b: "best_candidate env n (clean d) = Some (score, row)" by auto
  define c where "c = min 1 (score + prior_boost (merchant_prior tenant (cd_merchant row) n))"
  have r: "resolve env tenant d n =
      (if c < MIN_CONFIDENCE then
         \<lparr>rs_merchant = None, rs_name = Some (clean d), rs_category = None,
          rs_confidence = round4 c, rs_cleaned = clean d, rs_version = VERSION\<rparr>
       else \<lparr>rs_merchant = Some (cd_merchant row), rs_name = Some (cd_name row),
          rs_category = Some (cd_category row), rs_confidence = round4 c,
          rs_cleaned = clean d, rs_version = VERSION\<rparr>)"
    using False b by (simp add: resolve_def c_def Let_def)
  show ?thesis
  proof (cases "c < MIN_CONFIDENCE")
    case True
    then show ?thesis by (simp add: r)
  next
    case high: False
    then have "80 / 100 \<le> c" "c \<le> 1" unfolding MIN_CONFIDENCE_def c_def by linarith+
    then have conf: "80 / 100 \<le> round4 c" "round4 c \<le> 1"
      using round4_bounds(1) [of 8000 c] round4_bounds(2) [of c 10000] by simp_all
    have "c \<le> score + PRIOR_CEILING"
      using prior_boost_bounds(2) [of "merchant_prior tenant (cd_merchant row) n"] unfolding c_def by linarith
    with \<open>80 / 100 \<le> c\<close> have "65 / 100 \<le> score" by (simp add: PRIOR_CEILING_def)
    moreover have "\<forall>probe \<in> set (mt_order env (probes (clean d))). \<forall>x \<in> set (scored env n (clean d) probe). fst x \<le> score"
      using fold_better(2) [OF b [unfolded best_candidate_def]] by auto
    ultimately show ?thesis using high conf b by (simp add: r list_all_iff)
  qed
qed

text \<open>
  The tenant's history never decides between merchants: it is added after the best candidate is
  chosen, so two histories (and two tenants) that both resolve a descriptor resolve it to the same
  merchant, name and category. History can only carry a match over the threshold.
\<close>

theorem history_breaks_no_tie:
  assumes "resolved (resolve env tenant d n)" "resolved (resolve env tenant' d (n\<lparr>norms := ns\<rparr>))"
  shows "rs_merchant (resolve env tenant d n) = rs_merchant (resolve env tenant' d (n\<lparr>norms := ns\<rparr>))
    \<and> rs_name (resolve env tenant d n) = rs_name (resolve env tenant' d (n\<lparr>norms := ns\<rparr>))
    \<and> rs_category (resolve env tenant d n) = rs_category (resolve env tenant' d (n\<lparr>norms := ns\<rparr>))"
proof -
  have "rs_merchant (resolve env t d m) = map_option (\<lambda>p. cd_merchant (snd p)) (best_candidate env m (clean d))
      \<and> rs_name (resolve env t d m) = map_option (\<lambda>p. cd_name (snd p)) (best_candidate env m (clean d))
      \<and> rs_category (resolve env t d m) = map_option (\<lambda>p. cd_category (snd p)) (best_candidate env m (clean d))"
    if "resolved (resolve env t d m)" for t m
    using that by (auto simp: resolved_def resolve_def Let_def split: option.splits if_splits)
  from this [OF assms(1)] this [OF assms(2)] show ?thesis by simp
qed

section \<open>An example\<close>

definition demo_match :: match_env where
  "demo_match = \<lparr>mt_similar = (\<lambda>p t. p = t), mt_sim = (\<lambda>p t. if p = t then 1 else 0), mt_order = id\<rparr>"

definition coffee :: norm_tables where
  "coffee = \<lparr>raws = [], merchants = [\<lparr>mc_id = ''mch_1'', mc_name = ''Starbucks'', mc_category = ''dining''\<rparr>],
     aliases = [\<lparr>al_merchant = ''mch_1'', al_pattern = ''starbucks'', al_weight = 1\<rparr>], norms = []\<rparr>"

lemma coffee_cleaned: "clean ''STARBUCKS'' = ''starbucks''" "probes ''starbucks'' = [''starbucks'']"
  by code_simp+

lemma coffee_best:
  "best_candidate demo_match coffee ''starbucks'' =
     Some (1, \<lparr>cd_merchant = ''mch_1'', cd_pattern = ''starbucks'', cd_weight = 1, cd_name = ''Starbucks'',
              cd_category = ''dining'', cd_score = 1\<rparr>)"
  by (simp add: best_candidate_def coffee_cleaned demo_match_def scored_def candidates_def coffee_def better_def)

lemma coffee_resolves: "rs_merchant (resolve demo_match t ''STARBUCKS'' (coffee\<lparr>norms := ns\<rparr>)) = Some ''mch_1''"
proof -
  let ?p = "prior_boost (merchant_prior t ''mch_1'' (coffee\<lparr>norms := ns\<rparr>))"
  have "min 1 (1 + ?p) = 1" using prior_boost_bounds(1) by (simp add: min_def)
  moreover have "clean ''STARBUCKS'' \<noteq> []" by (simp add: coffee_cleaned)
  ultimately show ?thesis
    by (simp add: resolve_def Let_def coffee_cleaned(1) coffee_best MIN_CONFIDENCE_def)
qed

theorem history_breaks_no_tie_witness:
  "rs_merchant (resolve demo_match ''t1'' ''STARBUCKS'' (coffee\<lparr>norms := []\<rparr>)) = Some ''mch_1''
   \<and> rs_merchant (resolve demo_match ''t1'' ''STARBUCKS'' (coffee\<lparr>norms := []\<rparr>))
     = rs_merchant (resolve demo_match ''t2'' ''STARBUCKS'' (coffee\<lparr>norms := [],
         norms := [\<lparr>n_id = ''ntx_1'', n_raw = ''raw_1'', n_tenant = ''t2'', n_account = ''acct_1'',
                    n_merchant = Some ''mch_9'', n_name = None, n_category = None, n_confidence = None,
                    n_version = 3, n_at = 0\<rparr>]\<rparr>))"
  (is "_ \<and> ?l = rs_merchant (resolve demo_match ''t2'' ''STARBUCKS'' (coffee\<lparr>norms := [], norms := ?ns\<rparr>))")
proof -
  have "resolved (resolve demo_match ''t1'' ''STARBUCKS'' (coffee\<lparr>norms := []\<rparr>))"
    "resolved (resolve demo_match ''t2'' ''STARBUCKS'' (coffee\<lparr>norms := [], norms := ?ns\<rparr>))"
    using coffee_resolves [of "''t1''" "[]"] coffee_resolves [of "''t2''" ?ns] by (simp_all add: resolved_def)
  from history_breaks_no_tie [OF this] coffee_resolves [of "''t1''" "[]"] show ?thesis by simp
qed

end
