(* ===== verification/Normalizer.thy ===== *)
theory Normalizer
  imports Resolve Webhooks
begin

text \<open>
  \<open>workers/normalizer.py\<close>: the consumer that resolves the descriptor of a posted transaction and
  publishes the result. Parameters: how the driver (psycopg) passes a JSON value where a text is
  compared or stored (an exception, a text, or NULL), and the standard library's ISO 8601 printer and
  parser. The stream's transport is Postgres: a publish is committed at once.
\<close>

record pipe_env = match_env +
  pv_compare :: "json \<Rightarrow> exn + string option"
  pv_store :: "json \<Rightarrow> exn + string option"
  pv_show :: "datetime \<Rightarrow> string"         \<comment> \<open>\<open>isoformat\<close>\<close>
  pv_read :: "string \<Rightarrow> datetime option"  \<comment> \<open>\<open>fromisoformat\<close>\<close>

definition publish :: "string \<Rightarrow> string \<Rightarrow> string \<Rightarrow> string \<Rightarrow> json \<Rightarrow> unit m" where
  "publish topic key event ty payload = writes (\<lambda>s. s\<lparr>strm := pg_publish topic key event ty payload (strm s)\<rparr>)"

text \<open>\<open>message.payload["data"]["object"]["id"]\<close>.\<close>

definition transaction_of :: "json \<Rightarrow> py_error + json" where
  "transaction_of payload =
     bind_r (jindex payload ''data'') (\<lambda>d. bind_r (jindex d ''object'') (\<lambda>t. jindex t ''id''))"

definition normalized_payload :: "pipe_env \<Rightarrow> json \<Rightarrow> raw_row \<Rightarrow> resolution \<Rightarrow> json" where
  "normalized_payload env txn row r =
     JObj [(''transaction_id'', txn), (''raw_transaction_id'', JStr (rw_id row)),
       (''tenant_id'', JStr (rw_tenant row)), (''account_id'', JStr (rw_account row)),
       (''amount_minor'', JInt (rw_amount row)), (''currency'', JStr (rw_currency row)),
       (''occurred_at'', JStr (pv_show env (Aware (rw_occurred row)))),
       (''descriptor'', JStr (rw_descriptor row)), (''cleaned'', JStr (rs_cleaned r)),
       (''merchant_id'', jopt JStr (rs_merchant r)), (''merchant_name'', jopt JStr (rs_name r)),
       (''category'', jopt JStr (rs_category r)), (''confidence'', JReal (rs_confidence r)),
       (''normalizer_version'', JInt VERSION)]"

definition normalize_row :: "pipe_env \<Rightarrow> message \<Rightarrow> json \<Rightarrow> raw_row \<Rightarrow> unit m" where
  "normalize_row env msg txn row =
     bind_op (reads (\<lambda>s. resolve (match_env.truncate env) (rw_tenant row) (rw_descriptor row) (nrm s))) (\<lambda>r.
     bind_op (fresh_id (new_id ''ntx'')) (\<lambda>i.
     bind_op (reads (\<lambda>s. (led s, tx_now s))) (\<lambda>(l, now).
     bind_op (on_nrm (upsert_normalized l now i (rw_id row) (rw_tenant row) (rw_account row) (rs_merchant r)
                        (rs_name r) (rs_category r) (Some (rs_confidence r)) VERSION)) (\<lambda>_.
     publish NORMALIZED_TRANSACTIONS (rw_account row) (msg_event msg @ '':norm'') ''transaction.normalized''
       (normalized_payload env txn row r)))))"

definition normalizer_handle :: "pipe_env \<Rightarrow> message \<Rightarrow> unit m" where
  "normalizer_handle env msg =
     (if msg_type msg \<notin> {''transaction.created'', ''transaction.reversed''} then ret_op ()
      else (case transaction_of (msg_payload msg) of
          Inl _ \<Rightarrow> raise_op PoisonMessage
        | Inr txn \<Rightarrow>
            bind_op (lift_op (pv_compare env txn)) (\<lambda>t.
            bind_op (reads (\<lambda>s. case t of None \<Rightarrow> None | Some i \<Rightarrow> raw_for_transaction i (nrm s))) (\<lambda>row.
            case row of None \<Rightarrow> ret_op () | Some r \<Rightarrow> normalize_row env msg txn r))))"

definition Normalizer :: "pipe_env \<Rightarrow> consumer" where
  "Normalizer env =
     \<lparr>cs_group = ''normalizer'', cs_topic = LEDGER_EVENTS, cs_handle = normalizer_handle env\<rparr>"

section \<open>The contract\<close>

lemma topics_distinct [simp]:
  "NORMALIZED_TRANSACTIONS \<noteq> LEDGER_EVENTS" "LEDGER_EVENTS \<noteq> NORMALIZED_TRANSACTIONS"
  "FRAUD_SIGNALS \<noteq> LEDGER_EVENTS" "LEDGER_EVENTS \<noteq> FRAUD_SIGNALS"
  "FRAUD_SIGNALS \<noteq> NORMALIZED_TRANSACTIONS" "NORMALIZED_TRANSACTIONS \<noteq> FRAUD_SIGNALS"
  by (simp_all add: NORMALIZED_TRANSACTIONS_def LEDGER_EVENTS_def FRAUD_SIGNALS_def)

lemma keeps_publish [keeps_intros]:
  "keeps (\<lambda>s. P (led s)) (publish t k e y p)" "keeps (\<lambda>s. Q (evt s)) (publish t k e y p)"
  "t \<noteq> t' \<Longrightarrow> keeps (\<lambda>s. pg_log (strm s) t' = ms) (publish t k e y p)"
  "keeps (\<lambda>s. offsets (strm s) = os) (publish t k e y p)"
  "keeps (\<lambda>s. stream_ok (strm s)) (publish t k e y p)"
  using pg.publish_other [of t' t] pg.publish_ok
  by (auto simp: keeps_def publish_def pg_publish_def pg_log_def)

lemma keeps_normalize_row [keeps_intros]:
  "keeps (\<lambda>s. led s = l) (normalize_row env msg txn row)"
  "keeps (\<lambda>s. evt s = v) (normalize_row env msg txn row)"
  "keeps (\<lambda>s. pg_log (strm s) LEDGER_EVENTS = ms) (normalize_row env msg txn row)"
  "keeps (\<lambda>s. offsets (strm s) = os) (normalize_row env msg txn row)"
  "keeps (\<lambda>s. stream_ok (strm s)) (normalize_row env msg txn row)"
  unfolding normalize_row_def split_beta by (intro keeps_intros | simp)+

interpretation normalizer: consumer_contract "Normalizer env" for env
  by unfold_locales
    (auto simp: Normalizer_def normalizer_handle_def intro!: keeps_intros split: sum.splits option.splits)

end
