(* ===== verification/Risk.thy ===== *)
theory Risk
  imports Normalizer
begin

text \<open>
  \<open>workers/risk.py\<close>: the consumer that computes the features of a normalized transaction as of its own
  time, stores them and raises the advisory signals, with the watermark of the newest event time its
  process has seen (a field of the state that no rollback touches). \<open>Features.to_dict\<close> is here too.
  Times are compared in UTC, also for the earliest representable one.
\<close>

definition compute_to_dict :: "pipe_env \<Rightarrow> datetime \<Rightarrow> features \<Rightarrow> json" where
  "compute_to_dict env as_of f =
     JObj [(''account_id'', JStr (f_account f)), (''as_of'', JStr (pv_show env as_of)),
       (''amount_minor'', JInt (f_amount f)), (''spend_1h'', JInt (f_spend_1h f)),
       (''spend_24h'', JInt (f_spend_24h f)), (''txn_count_1h'', JInt (f_txn_count_1h f)),
       (''max_amount_1h'', JInt (f_max_amount_1h f)),
       (''distinct_merchants_7d'', JInt (f_distinct_merchants_7d f)),
       (''merchant_frequency'', JInt (f_merchant_frequency f)), (''avg_amount_90d'', JReal (f_avg_90d f)),
       (''stddev_amount_90d'', JReal (f_stddev_90d f)),
       (''amount_zscore'', JReal (round4 (amount_zscore f)))]"

text \<open>\<open>int(x)\<close> of a float: towards zero; and of any JSON value.\<close>

definition truncate_real :: "real \<Rightarrow> int" where
  "truncate_real r = (if r < 0 then \<lceil>r\<rceil> else \<lfloor>r\<rfloor>)"

fun json_int :: "json \<Rightarrow> py_error + int" where
  "json_int (JInt i) = Inr i"
| "json_int (JBool b) = Inr (if b then 1 else 0)"
| "json_int (JReal r) = Inr (truncate_real r)"
| "json_int (JStr s) = (case py_int s of None \<Rightarrow> Inl ValueError | Some i \<Rightarrow> Inr i)"
| "json_int _ = Inl TypeError"

fun json_datetime :: "pipe_env \<Rightarrow> json \<Rightarrow> py_error + datetime" where
  "json_datetime env (JStr s) = (case pv_read env s of None \<Rightarrow> Inl ValueError | Some t \<Rightarrow> Inr t)"
| "json_datetime env _ = Inl TypeError"

text \<open>What the \<open>try\<close> block reads.\<close>

definition risk_fields :: "pipe_env \<Rightarrow> json \<Rightarrow> py_error + json \<times> datetime \<times> int" where
  "risk_fields env payload =
     bind_r (jindex payload ''account_id'') (\<lambda>acct.
     bind_r (jindex payload ''occurred_at'') (\<lambda>t.
     bind_r (json_datetime env t) (\<lambda>occurred.
     bind_r (jindex payload ''amount_minor'') (\<lambda>a.
     bind_r (json_int a) (\<lambda>amount. Inr (acct, occurred, amount))))))"

text \<open>\<open>t - timedelta\<close>.\<close>

definition earlier :: "datetime \<Rightarrow> int \<Rightarrow> exn + int" where
  "earlier t d = (if instant t - d < min_datetime then Inl (PyExn OverflowError) else Inr (instant t - d))"

text \<open>The newest event time, moved on to \<open>occurred\<close> when that is later.\<close>

definition observe :: "datetime \<Rightarrow> datetime m" where
  "observe occurred s =
     (case newest_event s of
        None \<Rightarrow> (Inr occurred, s\<lparr>newest_event := Some occurred\<rparr>)
      | Some newest \<Rightarrow>
          if tz_aware occurred \<noteq> tz_aware newest then (Inl (PyExn TypeError), s)
          else if instant newest < instant occurred then (Inr occurred, s\<lparr>newest_event := Some occurred\<rparr>)
          else (Inr newest, s))"

definition stored :: "pipe_env \<Rightarrow> json \<Rightarrow> string m" where
  "stored env v =
     bind_op (lift_op (pv_store env v)) (\<lambda>t.
     case t of None \<Rightarrow> raise_op (DbExn NotNullViolation) | Some x \<Rightarrow> ret_op x)"

definition feature_columns :: "string \<Rightarrow> int \<Rightarrow> int \<Rightarrow> features \<Rightarrow> feature_row" where
  "feature_columns acct window_end now f =
     \<lparr>ft_account = acct, ft_window_end = window_end, ft_spend_1h = f_spend_1h f, ft_spend_24h = f_spend_24h f,
      ft_txn_count_1h = f_txn_count_1h f, ft_max_1h = f_max_amount_1h f,
      ft_distinct_7d = f_distinct_merchants_7d f, ft_avg_90d = truncate_real (f_avg_90d f),
      ft_stddev_90d = f_stddev_90d f, ft_computed = now\<rparr>"

definition fire :: "pipe_env \<Rightarrow> message \<Rightarrow> json \<Rightarrow> json \<Rightarrow> rule \<Rightarrow> unit m" where
  "fire env msg acct features r =
     bind_op (fresh_id (new_id ''sig'')) (\<lambda>i.
     bind_op (lift_op (map_sum PyExn id (jindex (msg_payload msg) ''tenant_id''))) (\<lambda>tenant.
     bind_op (lift_op (map_sum PyExn id (jget (msg_payload msg) ''transaction_id'' JNull))) (\<lambda>txn.
     bind_op (stored env tenant) (\<lambda>tenant_text.
     bind_op (stored env acct) (\<lambda>acct_text.
     bind_op (lift_op (pv_store env txn)) (\<lambda>txn_text.
     bind_op (reads (\<lambda>s. (led s, tx_now s))) (\<lambda>(l, now).
     bind_op (on_rsk (insert_signal l now i tenant_text acct_text txn_text (r_name r) (r_score r) features
                        FLAG None None)) (\<lambda>signal.
     publish FRAUD_SIGNALS acct_text (msg_event msg @ '':'' @ r_name r) ''fraud.signal''
       (JObj [(''signal_id'', JStr (fs_id signal)), (''tenant_id'', tenant), (''account_id'', acct),
              (''transaction_id'', txn), (''rule'', JStr (r_name r)), (''score'', JReal (r_score r)),
              (''description'', JStr (r_description r))])))))))))"

definition score_account ::
  "pipe_env \<Rightarrow> message \<Rightarrow> json \<Rightarrow> datetime \<Rightarrow> int \<Rightarrow> string option \<Rightarrow> string \<Rightarrow> unit m" where
  "score_account env msg acct occurred amount merchant key =
     bind_op (reads_r (\<lambda>s. compute key (instant occurred) amount merchant (led s) (nrm s))) (\<lambda>f.
     bind_op (stored env acct) (\<lambda>acct_text.
     bind_op (reads (\<lambda>s. (led s, tx_now s))) (\<lambda>(l, now).
     bind_op (on_rsk (upsert_features l (feature_columns acct_text (instant occurred) now f))) (\<lambda>_.
     each_op (fire env msg acct (compute_to_dict env occurred f)) (advisory f)))))"

text \<open>With a NULL account every query is empty and the row that is stored violates its constraint.\<close>

definition score_event :: "pipe_env \<Rightarrow> message \<Rightarrow> json \<Rightarrow> datetime \<Rightarrow> int \<Rightarrow> unit m" where
  "score_event env msg acct occurred amount =
     bind_op (lift_op (earlier occurred (w_duration SPEND_24H))) (\<lambda>_.
     bind_op (lift_op (pv_compare env acct)) (\<lambda>a.
     bind_op (lift_op (map_sum PyExn id (jget (msg_payload msg) ''merchant_id'' JNull))) (\<lambda>m.
     bind_op (lift_op (pv_compare env m)) (\<lambda>merchant.
     case a of
       None \<Rightarrow> raise_op (DbExn NotNullViolation)
     | Some key \<Rightarrow> score_account env msg acct occurred amount merchant key))))"

definition risk_handle :: "pipe_env \<Rightarrow> message \<Rightarrow> unit m" where
  "risk_handle env msg =
     (case risk_fields env (msg_payload msg) of
        Inl _ \<Rightarrow> raise_op PoisonMessage
      | Inr (acct, occurred, amount) \<Rightarrow>
          bind_op (observe occurred) (\<lambda>newest.
          bind_op (lift_op (earlier newest WATERMARK)) (\<lambda>watermark.
          if instant occurred < watermark then
            bind_op (stored env acct) (\<lambda>acct_text.
            on_rsk (record_late_arrival (msg_event msg) acct_text (instant occurred) watermark))
          else score_event env msg acct occurred amount)))"

definition RiskWorker :: "pipe_env \<Rightarrow> consumer" where
  "RiskWorker env = \<lparr>cs_group = ''risk'', cs_topic = NORMALIZED_TRANSACTIONS, cs_handle = risk_handle env\<rparr>"

section \<open>The contract\<close>

lemma keeps_observe [keeps_intros]:
  "keeps (\<lambda>s. P (led s)) (observe t)" "keeps (\<lambda>s. Q (evt s)) (observe t)" "keeps (\<lambda>s. R (strm s)) (observe t)"
  by (auto simp: keeps_def observe_def split: option.splits)

lemma keeps_stored [keeps_intros]: "keeps P (stored env v)"
  unfolding stored_def by (intro keeps_intros)

lemma keeps_fire [keeps_intros]:
  "keeps (\<lambda>s. led s = l) (fire env msg acct features r)"
  "keeps (\<lambda>s. evt s = v) (fire env msg acct features r)"
  "keeps (\<lambda>s. pg_log (strm s) NORMALIZED_TRANSACTIONS = ms) (fire env msg acct features r)"
  "keeps (\<lambda>s. offsets (strm s) = os) (fire env msg acct features r)"
  "keeps (\<lambda>s. stream_ok (strm s)) (fire env msg acct features r)"
  unfolding fire_def split_beta by (intro keeps_intros | simp)+

lemma keeps_risk_handle [keeps_intros]:
  assumes "\<And>acct f r. keeps P (fire env msg acct f r)" "\<And>t. keeps P (observe t)"
    "\<And>k :: (risk_tables, unit) op. keeps P (on_rsk k)"
  shows "keeps P (risk_handle env msg)"
proof -
  have "keeps P (score_event env msg acct occurred amount)" for acct occurred amount
    unfolding score_event_def score_account_def split_beta
    by (intro keeps_intros) (auto split: option.splits intro!: keeps_intros assms)
  then show ?thesis
    unfolding risk_handle_def by (auto split: sum.splits intro!: keeps_intros assms)
qed

interpretation risk: consumer_contract "RiskWorker env" for env
  by unfold_locales (auto simp: RiskWorker_def intro!: keeps_intros)

end
