(* ===== verification/Workers.thy ===== *)
theory Workers
  imports Risk
begin

text \<open>
  \<open>workers/__init__.py\<close>: the workers by name, run until they find nothing to do (\<open>once=True\<close>), and
  \<open>drain_all\<close>, the whole pipeline in one process. A run takes fuel, which bounds the polls of each
  worker; \<open>None\<close> is running out of it. The environment says which publishes of the relay fail.
\<close>

type_synonym 'a run = "nat \<Rightarrow> st \<Rightarrow> ((exn + 'a) \<times> st) option"

definition run_then :: "'a run \<Rightarrow> ('a \<Rightarrow> 'b run) \<Rightarrow> 'b run" where
  "run_then p q fuel s =
     (case p fuel s of
        None \<Rightarrow> None
      | Some (Inl e, s') \<Rightarrow> Some (Inl e, s')
      | Some (Inr x, s') \<Rightarrow> q x fuel s')"

definition run_op :: "'a m \<Rightarrow> 'a run" where
  "run_op m fuel s = Some (m s)"

record drain_env =
  de_pipe :: pipe_env
  de_web :: web_env
  de_worker :: worker_env
  de_fails :: "nat \<Rightarrow> bool"

definition relay_stage :: "drain_env \<Rightarrow> nat run" where
  "relay_stage env fuel s = map_option (\<lambda>(n, s'). (Inr n, s')) (relay_run fuel (de_fails env) 500 s)"

definition consumer_stage :: "consumer \<Rightarrow> drain_env \<Rightarrow> nat run" where
  "consumer_stage c env fuel s = run_consumer fuel c (de_worker env) s"

text \<open>\<open>run(RiskWorker())\<close>: a new worker has seen no event.\<close>

definition risk_stage :: "drain_env \<Rightarrow> nat run" where
  "risk_stage env fuel s = consumer_stage (RiskWorker (de_pipe env)) env fuel (s\<lparr>newest_event := None\<rparr>)"

section \<open>\<open>drain_all\<close>\<close>

record counts =
  ct_relayed :: nat
  ct_normalized :: nat
  ct_scored :: nat
  ct_fanned_out :: nat

definition drain_pass :: "drain_env \<Rightarrow> counts \<Rightarrow> counts run" where
  "drain_pass env t =
     run_then (relay_stage env) (\<lambda>a.
     run_then (consumer_stage WebhookFanout env) (\<lambda>b.
     run_then (consumer_stage (Normalizer (de_pipe env)) env) (\<lambda>c.
     run_then (risk_stage env) (\<lambda>d.
     run_op (ret_op \<lparr>ct_relayed = ct_relayed t + a, ct_normalized = ct_normalized t + c,
                     ct_scored = ct_scored t + d, ct_fanned_out = ct_fanned_out t + b\<rparr>)))))"

fun drain_passes :: "nat \<Rightarrow> drain_env \<Rightarrow> counts \<Rightarrow> counts run" where
  "drain_passes 0 env t = run_op (ret_op t)"
| "drain_passes (Suc k) env t = run_then (drain_pass env t) (drain_passes k env)"

definition snapshot_all :: "unit m" where
  "snapshot_all =
     unit_of_work
       (bind_op (reads (\<lambda>s. remdups (map e_account (entries (led s)))))
         (each_op (\<lambda>i. bind_op (reads tx_now) (\<lambda>now.
            bind_op (on_led (write_snapshot now i)) (\<lambda>_. ret_op ())))))"

definition no_counts :: counts where
  "no_counts = \<lparr>ct_relayed = 0, ct_normalized = 0, ct_scored = 0, ct_fanned_out = 0\<rparr>"

definition drain_all :: "drain_env \<Rightarrow> (counts \<times> tally) run" where
  "drain_all env =
     run_then (drain_passes 3 env no_counts) (\<lambda>c.
     run_then (run_op snapshot_all) (\<lambda>_.
     run_then (run_op (dispatch_once (de_web env) 50)) (\<lambda>t.
     run_op (ret_op (c, t)))))"

text \<open>\<open>run_worker(name, once=True)\<close>; \<open>None\<close> is the \<open>SystemExit\<close> of an unknown name.\<close>

definition run_worker :: "drain_env \<Rightarrow> string \<Rightarrow> unit run option" where
  "run_worker env name =
     (let unit = (\<lambda>_. run_op (ret_op ())) in
      if name = ''relay'' then Some (run_then (relay_stage env) unit)
      else if name = ''normalizer'' then Some (run_then (consumer_stage (Normalizer (de_pipe env)) env) unit)
      else if name = ''risk'' then Some (run_then (risk_stage env) unit)
      else if name = ''webhooks'' then
        Some (run_then (consumer_stage WebhookFanout env) (\<lambda>_.
              run_then (run_op (dispatch_once (de_web env) 50)) (\<lambda>_. run_op (ret_op ()))))
      else if name = ''all'' then Some (run_then (drain_all env) (\<lambda>_. run_op (ret_op ())))
      else None)"

section \<open>Runs that end\<close>

text \<open>With enough fuel a run returns, and more fuel changes nothing.\<close>

definition settles :: "'a run \<Rightarrow> st \<Rightarrow> exn + 'a \<Rightarrow> st \<Rightarrow> bool" where
  "settles p s r s' \<longleftrightarrow> (\<exists>n. \<forall>fuel \<ge> n. p fuel s = Some (r, s'))"

lemma settles_op: "m s = (r, s') \<Longrightarrow> settles (run_op m) s r s'"
  by (simp add: settles_def run_op_def)

lemma settles_then: "settles p s (Inr x) s1 \<Longrightarrow> settles (q x) s1 r s' \<Longrightarrow> settles (run_then p q) s r s'"
  unfolding settles_def run_then_def by (metis (mono_tags, lifting) max.bounded_iff option.simps(5) prod.simps(2) sum.simps(6))

lemma settles_stops: "settles p s (Inl e) s' \<Longrightarrow> settles (run_then p q) s (Inl e) s'"
  unfolding settles_def run_then_def by fastforce

lemma settles_total:
  "\<exists>r s'. settles p s r s' \<Longrightarrow> (\<And>x s1. \<exists>r s'. settles (q x) s1 r s') \<Longrightarrow> \<exists>r s'. settles (run_then p q) s r s'"
  by (metis old.sum.exhaust settles_stops settles_then)

lemma settles_op_total: "\<exists>r s'. settles (run_op m) s r s'"
  using settles_op by (metis surj_pair)

lemma run_consumer_mono: "run_consumer n c env s = Some x \<Longrightarrow> n \<le> fuel \<Longrightarrow> run_consumer fuel c env s = Some x"
proof (induction n arbitrary: fuel s x)
  case 0
  then show ?case by simp
next
  case (Suc n)
  then obtain k where k: "fuel = Suc k" "n \<le> k" by (cases fuel) auto
  show ?case
  proof (cases "pg_poll (cs_topic c) (cs_group c) consumer_batch_size (strm s)")
    case Nil
    with Suc.prems(1) k show ?thesis by simp
  next
    case (Cons msg msgs)
    obtain q s1 where b: "run_batch c env (msg # msgs) s = (q, s1)" by fastforce
    note step = run_consumer.simps(2) [of _ c env s, unfolded Cons list.case b prod.case]
    show ?thesis
    proof (cases q)
      case (Inl e)
      with Suc.prems(1) show ?thesis unfolding k(1) step by simp
    next
      case (Inr m)
      with Suc.prems(1) obtain y where y: "run_consumer n c env s1 = Some y" unfolding step by auto
      from Suc.IH [OF y k(2)] have "run_consumer k c env s1 = Some y" .
      with Suc.prems(1) Inr y show ?thesis unfolding k(1) step by simp
    qed
  qed
qed

lemma relay_run_mono: "relay_run n fails b s = Some x \<Longrightarrow> n \<le> fuel \<Longrightarrow> relay_run fuel fails b s = Some x"
proof (induction n arbitrary: fuel s x)
  case 0
  then show ?case by simp
next
  case (Suc n)
  then obtain k where k: "fuel = Suc k" "n \<le> k" by (cases fuel) auto
  obtain q s1 where o: "relay_once fails b s = (q, s1)" by fastforce
  show ?case
  proof (cases "\<exists>m. q = Inr m \<and> m \<noteq> 0")
    case True
    then obtain m where m: "q = Inr m" "m \<noteq> 0" by blast
    with Suc.prems(1) o obtain y where y: "relay_run n fails b s1 = Some y" by auto
    from Suc.IH [OF y k(2)] have "relay_run k fails b s1 = Some y" .
    with Suc.prems(1) k(1) o m y show ?thesis by simp
  next
    case False
    with Suc.prems(1) k(1) o show ?thesis by (cases q) auto
  qed
qed

section \<open>What a stage leaves alone\<close>

text \<open>\<open>R\<close> is about the stream; the outbox stays as it is.\<close>

context consumer_contract
begin

lemma attempts_frame:
  assumes h: "\<And>msg. keeps (\<lambda>s. R (strm s)) (cs_handle c msg)"
  shows "attempts c env msg left k err s = (res, s') \<Longrightarrow> R (strm s) \<Longrightarrow> R (strm s')"
proof (induction left arbitrary: k err s)
  case 0
  then show ?case by simp
next
  case (Suc left)
  have "keeps (\<lambda>s. R (strm s)) (claim_and_handle c msg)"
    unfolding claim_and_handle_def by (intro keeps_intros h)
  from keepsD [OF keeps_unit_strm [OF this]]
  have u: "R (strm t')" if "unit_of_work (claim_and_handle c msg) t = (q, t')" "R (strm t)" for t q t'
    using that by blast
  obtain q s1 where u1: "unit_of_work (claim_and_handle c msg) s = (q, s1)" by fastforce
  have R1: "R (strm s1)" using u [OF u1 Suc.prems(2)] .
  show ?case
  proof (cases q)
    case (Inr x)
    with Suc.prems(1) u1 R1 show ?thesis by simp
  next
    case (Inl e)
    with Suc.prems(1) u1 R1 Suc.IH [of "k + 1" "Some e"] show ?thesis
      by (auto simp: sleep_def split: if_splits)
  qed
qed

lemma process_one_frame:
  assumes h: "\<And>msg. keeps (\<lambda>s. R (strm s)) (cs_handle c msg)"
    and run: "process_one c env msg s = (r, s')" and R: "R (strm s)"
  shows "R (strm s')" "outbox (evt s') = outbox (evt s)"
proof -
  obtain res s1 where a: "attempts c env msg consumer_max_attempts 0 None s = (res, s1)" by fastforce
  have R1: "R (strm s1)" using attempts_frame [OF h a R] .
  show "R (strm s')"
  proof (cases res)
    case None
    with run a R1 show ?thesis by (simp add: process_one_def)
  next
    case (Some p)
    obtain err n where "p = (err, n)" by fastforce
    with Some run a obtain q where "bury c env msg err n s1 = (q, s')"
      by (auto simp: process_one_def bind_op_def split: sum.splits prod.splits)
    with R1 bury_run(1) show ?thesis by metis
  qed
  show "outbox (evt s') = outbox (evt s)"
  proof (cases "claimed c msg s")
    case True
    with run have "s' = s\<lparr>tx_now := wall s\<rparr>" using process_one_duplicate [OF True, of env] by simp
    then show ?thesis by simp
  next
    case False
    have "outbox (evt s') = outbox (evt s)" if "same_tables s s0" "cs_handle c msg (with_claim c msg s0) = (Inr (), s')" for s0
      using handle_frame(2) [OF that(2)] that(1) by (simp add: with_claim_def same_tables_def)
    with process_one_fresh(2) [OF run False] show ?thesis by (auto simp: buried_def same_tables_def)
  qed
qed

lemma run_batch_frame:
  assumes h: "\<And>msg. keeps (\<lambda>s. R (strm s)) (cs_handle c msg)"
    and com: "\<And>n t. R t \<Longrightarrow> R (pg_commit (cs_topic c) (cs_group c) n t)"
  shows "run_batch c env msgs s = (r, s') \<Longrightarrow> R (strm s) \<Longrightarrow> R (strm s') \<and> outbox (evt s') = outbox (evt s)"
proof (induction msgs arbitrary: s r s')
  case Nil
  then show ?case by simp
next
  case (Cons msg msgs)
  obtain q s1 where p: "process_one c env msg s = (q, s1)" by fastforce
  note fr = process_one_frame [OF h p Cons.prems(2)]
  show ?case
  proof (cases q)
    case (Inl e)
    with Cons.prems p fr show ?thesis by (simp add: bind_op_def)
  next
    case (Inr b)
    with process_one_cases(3) [OF p] have b: "b" by auto
    let ?s1 = "s1\<lparr>strm := pg_commit (cs_topic c) (cs_group c) (msg_offset msg) (strm s1)\<rparr>"
    obtain q2 s2 where rest: "run_batch c env msgs ?s1 = (q2, s2)" by fastforce
    have "s' = s2" using Cons.prems(1) p Inr b rest by (auto simp: bind_op_def commit_offset_def split: sum.splits)
    with Cons.IH [OF rest] fr com show ?thesis by simp
  qed
qed

lemma run_consumer_frame:
  assumes h: "\<And>msg. keeps (\<lambda>s. R (strm s)) (cs_handle c msg)"
    and com: "\<And>n t. R t \<Longrightarrow> R (pg_commit (cs_topic c) (cs_group c) n t)"
  shows "run_consumer fuel c env s = Some (r, s') \<Longrightarrow> R (strm s) \<Longrightarrow> R (strm s') \<and> outbox (evt s') = outbox (evt s)"
proof (induction fuel arbitrary: s r s')
  case 0
  then show ?case by simp
next
  case (Suc fuel)
  show ?case
  proof (cases "pg_poll (cs_topic c) (cs_group c) consumer_batch_size (strm s)")
    case Nil
    with Suc.prems show ?thesis by simp
  next
    case (Cons msg msgs)
    obtain q s1 where b: "run_batch c env (msg # msgs) s = (q, s1)" by fastforce
    note fr = run_batch_frame [OF h com b Suc.prems(2)]
    note step = run_consumer.simps(2) [of _ c env s, unfolded Cons list.case b prod.case]
    show ?thesis
    proof (cases q)
      case (Inl e)
      with Suc.prems(1) fr show ?thesis unfolding step by simp
    next
      case (Inr m)
      with Suc.prems(1) obtain r1 where "run_consumer fuel c env s1 = Some (r1, s')" unfolding step by auto
      with Suc.IH fr show ?thesis by metis
    qed
  qed
qed

text \<open>A stage ends with nothing left to read for its group, or on a failing dead letter.\<close>

lemma stage_settles:
  assumes h: "\<And>msg. keeps (\<lambda>s. R (strm s)) (cs_handle c msg)"
    and com: "\<And>n t. R t \<Longrightarrow> R (pg_commit (cs_topic c) (cs_group c) n t)"
    and ok: "stream_ok (strm s)" and R: "R (strm s)"
  shows "\<exists>r s'. settles (consumer_stage c env) s r s' \<and> R (strm s') \<and> stream_ok (strm s')
     \<and> outbox (evt s') = outbox (evt s)
     \<and> (r = Inr (length (backlog c s)) \<and> backlog c s' = [] \<or> r = Inl (DbExn UniqueViolation))"
proof -
  let ?n = "Suc (length (backlog c s))"
  from run_consumer_total [OF ok, of ?n "de_worker env"] obtain r s' where
    run: "run_consumer ?n c (de_worker env) s = Some (r, s')"
    and r: "r = Inr (length (backlog c s)) \<and> backlog c s' = [] \<or> r = Inl (DbExn UniqueViolation)" by auto
  have "settles (consumer_stage c env) s r s'"
    unfolding settles_def consumer_stage_def using run_consumer_mono [OF run] by blast
  moreover have "(R (strm s') \<and> stream_ok (strm s')) \<and> outbox (evt s') = outbox (evt s)"
  proof (rule run_consumer_frame [where R = "\<lambda>t. R t \<and> stream_ok t"])
    show "keeps (\<lambda>s. R (strm s) \<and> stream_ok (strm s)) (cs_handle c msg)" for msg
      using h [of msg] handle_stream [of msg] by (simp add: keeps_def)
    show "run_consumer ?n c (de_worker env) s = Some (r, s')" by (rule run)
  qed (use ok R com pg.commit_ok in auto)
  ultimately show ?thesis using r by blast
qed

end

section \<open>Draining\<close>

definition quiescent :: "drain_env \<Rightarrow> st \<Rightarrow> bool" where
  "quiescent env s \<longleftrightarrow> stream_ok (strm s) \<and> unpublished s = [] \<and> backlog WebhookFanout s = []
     \<and> backlog (Normalizer (de_pipe env)) s = [] \<and> backlog (RiskWorker (de_pipe env)) s = []"

lemma publish_rows_ok: "stream_ok t \<Longrightarrow> stream_ok (snd (publish_rows fails rows t))"
  by (induction rows arbitrary: t) (auto simp: Let_def split_beta pg.publish_ok)

lemma relay_run_ok: "relay_run fuel fails b s = Some (k, s') \<Longrightarrow> stream_ok (strm s) \<Longrightarrow> stream_ok (strm s')"
proof (induction fuel arbitrary: s k)
  case 0
  then show ?case by simp
next
  case (Suc fuel)
  obtain s1 n where o: "relay_once fails b s = (Inr n, s1)" using relay_once_run by blast
  have ok: "stream_ok (strm s1)" using o publish_rows_ok [OF Suc.prems(2)] by (auto simp: relay_once_run)
  show ?case
  proof (cases "n = 0")
    case True
    with Suc.prems(1) o ok show ?thesis by simp
  next
    case False
    with Suc.prems(1) o obtain k1 where "relay_run fuel fails b s1 = Some (k1, s')" by auto
    from Suc.IH [OF this ok] show ?thesis .
  qed
qed

lemma relay_stage_settles:
  assumes "outbox_ok (evt s)" "stream_ok (strm s)" "de_fails env = (\<lambda>_. False)"
  obtains s' where "settles (relay_stage env) s (Inr (length (unpublished s))) s'"
    "unpublished s' = []" "stream_ok (strm s')"
proof -
  obtain s' where run: "relay_run (Suc (length (unpublished s))) (\<lambda>_. False) 500 s = Some (length (unpublished s), s')"
    and "unpublished s' = []" using relay_run_total [OF assms(1), of 500 "Suc (length (unpublished s))"] by auto
  moreover have "settles (relay_stage env) s (Inr (length (unpublished s))) s'"
    unfolding settles_def relay_stage_def assms(3) using relay_run_mono [OF run] by auto
  moreover have "stream_ok (strm s')" using relay_run_ok [OF run assms(2)] .
  ultimately show thesis using that by blast
qed

text \<open>What is pending for one group is untouched by the commits of another, and by publishes elsewhere.\<close>

lemma pending_publish: "t \<noteq> t' \<Longrightarrow> pg.pending (pg_publish t' k e y p st) t g = pg.pending st t g"
  by (simp add: pg.pending_def pg.publish_other pg.publish_offset)

lemma pending_commit: "g \<noteq> g' \<Longrightarrow> pg.pending (pg_commit t' g' n st) t g = pg.pending st t g"
  by (simp add: pg.pending_def pg.commit_log pg.commit_offset)

lemma keeps_pending [keeps_intros]:
  "t \<noteq> t' \<Longrightarrow> keeps (\<lambda>s. pg.pending (strm s) t g = ms) (publish t' k e y p)"
  by (simp add: keeps_def publish_def pending_publish)

lemma keeps_pending_handlers:
  "keeps (\<lambda>s. pg.pending (strm s) LEDGER_EVENTS g = ms) (normalizer_handle env msg)"
  "keeps (\<lambda>s. pg.pending (strm s) LEDGER_EVENTS g = ms) (risk_handle env msg)"
proof -
  have "keeps (\<lambda>s. pg.pending (strm s) LEDGER_EVENTS g = ms) (normalize_row env msg txn row)" for txn row
    unfolding normalize_row_def split_beta by (intro keeps_intros | simp)+
  then show "keeps (\<lambda>s. pg.pending (strm s) LEDGER_EVENTS g = ms) (normalizer_handle env msg)"
    unfolding normalizer_handle_def by (auto intro!: keeps_intros split: sum.splits option.splits)
  show "keeps (\<lambda>s. pg.pending (strm s) LEDGER_EVENTS g = ms) (risk_handle env msg)"
    by (rule keeps_risk_handle) (auto simp: fire_def split_beta intro!: keeps_intros)
qed

lemma groups:
  "cs_group (Normalizer p) = ''normalizer''" "cs_topic (Normalizer p) = LEDGER_EVENTS"
  "cs_handle (Normalizer p) = normalizer_handle p"
  "cs_group (RiskWorker p) = ''risk''" "cs_topic (RiskWorker p) = NORMALIZED_TRANSACTIONS"
  "cs_handle (RiskWorker p) = risk_handle p"
  "cs_group WebhookFanout = ''webhooks''" "cs_topic WebhookFanout = LEDGER_EVENTS"
  by (simp_all add: Normalizer_def RiskWorker_def WebhookFanout_def)

lemma drain_pass_settles:
  assumes ok: "outbox_ok (evt s)" "stream_ok (strm s)" and up: "de_fails env = (\<lambda>_. False)"
  shows "\<exists>r s'. settles (drain_pass env t) s r s' \<and>
    (r = Inl (DbExn UniqueViolation) \<or>
     (\<exists>c. r = Inr c \<and> ct_relayed c = ct_relayed t + length (unpublished s) \<and> quiescent env s'))"
proof -
  let ?N = "Normalizer (de_pipe env)" and ?R = "RiskWorker (de_pipe env)" and ?W = WebhookFanout
  let ?U = "Inl (DbExn UniqueViolation)"
  obtain s1 where s1: "settles (relay_stage env) s (Inr (length (unpublished s))) s1" "unpublished s1 = []"
    "stream_ok (strm s1)" by (rule relay_stage_settles [OF ok up])
  obtain rb s2 where s2: "settles (consumer_stage ?W env) s1 rb s2" "stream_ok (strm s2)"
    "outbox (evt s2) = outbox (evt s1)"
    "rb = Inr (length (backlog ?W s1)) \<and> backlog ?W s2 = [] \<or> rb = ?U"
    using webhooks.stage_settles [where R = "\<lambda>_. True", OF _ _ s1(3), of env] by (auto simp: keeps_def)
  have u2: "unpublished s2 = []" using s1(2) s2(3) by (simp add: unpublished_def)
  show ?thesis
  proof (cases "rb = ?U")
    case True
    have "settles (drain_pass env t) s ?U s2"
      unfolding drain_pass_def
      by (rule settles_then [OF s1(1)], rule settles_stops, rule s2(1) [unfolded True])
    then show ?thesis by blast
  next
    case False
    with s2(4) have w2: "rb = Inr (length (backlog ?W s1))" "backlog ?W s2 = []" by auto
    let ?Rn = "\<lambda>x. pg.pending x LEDGER_EVENTS ''webhooks'' = []"
    have "\<exists>r s'. settles (consumer_stage ?N env) s2 r s' \<and> ?Rn (strm s') \<and> stream_ok (strm s')
       \<and> outbox (evt s') = outbox (evt s2)
       \<and> (r = Inr (length (backlog ?N s2)) \<and> backlog ?N s' = [] \<or> r = ?U)"
      by (rule normalizer.stage_settles)
        (use s2(2) w2(2) in \<open>simp_all add: groups keeps_pending_handlers pending_commit\<close>)
    then obtain rc s3 where s3: "settles (consumer_stage ?N env) s2 rc s3" "?Rn (strm s3)" "stream_ok (strm s3)"
      "outbox (evt s3) = outbox (evt s2)" "rc = Inr (length (backlog ?N s2)) \<and> backlog ?N s3 = [] \<or> rc = ?U" by blast
    have u3: "unpublished s3 = []" using u2 s3(4) by (simp add: unpublished_def)
    show ?thesis
    proof (cases "rc = ?U")
      case True
      have "settles (drain_pass env t) s ?U s3"
        unfolding drain_pass_def
        by (rule settles_then [OF s1(1)], rule settles_then [OF s2(1) [unfolded w2(1)]],
            rule settles_stops, rule s3(1) [unfolded True])
      then show ?thesis by blast
    next
      case False
      with s3(5) have n3: "rc = Inr (length (backlog ?N s2))" "backlog ?N s3 = []" by auto
      let ?Rr = "\<lambda>x. pg.pending x LEDGER_EVENTS ''webhooks'' = [] \<and> pg.pending x LEDGER_EVENTS ''normalizer'' = []"
      have hr: "keeps (\<lambda>s. ?Rr (strm s)) (risk_handle (de_pipe env) msg)" for msg
        using keeps_pending_handlers(2) [of "''webhooks''" "[]"] keeps_pending_handlers(2) [of "''normalizer''" "[]"]
        by (simp add: keeps_def)
      let ?s3 = "s3\<lparr>newest_event := None\<rparr>"
      have "\<exists>r s'. settles (consumer_stage ?R env) ?s3 r s' \<and> ?Rr (strm s') \<and> stream_ok (strm s')
         \<and> outbox (evt s') = outbox (evt ?s3)
         \<and> (r = Inr (length (backlog ?R ?s3)) \<and> backlog ?R s' = [] \<or> r = ?U)"
        by (rule risk.stage_settles)
          (use s3(2,3) n3(2) hr in \<open>simp_all add: groups pending_commit\<close>)
      then obtain rd s4 where s4: "settles (consumer_stage ?R env) ?s3 rd s4" "?Rr (strm s4)" "stream_ok (strm s4)"
        "outbox (evt s4) = outbox (evt ?s3)" "rd = Inr (length (backlog ?R ?s3)) \<and> backlog ?R s4 = [] \<or> rd = ?U" by blast
      have rs: "settles (risk_stage env) s3 rd s4" using s4(1) by (simp add: settles_def risk_stage_def)
      show ?thesis
      proof (cases "rd = ?U")
        case True
        have "settles (drain_pass env t) s ?U s4"
          unfolding drain_pass_def
          by (rule settles_then [OF s1(1)], rule settles_then [OF s2(1) [unfolded w2(1)]],
              rule settles_then [OF s3(1) [unfolded n3(1)]], rule settles_stops, rule rs [unfolded True])
        then show ?thesis by blast
      next
        case False
        with s4(5) have r4: "rd = Inr (length (backlog ?R ?s3))" "backlog ?R s4 = []" by auto
        have "unpublished s4 = []" using u3 s4(4) by (simp add: unpublished_def)
        then have "quiescent env s4" using s4(2,3) r4(2) by (simp add: quiescent_def groups)
        moreover have "\<exists>c. settles (drain_pass env t) s (Inr c) s4 \<and> ct_relayed c = ct_relayed t + length (unpublished s)"
          unfolding drain_pass_def
          by (intro exI conjI, rule settles_then [OF s1(1)], rule settles_then [OF s2(1) [unfolded w2(1)]],
              rule settles_then [OF s3(1) [unfolded n3(1)]], rule settles_then [OF rs [unfolded r4(1)]],
              rule settles_op, rule op_run(1)) simp
        ultimately show ?thesis by blast
      qed
    qed
  qed
qed

lemma quiet_relay:
  assumes "unpublished s = []"
  shows "relay_run (Suc k) fails n s = Some (0, s\<lparr>tx_now := wall s\<rparr>)"
proof -
  have "claim_unpublished {} n (evt s) = []"
    using assms by (simp add: claim_unpublished_def unpublished_def)
  then have "relay_once fails n s = (Inr 0, s\<lparr>tx_now := wall s\<rparr>)"
    by (simp add: relay_once_run sent_rows_def mark_rows_def mark_published_def)
  then show ?thesis by simp
qed

lemma quiet_stage:
  assumes "stream_ok (strm s)" "backlog c s = []"
  shows "settles (consumer_stage c env) s (Inr 0) s"
proof -
  have "pg_poll (cs_topic c) (cs_group c) consumer_batch_size (strm s) = []"
    using pg.poll_pending [OF assms(1)] assms(2) by simp
  then have "run_consumer (Suc k) c (de_worker env) s = Some (Inr 0, s)" for k by simp
  then show ?thesis unfolding settles_def consumer_stage_def by (metis Suc_le_D)
qed

lemma quiet_pass:
  assumes q: "quiescent env s"
  defines "s' \<equiv> s\<lparr>tx_now := wall s, newest_event := None\<rparr>"
  shows "settles (drain_pass env t) s (Inr t) s'" "quiescent env s'"
proof -
  let ?s1 = "s\<lparr>tx_now := wall s\<rparr>"
  have a: "settles (relay_stage env) s (Inr 0) ?s1"
    unfolding settles_def relay_stage_def using quiet_relay q unfolding quiescent_def
    by (metis (no_types, lifting) Suc_le_D case_prod_conv option.simps(9))
  have b: "settles (consumer_stage WebhookFanout env) ?s1 (Inr 0) ?s1"
    and c: "settles (consumer_stage (Normalizer (de_pipe env)) env) ?s1 (Inr 0) ?s1"
    and "settles (consumer_stage (RiskWorker (de_pipe env)) env) s' (Inr 0) s'"
    using q by (auto simp: quiescent_def s'_def intro!: quiet_stage)
  from this(3) have d: "settles (risk_stage env) ?s1 (Inr 0) s'"
    by (simp add: settles_def risk_stage_def s'_def)
  have "settles (drain_pass env t) s (Inr \<lparr>ct_relayed = ct_relayed t + 0, ct_normalized = ct_normalized t + 0,
        ct_scored = ct_scored t + 0, ct_fanned_out = ct_fanned_out t + 0\<rparr>) s'"
    unfolding drain_pass_def
    by (rule settles_then [OF a], rule settles_then [OF b], rule settles_then [OF c], rule settles_then [OF d],
        rule settles_op, rule op_run(1))
  then show "settles (drain_pass env t) s (Inr t) s'" by (cases t) simp
  show "quiescent env s'" using q by (simp add: quiescent_def s'_def unpublished_def)
qed

lemma quiet_passes: "quiescent env s \<Longrightarrow> \<exists>s'. settles (drain_passes k env t) s (Inr t) s' \<and> quiescent env s'"
proof (induction k arbitrary: s)
  case 0
  have "settles (drain_passes 0 env t) s (Inr t) s" unfolding drain_passes.simps(1) by (rule settles_op, rule op_run(1))
  with 0 show ?case by blast
next
  case (Suc k)
  from Suc.IH [OF quiet_pass(2) [OF Suc.prems]] settles_then [OF quiet_pass(1) [OF Suc.prems]]
  show ?case by fastforce
qed

end
