(* ===== verification/Worker_Laws.thy ===== *)
theory Worker_Laws
  imports Workers
begin

text \<open>
  What the workers do with an event, whatever the event: effects at most once, a bounded number of
  attempts, the rows a normalization and a scoring leave. The examples run on a small database.
\<close>

section \<open>Normalization\<close>

lemma filter_key: "distinct (map k xs) \<Longrightarrow> x \<in> set xs \<Longrightarrow> filter (\<lambda>y. k y = k x) xs = [x]"
  by (induction xs) (auto simp: filter_empty_conv image_iff)

lemma upsert_normalized_run:
  assumes "upsert_normalized l now i raw tenant acct m name cat conf v n = (Inr x, n')"
    and d: "distinct (map (\<lambda>r. (n_raw r, n_version r)) (norms n))"
  shows "n_raw x = raw" "n_version x = v" "n_merchant x = m" "n_name x = name" "n_category x = cat" "n_confidence x = conf"
    "filter (\<lambda>r. n_raw r = raw \<and> n_version r = v) (norms n') = [x]"
    "filter (\<lambda>r. \<not> (n_raw r = raw \<and> n_version r = v)) (norms n') = filter (\<lambda>r. \<not> (n_raw r = raw \<and> n_version r = v)) (norms n)"
    "raws n' = raws n" "merchants n' = merchants n" "aliases n' = aliases n"
    "n_account x = acct \<or> (\<exists>old \<in> set (norms n). n_raw old = raw \<and> n_account x = n_account old)"
    "x \<in> set (norms n')"
proof -
  let ?P = "\<lambda>r. n_raw r = raw \<and> n_version r = v"
  have "n_raw x = raw \<and> n_version x = v \<and> n_merchant x = m \<and> n_name x = name \<and> n_category x = cat
    \<and> n_confidence x = conf \<and> filter ?P (norms n') = [x]
    \<and> filter (\<lambda>r. \<not> ?P r) (norms n') = filter (\<lambda>r. \<not> ?P r) (norms n)
    \<and> raws n' = raws n \<and> merchants n' = merchants n \<and> aliases n' = aliases n
    \<and> (n_account x = acct \<or> (\<exists>old \<in> set (norms n). n_raw old = raw \<and> n_account x = n_account old))"
  proof (cases "List.find ?P (norms n)")
    case None
    then have none: "filter ?P (norms n) = []" by (auto simp: find_None_iff filter_empty_conv)
    from assms(1) None have "n' = n\<lparr>norms := norms n @ [x]\<rparr>"
      "x = \<lparr>n_id = i, n_raw = raw, n_tenant = tenant, n_account = acct, n_merchant = m,
                    n_name = name, n_category = cat, n_confidence = conf, n_version = v, n_at = now\<rparr>"
      unfolding upsert_normalized_def Let_def by (auto simp: result_simps simp del: op_run)
    with none show ?thesis by auto
  next
    case (Some old)
    then have old: "old \<in> set (norms n)" "n_raw old = raw" "n_version old = v"
      by (auto simp: find_Some_iff in_set_conv_nth)
    have mine: "filter ?P (norms n) = [old]" using filter_key [OF d old(1)] old(2,3) by simp
    let ?f = "\<lambda>r. if ?P r then x else r"
    from assms(1) Some have n': "n' = n\<lparr>norms := map ?f (norms n)\<rparr>"
      and x: "x = old\<lparr>n_merchant := m, n_name := name, n_category := cat, n_confidence := conf, n_at := now\<rparr>"
      unfolding upsert_normalized_def Let_def by (auto simp: result_simps simp del: op_run)
    have Pf: "?P (?f r) \<longleftrightarrow> ?P r" for r using x old by simp
    have "filter ?P (map ?f (norms n)) = map ?f (filter ?P (norms n))"
      unfolding filter_map comp_def Pf by simp
    moreover have "filter (\<lambda>r. \<not> ?P r) (map ?f (norms n)) = map ?f (filter (\<lambda>r. \<not> ?P r) (norms n))"
      unfolding filter_map comp_def Pf by simp
    moreover have "map ?f (filter (\<lambda>r. \<not> ?P r) (norms n)) = filter (\<lambda>r. \<not> ?P r) (norms n)"
      by (rule map_idI) auto
    ultimately show ?thesis using mine n' x old by auto
  qed
  then show "n_raw x = raw" "n_version x = v" "n_merchant x = m" "n_name x = name" "n_category x = cat" "n_confidence x = conf"
    "filter (\<lambda>r. n_raw r = raw \<and> n_version r = v) (norms n') = [x]"
    "filter (\<lambda>r. \<not> (n_raw r = raw \<and> n_version r = v)) (norms n') = filter (\<lambda>r. \<not> (n_raw r = raw \<and> n_version r = v)) (norms n)"
    "raws n' = raws n" "merchants n' = merchants n" "aliases n' = aliases n"
    "n_account x = acct \<or> (\<exists>old \<in> set (norms n). n_raw old = raw \<and> n_account x = n_account old)" by blast+
  from this(7) show "x \<in> set (norms n')" by (metis (no_types, lifting) filter_is_subset list.set_intros(1) subsetD)
qed

definition norm_keys :: "norm_tables \<Rightarrow> bool" where
  "norm_keys n \<longleftrightarrow> distinct (map (\<lambda>r. (n_raw r, n_version r)) (norms n))"

definition normalizing :: "message \<Rightarrow> bool" where
  "normalizing msg \<longleftrightarrow> msg_type msg \<in> {''transaction.created'', ''transaction.reversed''}"

lemma normalize_row_run:
  assumes run: "normalize_row env msg txn row s = (Inr (), s')" and k: "norm_keys (nrm s)"
  defines "r \<equiv> resolve (match_env.truncate env) (rw_tenant row) (rw_descriptor row) (nrm s)"
  obtains x where "filter (\<lambda>y. n_raw y = rw_id row \<and> n_version y = VERSION) (norms (nrm s')) = [x]"
    "n_merchant x = rs_merchant r" "n_name x = rs_name r" "n_category x = rs_category r"
    "n_confidence x = Some (rs_confidence r)"
    "filter (\<lambda>y. \<not> (n_raw y = rw_id row \<and> n_version y = VERSION)) (norms (nrm s'))
       = filter (\<lambda>y. \<not> (n_raw y = rw_id row \<and> n_version y = VERSION)) (norms (nrm s))"
    "raws (nrm s') = raws (nrm s)" "x \<in> set (norms (nrm s'))"
    "n_account x = rw_account row \<or> (\<exists>old \<in> set (norms (nrm s)). n_raw old = rw_id row \<and> n_account x = n_account old)"
    "strm s' = pg_publish NORMALIZED_TRANSACTIONS (rw_account row) (msg_event msg @ '':norm'')
       ''transaction.normalized'' (normalized_payload env txn row r) (strm s)"
    "led s' = led s"
proof -
  from run obtain x n' where up: "upsert_normalized (led s) (tx_now s) (fst (new_id ''ntx'' (idg s))) (rw_id row)
      (rw_tenant row) (rw_account row) (rs_merchant r) (rs_name r) (rs_category r) (Some (rs_confidence r)) VERSION
      (nrm s) = (Inr x, n')"
    and s': "nrm s' = n'" "strm s' = pg_publish NORMALIZED_TRANSACTIONS (rw_account row) (msg_event msg @ '':norm'')
       ''transaction.normalized'' (normalized_payload env txn row r) (strm s)" "led s' = led s"
    unfolding normalize_row_def publish_def r_def
    by (auto simp: result_simps split_beta simp del: op_run)
  note u = upsert_normalized_run [OF up k [unfolded norm_keys_def]]
  show thesis
    by (rule that [of x]) (use u s' in \<open>simp_all\<close>)
qed

text \<open>
  Normalizing a transaction's event leaves exactly one row for its raw transaction under the
  current version, whatever was there before, and every other row as it was; the row carries the
  resolution of the descriptor. One message is published, on the normalized topic, under an id made
  from the event's, so that a repetition is recognised downstream.
\<close>

theorem normalization_is_idempotent:
  assumes "normalizer_handle env msg s = (Inr (), s')" "normalizing msg" "norm_keys (nrm s)"
    and "transaction_of (msg_payload msg) = Inr txn" "pv_compare env txn = Inr (Some i)"
    and "raw_for_transaction i (nrm s) = Some row"
  shows "\<exists>x. filter (\<lambda>y. n_raw y = rw_id row \<and> n_version y = VERSION) (norms (nrm s')) = [x]
     \<and> filter (\<lambda>y. \<not> (n_raw y = rw_id row \<and> n_version y = VERSION)) (norms (nrm s'))
         = filter (\<lambda>y. \<not> (n_raw y = rw_id row \<and> n_version y = VERSION)) (norms (nrm s))
     \<and> (\<exists>r. r = resolve (match_env.truncate env) (rw_tenant row) (rw_descriptor row) (nrm s)
          \<and> n_merchant x = rs_merchant r \<and> n_name x = rs_name r \<and> n_category x = rs_category r
          \<and> n_confidence x = Some (rs_confidence r)
          \<and> strm s' = pg_publish NORMALIZED_TRANSACTIONS (rw_account row) (msg_event msg @ '':norm'')
              ''transaction.normalized'' (normalized_payload env txn row r) (strm s))"
proof -
  have "\<not> msg_type msg \<notin> {''transaction.created'', ''transaction.reversed''}"
    using assms(2) by (simp add: normalizing_def)
  from assms(1) [unfolded normalizer_handle_def if_not_P [OF this] assms(4) sum.case]
  have "normalize_row env msg txn row s = (Inr (), s')" by (simp add: bind_op_def assms(5,6))
  then show ?thesis by (rule normalize_row_run [OF _ assms(3)]) blast
qed

text \<open>
  C28. Once a transaction is normalized to a merchant, its own row counts among the account's visits to
  it, so the features of that very transaction never have a frequency of zero and the rule for a large
  charge at a merchant the account has never used does not fire.
\<close>

theorem novel_merchant_is_never_novel:
  assumes "normalize_row env msg txn row s = (Inr (), s')" "norm_keys (nrm s)" "row \<in> set (raws (nrm s))"
    and "\<forall>x \<in> set (norms (nrm s)). n_raw x = rw_id row \<longrightarrow> n_account x = rw_account row"
    and "rs_merchant (resolve (match_env.truncate env) (rw_tenant row) (rw_descriptor row) (nrm s)) = Some m"
    and "compute (rw_account row) (rw_occurred row) amount (Some m) (led s') (nrm s') = Inr f"
  shows "1 \<le> f_merchant_frequency f \<and> novel_merchant \<notin> set (advisory f)"
proof -
  let ?r = "resolve (match_env.truncate env) (rw_tenant row) (rw_descriptor row) (nrm s)"
  obtain x where x: "n_merchant x = rs_merchant ?r" "x \<in> set (norms (nrm s'))" "raws (nrm s') = raws (nrm s)"
    and mine: "filter (\<lambda>y. n_raw y = rw_id row \<and> n_version y = VERSION) (norms (nrm s')) = [x]"
    and a: "n_account x = rw_account row \<or> (\<exists>old \<in> set (norms (nrm s)). n_raw old = rw_id row \<and> n_account x = n_account old)"
    by (rule normalize_row_run [OF assms(1,2)]) blast
  have raw: "n_raw x = rw_id row" using mine by (metis (mono_tags, lifting) filter_eq_ConsD)
  have acct: "n_account x = rw_account row" using a assms(4) by auto
  let ?seen = "seen_merchants (rw_account row) (rw_occurred row) (nrm s')"
  have "(Some m, rw_occurred row) \<in> set ?seen"
    unfolding seen_merchants_def using x raw acct assms(3,5) by force
  then have "filter (\<lambda>p. fst p = Some m) ?seen \<noteq> []" by (force simp: filter_empty_conv)
  then have "0 < length (filter (\<lambda>p. fst p = Some m) ?seen)" by simp
  moreover have "f_merchant_frequency f = int (length (filter (\<lambda>p. fst p = Some m) ?seen))"
    using assms(6) by (auto simp: compute_def merchant_stats_def Let_def split_beta result_simps)
  ultimately have "1 \<le> f_merchant_frequency f" by linarith
  then show ?thesis by (auto simp: advisory_def rule_evaluate_def novel_merchant_def)
qed

section \<open>An example\<close>

definition demo_pipe :: pipe_env where
  "demo_pipe =
     \<lparr>mt_similar = mt_similar demo_match, mt_sim = mt_sim demo_match, mt_order = mt_order demo_match,
      pv_compare = (\<lambda>v. case v of JStr x \<Rightarrow> Inr (Some x) | JNull \<Rightarrow> Inr None | _ \<Rightarrow> Inl (DbExn UndefinedFunction)),
      pv_store = (\<lambda>v. case v of JStr x \<Rightarrow> Inr (Some x) | JNull \<Rightarrow> Inr None | _ \<Rightarrow> Inl (DbExn UndefinedFunction)),
      pv_show = (\<lambda>_. ''now''), pv_read = (\<lambda>_. Some (Aware 5))\<rparr>"

definition demo_raw :: raw_row where
  "demo_raw =
     \<lparr>rw_id = ''raw_1'', rw_tenant = ''t'', rw_mode = TEST, rw_account = ''acct_1'', rw_txn = Some ''txn_1'',
      rw_payload = JNull, rw_descriptor = ''STARBUCKS'', rw_amount = 450, rw_currency = ''usd'',
      rw_occurred = 5, rw_received = 7\<rparr>"

definition demo_norms :: norm_tables where
  "demo_norms = coffee\<lparr>raws := [demo_raw]\<rparr>"

definition demo_pipeline :: st where
  "demo_pipeline = (relay_state demo_outbox)\<lparr>led := demo_tables, nrm := demo_norms\<rparr>"

definition demo_created :: message where
  "demo_created =
     \<lparr>msg_offset = 1, msg_topic = LEDGER_EVENTS, msg_key = ''acct_1'', msg_event = ''evt_1'',
      msg_type = ''transaction.created'',
      msg_payload = JObj [(''data'', JObj [(''object'', JObj [(''id'', JStr ''txn_1'')])])], msg_published = 0\<rparr>"

lemma demo_truncate: "match_env.truncate demo_pipe = demo_match"
  by (simp add: match_env.truncate_def demo_pipe_def)

lemma demo_best:
  "best_candidate demo_match demo_norms ''starbucks'' =
     Some (1, \<lparr>cd_merchant = ''mch_1'', cd_pattern = ''starbucks'', cd_weight = 1, cd_name = ''Starbucks'',
              cd_category = ''dining'', cd_score = 1\<rparr>)"
  by (simp add: best_candidate_def coffee_cleaned demo_match_def scored_def candidates_def demo_norms_def
      coffee_def better_def)

lemma demo_resolved:
  "resolve demo_match ''t'' ''STARBUCKS'' demo_norms =
     \<lparr>rs_merchant = Some ''mch_1'', rs_name = Some ''Starbucks'', rs_category = Some ''dining'',
      rs_confidence = 1, rs_cleaned = ''starbucks'', rs_version = VERSION\<rparr>"
proof -
  have "min 1 (1 + prior_boost p) = 1" for p using prior_boost_bounds(1) by (simp add: min_def)
  moreover have "round4 1 = 1" by (simp add: round4_def round_even_def)
  ultimately show ?thesis
    by (simp add: resolve_def Let_def coffee_cleaned(1) demo_best MIN_CONFIDENCE_def)
qed

lemma demo_guards:
  "''t'' \<in> set (tenants demo_tables)" "''acct_1'' \<in> a_id ` set (accounts demo_tables)"
  "''raw_1'' \<in> rw_id ` set (raws demo_norms)" "''mch_1'' \<in> mc_id ` set (merchants demo_norms)"
  "norms demo_norms = []"
  by (simp_all add: demo_tables_def demo_accounts_def demo_norms_def demo_raw_def coffee_def)

lemma demo_normalizes:
  assumes n: "nrm s = demo_norms" "led s = demo_tables"
  shows "\<exists>s'. normalize_row demo_pipe demo_created (JStr ''txn_1'') demo_raw s = (Inr (), s')"
proof -
  obtain i g where i: "new_id ''ntx'' (idg s) = (i, g)" by fastforce
  have f: "fresh_id (new_id ''ntx'') s = (Inr i, s\<lparr>idg := g\<rparr>)"
    by (simp add: fresh_id_def i)
  have r: "rw_tenant demo_raw = ''t''" "rw_descriptor demo_raw = ''STARBUCKS''" "rw_id demo_raw = ''raw_1''"
    "rw_account demo_raw = ''acct_1''" by (simp_all add: demo_raw_def)
  have "\<exists>x n'. upsert_normalized demo_tables (tx_now s) i ''raw_1'' ''t'' ''acct_1'' (Some ''mch_1'')
      (Some ''Starbucks'') (Some ''dining'') (Some 1) VERSION demo_norms = (Inr x, n')"
    using demo_guards by (simp add: upsert_normalized_def bind_op_def guard_op_def Let_def)
  then obtain x n' where u: "upsert_normalized demo_tables (tx_now s) i ''raw_1'' ''t'' ''acct_1''
      (Some ''mch_1'') (Some ''Starbucks'') (Some ''dining'') (Some 1) VERSION demo_norms = (Inr x, n')" by blast
  show ?thesis
    unfolding normalize_row_def publish_def r demo_truncate
    by (simp add: bind_op_def f n demo_resolved on_nrm_def zoom_def u)
qed

lemma demo_rows: "norm_keys (nrm demo_pipeline)" "demo_raw \<in> set (raws (nrm demo_pipeline))"
  "raw_for_transaction ''txn_1'' demo_norms = Some demo_raw" "norms (nrm demo_pipeline) = []"
  "nrm demo_pipeline = demo_norms" "led demo_pipeline = demo_tables"
  by (simp_all add: norm_keys_def demo_pipeline_def demo_norms_def raw_for_transaction_def demo_raw_def coffee_def)

lemma demo_message: "normalizing demo_created" "transaction_of (msg_payload demo_created) = Inr (JStr ''txn_1'')"
    "pv_compare demo_pipe (JStr ''txn_1'') = Inr (Some ''txn_1'')"
  by (simp_all add: normalizing_def demo_created_def transaction_of_def demo_pipe_def)

lemma demo_handles:
  assumes n: "nrm s = demo_norms" "led s = demo_tables"
  shows "\<exists>s'. normalizer_handle demo_pipe demo_created s = (Inr (), s')"
proof -
  have ty: "\<not> msg_type demo_created \<notin> {''transaction.created'', ''transaction.reversed''}"
    using demo_message(1) by (simp add: normalizing_def)
  have "normalizer_handle demo_pipe demo_created s
      = normalize_row demo_pipe demo_created (JStr ''txn_1'') demo_raw s"
    unfolding normalizer_handle_def if_not_P [OF ty] demo_message(2) sum.case
    by (simp add: bind_op_def demo_message(3) n demo_rows(3))
  with demo_normalizes [OF n] show ?thesis by simp
qed

theorem normalization_is_idempotent_witness:
  "\<exists>s' x. normalizer_handle demo_pipe demo_created demo_pipeline = (Inr (), s')
     \<and> filter (\<lambda>y. n_raw y = ''raw_1'' \<and> n_version y = VERSION) (norms (nrm s')) = [x]
     \<and> n_merchant x = Some ''mch_1''"
proof -
  obtain s' where h: "normalizer_handle demo_pipe demo_created demo_pipeline = (Inr (), s')"
    using demo_handles [OF demo_rows(5,6)] by blast
  have "raw_for_transaction ''txn_1'' (nrm demo_pipeline) = Some demo_raw" by (simp add: demo_rows(3,5))
  from normalization_is_idempotent [OF h demo_message(1) demo_rows(1) demo_message(2,3) this]
  have "\<exists>x. filter (\<lambda>y. n_raw y = ''raw_1'' \<and> n_version y = VERSION) (norms (nrm s')) = [x] \<and> n_merchant x = Some ''mch_1''"
    unfolding demo_truncate by (auto simp: demo_raw_def demo_rows(5) demo_resolved)
  with h show ?thesis by blast
qed

theorem novel_merchant_is_never_novel_witness:
  "\<exists>s' f. normalize_row demo_pipe demo_created (JStr ''txn_1'') demo_raw demo_pipeline = (Inr (), s')
     \<and> f_amount f = 90000 \<and> 1 \<le> f_merchant_frequency f \<and> novel_merchant \<notin> set (advisory f)"
proof -
  obtain s' where s': "normalize_row demo_pipe demo_created (JStr ''txn_1'') demo_raw demo_pipeline = (Inr (), s')"
    using demo_normalizes [OF demo_rows(5,6)] by blast
  have led: "led s' = demo_tables"
    by (rule normalize_row_run [OF s' demo_rows(1)]) (simp add: demo_pipeline_def)
  have "outflows ''acct_1'' b 5 demo_tables = (if b < 5 then [450] else [])" for b
    by (simp add: outflows_def demo_tables_def)
  then have "\<exists>f. compute ''acct_1'' 5 90000 (Some ''mch_1'') demo_tables (nrm s') = Inr f"
    by (simp add: compute_def Let_def split_beta spend_window_def to_bigint_def in_bigint_def window_bounds_def
        SPEND_1H_def SPEND_24H_def seconds_def)
  then obtain f where f: "compute ''acct_1'' 5 90000 (Some ''mch_1'') (led s') (nrm s') = Inr f" by (auto simp: led)
  have r: "rw_account demo_raw = ''acct_1''" "rw_occurred demo_raw = 5" "rw_tenant demo_raw = ''t''"
    "rw_descriptor demo_raw = ''STARBUCKS''" "nrm demo_pipeline = demo_norms"
    by (simp_all add: demo_raw_def demo_pipeline_def)
  have m: "rs_merchant (resolve (match_env.truncate demo_pipe) (rw_tenant demo_raw) (rw_descriptor demo_raw)
      (nrm demo_pipeline)) = Some ''mch_1''"
    by (simp add: demo_truncate r demo_resolved)
  have "1 \<le> f_merchant_frequency f \<and> novel_merchant \<notin> set (advisory f)"
    by (rule novel_merchant_is_never_novel [OF s' demo_rows(1,2) _ m]) (use f in \<open>simp_all add: r demo_guards(5)\<close>)
  with s' compute_Inr [OF f] show ?thesis by blast
qed

section \<open>The runner\<close>

definition workers :: "pipe_env \<Rightarrow> consumer list" where
  "workers p = [WebhookFanout, Normalizer p, RiskWorker p]"

text \<open>
  C26. Whatever a worker is handed, it does one of three things. An event its group has claimed before
  changes nothing. A new one is handled: the claim is recorded with the complete effect of the handler
  on the tables as they were found. Or, after at most three attempts, and before the third only on a
  malformed payload, it is put among the dead letters and no other row changes. Either way the offset
  may advance; the worker stops only when the dead letter's own id is taken.
\<close>

theorem processing_is_effectively_once:
  assumes "c \<in> set (workers p)" "process_one c env msg s = (r, s')"
  shows "(claimed c msg s \<and> r = Inr True \<and> s' = s\<lparr>tx_now := wall s\<rparr>)
    \<or> (\<not> claimed c msg s \<and> r = Inr True \<and> processed (evt s') = processed (evt s) @ [(cs_group c, msg_event msg)]
        \<and> dead_letters (evt s') = dead_letters (evt s)
        \<and> (\<exists>s0. same_tables s s0 \<and> cs_handle c msg (with_claim c msg s0) = (Inr (), s')))
    \<or> (\<not> claimed c msg s \<and> (\<exists>err n. 1 \<le> n \<and> n \<le> 3 \<and> (err = PoisonMessage \<or> n = 3)
        \<and> (r = Inr True \<and> buried c msg (Some err) n s s' \<or> r = Inl (DbExn UniqueViolation) \<and> same_tables s s')))"
proof (cases "claimed c msg s")
  case True
  with assms(2) process_one_duplicate [OF True, of env] show ?thesis by simp
next
  case False
  from assms(1) consider "c = WebhookFanout" | "c = Normalizer p" | "c = RiskWorker p"
    by (auto simp: workers_def)
  then have "consumer_contract c"
    by cases (simp_all add: webhooks.consumer_contract_axioms normalizer.consumer_contract_axioms
        risk.consumer_contract_axioms)
  from consumer_contract.process_one_fresh(2) [OF this assms(2) False]
  show ?thesis using False unfolding consumer_max_attempts_def by blast
qed

text \<open>
  A malformed event is never retried: an event of a transaction without a transaction object, or a
  normalized one without account, time or amount, is put among the dead letters after one attempt,
  unclaimed, and no other row changes.
\<close>

theorem malformed_events_are_buried:
  assumes "c = Normalizer p \<and> normalizing msg \<and> transaction_of (msg_payload msg) = Inl e
      \<or> c = RiskWorker p \<and> risk_fields p (msg_payload msg) = Inl e"
    and "\<not> claimed c msg s" "process_one c env msg s = (r, s')"
  shows "r = Inr True \<and> buried c msg (Some PoisonMessage) 1 s s' \<or> r = Inl (DbExn UniqueViolation) \<and> same_tables s s'"
proof -
  have raises: "cs_handle c msg t = (Inl PoisonMessage, t)" for t
    using assms(1)
  proof
    assume c: "c = Normalizer p \<and> normalizing msg \<and> transaction_of (msg_payload msg) = Inl e"
    then have "\<not> msg_type msg \<notin> {''transaction.created'', ''transaction.reversed''}" by (simp add: normalizing_def)
    from normalizer_handle_def [of p msg, unfolded if_not_P [OF this]] c show ?thesis by (simp add: groups)
  next
    assume "c = RiskWorker p \<and> risk_fields p (msg_payload msg) = Inl e"
    then show ?thesis by (simp add: groups risk_handle_def)
  qed
  have "claim_and_handle c msg (s\<lparr>tx_now := wall s\<rparr>) = (Inl PoisonMessage, with_claim c msg s)"
    unfolding claim_unfolds [OF assms(2)] by (rule raises)
  then have u: "unit_of_work (claim_and_handle c msg) s = (Inl PoisonMessage, rollback s (with_claim c msg s))"
    by (simp add: unit_of_work_def)
  let ?s1 = "rollback s (with_claim c msg s)"
  have same: "same_tables s ?s1" by (simp add: same_tables_def rollback_def with_claim_def)
  have at: "attempts c env msg consumer_max_attempts 0 None s = (Some (Some PoisonMessage, 1), ?s1)"
    unfolding max_attempts by (simp add: u)
  obtain q s2 where b: "bury c env msg (Some PoisonMessage) 1 ?s1 = (q, s2)" by fastforce
  have "s' = s2" "r = (case q of Inl x \<Rightarrow> Inl x | Inr _ \<Rightarrow> Inr True)"
    using assms(3) b by (auto simp: process_one_def at bind_op_def split: sum.splits)
  with bury_run(2) [OF b] same show ?thesis by (auto simp: buried_def same_tables_def)
qed

definition steady_worker :: worker_env where
  "steady_worker = \<lparr>env_jitter = (\<lambda>_ _. 0), env_describe = (\<lambda>_. [])\<rparr>"

theorem processing_is_effectively_once_witness:
  "\<exists>s'. process_one (Normalizer demo_pipe) steady_worker demo_created demo_pipeline = (Inr True, s')
     \<and> processed (evt s') = [(''normalizer'', ''evt_1'')]"
proof -
  let ?N = "Normalizer demo_pipe"
  have e: "processed (evt demo_pipeline) = []" "dead_letters (evt demo_pipeline) = []"
    by (simp_all add: demo_pipeline_def relay_state_def demo_outbox_def)
  then have fresh: "\<not> claimed ?N demo_created demo_pipeline" by simp
  let ?c = "with_claim ?N demo_created demo_pipeline"
  have "nrm ?c = demo_norms" "led ?c = demo_tables" by (simp_all add: with_claim_def demo_rows)
  then obtain s1 where "normalizer_handle demo_pipe demo_created ?c = (Inr (), s1)" using demo_handles by blast
  then have h: "cs_handle ?N demo_created ?c = (Inr (), s1)" by (simp add: groups)
  have "led s1 = led demo_pipeline"
    using normalizer.handle_frame(1) [OF h] by (simp add: with_claim_def)
  then have "unit_of_work (claim_and_handle ?N demo_created) demo_pipeline = (Inr (), s1)"
    unfolding unit_of_work_def claim_unfolds [OF fresh] h by simp
  then have run: "process_one ?N steady_worker demo_created demo_pipeline = (Inr True, s1)"
    by (simp add: process_one_def max_attempts)
  have d: "dead_letters (evt s1) = []" using normalizer.handle_frame(2) [OF h] e by (simp add: with_claim_def)
  have "?N \<in> set (workers demo_pipe)" by (simp add: workers_def)
  from processing_is_effectively_once [OF this run] fresh d
  have "processed (evt s1) = processed (evt demo_pipeline) @ [(cs_group ?N, msg_event demo_created)]"
    by (auto simp: buried_def)
  with run e show ?thesis by (simp add: groups demo_created_def)
qed

theorem malformed_events_are_buried_witness:
  "\<exists>r s'. process_one (Normalizer demo_pipe) steady_worker (demo_created\<lparr>msg_payload := JObj []\<rparr>) demo_pipeline = (r, s')
     \<and> (r = Inr True \<and> map dl_class (dead_letters (evt s')) = [''PoisonMessage'']
        \<and> map dl_attempts (dead_letters (evt s')) = [1]
        \<or> r = Inl (DbExn UniqueViolation))"
proof -
  let ?N = "Normalizer demo_pipe" and ?m = "demo_created\<lparr>msg_payload := JObj []\<rparr>"
  have e: "processed (evt demo_pipeline) = []" "dead_letters (evt demo_pipeline) = []"
    by (simp_all add: demo_pipeline_def relay_state_def demo_outbox_def)
  obtain r s' where run: "process_one ?N steady_worker ?m demo_pipeline = (r, s')" by fastforce
  have "?N = Normalizer demo_pipe \<and> normalizing ?m \<and> transaction_of (msg_payload ?m) = Inl KeyError
      \<or> ?N = RiskWorker demo_pipe \<and> risk_fields demo_pipe (msg_payload ?m) = Inl KeyError"
    by (simp add: normalizing_def demo_created_def transaction_of_def)
  from malformed_events_are_buried [OF this _ run] e
  have "r = Inr True \<and> buried ?N ?m (Some PoisonMessage) 1 demo_pipeline s' \<or> r = Inl (DbExn UniqueViolation)"
    by auto
  with run e show ?thesis by (auto simp: buried_def)
qed

section \<open>Scoring\<close>

text \<open>A flag raised for a message: the values it was decided on, and the names its payload gives.\<close>

definition flag_for :: "pipe_env \<Rightarrow> message \<Rightarrow> json \<Rightarrow> json \<Rightarrow> int \<Rightarrow> signal_row \<Rightarrow> bool" where
  "flag_for env msg acct fj now x \<longleftrightarrow> fs_action x = FLAG \<and> fs_features x = fj \<and> fs_at x = now
     \<and> fs_amount x = None \<and> fs_reason x = None
     \<and> pv_store env acct = Inr (Some (fs_account x))
     \<and> bind_r (map_sum PyExn id (jindex (msg_payload msg) ''tenant_id'')) (pv_store env) = Inr (Some (fs_tenant x))
     \<and> bind_r (map_sum PyExn id (jget (msg_payload msg) ''transaction_id'' JNull)) (pv_store env) = Inr (fs_txn x)"

lemma stored_run: "stored env v s = (case pv_store env v of Inl e \<Rightarrow> Inl e
     | Inr None \<Rightarrow> Inl (DbExn NotNullViolation) | Inr (Some t) \<Rightarrow> Inr t, s)"
  by (cases "pv_store env v") (auto simp: stored_def bind_op_def split: option.splits)

lemma stored_Inr: "stored env v s = (Inr t, s') \<longleftrightarrow> pv_store env v = Inr (Some t) \<and> s' = s"
  unfolding stored_run by (auto split: sum.splits option.splits)

lemma lifted: "lift_op q s = (Inr x, s') \<Longrightarrow> q = Inr x \<and> s' = s"
  by (simp add: lift_op_def)

lemma fire_run:
  assumes "fire env msg acct fj r s = (Inr (), s')"
  obtains sig where "rsk s' = (rsk s)\<lparr>signals := signals (rsk s) @ [sig]\<rparr>" "newest_event s' = newest_event s"
    "tx_now s' = tx_now s" "fs_rule sig = r_name r" "fs_score sig = r_score r" "flag_for env msg acct fj (tx_now s) sig"
proof -
  from assms obtain i sa tenant sb txn sc tt sd ac se xt sf ln sg sig sh where
    i: "fresh_id (new_id ''sig'') s = (Inr i, sa)"
    and tenant: "lift_op (map_sum PyExn id (jindex (msg_payload msg) ''tenant_id'')) sa = (Inr tenant, sb)"
    and txn: "lift_op (map_sum PyExn id (jget (msg_payload msg) ''transaction_id'' JNull)) sb = (Inr txn, sc)"
    and tt: "stored env tenant sc = (Inr tt, sd)" and ac: "stored env acct sd = (Inr ac, se)"
    and xt: "lift_op (pv_store env txn) se = (Inr xt, sf)" and ln: "reads (\<lambda>s. (led s, tx_now s)) sf = (Inr ln, sg)"
    and rest: "(case ln of (l, now) \<Rightarrow>
      bind_op (on_rsk (insert_signal l now i tt ac xt (r_name r) (r_score r) fj FLAG None None)) (\<lambda>signal.
       publish FRAUD_SIGNALS ac (msg_event msg @ '':'' @ r_name r) ''fraud.signal''
         (JObj [(''signal_id'', JStr (fs_id signal)), (''tenant_id'', tenant), (''account_id'', acct),
                (''transaction_id'', txn), (''rule'', JStr (r_name r)), (''score'', JReal (r_score r)),
                (''description'', JStr (r_description r))]))) sg = (Inr (), s')"
    unfolding fire_def by - (elim bind_opE, rule that)
  note q = lifted [OF tenant] lifted [OF txn] lifted [OF xt] tt [unfolded stored_Inr] ac [unfolded stored_Inr]
  have sa: "rsk sa = rsk s" "newest_event sa = newest_event s" "tx_now sa = tx_now s" using i by (auto simp: fresh_id_iff)
  have sg: "sg = sa" "ln = (led sg, tx_now sg)" using q ln by (simp_all add: basic_op_iff del: op_run)
  from rest sg(2) obtain sig sh where
    ins: "on_rsk (insert_signal (led sg) (tx_now sg) i tt ac xt (r_name r) (r_score r) fj FLAG None None) sg = (Inr sig, sh)"
    and pub: "publish FRAUD_SIGNALS ac (msg_event msg @ '':'' @ r_name r) ''fraud.signal''
         (JObj [(''signal_id'', JStr (fs_id sig)), (''tenant_id'', tenant), (''account_id'', acct),
                (''transaction_id'', txn), (''rule'', JStr (r_name r)), (''score'', JReal (r_score r)),
                (''description'', JStr (r_description r))]) sh = (Inr (), s')"
    by (auto elim!: bind_opE)
  from ins have sig: "sig = \<lparr>fs_id = i, fs_tenant = tt, fs_account = ac, fs_txn = xt, fs_rule = r_name r, fs_score = r_score r,
        fs_features = fj, fs_at = tx_now s, fs_action = FLAG, fs_amount = None, fs_reason = None\<rparr>"
    and sh: "sh = sa\<lparr>rsk := (rsk s)\<lparr>signals := signals (rsk s) @ [sig]\<rparr>\<rparr>"
    by (auto simp: on_iff insert_signal_def Let_def result_simps sg sa simp del: op_run)
  have "rsk s' = rsk sh" "newest_event s' = newest_event sh" "tx_now s' = tx_now sh"
    using pub by (auto simp: publish_def split_beta result_simps simp del: op_run)
  moreover have "flag_for env msg acct fj (tx_now s) sig" using q by (simp add: flag_for_def sig)
  ultimately show thesis using that [of sig] sh sa sig by simp
qed

lemma fires_run:
  "each_op (fire env msg acct fj) rs s = (Inr (), s') \<Longrightarrow>
   \<exists>sigs. rsk s' = (rsk s)\<lparr>signals := signals (rsk s) @ sigs\<rparr>
     \<and> newest_event s' = newest_event s \<and> map fs_rule sigs = map r_name rs \<and> map fs_score sigs = map r_score rs
     \<and> (\<forall>x \<in> set sigs. flag_for env msg acct fj (tx_now s) x)"
proof (induction rs arbitrary: s)
  case Nil
  then show ?case by (intro exI [of _ "[]"]) auto
next
  case (Cons r rs)
  then obtain s1 where one: "fire env msg acct fj r s = (Inr (), s1)"
    and rest: "each_op (fire env msg acct fj) rs s1 = (Inr (), s')" by (auto simp: bind_op_Inr_iff)
  obtain sig where sig: "rsk s1 = (rsk s)\<lparr>signals := signals (rsk s) @ [sig]\<rparr>" "newest_event s1 = newest_event s"
    "tx_now s1 = tx_now s" "fs_rule sig = r_name r" "fs_score sig = r_score r" "flag_for env msg acct fj (tx_now s) sig"
    by (rule fire_run [OF one]) blast
  from Cons.IH [OF rest] obtain sigs where sigs: "rsk s' = (rsk s1)\<lparr>signals := signals (rsk s1) @ sigs\<rparr>"
    "newest_event s' = newest_event s1" "map fs_rule sigs = map r_name rs" "map fs_score sigs = map r_score rs"
    "\<forall>x \<in> set sigs. flag_for env msg acct fj (tx_now s1) x" by blast
  show ?case by (rule exI [of _ "sig # sigs"]) (use sig sigs in \<open>simp\<close>)
qed

text \<open>The row that holds an account's features at a time, and the rows of any other account or time.\<close>

definition feature_at :: "string \<Rightarrow> int \<Rightarrow> risk_tables \<Rightarrow> feature_row \<Rightarrow> bool" where
  "feature_at acct t k row \<longleftrightarrow> row \<in> set (account_features k) \<and> ft_account row = acct \<and> ft_window_end row = t"

definition features_elsewhere :: "string \<Rightarrow> int \<Rightarrow> risk_tables \<Rightarrow> feature_row list" where
  "features_elsewhere acct t k = filter (\<lambda>row. ft_account row \<noteq> acct \<or> ft_window_end row \<noteq> t) (account_features k)"

lemma upsert_features_run:
  assumes "upsert_features l row k = (Inr (), k')"
  shows "feature_at (ft_account row) (ft_window_end row) k' x \<longleftrightarrow> x = row"
    "features_elsewhere (ft_account row) (ft_window_end row) k' = features_elsewhere (ft_account row) (ft_window_end row) k"
    "signals k' = signals k" "late_arrivals k' = late_arrivals k"
proof -
  let ?a = "ft_account row" and ?t = "ft_window_end row" and ?fs = "account_features k"
  have k': "k' = k\<lparr>account_features := (if \<exists>f \<in> set ?fs. ft_account f = ?a \<and> ft_window_end f = ?t
       then map (\<lambda>f. if ft_account f = ?a \<and> ft_window_end f = ?t then row else f) ?fs else ?fs @ [row])\<rparr>"
    using assms unfolding upsert_features_def by (auto simp: result_simps simp del: op_run)
  have f: "filter (\<lambda>r. ft_account r \<noteq> ?a \<or> ft_window_end r \<noteq> ?t)
      (map (\<lambda>f. if ft_account f = ?a \<and> ft_window_end f = ?t then row else f) fs)
    = filter (\<lambda>r. ft_account r \<noteq> ?a \<or> ft_window_end r \<noteq> ?t) fs" for fs
    by (induction fs) auto
  show "feature_at ?a ?t k' x \<longleftrightarrow> x = row" unfolding k' feature_at_def by (auto simp: image_iff)
  show "features_elsewhere ?a ?t k' = features_elsewhere ?a ?t k" 
  proof (cases "\<exists>f \<in> set ?fs. ft_account f = ?a \<and> ft_window_end f = ?t")
    case True
    then have "account_features k' = map (\<lambda>f. if ft_account f = ?a \<and> ft_window_end f = ?t then row else f) ?fs" by (simp add: k')
    then show ?thesis unfolding features_elsewhere_def by (simp only: f)
  next
    case False
    then have "account_features k' = ?fs @ [row]" by (auto simp: k')
    then show ?thesis by (simp add: features_elsewhere_def)
  qed
  show "signals k' = signals k" "late_arrivals k' = late_arrivals k" by (simp_all add: k')
qed

lemma score_event_run:
  assumes "score_event env msg acct occurred amount s = (Inr (), s')"
  obtains key a mv merchant f sigs where "pv_compare env acct = Inr (Some key)" "pv_store env acct = Inr (Some a)"
    "jget (msg_payload msg) ''merchant_id'' JNull = Inr mv" "pv_compare env mv = Inr merchant"
    "compute key (instant occurred) amount merchant (led s) (nrm s) = Inr f"
    "\<forall>row. feature_at a (instant occurred) (rsk s') row \<longleftrightarrow> row = feature_columns a (instant occurred) (tx_now s) f"
    "features_elsewhere a (instant occurred) (rsk s') = features_elsewhere a (instant occurred) (rsk s)"
    "signals (rsk s') = signals (rsk s) @ sigs" "map fs_rule sigs = map r_name (advisory f)"
    "map fs_score sigs = map r_score (advisory f)"
    "\<forall>x \<in> set sigs. flag_for env msg acct (compute_to_dict env occurred f) (tx_now s) x"
    "late_arrivals (rsk s') = late_arrivals (rsk s)" "newest_event s' = newest_event s"
proof -
  from assms obtain w sa ao sb mv sc m sd where "lift_op (earlier occurred (w_duration SPEND_24H)) s = (Inr w, sa)"
    and key: "lift_op (pv_compare env acct) sa = (Inr ao, sb)"
    and mv: "lift_op (map_sum PyExn id (jget (msg_payload msg) ''merchant_id'' JNull)) sb = (Inr mv, sc)"
    and m: "lift_op (pv_compare env mv) sc = (Inr m, sd)"
    and rest: "(case ao of None \<Rightarrow> raise_op (DbExn NotNullViolation)
      | Some key \<Rightarrow> score_account env msg acct occurred amount m key) sd = (Inr (), s')"
    unfolding score_event_def by - (elim bind_opE, rule that)
  then have same: "sd = s" by (simp add: basic_op_iff del: op_run)
  from rest same obtain key where ao: "ao = Some key" and sc: "score_account env msg acct occurred amount m key s = (Inr (), s')"
    by (cases ao) (auto simp: basic_op_iff simp del: op_run)
  have k: "pv_compare env acct = Inr (Some key)" "jget (msg_payload msg) ''merchant_id'' JNull = Inr mv" "pv_compare env mv = Inr m"
    using key mv m ao by (auto simp: basic_op_iff simp del: op_run split: sum.splits) (cases "jget (msg_payload msg) ''merchant_id'' JNull"; simp)
  from sc obtain f a s1 k where a: "pv_store env acct = Inr (Some a)"
    and f: "compute key (instant occurred) amount m (led s) (nrm s) = Inr f"
    and up: "upsert_features (led s) (feature_columns a (instant occurred) (tx_now s) f) (rsk s) = (Inr (), k)"
    and s1: "s1 = s\<lparr>rsk := k\<rparr>"
    and fires: "each_op (fire env msg acct (compute_to_dict env occurred f)) (advisory f) s1 = (Inr (), s')"
    unfolding score_account_def
    by (auto simp: result_simps stored_Inr split_beta simp del: op_run split: option.splits) metis
  note u = upsert_features_run [OF up]
  have c: "ft_account (feature_columns a (instant occurred) (tx_now s) f) = a"
    "ft_window_end (feature_columns a (instant occurred) (tx_now s) f) = instant occurred"
    by (simp_all add: feature_columns_def)
  from fires_run [OF fires] obtain sigs where g: "rsk s' = (rsk s1)\<lparr>signals := signals (rsk s1) @ sigs\<rparr>"
    "newest_event s' = newest_event s1" "map fs_rule sigs = map r_name (advisory f)" "map fs_score sigs = map r_score (advisory f)"
    "\<forall>x \<in> set sigs. flag_for env msg acct (compute_to_dict env occurred f) (tx_now s1) x" by blast
  have r: "rsk s1 = k" "newest_event s1 = newest_event s" "tx_now s1 = tx_now s" by (simp_all add: s1)
  have kept: "feature_at b t (rsk s') x = feature_at b t k x" "features_elsewhere b t (rsk s') = features_elsewhere b t k"
    "late_arrivals (rsk s') = late_arrivals k" "signals (rsk s') = signals k @ sigs" for b t x
    by (simp_all add: g(1) r feature_at_def features_elsewhere_def)
  show thesis
    by (rule that [OF k(1) a k(2,3) f _ _ _ g(3,4)])
      (use u [unfolded c] kept g(2,5) r in simp_all)
qed

text \<open>
  C27. Every normalized event is accounted for. It counts as late exactly when it is more than the
  allowed lateness before the newest event the worker has seen; then it leaves one late arrival that
  says by how much, and nothing else in the risk tables. Otherwise the features are those of the account and of the merchant the event
  names, computed on the ledger as of the event's own time. They are the one row stored under that account and time, the
  rows of any other account or time are untouched, and there is one new flag for each advisory rule
  that fires on them, in order, with the rule's score, the event's tenant, account and transaction, and the values it was
  decided on. Either way the newest event time is at least the event's own.
\<close>

theorem scoring_accounts_for_every_event:
  assumes "risk_handle env msg s = (Inr (), s')" "risk_fields env (msg_payload msg) = Inr (acct, occurred, amount)"
  shows "\<exists>newest a. newest_event s' = Some newest \<and> instant occurred \<le> instant newest \<and> pv_store env acct = Inr (Some a)
    \<and> (if instant occurred < instant newest - WATERMARK
       then rsk s' = (rsk s)\<lparr>late_arrivals := late_arrivals (rsk s) @
              [\<lparr>la_event = msg_event msg, la_account = a, la_effective = instant occurred,
                la_watermark = instant newest - WATERMARK,
                la_lateness = instant newest - WATERMARK - instant occurred\<rparr>]\<rparr>
       else \<exists>key mv merchant f sigs. pv_compare env acct = Inr (Some key)
              \<and> jget (msg_payload msg) ''merchant_id'' JNull = Inr mv \<and> pv_compare env mv = Inr merchant
              \<and> compute key (instant occurred) amount merchant (led s) (nrm s) = Inr f
              \<and> (\<forall>row. feature_at a (instant occurred) (rsk s') row
                   \<longleftrightarrow> row = feature_columns a (instant occurred) (tx_now s) f)
              \<and> features_elsewhere a (instant occurred) (rsk s') = features_elsewhere a (instant occurred) (rsk s)
              \<and> signals (rsk s') = signals (rsk s) @ sigs
              \<and> map fs_rule sigs = map r_name (advisory f) \<and> map fs_score sigs = map r_score (advisory f)
              \<and> (\<forall>x \<in> set sigs. fs_action x = FLAG \<and> fs_account x = a \<and> fs_at x = tx_now s
                   \<and> fs_features x = compute_to_dict env occurred f
                   \<and> bind_r (map_sum PyExn id (jindex (msg_payload msg) ''tenant_id'')) (pv_store env) = Inr (Some (fs_tenant x))
                   \<and> bind_r (map_sum PyExn id (jget (msg_payload msg) ''transaction_id'' JNull)) (pv_store env)
                       = Inr (fs_txn x))
              \<and> late_arrivals (rsk s') = late_arrivals (rsk s))"
proof -
  from assms obtain newest s1 w where o: "observe occurred s = (Inr newest, s1)"
    and w: "earlier newest WATERMARK = Inr w"
    and rest: "(if instant occurred < w then bind_op (stored env acct) (\<lambda>a.
        on_rsk (record_late_arrival (msg_event msg) a (instant occurred) w))
      else score_event env msg acct occurred amount) s1 = (Inr (), s')"
    unfolding risk_handle_def by (auto simp: bind_op_Inr_iff basic_op_iff simp del: op_run) metis
  have ob: "newest_event s1 = Some newest" "instant occurred \<le> instant newest" "rsk s1 = rsk s" "led s1 = led s"
    "nrm s1 = nrm s" "tx_now s1 = tx_now s"
    using o by (auto simp: observe_def split: option.splits if_splits)
  have w': "w = instant newest - WATERMARK" using w by (auto simp: earlier_def split: if_splits)
  show ?thesis
  proof (cases "instant occurred < w")
    case True
    with rest obtain a where a: "pv_store env acct = Inr (Some a)"
      and "on_rsk (record_late_arrival (msg_event msg) a (instant occurred) w) s1 = (Inr (), s')"
      by (auto simp: bind_op_Inr_iff stored_Inr)
    then have "s' = s1\<lparr>rsk := (rsk s1)\<lparr>late_arrivals := late_arrivals (rsk s1) @
        [\<lparr>la_event = msg_event msg, la_account = a, la_effective = instant occurred, la_watermark = w,
          la_lateness = w - instant occurred\<rparr>]\<rparr>\<rparr>"
      by (simp add: on_rsk_def zoom_def record_late_arrival_def)
    with True w' a ob show ?thesis by (intro exI [of _ newest] exI [of _ a]) simp
  next
    case False
    with rest have sc: "score_event env msg acct occurred amount s1 = (Inr (), s')" by simp
    obtain key a mv merchant f sigs where g: "pv_compare env acct = Inr (Some key)" "pv_store env acct = Inr (Some a)"
      "jget (msg_payload msg) ''merchant_id'' JNull = Inr mv" "pv_compare env mv = Inr merchant"
      "compute key (instant occurred) amount merchant (led s) (nrm s) = Inr f"
      "\<forall>row. feature_at a (instant occurred) (rsk s') row \<longleftrightarrow> row = feature_columns a (instant occurred) (tx_now s) f"
      "features_elsewhere a (instant occurred) (rsk s') = features_elsewhere a (instant occurred) (rsk s)"
      "signals (rsk s') = signals (rsk s) @ sigs" "map fs_rule sigs = map r_name (advisory f)"
      "map fs_score sigs = map r_score (advisory f)"
      "\<forall>x \<in> set sigs. flag_for env msg acct (compute_to_dict env occurred f) (tx_now s) x"
      "late_arrivals (rsk s') = late_arrivals (rsk s)" "newest_event s' = newest_event s1"
      by (rule score_event_run [OF sc, unfolded ob(3-6)])
    have flags: "\<forall>x \<in> set sigs. fs_action x = FLAG \<and> fs_account x = a \<and> fs_at x = tx_now s
       \<and> fs_features x = compute_to_dict env occurred f
       \<and> bind_r (map_sum PyExn id (jindex (msg_payload msg) ''tenant_id'')) (pv_store env) = Inr (Some (fs_tenant x))
       \<and> bind_r (map_sum PyExn id (jget (msg_payload msg) ''transaction_id'' JNull)) (pv_store env) = Inr (fs_txn x)"
      using g(2,11) unfolding flag_for_def by auto
    have late: "\<not> instant occurred < instant newest - WATERMARK" using False w' by simp
    show ?thesis
      by (rule exI [of _ newest], rule exI [of _ a], unfold if_not_P [OF late], intro conjI)
        (use g(13) ob(1,2) g(2) in simp, use ob(2) in simp, use g(2) in simp,
         rule exI [of _ key], rule exI [of _ mv], rule exI [of _ merchant], rule exI [of _ f], rule exI [of _ sigs],
         intro conjI, (fact g flags)+)
  qed
qed

definition demo_normalized :: message where
  "demo_normalized =
     \<lparr>msg_offset = 1, msg_topic = NORMALIZED_TRANSACTIONS, msg_key = ''acct_1'', msg_event = ''evt_1:norm'',
      msg_type = ''transaction.normalized'',
      msg_payload = JObj [(''account_id'', JStr ''acct_1''), (''occurred_at'', JStr ''now''),
                          (''amount_minor'', JInt 450), (''tenant_id'', JStr ''t'')],
      msg_published = 0\<rparr>"

lemma demo_fields: "risk_fields demo_pipe (msg_payload demo_normalized) = Inr (JStr ''acct_1'', Aware 5, 450)"
  by (simp add: risk_fields_def demo_normalized_def demo_pipe_def)

text \<open>An account with thirteen small charges within the hour and a large one before it.\<close>

definition probed_state :: st where
  "probed_state = demo_pipeline\<lparr>led := demo_tables\<lparr>entries := map (\<lambda>i. charge i 100) [1 ..< 14]
     @ [(charge 14 100000)\<lparr>e_effective := - 7200000000\<rparr>]\<rparr>\<rparr>"

lemma probed_outflows:
  "b < 0 \<Longrightarrow> outflows ''acct_1'' b 5 (led probed_state) = (if b < - 7200000000 then replicate 13 100 @ [100000] else replicate 13 100)"
  by (simp add: outflows_def probed_state_def charge_def numeral_eq_Suc upt_rec)

lemma probed_features:
  obtains f where "compute ''acct_1'' 5 450 None (led probed_state) (nrm probed_state) = Inr f"
    "advisory f = [card_testing]" "f_txn_count_1h f = 13"
proof -
  have "nrm probed_state = demo_norms" by (simp add: probed_state_def demo_rows)
  then have m: "merchant_stats ''acct_1'' None 5 (nrm probed_state) = (0, 0)"
    by (simp add: merchant_stats_def seen_merchants_def demo_guards(5) Let_def)
  let ?f = "\<lparr>f_account = ''acct_1'', f_as_of = 5, f_amount = 450, f_spend_1h = 1300, f_spend_24h = 101300,
     f_txn_count_1h = 13, f_max_amount_1h = 100, f_distinct_merchants_7d = 0, f_merchant_frequency = 0,
     f_avg_90d = mean (replicate 13 100 @ [100000]), f_stddev_90d = stddev_pop (replicate 13 100 @ [100000])\<rparr>"
  have max: "max_or_zero (replicate 13 100) = 100" by (simp add: max_or_zero_def numeral_eq_Suc)
  have f: "compute ''acct_1'' 5 450 None (led probed_state) (nrm probed_state) = Inr ?f"
    by (simp add: compute_def Let_def spend_window_def baseline_def probed_outflows m window_bounds_def SPEND_1H_def SPEND_24H_def
        seconds_def microseconds_per_day_def to_bigint_def in_bigint_def sum_list_replicate max)
  have avg: "f_avg_90d ?f = 101300 / 14" by (simp add: mean_def sum_list_replicate)
  then have z: "amount_zscore ?f \<le> 0" by (simp add: amount_zscore_def divide_nonpos_pos)
  have "advisory ?f = [card_testing]"
    using z avg by (simp add: advisory_def RULES_def blocking_def rule_evaluate_def rules_defs avg_spend_1h_90d_def)
  with f that [of ?f] show thesis by simp
qed

lemma demo_values:
  "pv_compare demo_pipe (JStr t) = Inr (Some t)" "pv_store demo_pipe (JStr t) = Inr (Some t)"
  "pv_compare demo_pipe JNull = Inr None" "pv_store demo_pipe JNull = Inr None"
  "jget (msg_payload demo_normalized) ''merchant_id'' JNull = Inr JNull"
  "jindex (msg_payload demo_normalized) ''tenant_id'' = Inr (JStr ''t'')"
  "jget (msg_payload demo_normalized) ''transaction_id'' JNull = Inr JNull"
  by (simp_all add: demo_pipe_def demo_normalized_def)

lemma probed_run:
  "\<exists>s'. risk_handle demo_pipe demo_normalized probed_state = (Inr (), s') \<and> newest_event s' = Some (Aware 5)"
proof -
  let ?s = "probed_state\<lparr>newest_event := Some (Aware 5)\<rparr>"
  have o: "observe (Aware 5) probed_state = (Inr (Aware 5), ?s)"
    by (simp add: observe_def probed_state_def demo_pipeline_def relay_state_def)
  have e: "earlier (Aware 5) WATERMARK = Inr (5 - WATERMARK)" "earlier (Aware 5) (w_duration SPEND_24H) = Inr (5 - w_duration SPEND_24H)"
    "\<not> 5 < 5 - WATERMARK"
    by (simp_all add: earlier_def min_datetime_def WATERMARK_def watermark_seconds_def seconds_def SPEND_24H_def)
  obtain f where f: "compute ''acct_1'' 5 450 None (led probed_state) (nrm probed_state) = Inr f" "advisory f = [card_testing]"
    by (rule probed_features)
  obtain k where k: "upsert_features (led probed_state) (feature_columns ''acct_1'' 5 (tx_now probed_state) f) (rsk probed_state) = (Inr (), k)"
    "signals k = []"
    using demo_guards(2) by (auto simp: upsert_features_def bind_op_def guard_op_def feature_columns_def probed_state_def
      demo_pipeline_def relay_state_def)
  let ?t = "?s\<lparr>rsk := k\<rparr>"
  have "\<exists>s'. fire demo_pipe demo_normalized (JStr ''acct_1'') fj card_testing ?t = (Inr (), s')
      \<and> newest_event s' = Some (Aware 5)" for fj
    using demo_guards(1,2)
    by (simp add: fire_def bind_op_def fresh_id_def split_beta demo_values stored_run on_rsk_def zoom_def insert_signal_def guard_op_def
      Let_def k(2) publish_def probed_state_def)
  then obtain s' where fire: "fire demo_pipe demo_normalized (JStr ''acct_1'') (compute_to_dict demo_pipe (Aware 5) f) card_testing ?t = (Inr (), s')"
    and "newest_event s' = Some (Aware 5)" by blast
  have "score_account demo_pipe demo_normalized (JStr ''acct_1'') (Aware 5) 450 None ''acct_1'' ?s = (Inr (), s')"
    using k fire by (simp add: score_account_def bind_op_def f stored_run demo_values on_rsk_def zoom_def)
  then have "score_event demo_pipe demo_normalized (JStr ''acct_1'') (Aware 5) 450 ?s = (Inr (), s')"
    by (simp add: score_event_def bind_op_def e demo_values)
  then have "risk_handle demo_pipe demo_normalized probed_state = (Inr (), s')"
    by (simp add: risk_handle_def demo_fields bind_op_def o e)
  with \<open>newest_event s' = Some (Aware 5)\<close> show ?thesis by blast
qed

theorem scoring_accounts_for_every_event_witness:
  "(\<exists>s'. risk_handle demo_pipe demo_normalized (demo_pipeline\<lparr>newest_event := Some (Aware (15 + WATERMARK))\<rparr>) = (Inr (), s')
      \<and> map la_lateness (late_arrivals (rsk s')) = [10] \<and> signals (rsk s') = [])
   \<and> (\<exists>s' x row. risk_handle demo_pipe demo_normalized probed_state = (Inr (), s') \<and> late_arrivals (rsk s') = []
      \<and> signals (rsk s') = [x] \<and> fs_rule x = ''card_testing'' \<and> fs_account x = ''acct_1'' \<and> fs_tenant x = ''t'' \<and> fs_txn x = None
      \<and> feature_at ''acct_1'' 5 (rsk s') row \<and> ft_txn_count_1h row = 13)"
proof (rule conjI)
  let ?s = "demo_pipeline\<lparr>newest_event := Some (Aware (15 + WATERMARK))\<rparr>"
  have o: "observe (Aware 5) ?s = (Inr (Aware (15 + WATERMARK)), ?s)"
    by (simp add: observe_def WATERMARK_def watermark_seconds_def seconds_def)
  have e: "earlier (Aware (15 + WATERMARK)) WATERMARK = Inr 15" by (simp add: earlier_def min_datetime_def)
  have st: "stored demo_pipe (JStr ''acct_1'') ?s = (Inr ''acct_1'', ?s)"
    by (simp add: stored_def bind_op_def demo_pipe_def)
  have "\<exists>s'. risk_handle demo_pipe demo_normalized ?s = (Inr (), s')"
    by (simp add: risk_handle_def demo_fields bind_op_def o e st on_rsk_def zoom_def record_late_arrival_def)
  then obtain s' where h: "risk_handle demo_pipe demo_normalized ?s = (Inr (), s')" by blast
  have r: "rsk ?s = \<lparr>signals = [], late_arrivals = [], account_features = []\<rparr>"
    by (simp add: demo_pipeline_def relay_state_def)
  have "newest_event s' = Some (Aware (15 + WATERMARK))"
    using h by (auto simp: risk_handle_def demo_fields bind_op_def o e st on_rsk_def zoom_def record_late_arrival_def)
  with scoring_accounts_for_every_event [OF h demo_fields] r
  have "map la_lateness (late_arrivals (rsk s')) = [10]" "signals (rsk s') = []" by auto
  then show "\<exists>s'. risk_handle demo_pipe demo_normalized ?s = (Inr (), s')
      \<and> map la_lateness (late_arrivals (rsk s')) = [10] \<and> signals (rsk s') = []" by (intro exI [of _ s'] conjI h)
next
  obtain s' where h: "risk_handle demo_pipe demo_normalized probed_state = (Inr (), s')" and n: "newest_event s' = Some (Aware 5)"
    using probed_run by blast
  obtain f where f: "compute ''acct_1'' 5 450 None (led probed_state) (nrm probed_state) = Inr f" "advisory f = [card_testing]"
    "f_txn_count_1h f = 13" by (rule probed_features)
  have r: "rsk probed_state = \<lparr>signals = [], late_arrivals = [], account_features = []\<rparr>"
    by (simp add: probed_state_def demo_pipeline_def relay_state_def)
  have late: "\<not> instant (Aware 5) < instant (Aware 5) - WATERMARK" by (simp add: WATERMARK_def watermark_seconds_def seconds_def)
  from scoring_accounts_for_every_event [OF h demo_fields, unfolded n demo_values] obtain sigs where
    g: "\<forall>row. feature_at ''acct_1'' 5 (rsk s') row \<longleftrightarrow> row = feature_columns ''acct_1'' 5 (tx_now probed_state) f"
    "signals (rsk s') = sigs" "map fs_rule sigs = [''card_testing'']" "late_arrivals (rsk s') = []"
    "\<forall>x \<in> set sigs. fs_account x = ''acct_1'' \<and> fs_tenant x = ''t'' \<and> fs_txn x = None"
    using late f(1,2) by (auto simp: r demo_values card_testing_def)
  then obtain x where x: "sigs = [x]" by (cases sigs) auto
  show "\<exists>s' x row. risk_handle demo_pipe demo_normalized probed_state = (Inr (), s') \<and> late_arrivals (rsk s') = []
      \<and> signals (rsk s') = [x] \<and> fs_rule x = ''card_testing'' \<and> fs_account x = ''acct_1'' \<and> fs_tenant x = ''t'' \<and> fs_txn x = None
      \<and> feature_at ''acct_1'' 5 (rsk s') row \<and> ft_txn_count_1h row = 13"
    using h g x f(3) by (intro exI [of _ s'] exI [of _ x] exI [of _ "feature_columns ''acct_1'' 5 (tx_now probed_state) f"])
      (simp add: feature_columns_def)
qed

section \<open>The pipeline\<close>

text \<open>
  C25. The pipeline drains: with a healthy stream and enough fuel the three passes of \<open>drain_all\<close>
  return, every committed event has then been relayed, and no worker has anything left to read; the
  first pass does it all. The one way out is a dead letter whose id is taken already. \<open>drain_all\<close>
  itself returns.
\<close>

theorem drain_all_reaches_quiescence:
  assumes "outbox_ok (evt s)" "stream_ok (strm s)" "de_fails env = (\<lambda>_. False)"
  shows "(\<exists>r s'. settles (drain_passes 3 env no_counts) s r s' \<and>
      (r = Inl (DbExn UniqueViolation) \<or>
       (\<exists>c s1. r = Inr c \<and> ct_relayed c = length (unpublished s) \<and> quiescent env s'
          \<and> settles (drain_pass env no_counts) s (Inr c) s1 \<and> quiescent env s1)))
    \<and> (\<exists>r s'. settles (drain_all env) s r s')"
proof -
  from drain_pass_settles [OF assms, of no_counts] obtain r1 s1 where
    one: "settles (drain_pass env no_counts) s r1 s1"
    and r1: "r1 = Inl (DbExn UniqueViolation) \<or>
     (\<exists>c. r1 = Inr c \<and> ct_relayed c = ct_relayed no_counts + length (unpublished s) \<and> quiescent env s1)" by blast
  have three: "drain_passes 3 env no_counts = run_then (drain_pass env no_counts) (drain_passes 2 env)"
    by (simp add: eval_nat_numeral)
  have "\<exists>r s'. settles (drain_passes 3 env no_counts) s r s' \<and>
      (r = Inl (DbExn UniqueViolation) \<or>
       (\<exists>c s1. r = Inr c \<and> ct_relayed c = length (unpublished s) \<and> quiescent env s'
          \<and> settles (drain_pass env no_counts) s (Inr c) s1 \<and> quiescent env s1))"
    using r1
  proof
    assume "r1 = Inl (DbExn UniqueViolation)"
    with one settles_stops show ?thesis unfolding three by blast
  next
    assume "\<exists>c. r1 = Inr c \<and> ct_relayed c = ct_relayed no_counts + length (unpublished s) \<and> quiescent env s1"
    then obtain c where c: "r1 = Inr c" "ct_relayed c = length (unpublished s)" "quiescent env s1"
      by (auto simp: no_counts_def)
    from quiet_passes [OF c(3)] obtain s' where "settles (drain_passes 2 env c) s1 (Inr c) s'" "quiescent env s'" by blast
    with settles_then [OF one [unfolded c(1)]] c one show ?thesis unfolding three by blast
  qed
  moreover from this have p: "\<exists>r s2. settles (drain_passes 3 env no_counts) s r s2" by blast
  moreover have "\<exists>r s'. settles (drain_all env) s r s'"
    unfolding drain_all_def using p by (blast intro: settles_total settles_op_total)
  ultimately show ?thesis by blast
qed

definition demo_drain :: drain_env where
  "demo_drain =
     \<lparr>de_pipe = demo_pipe,
      de_web = \<lparr>wv_hmac = (\<lambda>_ m. m), wv_float = (\<lambda>_. []), wv_client = (\<lambda>_ _ _ _. Inr (200, []))\<rparr>,
      de_worker = steady_worker, de_fails = (\<lambda>_. False)\<rparr>"

theorem drain_all_reaches_quiescence_witness:
  "\<exists>r s'. settles (drain_passes 3 demo_drain no_counts) demo_pipeline r s' \<and>
     (r = Inl (DbExn UniqueViolation) \<or> (\<exists>c. r = Inr c \<and> ct_relayed c = 2 \<and> quiescent demo_drain s'))"
proof -
  have "outbox_ok (evt demo_pipeline)" "stream_ok (strm demo_pipeline)" "length (unpublished demo_pipeline) = 2"
    using demo_outbox_ok
    by (simp_all add: demo_pipeline_def relay_state_def stream_ok_def unpublished_def demo_outbox_def)
  moreover have "de_fails demo_drain = (\<lambda>_. False)" by (simp add: demo_drain_def)
  ultimately show ?thesis using drain_all_reaches_quiescence [of demo_pipeline demo_drain] by auto
qed

end
