(* ===== verification/Tenancy.thy ===== *)
theory Tenancy
  imports Service_Laws
begin

text \<open>
  Tenants and modes never mix. Every statement of the services resolves an account within the
  caller's tenant and mode, so an entry's account belongs to the tenant and the mode of its
  transaction, in every reachable state. The commands that act on one tenant rely on it.
\<close>

definition entry_home :: "ledger_tables \<Rightarrow> entry_row \<Rightarrow> bool" where
  "entry_home l e \<longleftrightarrow>
     (\<forall>t \<in> set (transactions l). \<forall>a \<in> set (accounts l). t_id t = e_txn e \<and> a_id a = e_account e
        \<longrightarrow> a_tenant a = t_tenant t \<and> a_mode a = t_mode t)"

definition books_apart :: "ledger_tables \<Rightarrow> bool" where
  "books_apart l \<longleftrightarrow> ledger_ok l \<and> list_all (entry_home l) (entries l)"

section \<open>A posting uses the accounts it was given\<close>

lemma value_mem: "(a, b) \<in> set d \<Longrightarrow> b \<in> snd ` set d"
  by force

lemma request_account_mem: "request_account r role = Inr a \<Longrightarrow> a \<in> snd ` set (pr_accounts r)"
  by (force simp: request_account_def image_iff split: option.splits dest: map_of_SomeD)

lemma mk_entry_account: "mk_entry a d m = Inr e \<Longrightarrow> ent_account e = a"
  by (auto simp: mk_entry_def result_simps split: if_splits)

lemma simple_posting_accounts:
  "simple_posting d c r = Inr es \<Longrightarrow> e \<in> set es \<Longrightarrow> ent_account e \<in> snd ` set (pr_accounts r)"
  by (auto simp: simple_posting_Inr_iff dest!: map_of_SomeD) (erule value_mem)+

lemma split_leg_account: "split_leg r part = Inr e \<Longrightarrow> ent_account e \<in> snd ` set (pr_accounts r)"
  by (auto simp: split_leg_def request_account_def result_simps split: prod.splits option.splits
      dest!: map_of_SomeD) (erule value_mem)

lemma build_split_accounts:
  assumes "build_split r = Inr es" "e \<in> set es"
  shows "ent_account e \<in> snd ` set (pr_accounts r)"
proof -
  from assms(1) obtain raw legs f last where
    legs: "list_all2 (\<lambda>p e. split_leg r p = Inr e) (split_on (CHR '','') raw) legs"
    and f: "request_account r ''funding'' = Inr f" "mk_entry f CREDIT (pr_amount r) = Inr last"
    and es: "es = legs @ [last]"
    by (auto simp: build_split_def result_simps Let_def map_r_Inr_iff split: option.splits)
  have "ent_account last \<in> snd ` set (pr_accounts r)"
    using request_account_mem [OF f(1)] mk_entry_account [OF f(2)] by simp
  then show ?thesis
    using list_all2_setD2 [OF legs] split_leg_account assms(2) es by (metis Un_iff empty_iff insert_iff list.set set_append)
qed

lemma built_accounts:
  assumes "build_transaction i kind r = Inr txn" "e \<in> set (j_entries txn)"
  shows "ent_account e \<in> snd ` set (pr_accounts r)"
proof -
  from assms(1) obtain rule es where rule: "dget REGISTRY kind = Some rule"
    and es: "rule_build rule r = Inr es"
    and j: "mk_journal i kind (pr_effective r) es (pr_metadata r) None = Inr txn"
    by (auto simp: build_transaction_def result_simps split: option.splits)
  have "j_entries txn = es" using j by (simp add: mk_journal_Inr_iff)
  moreover have "ent_account e \<in> snd ` set (pr_accounts r)" if "e \<in> set es"
    using REGISTRY_lookup [OF rule] es that simple_posting_accounts build_split_accounts
    by (auto simp: posting_rules_def rule_defs build_transfer_def result_simps)
  ultimately show ?thesis using assms(2) by simp
qed

section \<open>Every statement keeps the books apart\<close>

lemma journal_apart:
  assumes ok: "books_apart l" and t: "txn_insert now j tenant mode l = (Inr row, l1)"
    and e: "entries_insert_many now j None l1 = (Inr es, l')"
    and accts: "\<forall>i \<in> ent_account ` set (j_entries j). \<forall>a \<in> set (accounts l).
      a_id a = i \<longrightarrow> a_tenant a = tenant \<and> a_mode a = mode"
  shows "books_apart l'"
proof -
  have lok: "ledger_ok l" using ok by (simp add: books_apart_def)
  note p = posted_rows [OF lok t e] and row = txn_insert_Inr [OF t]
  have "entry_home l' x" if x: "x \<in> set (entries l)" for x
  proof -
    have "e_txn x \<in> t_id ` set (transactions l)" using lok x by (simp add: ledger_ok_def entry_row_ok_def)
    then have "e_txn x \<noteq> j_id j" using row(3) by metis
    moreover have "entry_home l x" using ok x by (simp add: books_apart_def list_all_iff)
    ultimately show ?thesis using p(1,2) row(1) by (auto simp: entry_home_def)
  qed
  moreover have "entry_home l' x" if x: "x \<in> set es" for x
  proof -
    have "e_account x \<in> ent_account ` set (j_entries j)" using p(9) x by (metis imageI list.set_map)
    moreover have "e_txn x = j_id j" using p(6) x by simp
    moreover have "t_id t \<noteq> j_id j" if "t \<in> set (transactions l)" for t using row(3) that by (metis imageI)
    ultimately show ?thesis using p(1,2) row(1) accts by (auto simp: entry_home_def)
  qed
  moreover have "ledger_ok l'" by (rule journal_inserted(1) [OF lok t e])
  ultimately show ?thesis using p(3) by (auto simp: books_apart_def list_all_iff)
qed

lemma post_apart:
  assumes ok: "books_apart (led s)"
    and run: "post_transaction ctx kind accts amount effective descriptor md s = (Inr out, s')"
  shows "books_apart (led s')"
proof -
  from run obtain resolved where res: "resolves ctx (led s) accts resolved"
    and post: "post_resolved ctx kind resolved amount (case effective of None \<Rightarrow> Aware (wall s) | Some t \<Rightarrow> t)
       descriptor md s = (Inr out, s')"
    by (rule post_transaction_Inr)
  from post obtain i txn row l1 es where
    b: "build_transaction i kind \<lparr>pr_amount = amount, pr_effective = (case effective of None \<Rightarrow> Aware (wall s) | Some t \<Rightarrow> t),
         pr_accounts = map (\<lambda>(role, row). (role, a_id row)) resolved, pr_metadata = md\<rparr> = Inr txn"
    and t: "txn_insert (tx_now s) txn (c_tenant ctx) (c_mode ctx) (led s) = (Inr row, l1)"
    and e: "entries_insert_many (tx_now s) txn None l1 = (Inr es, led s')"
    by (rule post_resolved_Inr)
  have d: "distinct (map a_id (accounts (led s)))" using ok by (simp add: books_apart_def ledger_ok_def)
  have home: "a_tenant r = c_tenant ctx \<and> a_mode r = c_mode ctx \<and> r \<in> set (accounts (led s))"
    if "(role, r) \<in> set resolved" for role r
    using res that unfolding resolves_def by (fastforce dest: list_all2_setD2 resolve_mem)
  have "\<forall>i \<in> ent_account ` set (j_entries txn). \<forall>a \<in> set (accounts (led s)).
      a_id a = i \<longrightarrow> a_tenant a = c_tenant ctx \<and> a_mode a = c_mode ctx"
  proof (intro ballI impI)
    fix i a assume i: "i \<in> ent_account ` set (j_entries txn)" and a: "a \<in> set (accounts (led s))" "a_id a = i"
    from i built_accounts [OF b] obtain role r where r: "(role, r) \<in> set resolved" "i = a_id r" by force
    with home a d have "a = r" by (metis distinct_map inj_onD)
    with home r show "a_tenant a = c_tenant ctx \<and> a_mode a = c_mode ctx" by blast
  qed
  from journal_apart [OF ok t e this] show ?thesis .
qed

lemma mark_reversed_apart: "books_apart l \<Longrightarrow> books_apart (snd (mark_reversed i l))"
proof -
  assume ok: "books_apart l"
  have "ledger_ok (snd (mark_reversed i l))"
    using keeps_mark_reversed [of i] ok by (simp add: keeps_def books_apart_def)
  with ok show ?thesis
    by (auto simp: books_apart_def mark_reversed_def list_all_iff entry_home_def)
qed

lemma reverse_apart:
  assumes ok: "books_apart (led s)" and run: "reverse_transaction ctx i effective s = (Inr out, s')"
  shows "books_apart (led s')"
proof -
  obtain original es j reversal row l1 l2 new_rows tm where
    g: "txn_get i (c_tenant ctx) (c_mode ctx) (led s) = Some original"
    and es: "list_all2 (\<lambda>r e. entry_to_domain r = Inr e) (entries_for_transaction i (led s)) es"
    and j: "mk_journal (t_id original) (t_kind original) (Aware (t_effective original)) es (t_metadata original) None = Inr j"
    and rv: "reverse_journal j (fst (transaction_id (idg s))) (Some tm) = Inr reversal"
    and t: "txn_insert (tx_now s) reversal (c_tenant ctx) (c_mode ctx) (led s) = (Inr row, l1)"
    and e: "entries_insert_many (tx_now s) reversal None l1 = (Inr new_rows, l2)"
    and l': "led s' = snd (mark_reversed i l2)"
    by (rule reverse_transaction_Inr [OF run])
  have orig: "original \<in> set (transactions (led s))" "t_id original = i"
    "t_tenant original = c_tenant ctx" "t_mode original = c_mode ctx"
    using g by (auto simp: txn_get_def find_Some_iff)
  have each: "\<exists>r \<in> set (entries (led s)). e_txn r = i \<and> e_account r = ent_account x \<and> entry_ok x" if "x \<in> set es" for x
    using list_all2_setD2 [OF es that] entry_to_domain_Inr by (fastforce simp: entries_for_transaction_def)
  have "j_entries j = es" using j by (simp add: mk_journal_Inr_iff)
  then have "j_entries reversal = map flip es" using reverse_journal_Inr(1) [OF rv] each by auto
  then have "ent_account ` set (j_entries reversal) = ent_account ` set es" by (simp add: image_image)
  then have "\<forall>i \<in> ent_account ` set (j_entries reversal). \<forall>a \<in> set (accounts (led s)).
      a_id a = i \<longrightarrow> a_tenant a = c_tenant ctx \<and> a_mode a = c_mode ctx"
    using each ok orig by (fastforce simp: books_apart_def list_all_iff entry_home_def)
  from journal_apart [OF ok t e this] show ?thesis unfolding l' by (rule mark_reversed_apart)
qed

section \<open>Every reachable state\<close>

text \<open>What only reads or adds other rows.\<close>

lemma keeps_apart:
  "keeps (\<lambda>s. books_apart (led s)) (on_rsk m1)" "keeps (\<lambda>s. books_apart (led s)) (on_led (write_snapshot now acct))"
  "keeps (\<lambda>s. books_apart (led s)) (on_led (account_create now i tenant mode name ty cur ext minimum md))"
proof -
  show "keeps (\<lambda>s. books_apart (led s)) (on_rsk m1)" by (rule keeps_led_frame)
  have "keeps books_apart (write_snapshot now acct)"
  proof (rule keepsI)
    fix l r l' assume ok: "books_apart l" and run: "write_snapshot now acct l = (r, l')"
    have "ledger_ok l'" using keepsD [OF keeps_write_snapshot _ run] ok by (simp add: books_apart_def)
    moreover have "entries l' = entries l \<and> transactions l' = transactions l \<and> accounts l' = accounts l"
      using write_snapshot_Inr [OF run] by auto
    ultimately show "books_apart l'" using ok by (auto simp: books_apart_def list_all_iff entry_home_def)
  qed
  then show "keeps (\<lambda>s. books_apart (led s)) (on_led (write_snapshot now acct))" by (rule keeps_on)
  have "keeps books_apart (account_create now i tenant mode name ty cur ext minimum md)"
  proof (rule keepsI)
    fix l r l' assume ok: "books_apart l"
      and run: "account_create now i tenant mode name ty cur ext minimum md l = (r, l')"
    have lok: "ledger_ok l'" using keepsD [OF keeps_account_create _ run] ok by (simp add: books_apart_def)
    show "books_apart l'"
    proof (cases r)
      case (Inl e)
      with run ok account_create_Inl show ?thesis by metis
    next
      case (Inr row)
      note c = account_create_Inr [OF run [unfolded Inr]]
      have "entry_home l' e" if e: "e \<in> set (entries l)" for e
      proof -
        have "e_account e \<in> a_id ` set (accounts l)" "entry_home l e"
          using ok e by (simp_all add: books_apart_def ledger_ok_def entry_row_ok_def list_all_iff)
        then show ?thesis using c(1-3) by (auto simp: entry_home_def)
      qed
      with lok c(2) show ?thesis by (simp add: books_apart_def list_all_iff)
    qed
  qed
  then show "keeps (\<lambda>s. books_apart (led s)) (on_led (account_create now i tenant mode name ty cur ext minimum md))"
    by (rule keeps_on)
qed

lemma apart_seq: "books_apart l \<Longrightarrow> ledger_ok (l\<lparr>entry_seq := n\<rparr>) \<Longrightarrow> books_apart (l\<lparr>entry_seq := n\<rparr>)"
  by (simp add: books_apart_def list_all_iff entry_home_def)

lemma unit_apart:
  assumes body: "\<And>s out s'. books_apart (led s) \<Longrightarrow> m s = (Inr out, s') \<Longrightarrow> books_apart (led s')"
    and wb: "well_behaved m" and ok: "db_ok s" "books_apart (led s)" and run: "unit_of_work m s = (r, s')"
  shows "books_apart (led s')"
proof (cases r)
  case (Inr out)
  then show ?thesis using run ok(2) body [of "s\<lparr>tx_now := wall s\<rparr>"] by (simp add: unit_of_work_Inr_iff)
next
  case (Inl e)
  with run obtain s1 where s': "s' = rollback s s1" by (auto dest: unit_of_work_Inl)
  have "db_ok s'" by (rule keepsD [OF unit_of_work_db_ok [OF wb] ok(1) run])
  then have "ledger_ok ((led s)\<lparr>entry_seq := entry_seq (led s1)\<rparr>)" by (simp add: db_ok_def s' rollback_def)
  from apart_seq [OF ok(2) this] show ?thesis by (simp add: s' rollback_def)
qed

lemma kept_apart:
  assumes "keeps (\<lambda>s. books_apart (led s)) m" "well_behaved m" "db_ok s" "books_apart (led s)" "unit_of_work m s = (r, s')"
  shows "books_apart (led s')"
  using assms(2-5) by (rule unit_apart [rotated]) (rule keepsD [OF assms(1)])

lemma create_apart: "keeps (\<lambda>s. books_apart (led s)) (create_account ctx name ty cur ext minimum md)"
  unfolding create_account_def by (intro keeps_apart keeps_intros)

lemma snapshot_apart: "keeps (\<lambda>s. books_apart (led s)) (take_snapshot acct)"
  unfolding take_snapshot_def by (intro keeps_apart keeps_intros)

lemma step_apart: "ledger_step s s' \<Longrightarrow> db_ok s \<Longrightarrow> books_apart (led s) \<Longrightarrow> books_apart (led s')"
proof (induction rule: ledger_step.induct)
  case (creates ctx name ty cur ext minimum md s r s')
  show ?case
    by (rule kept_apart [OF create_apart well_behaved_create creates(2,3,1)])
next
  case (posts ctx kind accts amount effective descriptor md s r s')
  show ?case by (rule unit_apart [OF post_apart well_behaved_post posts(2,3,1)])
next
  case (reverses ctx i effective s r s')
  show ?case by (rule unit_apart [OF reverse_apart well_behaved_reverse reverses(2,3,1)])
next
  case (snapshots acct s r s')
  show ?case by (rule kept_apart [OF snapshot_apart well_behaved_snapshot snapshots(2,3,1)])
next
  case (declines ctx d s r s')
  show ?case
    by (rule kept_apart [OF _ _ declines(2,3) declines(1) [unfolded record_decline_def]])
      (unfold well_behaved_def, intro conjI allI keeps_intros, intro conjI allI keeps_intros)
next
  case (ticks s w)
  then show ?case by simp
qed

lemma reachable_apart: "reachable s0 s \<Longrightarrow> db_ok s0 \<Longrightarrow> books_apart (led s0) \<Longrightarrow> books_apart (led s)"
proof (induction rule: reachable.induct)
  case (next_step s s')
  then show ?case using step_apart reachable_ok by blast
qed

section \<open>Properties\<close>

text \<open>
  C4. No transaction crosses a tenant or a mode: from an empty database, or any in which it holds, whatever account
  creations, postings, reversals, snapshots and declines follow, committed or failed, each entry's account
  belongs to the tenant and the mode of the entry's transaction, whatever account references the callers passed.
\<close>

theorem tenants_never_mix:
  assumes "reachable s0 s" "db_ok s0"
    and "s0 = new_database ts g w \<or> list_all (entry_home (led s0)) (entries (led s0))"
  shows "list_all (entry_home (led s)) (entries (led s))"
proof -
  have "list_all (entry_home (led s0)) (entries (led s0))" using assms(3) by (auto simp: new_database_def)
  then have "books_apart (led s0)" using assms(2) by (simp add: books_apart_def db_ok_def)
  from reachable_apart [OF assms(1,2) this] show ?thesis by (simp add: books_apart_def)
qed

theorem tenants_never_mix_witness:
  "\<exists>s. reachable demo_state s \<and> length (transactions (led s)) = 1 \<and> length (entries (led s)) = 2
     \<and> list_all (entry_home (led s)) (entries (led s))"
proof -
  let ?s = "demo_state\<lparr>tx_now := 5000000\<rparr>"
  have w: "wall demo_state = 5000000" by (simp add: demo_state_def new_database_def)
  obtain out s' where run: "unit_of_work (post_transaction demo_ctx ''card_purchase'' demo_roles demo_amount None None [])
      demo_state = (Inr out, s')" using demo_post by blast
  then have body: "post_transaction demo_ctx ''card_purchase'' demo_roles demo_amount None None [] ?s = (Inr out, s')"
    using w by (simp add: unit_of_work_Inr_iff)
  obtain resolved where res: "resolves demo_ctx (led ?s) demo_roles resolved"
    and p: "post_resolved demo_ctx ''card_purchase'' resolved demo_amount (Aware 5000000) None [] ?s = (Inr out, s')"
    using post_transaction_Inr [OF body] w by auto
  have r: "resolved = demo_resolved"
    using res resolved_accounts [OF demo_resolves, of 5000000]
    by (auto simp: resolves_def demo_roles_def list_all2_Cons1 prod_eq_iff)
  obtain i txn row l1 es where
    b: "build_transaction i ''card_purchase'' \<lparr>pr_amount = demo_amount, pr_effective = Aware 5000000,
         pr_accounts = map (\<lambda>(role, row). (role, a_id row)) demo_resolved, pr_metadata = []\<rparr> = Inr txn"
    and t: "txn_insert (tx_now ?s) txn (c_tenant demo_ctx) (c_mode demo_ctx) (led ?s) = (Inr row, l1)"
    and e: "entries_insert_many (tx_now ?s) txn None l1 = (Inr es, led s')"
    by (rule post_resolved_Inr [OF p [unfolded r]])
  have txn: "txn = demo_txn i" using b demo_built by simp
  have ok: "ledger_ok (led ?s)" using demo_state_ok by (simp add: db_ok_def)
  note posted = posted_rows [OF ok t e]
  have start: "transactions (led ?s) = []" "entries (led ?s) = []" by (simp_all add: demo_state_def)
  have "length es = 2" using posted(9) by (simp add: txn demo_txn_def) (metis length_map length_Cons list.size(3) numeral_2_eq_2)
  then have n: "length (transactions (led s')) = 1" "length (entries (led s')) = 2"
    using posted(2,3) start by simp_all
  have reach: "reachable demo_state s'"
    by (rule reachable.next_step [OF reachable.start ledger_step.posts [OF run]])
  from tenants_never_mix [OF reach demo_state_ok] start reach n show ?thesis by auto
qed

end
