(* ===== verification/Cli.thy ===== *)
theory Cli
  imports Auth Idempotency Tenancy
begin

text \<open>
  \<open>cli.py\<close>: the operator's commands over the database. Their arguments are those \<open>argparse\<close> passes;
  what a command prints is its result. \<open>SystemExit\<close> is the value \<open>None\<close>. The rows of \<open>tenants\<close> are
  the ids of \<open>tenants (led s)\<close>, which the foreign keys look up, and the names of \<open>tenant_names (sid s)\<close>, by
  id and in the order of \<open>created_at\<close>. The random part of a new API key and SHA-256 are parameters.
\<close>

definition DEFAULT_ACCOUNTS :: "(string \<times> account_type \<times> string \<times> int option) list" where
  "DEFAULT_ACCOUNTS =
     [(''Assets:Checking'', ASSET, ''checking'', Some 0),
      (''Assets:Savings'', ASSET, ''savings'', Some 0),
      (''Assets:Investments'', ASSET, ''investments'', Some 0),
      (''Assets:Cash'', ASSET, ''cash'', Some 0),
      (''Liabilities:Credit Card'', LIABILITY, ''card'', None),
      (''Equity:Opening Balances'', EQUITY, ''opening'', None),
      (''Revenue:Income'', REVENUE, ''income'', None),
      (''Revenue:Interest'', REVENUE, ''interest'', None),
      (''Revenue:Refunds'', REVENUE, ''refunds'', None),
      (''Revenue:Investment Gains'', REVENUE, ''gains'', None),
      (''Expenses:Rent'', EXPENSE, ''rent'', None),
      (''Expenses:Groceries'', EXPENSE, ''groceries'', None),
      (''Expenses:Food and Drink'', EXPENSE, ''food'', None),
      (''Expenses:Transport'', EXPENSE, ''transport'', None),
      (''Expenses:Shopping'', EXPENSE, ''shopping'', None),
      (''Expenses:Entertainment'', EXPENSE, ''entertainment'', None),
      (''Expenses:Subscriptions'', EXPENSE, ''subscriptions'', None),
      (''Expenses:Bills'', EXPENSE, ''bills'', None),
      (''Expenses:Health'', EXPENSE, ''health'', None),
      (''Expenses:Travel'', EXPENSE, ''travel'', None),
      (''Expenses:Education'', EXPENSE, ''education'', None),
      (''Expenses:General'', EXPENSE, ''general'', None),
      (''Expenses:Fees'', EXPENSE, ''fees'', None),
      (''Expenses:Investment Losses'', EXPENSE, ''losses'', None)]"

definition external_of :: "string \<times> account_type \<times> string \<times> int option \<Rightarrow> string" where
  "external_of = (\<lambda>(_, _, external, _). external)"

section \<open>\<open>bootstrap\<close>\<close>

text \<open>The tenant asked for by id, or else the newest of the name.\<close>

definition find_tenant :: "string option \<Rightarrow> string \<Rightarrow> side_tables \<Rightarrow> string option" where
  "find_tenant tenant name t =
     (case tenant of
        Some i \<Rightarrow> if i \<noteq> [] then map_option (\<lambda>_. i) (dget (tenant_names t) i)
                  else map_option fst (List.find (\<lambda>r. snd r = name) (rev (tenant_names t)))
      | None \<Rightarrow> map_option fst (List.find (\<lambda>r. snd r = name) (rev (tenant_names t))))"

definition insert_tenant :: "string \<Rightarrow> string \<Rightarrow> unit m" where
  "insert_tenant i name =
     bind_op (reads (\<lambda>s. tenants (led s))) (\<lambda>ts.
     bind_op (guard_op (i \<in> set ts) (DbExn UniqueViolation)) (\<lambda>_.
     bind_op (on_led (writes (\<lambda>l. l\<lparr>tenants := tenants l @ [i]\<rparr>))) (\<lambda>_.
     on_sid (writes (\<lambda>t. t\<lparr>tenant_names := tenant_names t @ [(i, name)]\<rparr>)))))"

text \<open>The tenant's id and whether it was there.\<close>

definition tenant_for :: "string option \<Rightarrow> string \<Rightarrow> (string \<times> bool) m" where
  "tenant_for tenant name =
     bind_op (reads (\<lambda>s. find_tenant tenant name (sid s))) (\<lambda>existing.
     case existing of
       Some i \<Rightarrow> ret_op (i, True)
     | None \<Rightarrow>
         bind_op (case tenant of
                    Some i \<Rightarrow> if i \<noteq> [] then ret_op i else fresh_id (new_id ''ten'')
                  | None \<Rightarrow> fresh_id (new_id ''ten'')) (\<lambda>i.
         bind_op (insert_tenant i name) (\<lambda>_. ret_op (i, False))))"

definition create_keys ::
  "(string \<Rightarrow> string) \<Rightarrow> (api_mode \<Rightarrow> string) \<Rightarrow> string \<Rightarrow> (string, string) dict m" where
  "create_keys sha256 token tenant =
     map_op (\<lambda>mode. bind_op (create_key sha256 (token mode) tenant mode) (\<lambda>k. ret_op (mode_value mode, fst k)))
       [TEST, LIVE]"

definition have_externals :: "string \<Rightarrow> api_mode \<Rightarrow> ledger_tables \<Rightarrow> string set" where
  "have_externals tenant mode l =
     {e \<in> set (map (\<lambda>a. case a_external a of None \<Rightarrow> [] | Some e \<Rightarrow> e) (account_list tenant mode 500 l)). e \<noteq> []}"

text \<open>One row of the chart; the accumulator is \<open>out["accounts"]\<close> and \<open>created\<close>. \<open>row["id"]\<close> of a
  missing row is a \<open>TypeError\<close>.\<close>

type_synonym filled = "(string, string) dict \<times> nat"

definition ensure_account ::
  "string set \<Rightarrow> string \<Rightarrow> api_mode \<Rightarrow> filled \<Rightarrow> string \<times> account_type \<times> string \<times> int option \<Rightarrow> filled m" where
  "ensure_account have tenant mode filled row =
     (case (filled, row) of ((accts, created), (name, ty, external, minimum)) \<Rightarrow>
        if external \<in> have then
          (if mode = TEST then
             bind_op (reads (\<lambda>s. account_get_by_external external tenant mode (led s))) (\<lambda>found.
             case found of
               None \<Rightarrow> raise_op (PyExn TypeError)
             | Some a \<Rightarrow> ret_op (dset external (a_id a) accts, created))
           else ret_op (accts, created))
        else
          bind_op (fresh_id account_id) (\<lambda>i.
          bind_op (reads tx_now) (\<lambda>now.
          bind_op (on_led (account_create now i tenant mode name ty ''usd'' (Some external) minimum [])) (\<lambda>a.
          ret_op (if mode = TEST then dset external (a_id a) accts else accts, created + 1)))))"

fun ensure_accounts ::
  "string set \<Rightarrow> string \<Rightarrow> api_mode \<Rightarrow> filled \<Rightarrow> (string \<times> account_type \<times> string \<times> int option) list \<Rightarrow> filled m" where
  "ensure_accounts have tenant mode filled [] = ret_op filled"
| "ensure_accounts have tenant mode filled (row # rows) =
     bind_op (ensure_account have tenant mode filled row) (\<lambda>filled.
     ensure_accounts have tenant mode filled rows)"

definition backfill :: "string \<Rightarrow> api_mode \<Rightarrow> filled \<Rightarrow> filled m" where
  "backfill tenant mode filled =
     bind_op (reads (\<lambda>s. have_externals tenant mode (led s))) (\<lambda>have.
     ensure_accounts have tenant mode filled DEFAULT_ACCOUNTS)"

record bootstrapped =
  bo_reused :: bool
  bo_tenant :: string
  bo_keys :: "(string, string) dict"
  bo_accounts :: "(string, string) dict"
  bo_added :: nat

definition cmd_bootstrap ::
  "(string \<Rightarrow> string) \<Rightarrow> (api_mode \<Rightarrow> string) \<Rightarrow> string option \<Rightarrow> string \<Rightarrow> bootstrapped m" where
  "cmd_bootstrap sha256 token tenant name =
     unit_of_work
       (bind_op (tenant_for tenant name) (\<lambda>(i, reused).
        bind_op (create_keys sha256 token i) (\<lambda>keys.
        bind_op (backfill i TEST ([], 0)) (\<lambda>test.
        bind_op (backfill i LIVE test) (\<lambda>(accts, created).
        ret_op \<lparr>bo_reused = reused, bo_tenant = i, bo_keys = keys, bo_accounts = accts, bo_added = created\<rparr>)))))"

section \<open>\<open>reset\<close>\<close>

text \<open>The newest tenant with the full chart in test mode.\<close>

definition complete_chart :: "ledger_tables \<Rightarrow> string \<Rightarrow> bool" where
  "complete_chart l tenant \<longleftrightarrow>
     length (filter (\<lambda>a. a_tenant a = tenant \<and> a_mode a = TEST
        \<and> (case a_external a of None \<Rightarrow> False | Some e \<Rightarrow> e \<in> set (map external_of DEFAULT_ACCOUNTS))) (accounts l))
     = length DEFAULT_ACCOUNTS"

definition default_tenant :: "st \<Rightarrow> string option" where
  "default_tenant s = List.find (complete_chart (led s)) (map fst (rev (tenant_names (sid s))))"

text \<open>\<open>args.tenant or _default_tenant()\<close>.\<close>

definition tenant_or_default :: "string option \<Rightarrow> st \<Rightarrow> string option" where
  "tenant_or_default tenant s =
     (case tenant of Some i \<Rightarrow> if i \<noteq> [] then Some i else default_tenant s | None \<Rightarrow> default_tenant s)"

text \<open>\<open>DELETE ... RETURNING 1\<close>: the number of rows deleted. With \<open>session_replication_role = replica\<close>
  neither the append-only trigger nor a foreign key is checked.\<close>

definition delete_rows :: "('t \<Rightarrow> 'r list) \<Rightarrow> ('r list \<Rightarrow> 't \<Rightarrow> 't) \<Rightarrow> ('r \<Rightarrow> bool) \<Rightarrow> ('t, nat) op" where
  "delete_rows rows put gone =
     bind_op (reads rows) (\<lambda>rs.
     bind_op (writes (put (filter (\<lambda>r. \<not> gone r) rs))) (\<lambda>_.
     ret_op (length (filter gone rs))))"

definition accounts_of :: "string \<Rightarrow> ledger_tables \<Rightarrow> string set" where
  "accounts_of tenant l = a_id ` {a \<in> set (accounts l). a_tenant a = tenant}"

definition reset_body :: "string \<Rightarrow> (string, nat) dict m" where
  "reset_body tenant =
     bind_op (on_rsk (delete_rows signals (\<lambda>rs t. t\<lparr>signals := rs\<rparr>) (\<lambda>r. fs_tenant r = tenant))) (\<lambda>n1.
     bind_op (on_nrm (delete_rows norms (\<lambda>rs t. t\<lparr>norms := rs\<rparr>) (\<lambda>r. n_tenant r = tenant))) (\<lambda>n2.
     bind_op (reads (\<lambda>s. accounts_of tenant (led s))) (\<lambda>mine.
     bind_op (on_led (delete_rows entries (\<lambda>rs t. t\<lparr>entries := rs\<rparr>) (\<lambda>r. e_account r \<in> mine))) (\<lambda>n3.
     bind_op (on_nrm (delete_rows raws (\<lambda>rs t. t\<lparr>raws := rs\<rparr>) (\<lambda>r. rw_tenant r = tenant))) (\<lambda>n4.
     bind_op (on_led (delete_rows snapshots (\<lambda>rs t. t\<lparr>snapshots := rs\<rparr>) (\<lambda>r. s_account r \<in> mine))) (\<lambda>n5.
     bind_op (on_led (delete_rows transactions (\<lambda>rs t. t\<lparr>transactions := rs\<rparr>) (\<lambda>r. t_tenant r = tenant))) (\<lambda>n6.
     bind_op (on_evt (delete_rows outbox (\<lambda>rs t. t\<lparr>outbox := rs\<rparr>) (\<lambda>r. o_tenant r = tenant))) (\<lambda>n7.
     bind_op (on_idm (delete_rows id (\<lambda>rs _. rs) (\<lambda>r. i_tenant r = tenant))) (\<lambda>n8.
     bind_op (on_evt (writes (\<lambda>t. t\<lparr>processed := []\<rparr>))) (\<lambda>_.
     bind_op (writes (\<lambda>s. s\<lparr>strm := (strm s)\<lparr>messages := [], offsets := []\<rparr>\<rparr>)) (\<lambda>_.
     ret_op [(''fraud_signals'', n1), (''normalized_transactions'', n2), (''entries'', n3),
             (''raw_transactions'', n4), (''balance_snapshots'', n5), (''transactions'', n6),
             (''outbox'', n7), (''idempotency_keys'', n8)])))))))))))"

definition cmd_reset :: "string option \<Rightarrow> (string \<times> (string, nat) dict) option m" where
  "cmd_reset tenant =
     bind_op (reads (tenant_or_default tenant)) (\<lambda>chosen.
     case chosen of
       None \<Rightarrow> ret_op None
     | Some i \<Rightarrow> bind_op (unit_of_work (reset_body i)) (\<lambda>counts. ret_op (Some (i, counts))))"

section \<open>\<open>snapshot\<close> and \<open>reconcile\<close>\<close>

text \<open>The entries of an account that no snapshot covers.\<close>

definition uncovered :: "string \<Rightarrow> ledger_tables \<Rightarrow> entry_row list" where
  "uncovered acct l =
     filter (\<lambda>e. e_account e = acct
        \<and> (case newest_snapshot acct l of None \<Rightarrow> 0 | Some s \<Rightarrow> s_up_to s) < e_id e) (entries l)"

definition stale_accounts :: "int \<Rightarrow> ledger_tables \<Rightarrow> string list" where
  "stale_accounts threshold l =
     filter (\<lambda>i. uncovered i l \<noteq> [] \<and> threshold \<le> int (length (uncovered i l))) (map a_id (accounts l))"

fun write_snapshots :: "string list \<Rightarrow> nat m" where
  "write_snapshots [] = ret_op 0"
| "write_snapshots (i # is) =
     bind_op (reads tx_now) (\<lambda>now.
     bind_op (on_led (write_snapshot now i)) (\<lambda>row.
     bind_op (write_snapshots is) (\<lambda>n.
     ret_op (if row = None then n else n + 1))))"

definition cmd_snapshot :: "int \<Rightarrow> nat m" where
  "cmd_snapshot threshold =
     unit_of_work (bind_op (reads (\<lambda>s. stale_accounts threshold (led s))) write_snapshots)"

text \<open>The mismatches, the drift, \<open>ok\<close>; the process exits with 1 unless \<open>ok\<close>.\<close>

definition cmd_reconcile :: "(mismatch_row list \<times> (string \<times> int) list \<times> bool) m" where
  "cmd_reconcile =
     read_only
       (bind_op (reads_r (\<lambda>s. reconcile (led s))) (\<lambda>mismatches.
        bind_op (reads_r (\<lambda>s. global_drift (led s))) (\<lambda>drift.
        ret_op (mismatches, drift, mismatches = [] \<and> drift = []))))"

end
