(* ===== verification/Cli_Laws.thy ===== *)
theory Cli_Laws
  imports Cli
begin

text \<open>
  What the operator's commands promise: a second bootstrap changes nothing but two keys, a bootstrapped tenant is
  found by the commands that default to one, a reset empties exactly one tenant's books (and everybody's stream),
  and the snapshot job bounds the tails without changing a balance.
\<close>

section \<open>Bootstrapping\<close>

definition grown :: "ledger_tables \<Rightarrow> ledger_tables \<Rightarrow> bool" where
  "grown l l' \<longleftrightarrow> (\<exists>more. accounts l' = accounts l @ more)"

lemma grown_refl [simp]: "grown l l"
  by (simp add: grown_def)

lemma grown_trans: "grown l l' \<Longrightarrow> grown l' l'' \<Longrightarrow> grown l l''"
  by (auto simp: grown_def)

lemma grown_by_external:
  "grown l l' \<Longrightarrow> account_get_by_external e tenant mode l = Some a \<Longrightarrow>
   account_get_by_external e tenant mode l' = Some a"
  by (auto simp: grown_def account_get_by_external_def find_append)

text \<open>One row of the chart leaves an account of its external id; only accounts are added.\<close>

definition backfills :: "st \<Rightarrow> st \<Rightarrow> bool" where
  "backfills s s' \<longleftrightarrow>
     (\<exists>more g. s' = s\<lparr>led := (led s)\<lparr>accounts := accounts (led s) @ more\<rparr>, idg := g\<rparr>)"

lemma backfills_refl [simp]: "backfills s s"
  by (auto simp: backfills_def intro!: exI [of _ "[]"] exI [of _ "idg s"])

lemma backfills_trans: "backfills s s' \<Longrightarrow> backfills s' s'' \<Longrightarrow> backfills s s''"
  unfolding backfills_def
proof (elim exE)
  fix m1 g1 m2 g2
  assume "s' = s\<lparr>led := (led s)\<lparr>accounts := accounts (led s) @ m1\<rparr>, idg := g1\<rparr>"
    "s'' = s'\<lparr>led := (led s')\<lparr>accounts := accounts (led s') @ m2\<rparr>, idg := g2\<rparr>"
  then have "s'' = s\<lparr>led := (led s)\<lparr>accounts := accounts (led s) @ (m1 @ m2)\<rparr>, idg := g2\<rparr>" by simp
  then show "\<exists>m g. s'' = s\<lparr>led := (led s)\<lparr>accounts := accounts (led s) @ m\<rparr>, idg := g\<rparr>" by blast
qed

lemma backfills_grown: "backfills s s' \<Longrightarrow> grown (led s) (led s')"
  by (auto simp: backfills_def grown_def)

lemma in_have:
  assumes "e \<in> have_externals tenant mode l"
  shows "\<exists>a. account_get_by_external e tenant mode l = Some a"
proof -
  from assms obtain a where "a \<in> set (account_list tenant mode 500 l)" "a_external a = Some e"
    by (auto simp: have_externals_def split: option.splits)
  then have "a \<in> set (accounts l) \<and> a_external a = Some e \<and> a_tenant a = tenant \<and> a_mode a = mode"
    by (auto simp: account_list_def dest!: in_set_takeD)
  then show ?thesis
    by (cases "account_get_by_external e tenant mode l") (auto simp: account_get_by_external_def find_None_iff)
qed

lemma ensure_account_Inr:
  assumes run: "ensure_account have tenant mode (accts, created) row s = (Inr f, s')"
    and hv: "have \<subseteq> have_externals tenant mode (led s0)" "grown (led s0) (led s)"
  shows "backfills s s' \<and> (\<exists>a. account_get_by_external (external_of row) tenant mode (led s') = Some a
     \<and> (\<exists>n. f = (if mode = TEST then dset (external_of row) (a_id a) accts else accts, n)))"
proof (cases "external_of row \<in> have")
  case True
  then obtain a where "account_get_by_external (external_of row) tenant mode (led s0) = Some a"
    using hv(1) in_have by blast
  then have a: "account_get_by_external (external_of row) tenant mode (led s) = Some a"
    using hv(2) grown_by_external by blast
  show ?thesis
    using run True a
    by (cases row) (auto simp: ensure_account_def external_of_def result_simps split: if_splits)
next
  case False
  obtain name ty e minimum where row: "row = (name, ty, e, minimum)" by (cases row)
  have e: "e \<notin> have" using False row by (simp add: external_of_def)
  from run obtain a s1 where
    c: "account_create (tx_now s) (fst (account_id (idg s))) tenant mode name ty ''usd'' (Some e) minimum [] (led s) = (Inr a, s1)"
    and s': "s' = s\<lparr>idg := snd (account_id (idg s)), led := s1\<rparr>"
    and f: "f = (if mode = TEST then dset e (a_id a) accts else accts, created + 1)"
    unfolding ensure_account_def row prod.case if_not_P [OF e]
    by (auto simp: result_simps simp del: op_run)
  note c = account_create_Inr [OF c]
  have "List.find (\<lambda>b. a_external b = Some e \<and> a_tenant b = tenant \<and> a_mode b = mode) (accounts (led s)) = None"
    using c(5) by (auto simp: find_None_iff)
  then have "account_get_by_external e tenant mode s1 = Some a"
    using c(1,2) by (simp add: account_get_by_external_def find_append)
  moreover have "backfills s s'"
    unfolding backfills_def s' c(2)
    by (intro exI [of _ "[a]"] exI [of _ "snd (account_id (idg s))"]) simp
  ultimately show ?thesis by (auto simp: f row external_of_def s')
qed

definition chart_ids :: "ledger_tables \<Rightarrow> string \<Rightarrow> (string, string) dict \<Rightarrow> (string \<times> account_type \<times> string \<times> int option) list
   \<Rightarrow> (string, string) dict" where
  "chart_ids l tenant d rows =
     foldl (\<lambda>d r. dset (external_of r) (a_id (the (account_get_by_external (external_of r) tenant TEST l))) d) d rows"

definition charted :: "ledger_tables \<Rightarrow> string \<Rightarrow> api_mode \<Rightarrow> (string \<times> account_type \<times> string \<times> int option) list \<Rightarrow> bool" where
  "charted l tenant mode rows \<longleftrightarrow>
     (\<forall>r \<in> set rows. \<exists>a. account_get_by_external (external_of r) tenant mode l = Some a)"

lemma charted_grown: "charted l tenant mode rows \<Longrightarrow> grown l l' \<Longrightarrow> charted l' tenant mode rows"
  by (auto simp: charted_def dest: grown_by_external)

lemma chart_ids_grown: "charted l tenant TEST rows \<Longrightarrow> grown l l' \<Longrightarrow> chart_ids l' tenant d rows = chart_ids l tenant d rows"
proof (induction rows arbitrary: d)
  case (Cons r rows)
  then obtain a where "account_get_by_external (external_of r) tenant TEST l = Some a"
    by (auto simp: charted_def)
  moreover from this Cons.prems have "account_get_by_external (external_of r) tenant TEST l' = Some a"
    using grown_by_external by blast
  ultimately show ?case using Cons by (simp add: charted_def chart_ids_def)
qed (simp add: chart_ids_def)

lemma ensure_accounts_Inr:
  assumes "ensure_accounts have tenant mode (accts, created) rows s = (Inr f, s')"
    and "have \<subseteq> have_externals tenant mode (led s0)" "grown (led s0) (led s)"
  shows "backfills s s' \<and> charted (led s') tenant mode rows
     \<and> fst f = (if mode = TEST then chart_ids (led s') tenant accts rows else accts)"
  using assms(1,3)
proof (induction rows arbitrary: accts created s)
  case Nil
  then show ?case by (auto simp: charted_def chart_ids_def)
next
  case (Cons r rows)
  from Cons.prems(1) obtain accts1 created1 s1 where
    one: "ensure_account have tenant mode (accts, created) r s = (Inr (accts1, created1), s1)"
    and rest: "ensure_accounts have tenant mode (accts1, created1) rows s1 = (Inr f, s')"
    by (auto simp: result_simps simp del: op_run)
  note one = ensure_account_Inr [OF one assms(2) Cons.prems(2)]
  then obtain a where a: "account_get_by_external (external_of r) tenant mode (led s1) = Some a"
    and accts1: "accts1 = (if mode = TEST then dset (external_of r) (a_id a) accts else accts)" by auto
  have g: "grown (led s0) (led s1)" using one Cons.prems(2) grown_trans by (auto dest: backfills_grown)
  note rest = Cons.IH [OF rest g]
  have a': "account_get_by_external (external_of r) tenant mode (led s') = Some a"
    using a rest grown_by_external backfills_grown by blast
  have "charted (led s') tenant mode (r # rows)" using rest a' by (auto simp: charted_def)
  moreover have "backfills s s'" using one rest backfills_trans by blast
  moreover have "fst f = (if mode = TEST then chart_ids (led s') tenant accts (r # rows) else accts)"
    using rest a' accts1 by (auto simp: chart_ids_def)
  ultimately show ?case by blast
qed

text \<open>With the whole chart there, nothing is added.\<close>

lemma ensure_accounts_there:
  assumes "charted (led s) tenant mode rows" "external_of ` set rows \<subseteq> have"
  shows "ensure_accounts have tenant mode (accts, created) rows s
     = (Inr (if mode = TEST then chart_ids (led s) tenant accts rows else accts, created), s)"
  using assms
proof (induction rows arbitrary: accts)
  case Nil
  then show ?case by (simp add: chart_ids_def)
next
  case (Cons r rows)
  then obtain a where a: "account_get_by_external (external_of r) tenant mode (led s) = Some a"
    by (auto simp: charted_def)
  have "ensure_account have tenant mode (accts, created) r s
     = (Inr (if mode = TEST then dset (external_of r) (a_id a) accts else accts, created), s)"
    using a Cons.prems(2) by (cases r) (auto simp: ensure_account_def external_of_def bind_op_def)
  then show ?case using Cons a by (auto simp: bind_op_def charted_def chart_ids_def)
qed

lemma have_all:
  assumes "charted l tenant mode rows" "length (filter (\<lambda>a. a_tenant a = tenant \<and> a_mode a = mode) (accounts l)) \<le> 500"
    "\<forall>r \<in> set rows. external_of r \<noteq> []"
  shows "external_of ` set rows \<subseteq> have_externals tenant mode l"
proof
  fix e assume "e \<in> external_of ` set rows"
  then obtain r where r: "r \<in> set rows" "e = external_of r" by blast
  then obtain a where "account_get_by_external e tenant mode l = Some a" using assms(1) by (auto simp: charted_def)
  then have "a \<in> set (accounts l)" "a_external a = Some e" "a_tenant a = tenant" "a_mode a = mode"
    by (auto simp: account_get_by_external_def find_Some_iff)
  moreover have "account_list tenant mode 500 l
      = sort_key a_id (filter (\<lambda>a. a_tenant a = tenant \<and> a_mode a = mode) (accounts l))"
    using assms(2) by (simp add: account_list_def)
  ultimately have "a \<in> set (account_list tenant mode 500 l)" by simp
  with \<open>a_external a = Some e\<close> r assms(3) show "e \<in> have_externals tenant mode l"
    by (force simp: have_externals_def image_iff)
qed

lemma backfill_Inr:
  assumes "backfill tenant mode (accts, created) s = (Inr f, s')"
  shows "backfills s s' \<and> charted (led s') tenant mode DEFAULT_ACCOUNTS
     \<and> fst f = (if mode = TEST then chart_ids (led s') tenant accts DEFAULT_ACCOUNTS else accts)"
proof -
  from assms have "ensure_accounts (have_externals tenant mode (led s)) tenant mode (accts, created) DEFAULT_ACCOUNTS s
      = (Inr f, s')" by (simp add: backfill_def bind_op_def)
  from ensure_accounts_Inr [OF this subset_refl grown_refl] show ?thesis .
qed

lemma default_externals: "distinct (map external_of DEFAULT_ACCOUNTS)" "\<forall>r \<in> set DEFAULT_ACCOUNTS. external_of r \<noteq> []"
  by (simp_all add: DEFAULT_ACCOUNTS_def external_of_def)

definition in_mode :: "ledger_tables \<Rightarrow> string \<Rightarrow> api_mode \<Rightarrow> account_row list" where
  "in_mode l tenant mode = filter (\<lambda>a. a_tenant a = tenant \<and> a_mode a = mode) (accounts l)"

lemma backfill_there:
  assumes "charted (led s) tenant mode DEFAULT_ACCOUNTS" "length (in_mode (led s) tenant mode) \<le> 500"
  shows "backfill tenant mode (accts, created) s
     = (Inr (if mode = TEST then chart_ids (led s) tenant accts DEFAULT_ACCOUNTS else accts, created), s)"
  using ensure_accounts_there [OF assms(1) have_all [OF assms(1)]] assms(2) default_externals(2)
  by (simp add: backfill_def bind_op_def in_mode_def)

lemma find_tenant_names: "tenant_names t = tenant_names t' \<Longrightarrow> find_tenant tenant name t = find_tenant tenant name t'"
  unfolding find_tenant_def by (simp only:)

lemma tenant_for_Inr:
  assumes "tenant_for tenant name s = (Inr (i, reused), s1)"
  shows "find_tenant tenant name (sid s1) = Some i" "\<exists>ts. led s1 = (led s)\<lparr>tenants := ts\<rparr>"
    "reused \<longleftrightarrow> find_tenant tenant name (sid s) \<noteq> None"
    "\<not> reused \<Longrightarrow> tenant_names (sid s1) = tenant_names (sid s) @ [(i, name)]" "reused \<Longrightarrow> s1 = s"
proof -
  have "find_tenant tenant name (sid s1) = Some i \<and> (\<exists>ts. led s1 = (led s)\<lparr>tenants := ts\<rparr>)
     \<and> (reused \<longleftrightarrow> find_tenant tenant name (sid s) \<noteq> None)
     \<and> (\<not> reused \<longrightarrow> tenant_names (sid s1) = tenant_names (sid s) @ [(i, name)]) \<and> (reused \<longrightarrow> s1 = s)"
  proof (cases "find_tenant tenant name (sid s)")
    case (Some j)
    with assms have "j = i \<and> reused \<and> s1 = s" by (simp add: tenant_for_def bind_op_def)
    with Some show ?thesis by (auto intro!: exI [of _ "tenants (led s)"])
  next
    case None
    let ?pick = "case tenant of Some i \<Rightarrow> if i \<noteq> [] then ret_op i else fresh_id (new_id ''ten'')
                  | None \<Rightarrow> fresh_id (new_id ''ten'')"
    from assms None obtain s0 where pick: "?pick s = (Inr i, s0)" and ins: "insert_tenant i name s0 = (Inr (), s1)"
      and r: "\<not> reused"
      by (auto simp: tenant_for_def result_simps simp del: op_run)
    have keep: "led s0 = led s" "sid s0 = sid s"
      using pick by (auto simp: result_simps split: option.splits if_splits)
    have s1: "led s1 = (led s)\<lparr>tenants := tenants (led s) @ [i]\<rparr>"
      "tenant_names (sid s1) = tenant_names (sid s) @ [(i, name)]"
      using ins keep by (auto simp: insert_tenant_def result_simps)
    have named: "i = j" if "tenant = Some j" "j \<noteq> []" for j using pick that by simp
    have "find_tenant tenant name (sid s1) = Some i"
    proof (cases "\<exists>j. tenant = Some j \<and> j \<noteq> []")
      case True
      with named have t: "tenant = Some i" "i \<noteq> []" by auto
      with None have "dget (tenant_names (sid s)) i = None" by (simp add: find_tenant_def)
      with t show ?thesis by (simp add: find_tenant_def s1 map_add_def)
    next
      case False
      then show ?thesis by (auto simp: find_tenant_def s1 split: option.splits)
    qed
    with None r s1 show ?thesis by auto
  qed
  then show "find_tenant tenant name (sid s1) = Some i" "\<exists>ts. led s1 = (led s)\<lparr>tenants := ts\<rparr>"
    "reused \<longleftrightarrow> find_tenant tenant name (sid s) \<noteq> None"
    "\<not> reused \<Longrightarrow> tenant_names (sid s1) = tenant_names (sid s) @ [(i, name)]" "reused \<Longrightarrow> s1 = s"
    by blast+
qed

lemma create_keys_frame:
  assumes "create_keys sha256 token tenant s = (Inr keys, s')"
  shows "led s' = led s" "tenant_names (sid s') = tenant_names (sid s)"
proof -
  have "keeps (\<lambda>x. led x = led s \<and> tenant_names (sid x) = tenant_names (sid s)) (create_key sha256 t tenant mode)" for t mode
    by (rule keepsI) (auto simp: create_key_def Let_def insert_key_def result_simps on_sid_def zoom_def bind_op_def
        guard_op_def fresh_id_def split: prod.splits sum.splits if_splits)
  then have "keeps (\<lambda>x. led x = led s \<and> tenant_names (sid x) = tenant_names (sid s)) (create_keys sha256 token tenant)"
    unfolding create_keys_def by (intro keeps_intros)
  from keepsD [OF this _ assms] show "led s' = led s" "tenant_names (sid s') = tenant_names (sid s)" by auto
qed

lemma cmd_bootstrap_Inr:
  assumes "cmd_bootstrap sha256 token tenant name s = (Inr out, s')"
  obtains s1 where "find_tenant tenant name (sid s') = Some (bo_tenant out)"
    "charted (led s') (bo_tenant out) TEST DEFAULT_ACCOUNTS" "charted (led s') (bo_tenant out) LIVE DEFAULT_ACCOUNTS"
    "bo_accounts out = chart_ids (led s') (bo_tenant out) [] DEFAULT_ACCOUNTS"
    "tenant_for tenant name (s\<lparr>tx_now := wall s\<rparr>) = (Inr (bo_tenant out, bo_reused out), s1)"
    "\<exists>added. led s' = (led s1)\<lparr>accounts := accounts (led s) @ added\<rparr>" "tenant_names (sid s') = tenant_names (sid s1)"
proof -
  let ?s = "s\<lparr>tx_now := wall s\<rparr>"
  from assms obtain i reused s1 keys s2 f s3 g where
    t: "tenant_for tenant name ?s = (Inr (i, reused), s1)" and
    k: "create_keys sha256 token i s1 = (Inr keys, s2)" and
    b1: "backfill i TEST ([], 0) s2 = (Inr f, s3)" and
    b2: "backfill i LIVE f s3 = (Inr g, s')" and
    out: "out = \<lparr>bo_reused = reused, bo_tenant = i, bo_keys = keys, bo_accounts = fst g, bo_added = snd g\<rparr>"
    unfolding cmd_bootstrap_def by (auto simp: result_simps split_beta simp del: op_run)
  note t' = tenant_for_Inr [OF t]
  note k' = create_keys_frame [OF k]
  obtain accts n where f: "f = (accts, n)" by fastforce
  note b1' = backfill_Inr [OF b1] and b2' = backfill_Inr [OF b2 [unfolded f]]
  have bf: "backfills s2 s'" using b1' b2' backfills_trans by blast
  then have sid: "sid s' = sid s2" by (auto simp: backfills_def)
  have g3: "grown (led s3) (led s')" using b2' backfills_grown by blast
  show thesis
  proof (rule that)
    show "find_tenant tenant name (sid s') = Some (bo_tenant out)"
      using t'(1) find_tenant_names [of "sid s'" "sid s1"] by (simp add: out sid k'(2))
    show "charted (led s') (bo_tenant out) TEST DEFAULT_ACCOUNTS" "charted (led s') (bo_tenant out) LIVE DEFAULT_ACCOUNTS"
      using b1' b2' g3 charted_grown by (auto simp: out)
    show "bo_accounts out = chart_ids (led s') (bo_tenant out) [] DEFAULT_ACCOUNTS"
      using b1' b2' chart_ids_grown [OF _ g3] by (auto simp: out f)
    show "tenant_for tenant name ?s = (Inr (bo_tenant out, bo_reused out), s1)" using t by (simp add: out)
    show "\<exists>added. led s' = (led s1)\<lparr>accounts := accounts (led s) @ added\<rparr>"
      using bf t'(2) k'(1) by (auto simp: backfills_def)
    show "tenant_names (sid s') = tenant_names (sid s1)" by (simp add: sid k'(2))
  qed
qed

text \<open>On a tenant that has its chart, only the two keys are new.\<close>

lemma bootstrap_there:
  assumes "find_tenant tenant name (sid u) = Some t"
    "charted (led u) t TEST DEFAULT_ACCOUNTS" "charted (led u) t LIVE DEFAULT_ACCOUNTS"
    "length (in_mode (led u) t TEST) \<le> 500" "length (in_mode (led u) t LIVE) \<le> 500"
    and keys: "create_keys sha256 token t (u\<lparr>tx_now := wall u\<rparr>) = (Inr keys, u')"
  shows "cmd_bootstrap sha256 token tenant name u
       = (Inr \<lparr>bo_reused = True, bo_tenant = t, bo_keys = keys,
               bo_accounts = chart_ids (led u) t [] DEFAULT_ACCOUNTS, bo_added = 0\<rparr>, u') \<and> led u' = led u"
proof -
  let ?u = "u\<lparr>tx_now := wall u\<rparr>" and ?c = "chart_ids (led u) t [] DEFAULT_ACCOUNTS"
  have u': "led u' = led u" using create_keys_frame [OF keys] by simp
  have t: "tenant_for tenant name ?u = (Inr (t, True), ?u)" using assms(1) by (simp add: tenant_for_def bind_op_def)
  have b: "backfill t TEST ([], 0) u' = (Inr (?c, 0), u')" "backfill t LIVE (?c, 0) u' = (Inr (?c, 0), u')"
    using backfill_there [of u' t TEST "[]" 0] backfill_there [of u' t LIVE ?c 0] assms(2-5) by (simp_all add: u')
  show ?thesis
    by (simp add: cmd_bootstrap_def unit_of_work_def bind_op_def t keys b deferred_checks_def u')
qed

text \<open>
  C31. Bootstrapping again is harmless for a tenant of at most 500 accounts in each mode. In any later state that still names the
  tenants as the first run left them and has its accounts, and possibly others after them, the command succeeds, provided
  its two new keys take no id and no hash that is there already: it reuses the tenant, adds no account and changes no row of the
  ledger, and reports the same account ids. The bound is needed: the command looks its chart up in one page of 500 accounts,
  and beyond it it may miss one of them and end in \<open>UniqueViolation\<close>.
\<close>

theorem bootstrap_is_idempotent:
  assumes first: "cmd_bootstrap sha256 token tenant name s = (Inr out, s')"
    and later: "tenant_names (sid u) = tenant_names (sid s')" "accounts (led u) = accounts (led s') @ added"
    and few: "length (in_mode (led u) (bo_tenant out) TEST) \<le> 500" "length (in_mode (led u) (bo_tenant out) LIVE) \<le> 500"
    and keys: "create_keys sha256 token' (bo_tenant out) (u\<lparr>tx_now := wall u\<rparr>) = (Inr keys, u')"
  shows "cmd_bootstrap sha256 token' tenant name u
       = (Inr \<lparr>bo_reused = True, bo_tenant = bo_tenant out, bo_keys = keys, bo_accounts = bo_accounts out, bo_added = 0\<rparr>, u')
     \<and> led u' = led u"
proof -
  from cmd_bootstrap_Inr [OF first] have f: "find_tenant tenant name (sid s') = Some (bo_tenant out)"
    "charted (led s') (bo_tenant out) TEST DEFAULT_ACCOUNTS" "charted (led s') (bo_tenant out) LIVE DEFAULT_ACCOUNTS"
    "bo_accounts out = chart_ids (led s') (bo_tenant out) [] DEFAULT_ACCOUNTS" by blast+
  have g: "grown (led s') (led u)" using later(2) by (auto simp: grown_def)
  have "find_tenant tenant name (sid u) = Some (bo_tenant out)" using f(1) find_tenant_names [OF later(1)] by simp
  from bootstrap_there [OF this charted_grown [OF f(2) g] charted_grown [OF f(3) g] few keys]
  show ?thesis by (simp add: f(4) chart_ids_grown [OF f(2) g])
qed

text \<open>A tenant with its chart, in both modes.\<close>

definition demo_office :: st where
  "demo_office =
     (let s = new_database [''t''] demo_clock 0 in
      s\<lparr>led := (led s)\<lparr>accounts := concat (map (\<lambda>mode. map (\<lambda>(name, ty, external, minimum).
            \<lparr>a_id = mode_value mode @ external, a_tenant = ''t'', a_mode = mode, a_external = Some external, a_name = name,
             a_type = ty, a_normal = normal_balance ty, a_currency = ''usd'', a_status = OPEN, a_minimum = minimum,
             a_metadata = [], a_created = 0\<rparr>) DEFAULT_ACCOUNTS) [TEST, LIVE])\<rparr>,
        sid := (sid s)\<lparr>tenant_names := [(''t'', ''Demo'')]\<rparr>\<rparr>)"

lemma demo_office_charted:
  "charted (led demo_office) ''t'' TEST DEFAULT_ACCOUNTS" "charted (led demo_office) ''t'' LIVE DEFAULT_ACCOUNTS"
  "length (in_mode (led demo_office) ''t'' TEST) \<le> 500" "length (in_mode (led demo_office) ''t'' LIVE) \<le> 500"
  "find_tenant (Some ''t'') ''Demo'' (sid demo_office) = Some ''t''"
proof -
  have "list_all (\<lambda>r. account_get_by_external (external_of r) ''t'' TEST (led demo_office) \<noteq> None) DEFAULT_ACCOUNTS"
    "list_all (\<lambda>r. account_get_by_external (external_of r) ''t'' LIVE (led demo_office) \<noteq> None) DEFAULT_ACCOUNTS"
    by code_simp+
  then show "charted (led demo_office) ''t'' TEST DEFAULT_ACCOUNTS" "charted (led demo_office) ''t'' LIVE DEFAULT_ACCOUNTS"
    by (auto simp: charted_def list_all_iff)
qed code_simp+

lemma create_keys_run:
  assumes "new_id ''key'' (idg s) = (i, g)" "new_id ''key'' g = (j, g')" "i \<noteq> j"
    "sha256 (generate_key (token TEST) TEST) \<noteq> sha256 (generate_key (token LIVE) LIVE)"
    "\<forall>k \<in> set (api_keys (sid s)). k_id k \<notin> {i, j}
       \<and> k_hash k \<notin> {sha256 (generate_key (token TEST) TEST), sha256 (generate_key (token LIVE) LIVE)}"
    "t \<in> set (tenants (led s))"
  shows "\<exists>keys k k'. create_keys sha256 token t s
       = (Inr keys, s\<lparr>idg := g', sid := (sid s)\<lparr>api_keys := api_keys (sid s) @ [k, k']\<rparr>\<rparr>)
     \<and> k_id k = i \<and> k_id k' = j \<and> k_hash k = sha256 (generate_key (token TEST) TEST)
     \<and> k_hash k' = sha256 (generate_key (token LIVE) LIVE)"
proof -
  define k where "k = (\<lambda>i mode. let p = generate_key (token mode) mode in \<lparr>k_id = i, k_tenant = t, k_mode = mode,
    k_hash = sha256 p, k_prefix = take 12 p, k_last4 = last_chars 4 p, k_version = api_version, k_revoked = None,
    k_created = tx_now s\<rparr>)"
  let ?s1 = "s\<lparr>idg := g, sid := (sid s)\<lparr>api_keys := api_keys (sid s) @ [k i TEST]\<rparr>\<rparr>"
  let ?s2 = "s\<lparr>idg := g', sid := (sid s)\<lparr>api_keys := api_keys (sid s) @ [k i TEST, k j LIVE]\<rparr>\<rparr>"
  have "create_key sha256 (token TEST) t TEST s = (Inr (generate_key (token TEST) TEST, k i TEST), ?s1)"
    unfolding create_key_iff using assms by (simp add: k_def Let_def)
  moreover have "create_key sha256 (token LIVE) t LIVE ?s1 = (Inr (generate_key (token LIVE) LIVE, k j LIVE), ?s2)"
    unfolding create_key_iff using assms by (simp add: k_def Let_def)
  ultimately have "create_keys sha256 token t s = (Inr [(''test'', generate_key (token TEST) TEST),
      (''live'', generate_key (token LIVE) LIVE)], ?s2)"
    by (simp add: create_keys_def bind_op_def)
  then show ?thesis by (intro exI [of _ "k i TEST"] exI [of _ "k j LIVE"] exI conjI) (assumption, simp_all add: k_def Let_def)
qed

theorem bootstrap_is_idempotent_witness:
  "let (r, s') = cmd_bootstrap id (\<lambda>_. ''a'') (Some ''t'') ''Demo'' demo_office;
       (r', s'') = cmd_bootstrap id (\<lambda>_. ''b'') (Some ''t'') ''Demo'' s' in
   led s'' = led demo_office \<and> (case r' of Inl _ \<Rightarrow> False | Inr out \<Rightarrow> bo_reused out \<and> bo_added out = 0)"
proof -
  define key where "key = (\<lambda>g. snd (new_id ''key'' g))"
  let ?u = "demo_office\<lparr>tx_now := wall demo_office\<rparr>" and ?g = "key (key demo_clock)"
  have start: "idg ?u = demo_clock" "api_keys (sid ?u) = []" "tenants (led ?u) = [''t'']"
    by (simp_all add: demo_office_def new_database_def no_side_tables_def Let_def)
  have new: "new_id ''key'' g = (fst (new_id ''key'' g), key g)" for g by (simp add: key_def)
  have ids: "distinct [fst (new_id ''key'' demo_clock), fst (new_id ''key'' (key demo_clock)),
      fst (new_id ''key'' ?g), fst (new_id ''key'' (key ?g))]"
    unfolding key_def by code_simp
  have hashes: "distinct [id (generate_key ''a'' TEST), id (generate_key ''a'' LIVE),
      id (generate_key ''b'' TEST), id (generate_key ''b'' LIVE)]" by code_simp
  obtain keys k k' v where k: "create_keys id (\<lambda>_. ''a'') ''t'' ?u = (Inr keys, v)"
    and v: "v = ?u\<lparr>idg := ?g, sid := (sid ?u)\<lparr>api_keys := api_keys (sid ?u) @ [k, k']\<rparr>\<rparr>"
      "k_id k = fst (new_id ''key'' demo_clock)" "k_id k' = fst (new_id ''key'' (key demo_clock))"
      "k_hash k = id (generate_key ''a'' TEST)" "k_hash k' = id (generate_key ''a'' LIVE)"
    using create_keys_run [of ?u, unfolded start(1), OF new new, of id "\<lambda>_. ''a''" "''t''"] ids hashes start(2,3)
    by auto
  have "idg (v\<lparr>tx_now := wall v\<rparr>) = ?g" by (simp add: v)
  from create_keys_run [of "v\<lparr>tx_now := wall v\<rparr>", unfolded this, OF new new, of id "\<lambda>_. ''b''" "''t''"]
  obtain keys' v' where k': "create_keys id (\<lambda>_. ''b'') ''t'' (v\<lparr>tx_now := wall v\<rparr>) = (Inr keys', v')"
    using ids hashes start(2,3) v by auto
  note first = bootstrap_there [OF demo_office_charted(5,1-4) k]
  from bootstrap_is_idempotent [OF conjunct1 [OF first], of v "[]" "\<lambda>_. ''b''" keys' v'] show ?thesis
    using first k' demo_office_charted(3,4) by auto
qed

section \<open>Resetting a tenant\<close>

definition without :: "string \<Rightarrow> ledger_tables \<Rightarrow> ledger_tables" where
  "without t l =
     l\<lparr>entries := filter (\<lambda>e. e_account e \<notin> accounts_of t l) (entries l),
       snapshots := filter (\<lambda>s. s_account s \<notin> accounts_of t l) (snapshots l),
       transactions := filter (\<lambda>x. t_tenant x \<noteq> t) (transactions l)\<rparr>"

lemma reset_runs:
  obtains counts s' where "unit_of_work (reset_body t) s = (Inr counts, s')" "led s' = without t (led s)"
    "evt s' = (evt s)\<lparr>outbox := filter (\<lambda>r. o_tenant r \<noteq> t) (outbox (evt s)), processed := []\<rparr>"
    "strm s' = (strm s)\<lparr>messages := [], offsets := []\<rparr>"
    "dget counts ''entries'' = Some (length (entries (led s)) - length (entries (led s')))"
proof -
  let ?s0 = "s\<lparr>tx_now := wall s\<rparr>"
  have comp: "length (filter P xs) = length xs - length (filter (\<lambda>x. \<not> P x) xs)" for P :: "entry_row \<Rightarrow> bool" and xs
    using sum_length_filter_compl [of P xs] by simp
  obtain counts s' where run: "reset_body t ?s0 = (Inr counts, s')" and l: "led s' = without t (led s)"
    "evt s' = (evt s)\<lparr>outbox := filter (\<lambda>r. o_tenant r \<noteq> t) (outbox (evt s)), processed := []\<rparr>"
    "strm s' = (strm s)\<lparr>messages := [], offsets := []\<rparr>"
    "dget counts ''entries'' = Some (length (filter (\<lambda>e. e_account e \<in> accounts_of t (led s)) (entries (led s))))"
    by (simp add: reset_body_def delete_rows_def bind_op_def on_rsk_def on_nrm_def on_led_def on_evt_def on_idm_def
        zoom_def without_def)
  have "length (entries (led s')) \<le> length (entries (led s))" by (simp add: l without_def)
  then have "deferred_checks (led s) (led s')" by (simp add: deferred_checks_def)
  with run have "unit_of_work (reset_body t) s = (Inr counts, s')" by (simp add: unit_of_work_Inr_iff)
  moreover have "dget counts ''entries'' = Some (length (entries (led s)) - length (entries (led s')))"
    using l(4) comp [of "\<lambda>e. e_account e \<in> accounts_of t (led s)" "entries (led s)"] by (simp add: l(1) without_def)
  ultimately show thesis using that l by blast
qed

lemma entries_of_without:
  "entries_of acct (without t l) = (if acct \<in> accounts_of t l then [] else entries_of acct l)"
  by (auto simp: entries_of_def without_def filter_empty_conv intro: filter_cong)

text \<open>The rows of a transaction stay together or go together.\<close>

lemma transaction_rows_without:
  assumes ok: "books_apart l"
  shows "filter (\<lambda>e. e_txn e = i) (entries (without t l)) \<in> {[], filter (\<lambda>e. e_txn e = i) (entries l)}"
proof (cases "\<exists>e \<in> set (entries l). e_txn e = i \<and> e_account e \<in> accounts_of t l")
  case False
  then have "filter (\<lambda>e. e_account e \<notin> accounts_of t l \<and> e_txn e = i) (entries l) = filter (\<lambda>e. e_txn e = i) (entries l)"
    by (intro filter_cong) auto
  then show ?thesis by (simp add: without_def)
next
  case True
  then obtain e0 a0 where e0: "e0 \<in> set (entries l)" "e_txn e0 = i" and a0: "a0 \<in> set (accounts l)" "a_id a0 = e_account e0"
    "a_tenant a0 = t" by (auto simp: accounts_of_def)
  have lok: "\<forall>e \<in> set (entries l). e_account e \<in> a_id ` set (accounts l) \<and> e_txn e \<in> t_id ` set (transactions l)"
    and home: "\<forall>e \<in> set (entries l). entry_home l e"
    using ok by (auto simp: books_apart_def ledger_ok_def entry_row_ok_def list_all_iff)
  from lok e0 obtain x where x: "x \<in> set (transactions l)" "t_id x = i" by force
  with home e0 a0 have t: "t_tenant x = t" by (fastforce simp: entry_home_def)
  have "e_account e \<in> accounts_of t l" if e: "e \<in> set (entries l)" "e_txn e = i" for e
  proof -
    from lok e obtain a where a: "a \<in> set (accounts l)" "a_id a = e_account e" by force
    with home e x t have "a_tenant a = t" by (fastforce simp: entry_home_def)
    with a show ?thesis by (force simp: accounts_of_def)
  qed
  then show ?thesis by (auto simp: without_def filter_empty_conv)
qed

lemma transaction_kept:
  assumes ok: "books_apart l" and e: "e \<in> set (entries l)" "e_account e \<notin> accounts_of t l"
  shows "e_txn e \<in> t_id ` {x \<in> set (transactions l). t_tenant x \<noteq> t}"
proof -
  have "e_account e \<in> a_id ` set (accounts l)" "e_txn e \<in> t_id ` set (transactions l)" "entry_home l e"
    using ok e(1) by (auto simp: books_apart_def ledger_ok_def entry_row_ok_def list_all_iff)
  then obtain a x where a: "a \<in> set (accounts l)" "a_id a = e_account e" and x: "x \<in> set (transactions l)" "t_id x = e_txn e"
    and home: "entry_home l e" by force
  have "a_tenant a \<noteq> t" using e(2) a by (force simp: accounts_of_def)
  moreover have "a_tenant a = t_tenant x" using home a x by (auto simp: entry_home_def)
  ultimately show ?thesis using x by force
qed

lemma without_ok:
  assumes ok: "books_apart l"
  shows "ledger_ok (without t l)"
proof -
  let ?l = "without t l"
  have l: "ledger_ok l" using ok by (simp add: books_apart_def)
  have "entry_row_ok ?l e" if "e \<in> set (entries ?l)" for e
    using that l transaction_kept [OF ok, of e t] by (auto simp: without_def ledger_ok_def entry_row_ok_def)
  moreover have "snapshot_ok ?l s" if "s \<in> set (snapshots ?l)" for s
  proof -
    have s: "s \<in> set (snapshots l)" "s_account s \<notin> accounts_of t l" using that by (auto simp: without_def)
    then have "snapshot_ok l s" using l by (simp add: ledger_ok_def)
    then show ?thesis using s(2) by (simp add: snapshot_ok_def entries_of_without) (simp add: without_def)
  qed
  moreover have "sorted_wrt (<) (map e_id (filter P (entries l)))" for P
    using l by (simp add: ledger_ok_def sorted_wrt_map sorted_wrt_filter)
  moreover have "distinct (map t_id (filter P (transactions l)))" for P
    using l by (simp add: ledger_ok_def distinct_map_filter)
  ultimately show ?thesis using l by (auto simp: ledger_ok_def without_def)
qed

lemma without_balanced:
  assumes ok: "books_apart l" and bal: "all_balanced l"
  shows "all_balanced (without t l)"
  unfolding all_balanced_def
proof
  fix i
  have "transaction_balanced l i" using bal by (simp add: all_balanced_def)
  then show "transaction_balanced (without t l) i"
    using transaction_rows_without [OF ok, of i t] by (auto simp: transaction_balanced_def Let_def)
qed

lemma balance_without:
  assumes ok: "books_apart l" and a: "a \<in> set (accounts l)"
  shows "account_balance (a_id a) (without t l) =
     (if a_tenant a = t then Inr \<lparr>b_currency = a_currency a, b_balance = 0, b_snapshot_cursor = Some 0, b_cursor = 0\<rparr>
      else account_balance (a_id a) l)"
proof -
  have l: "ledger_ok l" "ledger_ok (without t l)" using ok without_ok by (simp_all add: books_apart_def)
  have d: "distinct (map a_id (accounts l))" using l by (simp add: ledger_ok_def)
  have f: "List.find (\<lambda>b. a_id b = a_id a) (accounts l) = Some a" by (rule find_account [OF d a])
  have mine: "a_id a \<in> accounts_of t l \<longleftrightarrow> a_tenant a = t"
    using a d by (auto simp: accounts_of_def distinct_map dest: inj_onD)
  have snap: "newest_snapshot (a_id a) (without t l) = (if a_tenant a = t then None else newest_snapshot (a_id a) l)"
  proof -
    have "filter (\<lambda>s. s_account s = a_id a) (snapshots (without t l))
        = (if a_tenant a = t then [] else filter (\<lambda>s. s_account s = a_id a) (snapshots l))"
      using mine by (auto simp: without_def filter_empty_conv intro: filter_cong)
    then show ?thesis by (simp add: newest_snapshot_def)
  qed
  have acc: "accounts (without t l) = accounts l" by (simp add: without_def)
  show ?thesis
    unfolding cached_balance_exact [OF l(2)] cached_balance_exact [OF l(1)] acc f snap entries_of_without mine
    by (simp add: to_bigint_def in_bigint_def max_id_def)
qed

text \<open>
  C29. A reset empties one tenant's books and no other's: it succeeds, the books that are left are well formed
  and balanced, every account of the tenant reads zero and every other account, through its snapshots, what it
  read before. The stream and the consumers' memory, however, are emptied for all: no group has a message left to
  read, while the outbox rows of the other tenants stay as they were, the published ones marked published.
\<close>

theorem reset_erases_one_tenant:
  assumes "db_ok s" "books_apart (led s)" "tenant_or_default tenant s = Some t"
  shows "\<exists>counts s'. cmd_reset tenant s = (Inr (Some (t, counts)), s') \<and> db_ok s' \<and> accounts (led s') = accounts (led s)
     \<and> dget counts ''entries'' = Some (length (entries (led s)) - length (entries (led s')))
     \<and> list_all (\<lambda>a. account_balance (a_id a) (led s') =
            (if a_tenant a = t then Inr \<lparr>b_currency = a_currency a, b_balance = 0, b_snapshot_cursor = Some 0, b_cursor = 0\<rparr>
             else account_balance (a_id a) (led s))) (accounts (led s))
     \<and> list_all (\<lambda>x. t_tenant x \<noteq> t) (transactions (led s'))
     \<and> (\<forall>topic grp. pg_poll topic grp 500 (strm s') = []) \<and> processed (evt s') = []
     \<and> outbox (evt s') = filter (\<lambda>r. o_tenant r \<noteq> t) (outbox (evt s))"
proof -
  obtain counts s' where run: "unit_of_work (reset_body t) s = (Inr counts, s')" and l: "led s' = without t (led s)"
    and e: "evt s' = (evt s)\<lparr>outbox := filter (\<lambda>r. o_tenant r \<noteq> t) (outbox (evt s)), processed := []\<rparr>"
    and m: "strm s' = (strm s)\<lparr>messages := [], offsets := []\<rparr>"
    and n: "dget counts ''entries'' = Some (length (entries (led s)) - length (entries (led s')))"
    by (rule reset_runs)
  have cmd: "cmd_reset tenant s = (Inr (Some (t, counts)), s')"
    using run assms(3) by (simp add: cmd_reset_def bind_op_def)
  have "outbox_ok (evt s')"
    using assms(1) by (auto simp: db_ok_def outbox_ok_def e sorted_wrt_map distinct_map_filter intro: sorted_wrt_filter)
  then have ok: "db_ok s'"
    using assms(1,2) without_ok without_balanced by (simp add: db_ok_def l)
  show ?thesis
    by (intro exI conjI, rule cmd, rule ok)
      (use n in \<open>simp_all add: e m list_all_iff pg_poll_def l balance_without [OF assms(2)]\<close>,
       simp_all add: without_def)
qed

section \<open>Taking snapshots\<close>

lemma newest_snapshot_max:
  assumes "newest_snapshot acct l = Some s" "x \<in> set (snapshots l)" "s_account x = acct"
  shows "s_up_to x \<le> s_up_to s"
proof -
  let ?ss = "sort_key s_up_to (filter (\<lambda>s. s_account s = acct) (snapshots l))"
  have x: "x \<in> set ?ss" using assms(2,3) by simp
  from assms(1) have s: "s = last ?ss" "?ss \<noteq> []" by (auto simp: newest_snapshot_def split: list.splits)
  obtain i where i: "i < length ?ss" "?ss ! i = x" using x by (meson in_set_conv_nth)
  have "sorted (map s_up_to ?ss)" by simp
  then have "map s_up_to ?ss ! i \<le> map s_up_to ?ss ! (length ?ss - 1)"
    using i by (intro sorted_nth_mono) auto
  then show ?thesis using i s by (simp add: last_conv_nth)
qed

lemma newest_snapshot_None: "newest_snapshot acct l = None \<longleftrightarrow> (\<forall>x \<in> set (snapshots l). s_account x \<noteq> acct)"
proof -
  have "newest_snapshot acct l = None \<longleftrightarrow> sort_key s_up_to (filter (\<lambda>s. s_account s = acct) (snapshots l)) = []"
    by (simp add: newest_snapshot_def split: list.splits)
  also have "\<dots> \<longleftrightarrow> set (sort_key s_up_to (filter (\<lambda>s. s_account s = acct) (snapshots l))) = {}"
    by (simp only: set_empty)
  finally show ?thesis by auto
qed

definition covered_to :: "string \<Rightarrow> ledger_tables \<Rightarrow> nat" where
  "covered_to acct l = (case newest_snapshot acct l of None \<Rightarrow> 0 | Some s \<Rightarrow> s_up_to s)"

lemma uncovered_eq: "uncovered acct l = filter (\<lambda>e. covered_to acct l < e_id e) (entries_of acct l)"
  by (auto simp: uncovered_def covered_to_def entries_of_def intro: filter_cong)

lemma covered_to_ge: "x \<in> set (snapshots l) \<Longrightarrow> s_account x = acct \<Longrightarrow> s_up_to x \<le> covered_to acct l"
  using newest_snapshot_None [of acct l] newest_snapshot_max [of acct l]
  by (auto simp: covered_to_def split: option.splits)

lemma covered_to_added:
  assumes "covered_to (s_account row) l < s_up_to row"
  shows "covered_to acct (l\<lparr>snapshots := snapshots l @ [row]\<rparr>)
    = (if acct = s_account row then s_up_to row else covered_to acct l)"
proof (cases "acct = s_account row")
  case False
  then show ?thesis by (simp add: covered_to_def newest_snapshot_def)
next
  case True
  let ?l = "l\<lparr>snapshots := snapshots l @ [row]\<rparr>"
  have row: "row \<in> set (snapshots ?l)" by simp
  then have ge: "s_up_to row \<le> covered_to acct ?l" using True by (intro covered_to_ge) simp_all
  have "newest_snapshot acct ?l \<noteq> None" using row True newest_snapshot_None by blast
  then obtain s where s: "newest_snapshot acct ?l = Some s" by blast
  have "s = row"
  proof (rule ccontr)
    assume "s \<noteq> row"
    with newest_snapshot_mem [OF s] have "s \<in> set (snapshots l)" "s_account s = acct" by auto
    then have "s_up_to s \<le> covered_to acct l" by (rule covered_to_ge)
    with ge s assms True show False by (simp add: covered_to_def)
  qed
  with s True show ?thesis by (simp add: covered_to_def)
qed

lemma write_snapshot_stale:
  assumes ok: "ledger_ok l" and a: "a \<in> set (accounts l)" and un: "uncovered (a_id a) l \<noteq> []"
  shows "if in_bigint (sum_signed (a_normal a) (entries_of (a_id a) l))
    then (\<exists>row. write_snapshot now (a_id a) l = (Inr (Some row), l\<lparr>snapshots := snapshots l @ [row]\<rparr>)
        \<and> s_account row = a_id a \<and> s_balance row = sum_signed (a_normal a) (entries_of (a_id a) l)
        \<and> (\<forall>i. uncovered i (l\<lparr>snapshots := snapshots l @ [row]\<rparr>) = (if i = a_id a then [] else uncovered i l)))
    else write_snapshot now (a_id a) l = (Inl (DbExn NumericOutOfRange), l)"
proof -
  let ?up = "max_id 0 (entries_of (a_id a) l)"
  have f: "List.find (\<lambda>b. a_id b = a_id a) (accounts l) = Some a"
    using ok a by (intro find_account) (simp_all add: ledger_ok_def)
  from un obtain e where e: "e \<in> set (entries_of (a_id a) l)" "covered_to (a_id a) l < e_id e"
    by (auto simp: uncovered_eq filter_empty_conv)
  have "e_id e \<le> ?up" using e(1) by (rule max_id_ge)
  then have up: "covered_to (a_id a) l < ?up" using e(2) by simp
  then have new: "\<not> (\<exists>s \<in> set (snapshots l). s_account s = a_id a \<and> s_up_to s = ?up)"
    using covered_to_ge [of _ l "a_id a"] by (metis leD)
  show ?thesis
  proof (cases "in_bigint (sum_signed (a_normal a) (entries_of (a_id a) l))")
    case False
    then show ?thesis using f by (simp add: write_snapshot_def bind_op_def entries_of_def to_bigint_def Let_def)
  next
    case True
    let ?row = "\<lparr>s_account = a_id a, s_up_to = ?up, s_balance = sum_signed (a_normal a) (entries_of (a_id a) l),
      s_currency = a_currency a, s_taken = now\<rparr>"
    let ?l = "l\<lparr>snapshots := snapshots l @ [?row]\<rparr>"
    have "write_snapshot now (a_id a) l = (Inr (Some ?row), ?l)"
      using f True new up by (auto simp: write_snapshot_def bind_op_def entries_of_def to_bigint_def Let_def)
    moreover have "uncovered i ?l = (if i = a_id a then [] else uncovered i l)" for i
    proof -
      have "covered_to i ?l = (if i = a_id a then ?up else covered_to i l)"
        using covered_to_added [of ?row l i] up by simp
      moreover have "entries_of i ?l = entries_of i l" by (simp add: entries_of_def)
      moreover have "filter (\<lambda>e. ?up < e_id e) (entries_of (a_id a) l) = []"
        using max_id_ge [of _ "entries_of (a_id a) l" 0] by (auto simp: filter_empty_conv leD)
      ultimately show ?thesis by (simp add: uncovered_eq)
    qed
    ultimately have "write_snapshot now (a_id a) l = (Inr (Some ?row), ?l) \<and> s_account ?row = a_id a
        \<and> s_balance ?row = sum_signed (a_normal a) (entries_of (a_id a) l)
        \<and> (\<forall>i. uncovered i ?l = (if i = a_id a then [] else uncovered i l))" by simp
    then show ?thesis unfolding if_P [OF True] by (rule exI [of _ ?row])
  qed
qed

definition add_snapshots :: "snapshot_row list \<Rightarrow> st \<Rightarrow> st" where
  "add_snapshots rows s = s\<lparr>led := (led s)\<lparr>snapshots := snapshots (led s) @ rows\<rparr>\<rparr>"

text \<open>Whether the recomputed balance of an account fits the column, and what its snapshot says.\<close>

definition snapshot_fits :: "ledger_tables \<Rightarrow> string \<Rightarrow> bool" where
  "snapshot_fits l i \<longleftrightarrow> (\<forall>a \<in> set (accounts l). a_id a = i \<longrightarrow> in_bigint (sum_signed (a_normal a) (entries_of i l)))"

definition snapshot_says :: "ledger_tables \<Rightarrow> string \<Rightarrow> snapshot_row \<Rightarrow> bool" where
  "snapshot_says l i row \<longleftrightarrow> s_account row = i
     \<and> (\<forall>a \<in> set (accounts l). a_id a = i \<longrightarrow> s_balance row = sum_signed (a_normal a) (entries_of i l))"

lemma snapshot_added: "snapshot_fits (led (add_snapshots rows s)) = snapshot_fits (led s)"
  "snapshot_says (led (add_snapshots rows s)) = snapshot_says (led s)"
  by (simp_all add: fun_eq_iff snapshot_fits_def snapshot_says_def add_snapshots_def entries_of_def)

lemma snapshot_row:
  assumes "ledger_ok l" "a \<in> set (accounts l)"
  shows "snapshot_fits l (a_id a) \<longleftrightarrow> in_bigint (sum_signed (a_normal a) (entries_of (a_id a) l))"
    "snapshot_says l (a_id a) row \<longleftrightarrow> s_account row = a_id a \<and> s_balance row = sum_signed (a_normal a) (entries_of (a_id a) l)"
proof -
  have "b = a" if "b \<in> set (accounts l)" "a_id b = a_id a" for b
    using assms that by (auto simp: ledger_ok_def distinct_map inj_on_def)
  then show "snapshot_fits l (a_id a) \<longleftrightarrow> in_bigint (sum_signed (a_normal a) (entries_of (a_id a) l))"
    "snapshot_says l (a_id a) row \<longleftrightarrow> s_account row = a_id a \<and> s_balance row = sum_signed (a_normal a) (entries_of (a_id a) l)"
    using assms(2) by (auto simp: snapshot_fits_def snapshot_says_def)
qed

lemma write_snapshots_run:
  assumes "ledger_ok (led s)" "distinct is" "\<forall>i \<in> set is. i \<in> a_id ` set (accounts (led s)) \<and> uncovered i (led s) \<noteq> []"
  shows "if \<forall>i \<in> set is. snapshot_fits (led s) i
    then \<exists>rows. write_snapshots is s = (Inr (length is), add_snapshots rows s)
        \<and> list_all2 (snapshot_says (led s)) is rows
        \<and> (\<forall>i. uncovered i (led (add_snapshots rows s)) = (if i \<in> set is then [] else uncovered i (led s)))
    else \<exists>s'. write_snapshots is s = (Inl (DbExn NumericOutOfRange), s')"
  using assms
proof (induction "is" arbitrary: s)
  case Nil
  have "s = add_snapshots [] s" by (simp add: add_snapshots_def)
  then have "\<exists>rows. write_snapshots [] s = (Inr 0, add_snapshots rows s) \<and> list_all2 (snapshot_says (led s)) [] rows
      \<and> (\<forall>i. uncovered i (led (add_snapshots rows s)) = uncovered i (led s))"
    by (intro exI [of _ "[]"]) simp
  then show ?case by simp
next
  case (Cons i "is")
  from Cons.prems(3) obtain a where a: "a \<in> set (accounts (led s))" "a_id a = i" by auto
  with Cons.prems(3) have un: "uncovered (a_id a) (led s) \<noteq> []" by simp
  note fits = snapshot_row [OF Cons.prems(1) a(1)]
  note w = write_snapshot_stale [OF Cons.prems(1) a(1) un, of "tx_now s", folded fits(1), unfolded a(2)]
  show ?case
  proof (cases "snapshot_fits (led s) i")
    case False
    then have "write_snapshots (i # is) s = (Inl (DbExn NumericOutOfRange), s)"
      using w by (simp add: bind_op_def on_led_def zoom_def)
    with False show ?thesis by auto
  next
    case True
    from w [unfolded if_P [OF True]] obtain row where one: "write_snapshot (tx_now s) i (led s) = (Inr (Some row), led (add_snapshots [row] s))"
      and says: "s_account row = i" "s_balance row = sum_signed (a_normal a) (entries_of i (led s))"
      and first: "\<forall>j. uncovered j (led (add_snapshots [row] s)) = (if j = i then [] else uncovered j (led s))"
      by (auto simp: add_snapshots_def)
    let ?s = "add_snapshots [row] s"
    have row: "snapshot_says (led s) i row" using fits(2) [of row] says a(2) by simp
    have ok: "ledger_ok (led ?s)" by (rule keepsD [OF keeps_write_snapshot Cons.prems(1) one])
    have d: "distinct is" "i \<notin> set is" using Cons.prems(2) by auto
    have un': "\<forall>j \<in> set is. j \<in> a_id ` set (accounts (led ?s)) \<and> uncovered j (led ?s) \<noteq> []"
      using Cons.prems(3) first d(2) by (auto simp: add_snapshots_def)
    have "on_led (write_snapshot (tx_now s) i) s = (Inr (Some row), ?s)"
      using one by (simp add: on_led_def zoom_def add_snapshots_def)
    then have step: "write_snapshots (i # is) s = bind_op (write_snapshots is) (\<lambda>n. ret_op (n + 1)) ?s"
      by (auto simp: bind_op_def split: prod.splits sum.splits)
    note ih = Cons.IH [OF ok d(1) un', unfolded snapshot_added]
    show ?thesis
    proof (cases "\<forall>i \<in> set is. snapshot_fits (led s) i")
      case False
      with ih obtain s' where "write_snapshots is ?s = (Inl (DbExn NumericOutOfRange), s')" by auto
      then have "write_snapshots (i # is) s = (Inl (DbExn NumericOutOfRange), s')" unfolding step by (simp add: bind_op_def)
      with False show ?thesis by auto
    next
      case all: True
      from ih [unfolded if_P [OF all]] obtain rows where run: "write_snapshots is ?s = (Inr (length is), add_snapshots rows ?s)"
        and rows: "list_all2 (snapshot_says (led s)) is rows"
        and un: "\<forall>i. uncovered i (led (add_snapshots rows ?s)) = (if i \<in> set is then [] else uncovered i (led ?s))" by auto
      have eq: "add_snapshots rows ?s = add_snapshots (row # rows) s" by (simp add: add_snapshots_def)
      have "write_snapshots (i # is) s = (Inr (length (i # is)), add_snapshots (row # rows) s)"
        unfolding step using run eq by (simp add: bind_op_def)
      moreover have "\<forall>j. uncovered j (led (add_snapshots (row # rows) s)) = (if j \<in> set (i # is) then [] else uncovered j (led s))"
        using un first unfolding eq by simp
      moreover have "list_all2 (snapshot_says (led s)) (i # is) (row # rows)" using row rows by simp
      moreover have "\<forall>j \<in> set (i # is). snapshot_fits (led s) j" using True all by simp
      ultimately show ?thesis by (subst if_P) blast+
    qed
  qed
qed

lemma keeps_seq_snapshots: "keeps (\<lambda>s. entry_seq (led s) = n) (write_snapshots is)"
proof -
  have "keeps (\<lambda>l. entry_seq l = n) (write_snapshot now i)" for now i
    by (rule keepsI) (drule write_snapshot_Inr, auto)
  then have one: "keeps (\<lambda>s. entry_seq (led s) = n) (on_led (write_snapshot now i))" for now i by (rule keeps_on)
  show ?thesis by (induction "is") (simp_all only: write_snapshots.simps, (intro one keeps_intros | assumption)+)
qed

lemma keeps_apart_snapshots: "well_behaved (write_snapshots is)"
proof (induction "is")
  case Nil
  then show ?case unfolding well_behaved_def write_snapshots.simps by (intro conjI allI keeps_intros)
next
  case (Cons i "is")
  then show ?case unfolding well_behaved_def write_snapshots.simps
    by (elim conjE, intro conjI allI) (intro keeps_intros | assumption | erule spec)+
qed

definition seen_balance :: "exn + balance_view \<Rightarrow> exn + string \<times> int \<times> nat" where
  "seen_balance r = bind_r r (\<lambda>v. Inr (b_currency v, b_balance v, b_cursor v))"

text \<open>
  C30. The snapshot job bounds what a balance read scans and changes no balance. It takes every account whose uncovered tail
  is at least the threshold. If the recomputed balance of each of them fits a \<open>BIGINT\<close>, it succeeds: it appends exactly one
  snapshot for each of them, in the order of the accounts, with that balance, and then every account's tail is empty or below
  the threshold; the books stay right and every balance reads the same. If one of them does not fit,
  the job fails with \<open>NumericOutOfRange\<close> and writes nothing.
\<close>

theorem snapshots_bound_the_tail:
  assumes "db_ok s"
  shows "if \<forall>a \<in> set (accounts (led s)). a_id a \<in> set (stale_accounts threshold (led s)) \<longrightarrow>
         in_bigint (sum_signed (a_normal a) (filter (\<lambda>e. e_account e = a_id a) (entries (led s))))
    then \<exists>rows s'. cmd_snapshot threshold s = (Inr (length (stale_accounts threshold (led s))), s') \<and> db_ok s'
        \<and> led s' = (led s)\<lparr>snapshots := snapshots (led s) @ rows\<rparr>
        \<and> map s_account rows = stale_accounts threshold (led s)
        \<and> (\<forall>row \<in> set rows. \<forall>a \<in> set (accounts (led s)). a_id a = s_account row \<longrightarrow>
             s_balance row = sum_signed (a_normal a) (filter (\<lambda>e. e_account e = a_id a) (entries (led s))))
        \<and> (\<forall>a \<in> set (accounts (led s)).
             uncovered (a_id a) (led s') = [] \<or> int (length (uncovered (a_id a) (led s'))) < threshold)
        \<and> (\<forall>i. seen_balance (account_balance i (led s')) = seen_balance (account_balance i (led s)))
    else \<exists>s'. cmd_snapshot threshold s = (Inl (DbExn NumericOutOfRange), s') \<and> led s' = led s"
proof -
  let ?start = "s\<lparr>tx_now := wall s\<rparr>" and ?is = "stale_accounts threshold (led s)"
  let ?body = "bind_op (reads (\<lambda>s. stale_accounts threshold (led s))) write_snapshots"
  have ok: "ledger_ok (led ?start)" using assms by (simp add: db_ok_def)
  have d: "distinct ?is" using ok by (simp add: stale_accounts_def ledger_ok_def)
  have each: "\<forall>i \<in> set ?is. i \<in> a_id ` set (accounts (led ?start)) \<and> uncovered i (led ?start) \<noteq> []"
    by (auto simp: stale_accounts_def)
  have body: "?body ?start = write_snapshots ?is ?start" by (simp add: bind_op_def)
  have fits: "(\<forall>a \<in> set (accounts (led s)). a_id a \<in> set ?is \<longrightarrow>
      in_bigint (sum_signed (a_normal a) (filter (\<lambda>e. e_account e = a_id a) (entries (led s)))))
    \<longleftrightarrow> (\<forall>i \<in> set ?is. snapshot_fits (led s) i)"
    by (auto simp: snapshot_fits_def entries_of_def)
  note w = write_snapshots_run [OF ok d each, simplified]
  show ?thesis
  proof (cases "\<forall>i \<in> set ?is. snapshot_fits (led s) i")
    case False
    with w obtain s1 where run: "write_snapshots ?is ?start = (Inl (DbExn NumericOutOfRange), s1)" by auto
    have "entry_seq (led s1) = entry_seq (led s)"
      using keepsD [OF keeps_seq_snapshots _ run] by simp
    then have "led (rollback s s1) = led s" by (simp add: rollback_def)
    then show ?thesis using run False unfolding fits by (simp add: cmd_snapshot_def unit_of_work_def body)
  next
    case True
    with w obtain rows where run: "write_snapshots ?is ?start = (Inr (length ?is), add_snapshots rows ?start)"
      and rows: "list_all2 (snapshot_says (led s)) ?is rows"
      and un': "\<forall>i. uncovered i (led (add_snapshots rows ?start)) = (if i \<in> set ?is then [] else uncovered i (led s))"
      by auto
    let ?t = "add_snapshots rows ?start" and ?l = "led (add_snapshots rows s)"
    have l: "led ?t = ?l" "entries ?l = entries (led s)" "accounts ?l = accounts (led s)"
      "?l = (led s)\<lparr>snapshots := snapshots (led s) @ rows\<rparr>" by (simp_all add: add_snapshots_def)
    note un = un' [unfolded l(1)]
    have cmd: "cmd_snapshot threshold s = (Inr (length ?is), ?t)"
      using run by (simp add: cmd_snapshot_def unit_of_work_def body deferred_checks_def l(1-3))
    have wb: "well_behaved ?body"
      using keeps_apart_snapshots unfolding well_behaved_def by (intro conjI allI keeps_bind keeps_basic) blast+
    have ok': "db_ok ?t" using keepsD [OF unit_of_work_db_ok [OF wb] assms] cmd unfolding cmd_snapshot_def by blast
    have l': "ledger_ok ?l" using ok' by (simp add: db_ok_def l(1))
    have names: "map s_account rows = ?is" using rows
      by (induction rule: list_all2_induct) (simp_all add: snapshot_says_def)
    have says: "\<forall>row \<in> set rows. \<forall>a \<in> set (accounts (led s)). a_id a = s_account row \<longrightarrow>
        s_balance row = sum_signed (a_normal a) (filter (\<lambda>e. e_account e = a_id a) (entries (led s)))"
      using rows by (induction rule: list_all2_induct) (auto simp: snapshot_says_def entries_of_def)
    have tails: "\<forall>a \<in> set (accounts (led s)). uncovered (a_id a) ?l = [] \<or> int (length (uncovered (a_id a) ?l)) < threshold"
      using un by (auto simp: stale_accounts_def)
    have same: "seen_balance (account_balance i ?l) = seen_balance (account_balance i (led s))" for i
    proof -
      have "entries_of i ?l = entries_of i (led s)" by (simp add: entries_of_def l(2))
      then show ?thesis
        unfolding cached_balance_exact [OF l'] cached_balance_exact [OF ok [simplified]] l(3)
        by (cases "List.find (\<lambda>a. a_id a = i) (accounts (led s))") (simp_all add: seen_balance_def to_bigint_def)
    qed
    show ?thesis
      unfolding fits if_P [OF True]
      by (rule exI [of _ rows], rule exI [of _ ?t], unfold l(1), intro conjI allI)
        (fact cmd ok' l(4) names says tails same)+
  qed
qed

text \<open>Two tenants, a purchase of each on the books and one event published.\<close>

definition demo_row :: "string \<Rightarrow> string \<Rightarrow> account_type \<Rightarrow> account_row" where
  "demo_row i tenant ty =
     \<lparr>a_id = i, a_tenant = tenant, a_mode = TEST, a_external = None, a_name = i, a_type = ty, a_normal = normal_balance ty,
      a_currency = ''usd'', a_status = OPEN, a_minimum = None, a_metadata = [], a_created = 0\<rparr>"

definition demo_leg :: "nat \<Rightarrow> string \<Rightarrow> string \<Rightarrow> direction \<Rightarrow> entry_row" where
  "demo_leg n txn acct d =
     \<lparr>e_id = n, e_txn = txn, e_account = acct, e_direction = d, e_amount = 450, e_currency = ''usd'',
      e_effective = 0, e_recorded = 0\<rparr>"

definition demo_head :: "string \<Rightarrow> string \<Rightarrow> txn_row" where
  "demo_head i tenant =
     \<lparr>t_id = i, t_tenant = tenant, t_mode = TEST, t_kind = ''card_purchase'', t_status = POSTED, t_effective = 0,
      t_recorded = 0, t_reverses = None, t_metadata = []\<rparr>"

definition demo_shared :: st where
  "demo_shared =
     (let s = new_database [''t'', ''u''] demo_clock 0 in
      s\<lparr>led := (led s)\<lparr>accounts := [demo_row ''a'' ''t'' ASSET, demo_row ''b'' ''t'' EXPENSE, demo_row ''c'' ''u'' ASSET,
                            demo_row ''d'' ''u'' EXPENSE],
              transactions := [demo_head ''x'' ''t'', demo_head ''y'' ''u''],
              entries := [demo_leg 1 ''x'' ''b'' DEBIT, demo_leg 2 ''x'' ''a'' CREDIT, demo_leg 3 ''y'' ''d'' DEBIT,
                          demo_leg 4 ''y'' ''c'' CREDIT], entry_seq := 5\<rparr>,
        strm := pg_publish LEDGER_EVENTS ''c'' ''e'' ''transaction.created'' JNull (strm s)\<rparr>)"

lemma demo_shared_ok: "db_ok demo_shared" "books_apart (led demo_shared)"
proof -
  have l: "ledger_ok (led demo_shared)"
    by (simp add: demo_shared_def ledger_ok_def new_database_def Let_def demo_row_def demo_head_def demo_leg_def entry_row_ok_def)
  have "all_balanced (led demo_shared)"
    by (simp add: demo_shared_def all_balanced_def transaction_balanced_def new_database_def Let_def demo_leg_def rows_total_def)
  with l show "db_ok demo_shared" by (simp add: db_ok_def) (simp add: demo_shared_def new_database_def Let_def outbox_ok_def)
  show "books_apart (led demo_shared)"
    using l by (simp add: books_apart_def) (simp add: entry_home_def demo_shared_def new_database_def Let_def demo_row_def demo_head_def demo_leg_def)
qed

theorem reset_erases_one_tenant_witness:
  "\<exists>counts s'. cmd_reset (Some ''t'') demo_shared = (Inr (Some (''t'', counts)), s')
     \<and> dget counts ''entries'' = Some (length (entries (led demo_shared)) - length (entries (led s')))
     \<and> account_balance ''c'' (led s') = account_balance ''c'' (led demo_shared)
     \<and> account_balance ''a'' (led s') = Inr \<lparr>b_currency = ''usd'', b_balance = 0, b_snapshot_cursor = Some 0, b_cursor = 0\<rparr>
     \<and> pg_poll LEDGER_EVENTS ''g'' 500 (strm demo_shared) \<noteq> [] \<and> pg_poll LEDGER_EVENTS ''g'' 500 (strm s') = []"
proof -
  have t: "tenant_or_default (Some ''t'') demo_shared = Some ''t''" by (simp add: tenant_or_default_def)
  have polled: "pg_poll LEDGER_EVENTS ''g'' 500 (strm demo_shared) \<noteq> []"
    by (simp add: pg_poll_def demo_shared_def Let_def new_database_def pg_publish_def pg_offset_def)
  have a: "accounts (led demo_shared) = [demo_row ''a'' ''t'' ASSET, demo_row ''b'' ''t'' EXPENSE, demo_row ''c'' ''u'' ASSET,
       demo_row ''d'' ''u'' EXPENSE]" by (simp add: demo_shared_def Let_def)
  from reset_erases_one_tenant [OF demo_shared_ok t, unfolded a] polled show ?thesis
    by (auto simp: demo_row_def)
qed

theorem snapshots_bound_the_tail_witness:
  "\<exists>s'. cmd_snapshot 1 demo_shared = (Inr 4, s') \<and> map s_account (snapshots (led s')) = [''a'', ''b'', ''c'', ''d'']
     \<and> map s_balance (snapshots (led s')) = [- 450, 450, - 450, 450]
     \<and> uncovered ''b'' (led s') = [] \<and> seen_balance (account_balance ''b'' (led s')) = Inr (''usd'', 450, 1)"
proof -
  note defs = demo_shared_def Let_def new_database_def demo_row_def demo_leg_def
  have stale: "stale_accounts 1 (led demo_shared) = [''a'', ''b'', ''c'', ''d'']"
    by (simp add: stale_accounts_def uncovered_def newest_snapshot_def defs)
  have none: "snapshots (led demo_shared) = []" by (simp add: defs)
  have rows: "accounts (led demo_shared) = [demo_row ''a'' ''t'' ASSET, demo_row ''b'' ''t'' EXPENSE, demo_row ''c'' ''u'' ASSET,
       demo_row ''d'' ''u'' EXPENSE]" by (simp add: demo_shared_def Let_def)
  have sums: "sum_signed (a_normal a) (filter (\<lambda>e. e_account e = a_id a) (entries (led demo_shared)))
      = (if a_id a \<in> {''a'', ''c''} then - 450 else 450)" if "a \<in> set (accounts (led demo_shared))" for a
    using that unfolding rows by (auto simp: defs signed_minor_def normal_balance_def)
  have fits: "\<forall>a \<in> set (accounts (led demo_shared)). a_id a \<in> set (stale_accounts 1 (led demo_shared)) \<longrightarrow>
      in_bigint (sum_signed (a_normal a) (filter (\<lambda>e. e_account e = a_id a) (entries (led demo_shared))))"
    using sums by (auto simp: in_bigint_def)
  have b: "seen_balance (account_balance ''b'' (led demo_shared)) = Inr (''usd'', 450, 1)"
    by (simp add: seen_balance_def account_balance_def newest_snapshot_def to_bigint_def in_bigint_def signed_minor_def
        max_id_def normal_balance_def defs)
  obtain snaps s' where g: "cmd_snapshot 1 demo_shared = (Inr (length (stale_accounts 1 (led demo_shared))), s')"
    "led s' = (led demo_shared)\<lparr>snapshots := snapshots (led demo_shared) @ snaps\<rparr>"
    "map s_account snaps = stale_accounts 1 (led demo_shared)"
    "\<forall>row \<in> set snaps. \<forall>a \<in> set (accounts (led demo_shared)). a_id a = s_account row \<longrightarrow>
       s_balance row = sum_signed (a_normal a) (filter (\<lambda>e. e_account e = a_id a) (entries (led demo_shared)))"
    "\<forall>a \<in> set (accounts (led demo_shared)).
       uncovered (a_id a) (led s') = [] \<or> int (length (uncovered (a_id a) (led s'))) < 1"
    "\<forall>i. seen_balance (account_balance i (led s')) = seen_balance (account_balance i (led demo_shared))"
    using snapshots_bound_the_tail [OF demo_shared_ok(1), of 1] unfolding if_P [OF fits] by blast
  have bal: "\<forall>row \<in> set snaps. \<forall>a \<in> set (accounts (led demo_shared)). a_id a = s_account row \<longrightarrow>
      s_balance row = (if a_id a \<in> {''a'', ''c''} then - 450 else 450)"
  proof (intro ballI impI)
    fix row a assume "row \<in> set snaps" and a: "a \<in> set (accounts (led demo_shared))" and "a_id a = s_account row"
    then have "s_balance row = sum_signed (a_normal a) (filter (\<lambda>e. e_account e = a_id a) (entries (led demo_shared)))"
      using g(4) by blast
    then show "s_balance row = (if a_id a \<in> {''a'', ''c''} then - 450 else 450)" using sums [OF a] by (simp only:)
  qed
  have "map s_account snaps = [''a'', ''b'', ''c'', ''d'']" using g(3) stale by simp
  then obtain w x y z where four: "snaps = [w, x, y, z]" "s_account w = ''a''" "s_account x = ''b''" "s_account y = ''c''"
    "s_account z = ''d''" by (auto simp: map_eq_Cons_conv)
  have "map s_balance snaps = [- 450, 450, - 450, 450]"
    using bal unfolding rows four(1) by (simp add: four(2-5) demo_row_def)
  moreover have "uncovered ''b'' (led s') = []" using g(5) unfolding rows by (auto simp: demo_row_def)
  ultimately show ?thesis using g(1-3,6) stale none b by simp
qed

section \<open>The chart\<close>

definition externals_ok :: "ledger_tables \<Rightarrow> bool" where
  "externals_ok l \<longleftrightarrow> distinct (map (\<lambda>a. (a_tenant a, a_mode a, a_external a)) (filter (\<lambda>a. a_external a \<noteq> None) (accounts l)))"

lemma account_create_externals:
  "account_create now i tenant mode name ty cur ext minimum md l = (Inr row, l') \<Longrightarrow> externals_ok l \<Longrightarrow> externals_ok l'"
  using account_create_Inr [of now i tenant mode name ty cur ext minimum md l row l']
  by (auto simp: externals_ok_def)

lemma keeps_externals:
  "keeps (\<lambda>s. externals_ok (led s)) (on_led (account_create now i tenant mode name ty cur ext minimum md))"
proof (rule keeps_on(1), rule keepsI)
  fix l r l'
  assume "externals_ok l" "account_create now i tenant mode name ty cur ext minimum md l = (r, l')"
  then show "externals_ok l'" using account_create_externals account_create_Inl by (cases r) metis+
qed

lemma ensure_externals: "keeps (\<lambda>s. externals_ok (led s)) (ensure_accounts have tenant mode filled rows)"
proof (induction rows arbitrary: filled)
  case Nil
  then show ?case by (simp add: keeps_def)
next
  case (Cons r rows)
  have "keeps (\<lambda>s. externals_ok (led s)) (ensure_account have tenant mode filled r)"
    unfolding ensure_account_def by (intro keeps_externals keeps_intros)
  with Cons show ?case by (simp add: keeps_bind)
qed

lemma find_mem: "List.find P xs = Some x \<Longrightarrow> x \<in> set xs"
  by (metis find_Some_iff nth_mem)

lemma find_tenant_mem: "find_tenant tenant name t = Some i \<Longrightarrow> i \<in> fst ` set (tenant_names t)"
  by (cases tenant) (auto simp: find_tenant_def image_iff split: if_splits dest!: map_of_SomeD find_mem, force+)

lemma insert_tenant_externals: "keeps (\<lambda>s. externals_ok (led s)) (insert_tenant i name)"
proof -
  have "keeps externals_ok (writes (\<lambda>l. l\<lparr>tenants := tenants l @ [i]\<rparr>))"
    by (rule keeps_writes) (simp add: externals_ok_def)
  then have "keeps (\<lambda>s. externals_ok (led s)) (on_led (writes (\<lambda>l. l\<lparr>tenants := tenants l @ [i]\<rparr>)))" by (rule keeps_on)
  then show ?thesis unfolding insert_tenant_def by - (rule keeps_bind keeps_basic keeps_led_frame | assumption)+
qed

lemma bootstrap_externals:
  "keeps (\<lambda>s. externals_ok (led s))
       (bind_op (tenant_for tenant name) (\<lambda>(i, reused).
        bind_op (create_keys sha256 token i) (\<lambda>keys.
        bind_op (backfill i TEST ([], 0)) (\<lambda>test.
        bind_op (backfill i LIVE test) (\<lambda>(accts, created).
        ret_op \<lparr>bo_reused = reused, bo_tenant = i, bo_keys = keys, bo_accounts = accts, bo_added = created\<rparr>)))))"
  unfolding tenant_for_def create_keys_def create_key_def backfill_def Let_def
  by (intro insert_tenant_externals ensure_externals keeps_intros)

lemma complete_of_charted:
  assumes "charted l t TEST DEFAULT_ACCOUNTS" "externals_ok l"
  shows "complete_chart l t"
proof -
  let ?req = "map external_of DEFAULT_ACCOUNTS"
  let ?P = "\<lambda>a. a_tenant a = t \<and> a_mode a = TEST \<and> (case a_external a of None \<Rightarrow> False | Some e \<Rightarrow> e \<in> set ?req)"
  let ?as = "filter ?P (accounts l)"
  let ?key = "\<lambda>a. (a_tenant a, a_mode a, a_external a)"
  have "filter ?P (filter (\<lambda>a. a_external a \<noteq> None) (accounts l)) = ?as"
    unfolding filter_filter by (rule filter_cong) (auto split: option.splits)
  moreover have "distinct (map ?key (filter ?P (filter (\<lambda>a. a_external a \<noteq> None) (accounts l))))"
    by (rule distinct_map_filter [OF assms(2) [unfolded externals_ok_def]])
  ultimately have "distinct (map ?key ?as)" by (simp only:)
  moreover have "map ?key ?as = map (\<lambda>e. (t, TEST, e)) (map a_external ?as)" by simp
  ultimately have "distinct (map (\<lambda>e. (t, TEST, e)) (map a_external ?as))" by argo
  then have d: "distinct (map a_external ?as)" unfolding distinct_map [of "\<lambda>e. (t, TEST, e)"] by (rule conjunct1)
  have "a_external ` set ?as = Some ` set ?req"
  proof
    show "a_external ` set ?as \<subseteq> Some ` set ?req" by (auto split: option.splits)
    show "Some ` set ?req \<subseteq> a_external ` set ?as"
    proof
      fix x assume "x \<in> Some ` set ?req"
      then obtain r where r: "r \<in> set DEFAULT_ACCOUNTS" "x = Some (external_of r)" by auto
      with assms(1) obtain a where "account_get_by_external (external_of r) t TEST l = Some a" by (auto simp: charted_def)
      then have "a \<in> set ?as" "a_external a = x" using r by (auto simp: account_get_by_external_def find_Some_iff)
      then show "x \<in> a_external ` set ?as" by blast
    qed
  qed
  then have "card (set (map a_external ?as)) = card (set (map Some ?req))" by (simp only: set_map)
  moreover have "distinct (map Some ?req)" using default_externals(1) by (simp add: distinct_map inj_on_def)
  ultimately have "length ?as = length DEFAULT_ACCOUNTS"
    using distinct_card [OF d] distinct_card [of "map Some ?req"] by simp
  then show ?thesis unfolding complete_chart_def .
qed

text \<open>
  A bootstrapped tenant is one the other commands can use: when the command returns, the tenant has the whole
  chart in test mode, no external id is used twice, some tenant is found by default, and a tenant that the
  command created is the one found.
\<close>

theorem bootstrapped_tenant_is_default:
  assumes "cmd_bootstrap sha256 token tenant name s = (Inr out, s')" "externals_ok (led s)"
  shows "complete_chart (led s') (bo_tenant out) \<and> externals_ok (led s')
     \<and> default_tenant s' \<noteq> None \<and> (bo_reused out \<or> default_tenant s' = Some (bo_tenant out))"
proof -
  let ?t = "bo_tenant out"
  obtain s1 where b: "find_tenant tenant name (sid s') = Some ?t" "charted (led s') ?t TEST DEFAULT_ACCOUNTS"
    "tenant_for tenant name (s\<lparr>tx_now := wall s\<rparr>) = (Inr (?t, bo_reused out), s1)"
    "tenant_names (sid s') = tenant_names (sid s1)"
    by (rule cmd_bootstrap_Inr [OF assms(1)])
  have ext: "externals_ok (led s')"
    using keepsD [OF bootstrap_externals _ conjunct1 [OF assms(1) [unfolded cmd_bootstrap_def unit_of_work_Inr_iff]]] assms(2)
    by simp
  have complete: "complete_chart (led s') ?t" by (rule complete_of_charted [OF b(2) ext])
  have "?t \<in> fst ` set (tenant_names (sid s'))"
    by (rule find_tenant_mem [OF b(1)])
  then have "?t \<in> set (map fst (rev (tenant_names (sid s'))))" by simp
  then have some: "default_tenant s' \<noteq> None" using complete by (metis default_tenant_def find_None_iff)
  have "default_tenant s' = Some ?t" if "\<not> bo_reused out"
    using tenant_for_Inr(4) [OF b(3) that] b(4) complete by (simp add: default_tenant_def)
  with complete ext some show ?thesis by blast
qed

theorem bootstrapped_tenant_is_default_witness:
  "\<exists>out s'. cmd_bootstrap id (\<lambda>_. ''a'') (Some ''t'') ''Demo'' demo_office = (Inr out, s')
     \<and> bo_tenant out = ''t'' \<and> complete_chart (led s') ''t'' \<and> default_tenant s' \<noteq> None"
proof -
  define key where "key = (\<lambda>g. snd (new_id ''key'' g))"
  let ?u = "demo_office\<lparr>tx_now := wall demo_office\<rparr>"
  have start: "idg ?u = demo_clock" "api_keys (sid ?u) = []" "tenants (led ?u) = [''t'']"
    by (simp_all add: demo_office_def new_database_def no_side_tables_def Let_def)
  have new: "new_id ''key'' g = (fst (new_id ''key'' g), key g)" for g by (simp add: key_def)
  have ids: "fst (new_id ''key'' demo_clock) \<noteq> fst (new_id ''key'' (key demo_clock))"
    unfolding key_def by code_simp
  have hashes: "id (generate_key ''a'' TEST) \<noteq> id (generate_key ''a'' LIVE)" by code_simp
  obtain keys v where k: "create_keys id (\<lambda>_. ''a'') ''t'' ?u = (Inr keys, v)"
    using create_keys_run [of ?u, unfolded start(1), OF new new ids, of id "\<lambda>_. ''a''" "''t''"] hashes start(2,3) by auto
  from bootstrap_there [OF demo_office_charted(5,1-4) k] obtain out where
    run: "cmd_bootstrap id (\<lambda>_. ''a'') (Some ''t'') ''Demo'' demo_office = (Inr out, v)" and out: "bo_tenant out = ''t''"
    by fastforce
  have "externals_ok (led demo_office)" by code_simp
  from bootstrapped_tenant_is_default [OF run this] run out show ?thesis by auto
qed

end
