(* ===== verification/Migrations.thy ===== *)
theory Migrations
  imports Errors
begin

text \<open>
  \<open>adapters/db.py\<close>, \<open>migrate\<close>: the SQL files of a directory, applied in the order of their names, each once.
  What a file's SQL does to the schema is the parameter \<open>run_sql\<close>; the table \<open>schema_migrations\<close> is the list of the
  names in it, absent before the first run. The driver opens a transaction at the first statement after the
  commit, the \<open>SELECT\<close>; \<open>conn.transaction()\<close> inside an open transaction is a savepoint, and the
  connection's context commits at its end and rolls everything back when an exception leaves it.
\<close>

record 'd migration_state =
  mg_table :: "string list option"
  mg_schema :: 'd

type_synonym sql_file = "string \<times> string"  \<comment> \<open>name and text\<close>

definition create_if_missing :: "'d migration_state \<Rightarrow> 'd migration_state" where
  "create_if_missing st = st\<lparr>mg_table := Some (case mg_table st of None \<Rightarrow> [] | Some d \<Rightarrow> d)\<rparr>"

definition applied_names :: "'d migration_state \<Rightarrow> string list" where
  "applied_names st = (case mg_table st of None \<Rightarrow> [] | Some d \<Rightarrow> d)"

text \<open>The body of the savepoint: the file, then its name, which is a primary key.\<close>

definition apply_file :: "(string \<Rightarrow> 'd \<Rightarrow> exn + 'd) \<Rightarrow> sql_file \<Rightarrow> 'd migration_state \<Rightarrow> exn + 'd migration_state" where
  "apply_file run_sql f st =
     bind_r (run_sql (snd f) (mg_schema st)) (\<lambda>schema.
     raise_if (fst f \<in> set (applied_names st)) (DbExn UniqueViolation)
       (Inr (st\<lparr>mg_schema := schema, mg_table := Some (applied_names st @ [fst f])\<rparr>)))"

text \<open>The loop; \<open>before\<close> is the set of names read before it.\<close>

fun apply_files :: "(string \<Rightarrow> 'd \<Rightarrow> exn + 'd) \<Rightarrow> string set \<Rightarrow> sql_file list \<Rightarrow> string list \<Rightarrow> 'd migration_state
    \<Rightarrow> exn + string list \<times> 'd migration_state" where
  "apply_files run_sql before [] applied st = Inr (applied, st)"
| "apply_files run_sql before (f # fs) applied st =
     (if fst f \<in> before then apply_files run_sql before fs applied st
      else bind_r (apply_file run_sql f st) (\<lambda>st'. apply_files run_sql before fs (applied @ [fst f]) st'))"

definition migrate :: "(string \<Rightarrow> 'd \<Rightarrow> exn + 'd) \<Rightarrow> sql_file list \<Rightarrow> 'd migration_state
    \<Rightarrow> (exn + string list) \<times> 'd migration_state" where
  "migrate run_sql directory st =
     (let committed = create_if_missing st in
      case apply_files run_sql (set (applied_names committed)) (sort_key fst directory) [] committed of
        Inl e \<Rightarrow> (Inl e, committed)
      | Inr (applied, st') \<Rightarrow> (Inr applied, st'))"

section \<open>What a run applies\<close>

text \<open>The effect of the files' SQL, one after the other.\<close>

fun run_all :: "(string \<Rightarrow> 'd \<Rightarrow> exn + 'd) \<Rightarrow> sql_file list \<Rightarrow> 'd \<Rightarrow> exn + 'd" where
  "run_all run_sql [] d = Inr d"
| "run_all run_sql (f # fs) d = bind_r (run_sql (snd f) d) (run_all run_sql fs)"

lemma apply_files_eq:
  assumes "distinct (map fst fs)" "set (applied_names st) \<inter> fst ` set (filter (\<lambda>f. fst f \<notin> before) fs) = {}"
  shows "apply_files run_sql before fs applied st =
     (let todo = filter (\<lambda>f. fst f \<notin> before) fs in
      bind_r (run_all run_sql todo (mg_schema st)) (\<lambda>schema.
      Inr (applied @ map fst todo,
           if todo = [] then st else st\<lparr>mg_schema := schema, mg_table := Some (applied_names st @ map fst todo)\<rparr>)))"
  using assms
proof (induction fs arbitrary: applied st)
  case Nil
  then show ?case by simp
next
  case (Cons f fs)
  show ?case
  proof (cases "fst f \<in> before")
    case True
    with Cons show ?thesis by simp
  next
    case False
    show ?thesis
    proof (cases "run_sql (snd f) (mg_schema st)")
      case (Inl e)
      with False show ?thesis by (simp add: apply_file_def Let_def)
    next
      case (Inr d)
      let ?st = "st\<lparr>mg_schema := d, mg_table := Some (applied_names st @ [fst f])\<rparr>"
      have names: "applied_names ?st = applied_names st @ [fst f]" by (simp add: applied_names_def)
      have "set (applied_names ?st) \<inter> fst ` set (filter (\<lambda>f. fst f \<notin> before) fs) = {}"
        using Cons.prems False unfolding names by auto
      from Cons.IH [OF _ this, of "applied @ [fst f]"] Cons.prems False Inr show ?thesis
        by (cases "run_all run_sql (filter (\<lambda>f. fst f \<notin> before) fs) d")
          (auto simp: apply_file_def Let_def names raise_if_def)
    qed
  qed
qed

lemma sorted_names:
  "distinct (map fst fs) \<Longrightarrow> distinct (map fst (sort_key fst fs))" for fs :: "sql_file list"
  by (simp add: distinct_map)

lemma migrate_eq:
  assumes "distinct (map fst directory)"
  shows "migrate run_sql directory st =
     (let todo = filter (\<lambda>f. fst f \<notin> set (applied_names st)) (sort_key fst directory);
          committed = create_if_missing st in
      case run_all run_sql todo (mg_schema st) of
        Inl e \<Rightarrow> (Inl e, committed)
      | Inr schema \<Rightarrow> (Inr (map fst todo),
          if todo = [] then committed
          else committed\<lparr>mg_schema := schema, mg_table := Some (applied_names st @ map fst todo)\<rparr>))"
proof -
  let ?c = "create_if_missing st"
  have c: "applied_names ?c = applied_names st" "mg_schema ?c = mg_schema st"
    by (simp_all add: create_if_missing_def applied_names_def)
  have "set (applied_names ?c) \<inter> fst ` set (filter (\<lambda>f. fst f \<notin> set (applied_names ?c)) (sort_key fst directory)) = {}"
    by auto
  from apply_files_eq [OF sorted_names [OF assms] this, of run_sql "[]"] show ?thesis
    by (simp add: migrate_def c Let_def split: sum.splits)
qed

section \<open>Properties\<close>

text \<open>
  C32. Migrations are applied once, in order, and all together: a run applies exactly the files that are not yet
  recorded, in the order of their names, and records them, and running again applies nothing and changes
  nothing; when one file fails, none of the run's files is applied or recorded, the earlier ones included.
\<close>

theorem migrate_applies_once:
  assumes "distinct (map fst directory)"
  shows "let todo = filter (\<lambda>f. fst f \<notin> set (applied_names st)) (sort_key fst directory) in
     case run_all run_sql todo (mg_schema st) of
       Inl e \<Rightarrow> migrate run_sql directory st = (Inl e, create_if_missing st)
     | Inr schema \<Rightarrow> \<exists>st'. migrate run_sql directory st = (Inr (map fst todo), st') \<and> mg_schema st' = schema
         \<and> applied_names st' = applied_names st @ map fst todo \<and> migrate run_sql directory st' = (Inr [], st')"
proof -
  let ?todo = "\<lambda>st. filter (\<lambda>f. fst f \<notin> set (applied_names st)) (sort_key fst directory)"
  have again: "migrate run_sql directory st' = (Inr [], st')" if "?todo st' = []" "create_if_missing st' = st'" for st'
    using that by (simp add: migrate_eq [OF assms])
  show ?thesis
  proof (cases "run_all run_sql (?todo st) (mg_schema st)")
    case (Inl e)
    then show ?thesis by (simp add: migrate_eq [OF assms])
  next
    case (Inr schema)
    let ?st = "if ?todo st = [] then create_if_missing st
      else (create_if_missing st)\<lparr>mg_schema := schema, mg_table := Some (applied_names st @ map fst (?todo st))\<rparr>"
    have names: "applied_names ?st = applied_names st @ map fst (?todo st)"
      by (auto simp: applied_names_def create_if_missing_def)
    have "?todo ?st = []" unfolding names by (auto simp: filter_empty_conv)
    moreover have "create_if_missing ?st = ?st" by (auto simp: create_if_missing_def)
    moreover have "mg_schema ?st = schema" using Inr by (auto simp: create_if_missing_def)
    ultimately show ?thesis using again [of ?st] names Inr
      by (simp only: Let_def migrate_eq [OF assms, of run_sql st] sum.case) blast
  qed
qed

text \<open>A schema of statements, and a directory listed out of order whose first file is applied already.\<close>

theorem migrate_applies_once_witness:
  "let run_sql = (\<lambda>text d. if text = ''bad'' then Inl (DbExn CheckViolation) else Inr (d @ [text]));
       st = \<lparr>mg_table = Some [''001''], mg_schema = [''one'']\<rparr>;
       (r, st') = migrate run_sql [(''003'', ''three''), (''001'', ''one''), (''002'', ''two'')] st in
   r = Inr [''002'', ''003''] \<and> mg_schema st' = [''one'', ''two'', ''three'']
   \<and> migrate run_sql [(''003'', ''bad''), (''001'', ''one''), (''002'', ''two'')] st
       = (Inl (DbExn CheckViolation), st)"
proof -
  let ?run = "\<lambda>text d. if text = ''bad'' then Inl (DbExn CheckViolation) else Inr (d @ [text])"
  let ?st = "\<lparr>mg_table = Some [''001''], mg_schema = [''one'']\<rparr>"
  let ?good = "[(''003'', ''three''), (''001'', ''one''), (''002'', ''two'')]"
  let ?bad = "[(''003'', ''bad''), (''001'', ''one''), (''002'', ''two'')]"
  have "distinct (map fst ?good)" "distinct (map fst ?bad)" by simp_all
  from migrate_applies_once [OF this(1), of ?st ?run] migrate_applies_once [OF this(2), of ?st ?run]
  show ?thesis by (auto simp: applied_names_def create_if_missing_def)
qed

end
