(* ===== verification/Loadgen.thy ===== *)
theory Loadgen
  imports Resolve Cli
begin

text \<open>
  \<open>loadgen.py\<close>, \<open>_timeline\<close>: one person's financial history. Times are microseconds of UTC, days of the
  proleptic Gregorian calendar. The random source is a record of functions of the number of the draw: below a
  bound (\<open>_randbelow\<close>, from which the library makes \<open>randint\<close> and \<open>choice\<close>, and which is reduced modulo the
  bound here), in the unit interval (from which it makes \<open>uniform\<close> and \<open>choices\<close>) and normal. Floats are real
  numbers, and how a return is printed in a note is a parameter.
\<close>

section \<open>The calendar\<close>

definition DAY :: int where "DAY = 86400000000"
definition MINUTE :: int where "MINUTE = 60000000"

text \<open>\<open>date.day\<close> of a day counted from 1970-01-01, in years that begin on 1 March.\<close>

definition day_of_month :: "int \<Rightarrow> int" where
  "day_of_month z =
     (let doe = (z + 719468) mod 146097;
          yoe = (doe - doe div 1460 + doe div 36524 - doe div 146096) div 365;
          doy = doe - (365 * yoe + yoe div 4 - yoe div 100);
          mp = (5 * doy + 2) div 153
      in doy - (153 * mp + 2) div 5 + 1)"

text \<open>\<open>t.replace(day=d)\<close> for a day every month has, and \<open>t.replace(hour=h, minute=m)\<close>.\<close>

definition at_day :: "int \<Rightarrow> int \<Rightarrow> int" where
  "at_day d t = t + (d - day_of_month (t div DAY)) * DAY"

definition at_time :: "int \<Rightarrow> int \<Rightarrow> int \<Rightarrow> int" where
  "at_time h m t = t div DAY * DAY + (h * 60 + m) * MINUTE + t mod MINUTE"

text \<open>\<open>timedelta(days=x)\<close>.\<close>

definition span :: "real \<Rightarrow> int" where
  "span x = round_even (x * of_int DAY)"

lemma day_of_month_range: "1 \<le> day_of_month z \<and> day_of_month z \<le> 31"
proof -
  have r: "1 \<le> doy - (153 * mp + 2) div 5 + 1 \<and> doy - (153 * mp + 2) div 5 + 1 \<le> 31"
    if "mp = (5 * doy + 2) div 153" for doy mp :: int
  proof -
    have "153 * mp \<le> 5 * doy + 2" "5 * doy + 2 < 153 * mp + 153"
      using div_mult_mod_eq [of "5 * doy + 2" 153] pos_mod_bound [of 153 "5 * doy + 2"] pos_mod_sign [of 153 "5 * doy + 2"]
      unfolding that by linarith+
    moreover define q where "q = (153 * mp + 2) div 5"
    moreover have "5 * q \<le> 153 * mp + 2" "153 * mp + 2 < 5 * q + 5"
      using div_mult_mod_eq [of "153 * mp + 2" 5] pos_mod_bound [of 5 "153 * mp + 2"] pos_mod_sign [of 5 "153 * mp + 2"]
      unfolding q_def by linarith+
    ultimately show ?thesis by linarith
  qed
  show ?thesis unfolding day_of_month_def Let_def by (rule r [OF refl])
qed

definition next_month :: "int \<Rightarrow> int" where
  "next_month month = at_day 1 (month + 32 * DAY)"

lemma next_month_later: "month < next_month month"
  using day_of_month_range [of "(month + 32 * DAY) div DAY"] by (simp add: next_month_def at_day_def DAY_def)

text \<open>The months of \<open>while month < end\<close>.\<close>

function month_starts :: "int \<Rightarrow> int \<Rightarrow> int list" where
  "month_starts till month = (if month < till then month # month_starts till (next_month month) else [])"
  by pat_completeness auto
termination
  by (relation "measure (\<lambda>(till, month). nat (till - month))") (simp_all add: next_month_later)

declare month_starts.simps [simp del]

section \<open>The random source\<close>

record random =
  rg_below :: "nat \<Rightarrow> nat \<Rightarrow> nat"
  rg_unit :: "nat \<Rightarrow> real"
  rg_gauss :: "nat \<Rightarrow> real \<Rightarrow> real \<Rightarrow> real"
  rg_percent :: "real \<Rightarrow> string"  \<comment> \<open>\<open>f"{x:+.2%}"\<close>\<close>

type_synonym 'a gen = "nat \<Rightarrow> 'a \<times> nat"

definition randint :: "random \<Rightarrow> int \<Rightarrow> int \<Rightarrow> int gen" where
  "randint rng a b n = (let w = nat (b - a + 1) in (a + int (rg_below rng n w mod w), Suc n))"

definition choice :: "random \<Rightarrow> 'a list \<Rightarrow> 'a gen" where
  "choice rng xs n = (xs ! (rg_below rng n (length xs) mod length xs), Suc n)"

definition unit_draw :: "random \<Rightarrow> real gen" where
  "unit_draw rng n = (rg_unit rng n, Suc n)"

definition uniform :: "random \<Rightarrow> real \<Rightarrow> real \<Rightarrow> real gen" where
  "uniform rng a b n = (a + (b - a) * rg_unit rng n, Suc n)"

definition gauss :: "random \<Rightarrow> real \<Rightarrow> real \<Rightarrow> real gen" where
  "gauss rng mu sigma n = (rg_gauss rng n mu sigma, Suc n)"

fun choices :: "random \<Rightarrow> 'a list \<Rightarrow> nat \<Rightarrow> 'a list gen" where
  "choices rng xs 0 n = ([], n)"
| "choices rng xs (Suc k) n =
     (let (ys, n') = choices rng xs k (Suc n) in (xs ! nat \<lfloor>rg_unit rng n * of_nat (length xs)\<rfloor> # ys, n'))"

definition CODE :: string where "CODE = ''ABCDEFGHJKLMNPQRSTUVWXYZ0123456789''"

text \<open>\<open>template.format(n=..., code=...)\<close> of a template with no other braces.\<close>

fun fill :: "string \<Rightarrow> string \<Rightarrow> string \<Rightarrow> string" where
  "fill num code [] = []"
| "fill num code (c # cs) =
     (if starts_with ''{n}'' (c # cs) then num @ fill num code (drop 2 cs)
      else if starts_with ''{code}'' (c # cs) then code @ fill num code (drop 5 cs)
      else c # fill num code cs)"

definition descriptor_of :: "random \<Rightarrow> string \<Rightarrow> string gen" where
  "descriptor_of rng template n =
     (let (k, n1) = randint rng 1000 99999 n; (code, n2) = choices rng CODE 9 n1 in
      (fill (show_int k) code template, n2))"

section \<open>What this person buys\<close>

definition HABITS :: "(string \<times> string \<times> int \<times> int \<times> real) list" where
  "HABITS =
     [(''SQ *TST* STARBUCKS 800-782-7282 CA'', ''food'', 450, 850, 14 / 10),
      (''CHIPOTLE {n} AUSTIN TX'', ''food'', 1100, 1800, 4),
      (''TST* PINTHOUSE PIZZA AUSTIN'', ''food'', 1800, 4200, 9),
      (''WHOLEFDS MKT #{n} AUSTIN TX'', ''groceries'', 4200, 14500, 7),
      (''H-E-B #{n} AUSTIN TX'', ''groceries'', 3100, 11200, 5),
      (''AMZN Mktp US*{code}'', ''shopping'', 1200, 8900, 3),
      (''TARGET        T-{n}'', ''shopping'', 2200, 12000, 11),
      (''UBER   *TRIP HELP.UBER.COM CA'', ''transport'', 900, 3400, 6),
      (''SHELL OIL {n} HOUSTON TX'', ''transport'', 3500, 7200, 9),
      (''CVS/PHARMACY #{n}'', ''health'', 800, 4500, 14),
      (''STEAMGAMES.COM 4259522985 WA'', ''entertainment'', 999, 5999, 21)]"

definition SUBSCRIPTIONS :: "(string \<times> string \<times> int) list" where
  "SUBSCRIPTIONS =
     [(''NETFLIX.COM 866-579-7172 CA'', ''subscriptions'', 1599),
      (''SPOTIFY USA 8887771111 NY'', ''subscriptions'', 1199),
      (''AT&T *PAYMENT 800-288-2020 TX'', ''bills'', 8500),
      (''COMCAST CABLE COMM 800-COMCAST'', ''bills'', 7999)]"

definition UNKNOWN :: "string list" where
  "UNKNOWN = [''SQ *BLUE BOTTLE 4411 OAKLAND CA'', ''PY *LOCAL FARMERS MKT'', ''ZELLE TO J SMITH {n}'',
              ''VENMO *ROOMMATE UTILITIES'']"

record event =
  ev_at :: int
  ev_kind :: string
  ev_accounts :: "(string, string) dict"
  ev_amount :: int
  ev_descriptor :: "string option"
  ev_note :: string

definition OPENING :: "(string, int) dict" where
  "OPENING = [(''checking'', 384000), (''savings'', 612000), (''investments'', 1140000), (''cash'', 8000)]"

section \<open>The parts of a life\<close>

definition opening_events :: "int \<Rightarrow> event list" where
  "opening_events start =
     map (\<lambda>(account, amount). \<lparr>ev_at = start - 5 * MINUTE, ev_kind = ''opening_balance'',
            ev_accounts = [(''destination'', account), (''equity'', ''opening'')], ev_amount = amount,
            ev_descriptor = None, ev_note = ''opening balance''\<rparr>)
       (filter (\<lambda>(account, amount). \<not> amount \<le> 0) OPENING)"

function paychecks :: "random \<Rightarrow> int \<Rightarrow> int \<Rightarrow> event list gen" where
  "paychecks rng till pay_day n =
     (if pay_day < till then
        let (minute, n1) = randint rng 0 40 n; (amount, n2) = randint rng 241000 289000 n1;
            (es, n3) = paychecks rng till (pay_day + 14 * DAY) n2 in
        (\<lparr>ev_at = at_time 6 minute pay_day, ev_kind = ''deposit'',
          ev_accounts = [(''destination'', ''checking''), (''income'', ''income'')], ev_amount = amount,
          ev_descriptor = None, ev_note = ''biweekly paycheck''\<rparr> # es, n3)
      else ([], n))"
  by pat_completeness auto
termination
  by (relation "measure (\<lambda>(rng, till, day, n). nat (till - day))") (simp_all add: DAY_def)

declare paychecks.simps [simp del]

definition rent_events :: "random \<Rightarrow> int \<Rightarrow> int \<Rightarrow> event list gen" where
  "rent_events rng start till n =
     (let (rent, n1) = choice rng [132500, 139500, 145000] n in
      (map (\<lambda>month. \<lparr>ev_at = at_time 9 5 month, ev_kind = ''card_purchase'',
              ev_accounts = [(''expense'', ''rent''), (''funding'', ''checking'')], ev_amount = rent,
              ev_descriptor = Some ''WEST CAMPUS PROPERTIES RENT'', ev_note = ''rent''\<rparr>)
         (filter (\<lambda>month. start \<le> at_time 9 5 month) (month_starts till (at_day 1 start))), n1))"

fun saving_events :: "random \<Rightarrow> int \<Rightarrow> int \<Rightarrow> int list \<Rightarrow> event list gen" where
  "saving_events rng start till [] n = ([], n)"
| "saving_events rng start till (month # months) n =
     (let when = at_time 7 0 (at_day 3 month) in
      if start \<le> when \<and> when < till then
        let (a, n1) = randint rng 35000 60000 n; (b, n2) = randint rng 25000 45000 n1;
            (es, n3) = saving_events rng start till months n2 in
        (\<lparr>ev_at = when, ev_kind = ''transfer'',
          ev_accounts = [(''source'', ''checking''), (''destination'', ''savings'')], ev_amount = a,
          ev_descriptor = None, ev_note = ''monthly savings''\<rparr> #
         \<lparr>ev_at = when + 3 * MINUTE, ev_kind = ''transfer'',
          ev_accounts = [(''source'', ''checking''), (''destination'', ''investments'')], ev_amount = b,
          ev_descriptor = None, ev_note = ''brokerage contribution''\<rparr> # es, n3)
      else saving_events rng start till months n)"

function charges :: "random \<Rightarrow> int \<Rightarrow> string \<times> string \<times> int \<Rightarrow> int \<Rightarrow> event list gen" where
  "charges rng till (template, account, amount) when n =
     (if when < till then
        let (minute, n1) = randint rng 0 59 n;
            (es, n2) = charges rng till (template, account, amount) (when + 30 * DAY) n1 in
        (\<lparr>ev_at = at_time 3 minute when, ev_kind = ''card_purchase'',
          ev_accounts = [(''expense'', account), (''funding'', ''card'')], ev_amount = amount,
          ev_descriptor = Some template, ev_note = ''subscription''\<rparr> # es, n2)
      else ([], n))"
  by pat_completeness auto
termination
  by (relation "measure (\<lambda>(rng, till, sub, when, n). nat (till - when))") (simp_all add: DAY_def)

declare charges.simps [simp del]

fun subscription_events :: "random \<Rightarrow> int \<Rightarrow> int \<Rightarrow> (string \<times> string \<times> int) list \<Rightarrow> event list gen" where
  "subscription_events rng start till [] n = ([], n)"
| "subscription_events rng start till (item # items) n =
     (let (d, n1) = randint rng 0 27 n; (es, n2) = charges rng till item (start + d * DAY) n1;
          (fs, n3) = subscription_events rng start till items n2 in (es @ fs, n3))"

text \<open>The step of a habit: half a day at least.\<close>

definition habit_step :: "random \<Rightarrow> real \<Rightarrow> int gen" where
  "habit_step rng cadence n = (let (x, n1) = gauss rng cadence (cadence * (35 / 100)) n in (span (max (1 / 2) x), n1))"

lemma round_even_mono: "of_int k \<le> x \<Longrightarrow> k \<le> round_even x"
proof -
  assume "of_int k \<le> x"
  then have "k \<le> \<lfloor>x\<rfloor>" by (simp add: le_floor_iff)
  then show ?thesis by (simp add: round_even_def Let_def)
qed

lemma habit_step_pos: "0 < fst (habit_step rng cadence n)"
proof -
  have "of_int (DAY div 2) \<le> max (1 / 2) x * of_int DAY" for x :: real
    by (cases "1 / 2 \<le> x") (simp_all add: max_def DAY_def)
  then have "DAY div 2 \<le> span (max (1 / 2) x)" for x unfolding span_def by (rule round_even_mono)
  then have "0 < span (max (1 / 2) x)" for x by (rule less_le_trans [rotated]) (simp add: DAY_def)
  then show ?thesis by (simp add: habit_step_def gauss_def)
qed

function habit_events :: "random \<Rightarrow> int \<Rightarrow> string \<times> string \<times> int \<times> int \<times> real \<Rightarrow> int \<Rightarrow> event list gen" where
  "habit_events rng till (template, account, low, high, cadence) when n =
     (if when < till then
        let when' = when + fst (habit_step rng cadence n); n1 = snd (habit_step rng cadence n) in
        if till \<le> when' then ([], n1)
        else
          let (u, n2) = unit_draw rng n1; (hour, n3) = randint rng 7 21 n2; (minute, n4) = randint rng 0 59 n3;
              (amount, n5) = randint rng low high n4; (text, n6) = descriptor_of rng template n5;
              (es, n7) = habit_events rng till (template, account, low, high, cadence) when' n6 in
          (\<lparr>ev_at = at_time hour minute when', ev_kind = ''card_purchase'',
            ev_accounts = [(''expense'', account), (''funding'', if u < 72 / 100 then ''card'' else ''checking'')],
            ev_amount = amount, ev_descriptor = Some text, ev_note = []\<rparr> # es, n7)
      else ([], n))"
  by pat_completeness auto
termination
  by (relation "measure (\<lambda>(rng, till, habit, when, n). nat (till - when))") (auto simp: habit_step_pos)

declare habit_events.simps [simp del]

fun everyday_events :: "random \<Rightarrow> int \<Rightarrow> int \<Rightarrow> (string \<times> string \<times> int \<times> int \<times> real) list \<Rightarrow> event list gen" where
  "everyday_events rng start till [] n = ([], n)"
| "everyday_events rng start till (habit # habits) n =
     (let (es, n1) = habit_events rng till habit start n; (fs, n2) = everyday_events rng start till habits n1 in
      (es @ fs, n2))"


text \<open>Marking the investments to market on the 27th; \<open>held\<close> is what is in them.\<close>

definition py_trunc :: "real \<Rightarrow> int" where
  "py_trunc x = (if x < 0 then - \<lfloor>- x\<rfloor> else \<lfloor>x\<rfloor>)"

definition contributions :: "event list \<Rightarrow> (int \<times> int) list" where
  "contributions es = sort (map (\<lambda>e. (ev_at e, ev_amount e))
     (filter (\<lambda>e. ev_kind e = ''transfer'' \<and> dget (ev_accounts e) ''destination'' = Some ''investments'') es))"

definition market_move :: "random \<Rightarrow> int \<Rightarrow> int \<Rightarrow> real \<Rightarrow> event list" where
  "market_move rng mark change monthly_return =
     (let note = ''market '' @ rg_percent rng monthly_return in
      if 0 < change then
        [\<lparr>ev_at = mark, ev_kind = ''deposit'', ev_accounts = [(''destination'', ''investments''), (''income'', ''gains'')],
          ev_amount = change, ev_descriptor = None, ev_note = note\<rparr>]
      else if change < 0 then
        [\<lparr>ev_at = mark, ev_kind = ''card_purchase'', ev_accounts = [(''expense'', ''losses''), (''funding'', ''investments'')],
          ev_amount = - change, ev_descriptor = None, ev_note = note\<rparr>]
      else [])"

fun market_events :: "random \<Rightarrow> int \<Rightarrow> int \<Rightarrow> (int \<times> int) list \<Rightarrow> int \<Rightarrow> int list \<Rightarrow> event list gen" where
  "market_events rng start till contribs held [] n = ([], n)"
| "market_events rng start till contribs held (month # months) n =
     (let mark = at_time 16 0 (at_day 27 month) in
      if till \<le> mark then ([], n)
      else
        let held = held + sum_list (map snd (takeWhile (\<lambda>c. fst c \<le> mark) contribs));
            contribs = dropWhile (\<lambda>c. fst c \<le> mark) contribs in
        if start \<le> mark \<and> 0 < held then
          let (monthly_return, n1) = gauss rng (65 / 10000) (42 / 1000) n;
              change = py_trunc (of_int held * monthly_return);
              (es, n2) = market_events rng start till contribs (held + change) months n1 in
          (market_move rng mark change monthly_return @ es, n2)
        else market_events rng start till contribs held months n)"

text \<open>The cash purchases that follow a withdrawal.\<close>

fun cash_purchases :: "random \<Rightarrow> int \<Rightarrow> int \<Rightarrow> nat \<Rightarrow> event list gen" where
  "cash_purchases rng till when 0 n = ([], n)"
| "cash_purchases rng till when (Suc k) n =
     (let (x, n1) = uniform rng (2 / 10) 9 n; spent = when + span x in
      if till \<le> spent then ([], n1)
      else
        let (expense, n2) = choice rng [''food'', ''general'', ''transport''] n1;
            (amount, n3) = randint rng 400 2500 n2; (es, n4) = cash_purchases rng till when k n3 in
        (\<lparr>ev_at = spent, ev_kind = ''card_purchase'', ev_accounts = [(''expense'', expense), (''funding'', ''cash'')],
          ev_amount = amount, ev_descriptor = None, ev_note = ''cash''\<rparr> # es, n4))"

definition withdrawal :: "random \<Rightarrow> int \<Rightarrow> int \<Rightarrow> event list gen" where
  "withdrawal rng till when n =
     (let (minute, n1) = randint rng 0 59 n; (amount, n2) = choice rng [4000, 6000, 10000] n1;
          (k, n3) = randint rng 1 3 n2; (es, n4) = cash_purchases rng till when (nat k) n3 in
      (\<lparr>ev_at = at_time 12 minute when, ev_kind = ''transfer'',
        ev_accounts = [(''source'', ''checking''), (''destination'', ''cash'')], ev_amount = amount,
        ev_descriptor = None, ev_note = ''ATM withdrawal''\<rparr> # es, n4))"

lemma randint_range: "a \<le> b \<Longrightarrow> a \<le> fst (randint rng a b n) \<and> fst (randint rng a b n) \<le> b"
proof -
  let ?w = "b - a + 1"
  assume "a \<le> b"
  then have "rg_below rng n (nat ?w) mod nat ?w < nat ?w" by simp
  then have "int (rg_below rng n (nat ?w) mod nat ?w) < ?w" by (simp only: zless_nat_eq_int_zless)
  then show ?thesis by (simp add: randint_def Let_def)
qed

function cash_events :: "random \<Rightarrow> int \<Rightarrow> int \<Rightarrow> event list gen" where
  "cash_events rng till when n =
     (if when < till then
        let es = fst (withdrawal rng till when n); n1 = snd (withdrawal rng till when n);
            d = fst (randint rng 16 28 n1); (fs, n2) = cash_events rng till (when + d * DAY) (snd (randint rng 16 28 n1)) in
        (es @ fs, n2)
      else ([], n))"
  by pat_completeness auto
termination
proof (relation "measure (\<lambda>(rng, till, when, n). nat (till - when))", goal_cases)
  case (2 rng till "when" n es n1 d)
  have "16 \<le> d" using randint_range [of 16 28 rng n1] 2 by simp
  then have "0 < d * DAY" by (simp add: DAY_def)
  with 2 show ?case by simp
qed simp

declare cash_events.simps [simp del]

fun unknown_events :: "random \<Rightarrow> int \<Rightarrow> int \<Rightarrow> nat \<Rightarrow> event list gen" where
  "unknown_events rng start days 0 n = ([], n)"
| "unknown_events rng start days (Suc k) n =
     (let (x, n1) = uniform rng 0 (of_int days) n; (amount, n2) = randint rng 900 6500 n1;
          (template, n3) = choice rng UNKNOWN n2; (text, n4) = descriptor_of rng template n3;
          (es, n5) = unknown_events rng start days k n4 in
      (\<lparr>ev_at = start + span x, ev_kind = ''card_purchase'',
        ev_accounts = [(''expense'', ''general''), (''funding'', ''checking'')], ev_amount = amount,
        ev_descriptor = Some text, ev_note = []\<rparr> # es, n5))"

fun interest_events :: "random \<Rightarrow> int \<Rightarrow> int \<Rightarrow> int list \<Rightarrow> event list gen" where
  "interest_events rng start till [] n = ([], n)"
| "interest_events rng start till (month # months) n =
     (let when = at_time 23 30 (at_day 28 month) in
      if start \<le> when \<and> when < till then
        let (amount, n1) = randint rng 180 1400 n; (es, n2) = interest_events rng start till months n1 in
        (\<lparr>ev_at = when, ev_kind = ''deposit'', ev_accounts = [(''destination'', ''savings''), (''income'', ''interest'')],
          ev_amount = amount, ev_descriptor = None, ev_note = ''savings interest''\<rparr> # es, n2)
      else interest_events rng start till months n)"

fun refund_events :: "random \<Rightarrow> int \<Rightarrow> int \<Rightarrow> nat \<Rightarrow> event list gen" where
  "refund_events rng start days 0 n = ([], n)"
| "refund_events rng start days (Suc k) n =
     (let (x, n1) = uniform rng 5 (of_int days) n; (amount, n2) = randint rng 1800 9500 n1;
          (code, n3) = choices rng CODE 9 n2; (es, n4) = refund_events rng start days k n3 in
      (\<lparr>ev_at = start + span x, ev_kind = ''refund'', ev_accounts = [(''expense'', ''shopping''), (''funding'', ''card'')],
        ev_amount = amount, ev_descriptor = Some (''AMZN Mktp US*'' @ code @ '' REFUND''),
        ev_note = ''returned an order''\<rparr> # es, n4))"

text \<open>The card-testing burst, \<open>i\<close> from 0 on.\<close>

fun burst_events :: "random \<Rightarrow> int \<Rightarrow> int \<Rightarrow> nat \<Rightarrow> event list gen" where
  "burst_events rng burst i 0 n = ([], n)"
| "burst_events rng burst i (Suc k) n =
     (let (amount, n1) = randint rng 95 320 n; (code, n2) = randint rng 100 999 n1;
          (es, n3) = burst_events rng burst (i + 1) k n2 in
      (\<lparr>ev_at = burst + i * 40 * 1000000, ev_kind = ''card_purchase'',
        ev_accounts = [(''expense'', ''general''), (''funding'', ''card'')], ev_amount = amount,
        ev_descriptor = Some (''WL *DIGITALGOODS '' @ show_int code), ev_note = ''card-testing burst''\<rparr> # es, n3))"

definition outlier_event :: "random \<Rightarrow> int \<Rightarrow> int \<Rightarrow> event list gen" where
  "outlier_event rng start days n =
     (let (amount, n1) = randint rng 180000 320000 n in
      ([\<lparr>ev_at = start + span (of_int days * (62 / 100)), ev_kind = ''card_purchase'',
         ev_accounts = [(''expense'', ''travel''), (''funding'', ''card'')], ev_amount = amount,
         ev_descriptor = Some ''MARRIOTT HOTELS 8882367687 MD'', ev_note = ''outlier purchase''\<rparr>], n1))"

text \<open>The timeline: the parts in the order they draw, sorted by time.\<close>

definition timeline :: "random \<Rightarrow> int \<Rightarrow> int \<Rightarrow> event list gen" where
  "timeline rng start days n =
     (let till = start + days * DAY; months = month_starts till (at_day 1 start);
          opening = opening_events start;
          (income, n1) = paychecks rng till start n;
          (rent, n2) = rent_events rng start till n1;
          (saving, n3) = saving_events rng start till months n2;
          (subscriptions, n4) = subscription_events rng start till SUBSCRIPTIONS n3;
          (everyday, n5) = everyday_events rng start till HABITS n4;
          so_far = opening @ income @ rent @ saving @ subscriptions @ everyday;
          (market, n6) = market_events rng start till (contributions so_far)
             (case dget OPENING ''investments'' of None \<Rightarrow> 0 | Some a \<Rightarrow> a) months n5;
          (first, n7) = randint rng 1 9 n6;
          (cash, n8) = cash_events rng till (start + first * DAY) n7;
          (unknown, n9) = unknown_events rng start days (nat (max 2 (days div 12))) n8;
          (interest, n10) = interest_events rng start till months n9;
          (refunds, n11) = refund_events rng start days (nat (max 1 (days div 45))) n10;
          (burst, n12) = burst_events rng (start + span (of_int days * (82 / 100))) 0 16 n11;
          (outlier, n13) = outlier_event rng start days n12 in
      (sort_key ev_at (so_far @ market @ cash @ unknown @ interest @ refunds @ burst @ outlier), n13))"

end
