(* ===== verification/Loadgen_Plan.thy ===== *)
theory Loadgen_Plan
  imports Loadgen
begin

text \<open>
  \<open>loadgen.py\<close> after the timeline: the card payments (\<open>_with_card_payoffs\<close>), the fit to the checking account
  (\<open>_fit_to_checking\<close>) and the posting of the plan (\<open>generate\<close>), with the command that calls it. The timing
  figures of the result are left out.
\<close>

section \<open>Paying the card\<close>

definition due_dates :: "int \<Rightarrow> int \<Rightarrow> int list" where
  "due_dates start till =
     filter (\<lambda>due. start \<le> due \<and> due < till)
       (map (\<lambda>month. at_time 8 0 (at_day 15 month)) (month_starts till (at_day 1 start)))"

definition pay :: "random \<Rightarrow> int \<Rightarrow> int \<Rightarrow> event gen" where
  "pay rng due owed n =
     (let (u, n1) = unit_draw rng n;
          (amount, n2) = (if u < 78 / 100 then (owed, n1)
             else let (x, n2) = uniform rng (45 / 100) (80 / 100) n1 in (py_trunc (of_int owed * x), n2)) in
      (\<lparr>ev_at = due, ev_kind = ''transfer'', ev_accounts = [(''source'', ''checking''), (''destination'', ''card'')],
        ev_amount = max 1 amount, ev_descriptor = None, ev_note = ''credit card payment''\<rparr>, n2))"

text \<open>The payments of the dates up to a time (of all, when there is none): the payments, the dates left, the balance.\<close>

fun pay_due :: "random \<Rightarrow> int option \<Rightarrow> int list \<Rightarrow> int \<Rightarrow> nat \<Rightarrow> event list \<times> int list \<times> int \<times> nat" where
  "pay_due rng bound [] balance n = ([], [], balance, n)"
| "pay_due rng bound (due # dues) balance n =
     (if (case bound of None \<Rightarrow> True | Some t \<Rightarrow> due \<le> t) then
        (if 0 < balance then
           let (payment, n1) = pay rng due balance n;
               (es, rest, balance', n2) = pay_due rng bound dues (balance - ev_amount payment) n1 in
           (payment # es, rest, balance', n2)
         else pay_due rng bound dues balance n)
      else ([], due # dues, balance, n))"

definition card_effect :: "event \<Rightarrow> int \<Rightarrow> int" where
  "card_effect e balance =
     (if dget (ev_accounts e) ''funding'' = Some ''card'' then
        (if ev_kind e = ''card_purchase'' then balance + ev_amount e
         else if ev_kind e = ''refund'' then balance - ev_amount e else balance)
      else if ev_kind e = ''transfer'' \<and> dget (ev_accounts e) ''destination'' = Some ''card''
        then balance - ev_amount e
      else balance)"

fun card_walk :: "random \<Rightarrow> event list \<Rightarrow> int list \<Rightarrow> int \<Rightarrow> event list gen" where
  "card_walk rng [] dues balance n =
     (let (es, _, _, n') = pay_due rng None dues balance n in (es, n'))"
| "card_walk rng (e # events) dues balance n =
     (let (es, dues', balance', n1) = pay_due rng (Some (ev_at e)) dues balance n;
          (fs, n2) = card_walk rng events dues' (card_effect e balance') n1 in
      (es @ e # fs, n2))"

definition with_card_payoffs :: "random \<Rightarrow> event list \<Rightarrow> int \<Rightarrow> int \<Rightarrow> event list gen" where
  "with_card_payoffs rng events start days n =
     (let (out, n') = card_walk rng (sort_key ev_at events) (due_dates start (start + days * DAY)) 0 n in
      (sort_key ev_at out, n'))"

section \<open>Fitting the checking account\<close>

definition BUFFER :: int where "BUFFER = 12000"

record adapted =
  transfers_reduced :: nat
  transfers_skipped :: nat
  moved_to_card :: nat

definition into_checking :: "event \<Rightarrow> bool" where
  "into_checking e \<longleftrightarrow>
     ((ev_kind e = ''deposit'' \<or> ev_kind e = ''opening_balance'') \<and> dget (ev_accounts e) ''destination'' = Some ''checking'')
     \<or> (ev_kind e = ''transfer'' \<and> dget (ev_accounts e) ''destination'' = Some ''checking'')
     \<or> (ev_kind e = ''refund'' \<and> dget (ev_accounts e) ''funding'' = Some ''checking'')"

definition spends_checking :: "event \<Rightarrow> bool" where
  "spends_checking e \<longleftrightarrow>
     dget (ev_accounts e) ''source'' = Some ''checking''
     \<or> (ev_kind e = ''card_purchase'' \<and> dget (ev_accounts e) ''funding'' = Some ''checking'')"

fun fit :: "int \<Rightarrow> event list \<Rightarrow> adapted \<Rightarrow> event list \<times> adapted" where
  "fit balance [] a = ([], a)"
| "fit balance (e # events) a =
     (if into_checking e then
        let (out, a') = fit (balance + ev_amount e) events a in (e # out, a')
      else if \<not> spends_checking e then
        let (out, a') = fit balance events a in (e # out, a')
      else
        let available = balance - BUFFER in
        if ev_amount e \<le> available then
          let (out, a') = fit (balance - ev_amount e) events a in (e # out, a')
        else if ev_kind e = ''transfer'' then
          (let trimmed = max 0 (available div 10000 * 10000) in
           if trimmed \<le> 0 then fit balance events (a\<lparr>transfers_skipped := transfers_skipped a + 1\<rparr>)
           else
             let (out, a') = fit (balance - trimmed) events (a\<lparr>transfers_reduced := transfers_reduced a + 1\<rparr>) in
             (e\<lparr>ev_amount := trimmed\<rparr> # out, a'))
        else if dget (ev_accounts e) ''expense'' = Some ''rent'' then
          let (out, a') = fit (balance - ev_amount e) events a in (e # out, a')
        else
          let (out, a') = fit balance events (a\<lparr>moved_to_card := moved_to_card a + 1\<rparr>) in
          (e\<lparr>ev_accounts := dset ''funding'' ''card'' (ev_accounts e)\<rparr> # out, a'))"

definition fit_to_checking :: "event list \<Rightarrow> event list \<times> adapted" where
  "fit_to_checking events = fit 0 events \<lparr>transfers_reduced = 0, transfers_skipped = 0, moved_to_card = 0\<rparr>"

section \<open>Posting the plan\<close>

text \<open>\<open>xs[:count]\<close>; a negative count counts from the end.\<close>

definition prefix_to :: "int \<Rightarrow> 'a list \<Rightarrow> 'a list" where
  "prefix_to count xs = take (nat (if count < 0 then int (length xs) + count else count)) xs"

definition plan :: "random \<Rightarrow> int \<Rightarrow> int \<Rightarrow> event list \<times> adapted" where
  "plan rng start days =
     (let (events, n) = timeline rng start days 0; (events, n) = with_card_payoffs rng events start days n in
      fit_to_checking events)"

definition event_metadata :: "event \<Rightarrow> metadata" where
  "event_metadata e = (''source'', ''loadgen'') # (if ev_note e = [] then [] else [(''note'', ev_note e)])"

definition post_event :: "tenant_ctx \<Rightarrow> event \<Rightarrow> json m" where
  "post_event ctx e =
     bind_op (lift_op (mk_money (ev_amount e) ''usd'')) (\<lambda>amount.
     post_transaction ctx (ev_kind e) (ev_accounts e) amount (Some (Aware (ev_at e))) (ev_descriptor e)
       (event_metadata e))"

text \<open>The loop, which goes on after a decline: the declines, and the number posted of each kind.\<close>

type_synonym posted = "decline list \<times> (string, int) dict"

fun post_events :: "tenant_ctx \<Rightarrow> event list \<Rightarrow> posted \<Rightarrow> posted m" where
  "post_events ctx [] acc s = (Inr acc, s)"
| "post_events ctx (e # es) (declined, tally) s =
     (case post_event ctx e s of
        (Inr _, s') \<Rightarrow> post_events ctx es (declined, dbump (ev_kind e) 1 tally) s'
      | (Inl x, s') \<Rightarrow>
          (case x of
             AppExn (TransactionDeclined d) \<Rightarrow> post_events ctx es (declined @ [d], tally) s'
           | _ \<Rightarrow> (Inl x, s')))"

record generated =
  gn_transactions :: nat
  gn_tally :: "(string, int) dict"
  gn_adapted :: adapted

definition generate :: "random \<Rightarrow> string \<Rightarrow> int \<Rightarrow> int \<Rightarrow> api_mode \<Rightarrow> generated m" where
  "generate rng tenant count days mode =
     bind_op (reads wall) (\<lambda>now.
     let ctx = \<lparr>c_tenant = tenant, c_api_key = ''loadgen'', c_mode = mode\<rparr>;
         (events, adapted) = plan rng (now - days * DAY) days;
         events = prefix_to count (filter (\<lambda>e. ev_at e \<le> now) events) in
     bind_op (unit_of_work (post_events ctx events ([], []))) (\<lambda>(declined, tally).
     bind_op (each_op (record_decline ctx) declined) (\<lambda>_.
     ret_op \<lparr>gn_transactions = length events,
             gn_tally = (if declined = [] then tally else dset ''declined'' (int (length declined)) tally),
             gn_adapted = adapted\<rparr>)))"

text \<open>The command; \<open>None\<close> is the \<open>SystemExit\<close> of no bootstrapped tenant. The seed chooses \<open>rng\<close>.\<close>

definition cmd_loadgen :: "(int \<Rightarrow> random) \<Rightarrow> string option \<Rightarrow> int \<Rightarrow> int \<Rightarrow> int \<Rightarrow> generated option m" where
  "cmd_loadgen seeded tenant count days seed =
     bind_op (reads (tenant_or_default tenant)) (\<lambda>chosen.
     case chosen of
       None \<Rightarrow> ret_op None
     | Some i \<Rightarrow> bind_op (generate (seeded seed) i count days TEST) (\<lambda>g. ret_op (Some g)))"

end
