(* ===== verification/Loadgen_Laws.thy ===== *)
theory Loadgen_Laws
  imports Loadgen_Plan
begin

text \<open>
  What the generated history is: every event is one the ledger's rules can build, card payments never exceed what
  is owed, everyday spending keeps the checking account above its cushion, and \<open>generate\<close> accounts for
  every event it posts.
\<close>

section \<open>Events the ledger can post\<close>

definition chart_type :: "string \<Rightarrow> account_type option" where
  "chart_type external = map_of (map (\<lambda>(_, ty, e, _). (e, ty)) DEFAULT_ACCOUNTS) external"

definition role_ok :: "string \<times> string \<Rightarrow> bool" where
  "role_ok p =
     (case chart_type (snd p) of
        None \<Rightarrow> False
      | Some ty \<Rightarrow>
          if fst p = ''expense'' then ty = EXPENSE
          else if fst p = ''income'' then ty = REVENUE
          else if fst p = ''equity'' then ty = EQUITY
          else ty = ASSET \<or> ty = LIABILITY)"

definition KIND_ROLES :: "(string \<times> string list) list" where
  "KIND_ROLES =
     [(''opening_balance'', [''destination'', ''equity'']), (''deposit'', [''destination'', ''income'']),
      (''card_purchase'', [''expense'', ''funding'']), (''transfer'', [''source'', ''destination'']),
      (''refund'', [''expense'', ''funding''])]"

definition postable :: "event \<Rightarrow> bool" where
  "postable e \<longleftrightarrow> 0 < ev_amount e \<and> (ev_kind e, map fst (ev_accounts e)) \<in> set KIND_ROLES
     \<and> list_all role_ok (ev_accounts e) \<and> distinct (map snd (ev_accounts e))"

lemma role_ok_accounts:
  "role_ok (''funding'', ''checking'')" "role_ok (''funding'', ''card'')" "role_ok (''funding'', ''cash'')"
  "role_ok (''funding'', ''investments'')"
  "role_ok (''source'', ''checking'')" "role_ok (''destination'', ''checking'')" "role_ok (''destination'', ''savings'')"
  "role_ok (''destination'', ''investments'')" "role_ok (''destination'', ''cash'')" "role_ok (''destination'', ''card'')"
  "role_ok (''income'', ''income'')" "role_ok (''income'', ''gains'')" "role_ok (''income'', ''interest'')"
  "role_ok (''equity'', ''opening'')"
  "role_ok (''expense'', ''rent'')" "role_ok (''expense'', ''losses'')" "role_ok (''expense'', ''food'')"
  "role_ok (''expense'', ''general'')" "role_ok (''expense'', ''transport'')" "role_ok (''expense'', ''shopping'')"
  "role_ok (''expense'', ''travel'')"
  by code_simp+

lemma chart_types_differ: "role_ok (r, x) \<Longrightarrow> role_ok (r', y) \<Longrightarrow> r \<in> {''expense'', ''income'', ''equity''} \<Longrightarrow> r' \<notin> {''expense'', ''income'', ''equity''} \<Longrightarrow> x \<noteq> y"
  by (auto simp: role_ok_def split: option.splits if_splits)

lemma postable_purchase:
  "0 < a \<Longrightarrow> role_ok (''expense'', x) \<Longrightarrow> role_ok (''funding'', y) \<Longrightarrow>
   postable \<lparr>ev_at = t, ev_kind = ''card_purchase'', ev_accounts = [(''expense'', x), (''funding'', y)], ev_amount = a,
             ev_descriptor = d, ev_note = note\<rparr>"
  using chart_types_differ [of "''expense''" x "''funding''" y] by (simp add: postable_def KIND_ROLES_def)

lemma postable_refund:
  "0 < a \<Longrightarrow> role_ok (''expense'', x) \<Longrightarrow> role_ok (''funding'', y) \<Longrightarrow>
   postable \<lparr>ev_at = t, ev_kind = ''refund'', ev_accounts = [(''expense'', x), (''funding'', y)], ev_amount = a,
             ev_descriptor = d, ev_note = note\<rparr>"
  using chart_types_differ [of "''expense''" x "''funding''" y] by (simp add: postable_def KIND_ROLES_def)

lemma postable_deposit:
  "0 < a \<Longrightarrow> role_ok (''destination'', x) \<Longrightarrow> role_ok (''income'', y) \<Longrightarrow>
   postable \<lparr>ev_at = t, ev_kind = ''deposit'', ev_accounts = [(''destination'', x), (''income'', y)], ev_amount = a,
             ev_descriptor = d, ev_note = note\<rparr>"
  using chart_types_differ [of "''income''" y "''destination''" x] by (auto simp: postable_def KIND_ROLES_def)

lemma postable_opening:
  "0 < a \<Longrightarrow> role_ok (''destination'', x) \<Longrightarrow> role_ok (''equity'', y) \<Longrightarrow>
   postable \<lparr>ev_at = t, ev_kind = ''opening_balance'', ev_accounts = [(''destination'', x), (''equity'', y)], ev_amount = a,
             ev_descriptor = d, ev_note = note\<rparr>"
  using chart_types_differ [of "''equity''" y "''destination''" x] by (auto simp: postable_def KIND_ROLES_def)

lemma postable_transfer:
  "0 < a \<Longrightarrow> role_ok (''source'', x) \<Longrightarrow> role_ok (''destination'', y) \<Longrightarrow> x \<noteq> y \<Longrightarrow>
   postable \<lparr>ev_at = t, ev_kind = ''transfer'', ev_accounts = [(''source'', x), (''destination'', y)], ev_amount = a,
             ev_descriptor = d, ev_note = note\<rparr>"
  by (simp add: postable_def KIND_ROLES_def)

lemmas postable_intros = postable_purchase postable_refund postable_deposit postable_opening postable_transfer role_ok_accounts

text \<open>What a draw of an integer gives.\<close>

lemma randint_pos: "randint rng a b n = (x, n') \<Longrightarrow> a \<le> b \<Longrightarrow> 0 < a \<Longrightarrow> 0 < x"
  using randint_range [of a b rng n] by simp

lemma choice_mem: "choice rng xs n = (x, n') \<Longrightarrow> xs \<noteq> [] \<Longrightarrow> x \<in> set xs"
  by (auto simp: choice_def)

section \<open>The timeline\<close>

text \<open>What the timeline holds: events the ledger can post, none of which pays the card.\<close>

definition is_payment :: "event \<Rightarrow> bool" where
  "is_payment e \<longleftrightarrow> ev_kind e = ''transfer'' \<and> dget (ev_accounts e) ''destination'' = Some ''card''"

definition planned :: "event \<Rightarrow> bool" where
  "planned e \<longleftrightarrow> postable e \<and> \<not> is_payment e"

lemma planned_not_transfer:
  "ev_kind e \<noteq> ''transfer'' \<Longrightarrow> postable e \<Longrightarrow> planned e"
  by (simp add: planned_def is_payment_def)

lemma planned_transfer:
  "0 < a \<Longrightarrow> role_ok (''source'', x) \<Longrightarrow> role_ok (''destination'', y) \<Longrightarrow> x \<noteq> y \<Longrightarrow> y \<noteq> ''card'' \<Longrightarrow>
   planned \<lparr>ev_at = t, ev_kind = ''transfer'', ev_accounts = [(''source'', x), (''destination'', y)], ev_amount = a,
            ev_descriptor = d, ev_note = note\<rparr>"
  by (simp add: planned_def is_payment_def postable_transfer)

lemmas planned_intros = planned_transfer
  planned_not_transfer [OF _ postable_purchase, simplified] planned_not_transfer [OF _ postable_refund, simplified]
  planned_not_transfer [OF _ postable_deposit, simplified] planned_not_transfer [OF _ postable_opening, simplified] role_ok_accounts

lemma opening_planned: "list_all planned (opening_events start)"
  by (simp add: opening_events_def OPENING_def planned_intros)

lemma paychecks_planned: "paychecks rng till day n = (es, n') \<Longrightarrow> list_all planned es"
proof (induction "nat (till - day)" arbitrary: day n es n' rule: less_induct)
  case less
  have ih: "paychecks rng till (day + 14 * DAY) m = (fs, k) \<Longrightarrow> day < till \<Longrightarrow> list_all planned fs" for m fs k
    by (rule less.hyps) (auto simp: DAY_def)
  show ?case
    using less.prems by (subst (asm) paychecks.simps)
      (auto simp: planned_intros dest!: randint_pos ih split: if_splits prod.splits)
qed

lemma rent_planned: "rent_events rng start till n = (es, n') \<Longrightarrow> list_all planned es"
  by (auto simp: rent_events_def list_all_iff planned_intros dest!: choice_mem split: prod.splits)

lemma saving_planned: "saving_events rng start till months n = (es, n') \<Longrightarrow> list_all planned es"
  by (induction months arbitrary: n es n')
    (auto simp: Let_def planned_intros dest!: randint_pos split: if_splits prod.splits)

lemma charges_planned:
  "charges rng till (template, account, amount) when n = (es, n') \<Longrightarrow> 0 < amount \<Longrightarrow> role_ok (''expense'', account) \<Longrightarrow>
   list_all planned es"
proof (induction "nat (till - when)" arbitrary: "when" n es n' rule: less_induct)
  case less
  have ih: "charges rng till (template, account, amount) (when + 30 * DAY) m = (fs, k) \<Longrightarrow> when < till \<Longrightarrow> list_all planned fs"
    for m fs k
    using less.prems by (intro less.hyps [of "when + 30 * DAY"]) (auto simp: DAY_def)
  show ?case
    using less.prems by (subst (asm) charges.simps) (auto simp: planned_intros dest!: ih split: if_splits prod.splits)
qed

lemma subscriptions_planned:
  "subscription_events rng start till items n = (es, n') \<Longrightarrow>
   list_all (\<lambda>(_, account, amount). 0 < amount \<and> role_ok (''expense'', account)) items \<Longrightarrow> list_all planned es"
  by (induction items arbitrary: n es n') (auto split: prod.splits dest: charges_planned)

lemma habit_planned:
  "habit_events rng till (template, account, low, high, cadence) when n = (es, n') \<Longrightarrow> 0 < low \<Longrightarrow> low \<le> high \<Longrightarrow>
   role_ok (''expense'', account) \<Longrightarrow> list_all planned es"
proof (induction "nat (till - when)" arbitrary: "when" n es n' rule: less_induct)
  case less
  let ?next = "when + fst (habit_step rng cadence n)"
  have ih: "habit_events rng till (template, account, low, high, cadence) ?next m = (fs, k) \<Longrightarrow> when < till \<Longrightarrow>
      list_all planned fs" for m fs k
    using less.prems habit_step_pos [of rng cadence n] by (intro less.hyps [of ?next]) auto
  show ?case
    using less.prems by (subst (asm) habit_events.simps)
      (auto simp: Let_def planned_intros dest!: ih randint_pos [of rng low high] split: if_splits prod.splits)
qed

lemma everyday_planned:
  "everyday_events rng start till habits n = (es, n') \<Longrightarrow>
   list_all (\<lambda>(_, account, low, high, _). 0 < low \<and> low \<le> high \<and> role_ok (''expense'', account)) habits \<Longrightarrow>
   list_all planned es"
  by (induction habits arbitrary: n es n') (auto split: prod.splits dest: habit_planned)

lemma market_planned: "market_events rng start till contribs held months n = (es, n') \<Longrightarrow> list_all planned es"
  by (induction months arbitrary: contribs held n es n')
    (auto simp: Let_def market_move_def planned_intros split: if_splits prod.splits)

lemma cash_purchases_planned: "cash_purchases rng till when k n = (es, n') \<Longrightarrow> list_all planned es"
  by (induction k arbitrary: n es n')
    (auto simp: Let_def planned_intros dest!: randint_pos choice_mem split: if_splits prod.splits)

lemma withdrawal_planned: "list_all planned (fst (withdrawal rng till when n))"
  by (auto simp: withdrawal_def planned_intros dest!: choice_mem cash_purchases_planned split: prod.splits)

lemma cash_planned: "cash_events rng till when n = (es, n') \<Longrightarrow> list_all planned es"
proof (induction "nat (till - when)" arbitrary: "when" n es n' rule: less_induct)
  case less
  have pos: "0 < fst (randint rng 16 28 m) * DAY" for m
    using randint_range [of 16 28 rng m] by (simp add: DAY_def)
  have ih: "cash_events rng till (when + fst (randint rng 16 28 m) * DAY) m' = (fs, k) \<Longrightarrow> when < till \<Longrightarrow> list_all planned fs"
    for m m' fs k
    using pos [of m] by (intro less.hyps [of "when + fst (randint rng 16 28 m) * DAY"]) auto
  show ?case
    using less.prems by (subst (asm) cash_events.simps)
      (auto simp: Let_def withdrawal_planned dest!: ih split: if_splits prod.splits)
qed

lemma unknown_planned: "unknown_events rng start days k n = (es, n') \<Longrightarrow> list_all planned es"
  by (induction k arbitrary: n es n') (auto simp: planned_intros dest!: randint_pos split: prod.splits)

lemma interest_planned: "interest_events rng start till months n = (es, n') \<Longrightarrow> list_all planned es"
  by (induction months arbitrary: n es n')
    (auto simp: Let_def planned_intros dest!: randint_pos split: if_splits prod.splits)

lemma refund_planned: "refund_events rng start days k n = (es, n') \<Longrightarrow> list_all planned es"
  by (induction k arbitrary: n es n') (auto simp: planned_intros dest!: randint_pos split: prod.splits)

lemma burst_planned: "burst_events rng t i k n = (es, n') \<Longrightarrow> list_all planned es"
  by (induction k arbitrary: i n es n') (auto simp: planned_intros dest!: randint_pos split: prod.splits)

lemma outlier_planned: "outlier_event rng start days n = (es, n') \<Longrightarrow> list_all planned es"
  by (auto simp: outlier_event_def planned_intros dest!: randint_pos split: prod.splits)

lemma tables_planned:
  "list_all (\<lambda>(_, account, amount). 0 < amount \<and> role_ok (''expense'', account)) SUBSCRIPTIONS"
  "list_all (\<lambda>(_, account, low, high, _). 0 < low \<and> low \<le> high \<and> role_ok (''expense'', account)) HABITS"
  by code_simp+

lemma list_all_sort [simp]: "list_all P (sort_key k xs) = list_all P xs"
  by (simp add: list_all_iff)

lemma timeline_planned: "list_all planned (fst (timeline rng start days n))"
proof -
  have "timeline rng start days n = (es, n') \<Longrightarrow> list_all planned es" for es n'
    using opening_planned
    by (auto simp: timeline_def Let_def split: prod.splits
      dest!: paychecks_planned rent_planned saving_planned subscriptions_planned [OF _ tables_planned(1)]
        everyday_planned [OF _ tables_planned(2)] market_planned cash_planned unknown_planned interest_planned
        refund_planned burst_planned outlier_planned)
  then show ?thesis by (metis prod.collapse)
qed

section \<open>The card\<close>

definition unit_ok :: "random \<Rightarrow> bool" where
  "unit_ok rng \<longleftrightarrow> (\<forall>n. 0 \<le> rg_unit rng n \<and> rg_unit rng n < 1)"

text \<open>Along a list of events, from a balance owed: every payment is of at least a cent and at most the balance.\<close>

fun never_overpays :: "int \<Rightarrow> event list \<Rightarrow> bool" where
  "never_overpays owed [] = True"
| "never_overpays owed (e # es) =
     ((if is_payment e then 1 \<le> ev_amount e \<and> ev_amount e \<le> owed else True) \<and> never_overpays (card_effect e owed) es)"

definition owed_after :: "int \<Rightarrow> event list \<Rightarrow> int" where
  "owed_after owed es = foldl (\<lambda>b e. card_effect e b) owed es"

lemma never_overpays_append:
  "never_overpays owed (es @ fs) \<longleftrightarrow> never_overpays owed es \<and> never_overpays (owed_after owed es) fs"
  by (induction es arbitrary: owed) (auto simp: owed_after_def)

lemma owed_after_simps [simp]:
  "owed_after owed [] = owed" "owed_after owed (e # es) = owed_after (card_effect e owed) es"
  "owed_after owed (es @ fs) = owed_after (owed_after owed es) fs"
  by (simp_all add: owed_after_def)

lemma py_trunc_le: "x \<le> of_int k \<Longrightarrow> 0 \<le> x \<Longrightarrow> py_trunc x \<le> k"
  using floor_mono [of x "of_int k"] by (simp add: py_trunc_def)

lemma pay_amount:
  assumes "unit_ok rng" "0 < owed" "pay rng due owed n = (e, n')"
  shows "1 \<le> ev_amount e \<and> ev_amount e \<le> owed" "ev_at e = due" "is_payment e" "postable e"
    "card_effect e owed = owed - ev_amount e" "\<not> into_checking e"
proof -
  have "py_trunc (of_int owed * (45 / 100 + (80 / 100 - 45 / 100) * rg_unit rng m)) \<le> owed" for m
  proof (rule py_trunc_le)
    have u: "0 \<le> rg_unit rng m" "rg_unit rng m < 1" using assms(1) by (auto simp: unit_ok_def)
    then have "45 / 100 + (80 / 100 - 45 / 100) * rg_unit rng m \<le> 1" by simp
    then show "of_int owed * (45 / 100 + (80 / 100 - 45 / 100) * rg_unit rng m) \<le> of_int owed"
      using assms(2) by (intro mult_left_le) simp_all
    show "0 \<le> of_int owed * (45 / 100 + (80 / 100 - 45 / 100) * rg_unit rng m)"
      using assms(2) u by simp
  qed
  then show "1 \<le> ev_amount e \<and> ev_amount e \<le> owed"
    using assms(2,3) by (auto simp: pay_def unit_draw_def uniform_def max_def split: if_splits)
  show "ev_at e = due" "is_payment e" "postable e" "card_effect e owed = owed - ev_amount e" "\<not> into_checking e"
    using assms(3) by (auto simp: pay_def is_payment_def card_effect_def into_checking_def postable_intros
        unit_draw_def uniform_def split: prod.splits if_splits)
qed

lemma pay_due_Inr:
  assumes "unit_ok rng" "pay_due rng bound dues owed n = (es, rest, owed', n')" "sorted dues"
  shows "never_overpays owed es \<and> owed' = owed_after owed es \<and> list_all is_payment es \<and> list_all postable es
     \<and> rest = dropWhile (\<lambda>d. case bound of None \<Rightarrow> True | Some t \<Rightarrow> d \<le> t) dues \<and> sorted (map ev_at es)
     \<and> ev_at ` set es \<subseteq> {d \<in> set dues. case bound of None \<Rightarrow> True | Some t \<Rightarrow> d \<le> t}"
  using assms(2,3)
proof (induction dues arbitrary: owed n es rest owed' n')
  case Nil
  then show ?case by simp
next
  case (Cons due dues)
  let ?c = "\<lambda>d. case bound of None \<Rightarrow> True | Some t \<Rightarrow> d \<le> t"
  show ?case
  proof (cases "?c due")
    case False
    then show ?thesis using Cons.prems by auto
  next
    case due: True
    show ?thesis
    proof (cases "0 < owed")
      case False
      then have "pay_due rng bound dues owed n = (es, rest, owed', n')" using Cons.prems(1) due by simp
      from Cons.IH [OF this] Cons.prems(2) due show ?thesis by auto
    next
      case True
      obtain e n1 where e: "pay rng due owed n = (e, n1)" by fastforce
      obtain fs n2 where rest: "pay_due rng bound dues (owed - ev_amount e) n1 = (fs, rest, owed', n')"
        and es: "es = e # fs"
        using Cons.prems(1) due True e by (auto split: prod.splits)
      note p = pay_amount [OF assms(1) True e]
      from Cons.IH [OF rest] Cons.prems(2) show ?thesis using due p es by auto
    qed
  qed
qed

lemma dropWhile_sorted: "sorted dues \<Longrightarrow> d \<in> set (dropWhile (\<lambda>x. x \<le> t) dues) \<Longrightarrow> t < d" for t :: int
  by (induction dues) (auto split: if_splits)

lemma card_walk_Inr:
  assumes "unit_ok rng" "card_walk rng events dues owed n = (out, n')" "sorted dues" "sorted (map ev_at events)"
    "list_all (\<lambda>e. \<not> is_payment e) events" "list_all (\<lambda>t. low \<le> t) dues" "list_all (\<lambda>e. low \<le> ev_at e) events"
  shows "never_overpays owed out \<and> filter (\<lambda>e. \<not> is_payment e) out = events \<and> sorted (map ev_at out)
     \<and> list_all (\<lambda>e. low \<le> ev_at e) out \<and> (list_all postable events \<longrightarrow> list_all postable out)"
  using assms(2-)
proof (induction events arbitrary: dues owed n out n' low)
  case Nil
  obtain es rest owed' n1 where p: "pay_due rng None dues owed n = (es, rest, owed', n1)" by (metis prod_cases4)
  with Nil.prems(1) have "out = es" by simp
  with pay_due_Inr [OF assms(1) p Nil.prems(2)] Nil.prems(5) show ?case
    by (auto simp: list_all_iff filter_empty_conv)
next
  case (Cons e events)
  obtain es rest owed' n1 where p: "pay_due rng (Some (ev_at e)) dues owed n = (es, rest, owed', n1)"
    by (metis prod_cases4)
  obtain fs where w: "card_walk rng events rest (card_effect e owed') n1 = (fs, n')" and out: "out = es @ e # fs"
    using Cons.prems(1) p by (auto split: prod.splits)
  note q = pay_due_Inr [OF assms(1) p Cons.prems(2)]
  then have rest: "rest = dropWhile (\<lambda>d. d \<le> ev_at e) dues" by simp
  have dues: "sorted rest" "list_all (\<lambda>t. ev_at e \<le> t) rest"
    unfolding rest list_all_iff
    using sorted_dropWhile [OF Cons.prems(2)] dropWhile_sorted [OF Cons.prems(2), of _ "ev_at e"] by (blast intro: less_imp_le)+
  have evs: "sorted (map ev_at events)" "list_all (\<lambda>x. \<not> is_payment x) events" "list_all (\<lambda>x. ev_at e \<le> ev_at x) events"
    using Cons.prems(3,4) by (auto simp: list_all_iff)
  note r = Cons.IH [OF w dues(1) evs(1,2) dues(2) evs(3)]
  have le: "\<forall>x \<in> set es. low \<le> ev_at x \<and> ev_at x \<le> ev_at e" "low \<le> ev_at e"
    using q Cons.prems(5,6) by (auto simp: list_all_iff)
  have "filter (\<lambda>x. \<not> is_payment x) out = e # events"
  proof -
    have "filter (\<lambda>x. \<not> is_payment x) es = []" using q by (simp add: list_all_iff filter_empty_conv)
    moreover have "filter (\<lambda>x. \<not> is_payment x) fs = events" using r by blast
    ultimately show ?thesis using Cons.prems(4) by (simp add: out)
  qed
  moreover have fs: "\<forall>x \<in> set fs. ev_at e \<le> ev_at x" "sorted (map ev_at fs)" "sorted (map ev_at es)"
    using q r by (simp_all add: list_all_iff)
  then have "sorted (map ev_at out)"
    unfolding out map_append list.map sorted_append using le(1) by (auto intro: order_trans)
  moreover have "list_all (\<lambda>x. low \<le> ev_at x) out"
    unfolding out list_all_iff using fs(1) le by (auto intro: order_trans)
  moreover have "never_overpays owed out"
    using q r Cons.prems(4) by (simp add: out never_overpays_append)
  moreover have "list_all postable (e # events) \<longrightarrow> list_all postable out"
    using q r by (simp add: out)
  ultimately show ?case by blast
qed

end
