(* ===== verification/Loadgen_Fit.thy ===== *)
theory Loadgen_Fit
  imports Loadgen_Laws
begin

text \<open>
  That the due dates of the card come in order, which is a fact about the calendar, and that the fit to the checking
  account keeps its cushion and leaves the card payments within what is owed.
\<close>

section \<open>The calendar\<close>

text \<open>Years of an era, from 1 March: the year a day falls in, and the day it starts on.\<close>

definition year_of :: "int \<Rightarrow> int" where
  "year_of d = (d - d div 1460 + d div 36524 - d div 146096) div 365"

definition year_start :: "int \<Rightarrow> int" where
  "year_start y = 365 * y + y div 4 - y div 100"

lemma div_Suc: "(d + 1) div k \<le> d div k + 1 \<and> d div k \<le> (d + 1) div k" if "0 < k" for d k :: int
proof -
  have "(d + 1) div k \<le> (d + k) div k" using that by (intro zdiv_mono1) simp_all
  moreover have "(d + k) div k = d div k + 1" using that by simp
  moreover have "d div k \<le> (d + 1) div k" using that by (intro zdiv_mono1) simp_all
  ultimately show ?thesis by simp
qed

lemma year_of_step:
  assumes "0 \<le> d" "d < 146096"
  shows "year_of d \<le> year_of (d + 1)"
proof (cases "d = 146095")
  case True
  then show ?thesis by (simp add: year_of_def)
next
  case False
  then have "d div 146096 = 0" "(d + 1) div 146096 = 0" using assms by simp_all
  with div_Suc [of 1460 d] div_Suc [of 36524 d] show ?thesis
    unfolding year_of_def by (intro zdiv_mono1) simp_all
qed

lemma year_of_mono: "0 \<le> d \<Longrightarrow> d \<le> d' \<Longrightarrow> d' \<le> 146096 \<Longrightarrow> year_of d \<le> year_of d'"
proof (induction "nat (d' - d)" arbitrary: d')
  case 0
  then show ?case by simp
next
  case (Suc k)
  then have "k = nat (d' - 1 - d)" "d \<le> d' - 1" by linarith+
  then have "year_of d \<le> year_of (d' - 1)" using Suc by simp
  also have "\<dots> \<le> year_of (d' - 1 + 1)" using Suc.prems \<open>d \<le> d' - 1\<close> by (intro year_of_step) simp_all
  finally show ?case by simp
qed

lemma year_table: "list_all (\<lambda>y. year_of (year_start y) = y \<and> (if y = 0 then True else year_of (year_start y - 1) = y - 1)
    \<and> 0 \<le> year_start y \<and> year_start y \<le> 145731) [0..399]"
  by code_simp

lemma year_of_bounds:
  assumes "0 \<le> d" "d \<le> 146096"
  shows "0 \<le> year_of d \<and> year_of d \<le> 399 \<and> 0 \<le> year_start (year_of d) \<and> year_start (year_of d) \<le> d
     \<and> (\<forall>d'. year_start (year_of d) \<le> d' \<and> d' \<le> d \<longrightarrow> year_of d' = year_of d)"
proof -
  have zero: "year_of 0 = 0" "year_of 146096 = 399" by (simp_all add: year_of_def)
  have y: "0 \<le> year_of d" "year_of d \<le> 399"
    using year_of_mono [of 0 d] year_of_mono [of d 146096] assms zero by simp_all
  then have t: "year_of (year_start (year_of d)) = year_of d"
    "year_of d \<noteq> 0 \<Longrightarrow> year_of (year_start (year_of d) - 1) = year_of d - 1"
    "0 \<le> year_start (year_of d)" "year_start (year_of d) \<le> 145731"
    using year_table by (auto simp: list_all_iff split: if_splits)
  have le: "year_start (year_of d) \<le> d"
  proof (rule ccontr)
    assume n: "\<not> ?thesis"
    have "year_of d \<noteq> 0"
    proof
      assume "year_of d = 0"
      with n assms show False by (simp add: year_start_def)
    qed
    moreover have "year_of d \<le> year_of (year_start (year_of d) - 1)"
      using n assms t(3,4) by (intro year_of_mono) simp_all
    ultimately show False using t(2) by simp
  qed
  have "year_of d' = year_of d" if "year_start (year_of d) \<le> d'" "d' \<le> d" for d'
  proof -
    have "year_of (year_start (year_of d)) \<le> year_of d'" by (rule year_of_mono) (use t(3) that assms in linarith)+
    moreover have "year_of d' \<le> year_of d" by (rule year_of_mono) (use t(3) that assms in linarith)+
    ultimately show ?thesis using t(1) by linarith
  qed
  with y le t(3) show ?thesis by blast
qed

lemma day_of_month_eq:
  "day_of_month z =
     (let doe = (z + 719468) mod 146097; doy = doe - year_start (year_of doe) in
      doy - (153 * ((5 * doy + 2) div 153) + 2) div 5 + 1)"
  unfolding day_of_month_def year_of_def year_start_def Let_def by (rule refl)

text \<open>Going back to day 1 gives a day that is the first of its month.\<close>

lemma first_of_month: "day_of_month (z - (day_of_month z - 1)) = 1"
proof -
  define doe where "doe = (z + 719468) mod 146097"
  define doy where "doy = doe - year_start (year_of doe)"
  define mp where "mp = (5 * doy + 2) div 153"
  define q where "q = (153 * mp + 2) div 5"
  have "0 \<le> doe" "doe < 146097" unfolding doe_def by (rule pos_mod_sign pos_mod_bound, simp)+
  then have doe: "0 \<le> doe" "doe \<le> 146096" by linarith+
  have start: "0 \<le> year_start (year_of doe)" "year_start (year_of doe) \<le> doe" and y: "\<forall>d'. year_start (year_of doe) \<le> d' \<and> d' \<le> doe \<longrightarrow> year_of d' = year_of doe"
    using year_of_bounds [OF doe] by blast+
  then have doy: "0 \<le> doy" unfolding doy_def by linarith
  have d: "day_of_month z = doy - q + 1"
    unfolding day_of_month_eq Let_def doe_def [symmetric] doy_def [symmetric] mp_def [symmetric] q_def [symmetric] ..
  have mp: "153 * mp \<le> 5 * doy + 2" "0 \<le> mp"
    using div_mult_mod_eq [of "5 * doy + 2" 153] pos_mod_sign [of 153 "5 * doy + 2"] doy
    unfolding mp_def by linarith (use doy in \<open>simp add: pos_imp_zdiv_nonneg_iff\<close>)
  have q: "5 * q \<le> 153 * mp + 2" "153 * mp + 2 < 5 * q + 5"
    using div_mult_mod_eq [of "153 * mp + 2" 5] pos_mod_bound [of 5 "153 * mp + 2"] pos_mod_sign [of 5 "153 * mp + 2"]
    unfolding q_def by linarith+
  have q0: "0 \<le> q" "q \<le> doy" using q mp by linarith+
  have mp': "(5 * q + 2) div 153 = mp" using q by (intro int_div_pos_eq [of _ 153 _ "5 * q + 2 - 153 * mp"]) linarith+
  let ?z = "z - (day_of_month z - 1)" and ?doe = "doe - (doy - q)"
  have "year_start (year_of doe) \<le> ?doe" "?doe \<le> doe" using q0 by (simp_all add: doy_def)
  with y have same: "year_of ?doe = year_of doe" by blast
  have "0 \<le> ?doe" "?doe < 146097" using q0 doe start unfolding doy_def by linarith+
  have "(?z + 719468) mod 146097 = (z + 719468 - (doy - q)) mod 146097" by (simp add: d algebra_simps)
  also have "\<dots> = (doe - (doy - q)) mod 146097" unfolding doe_def by (simp add: mod_simps)
  also have "\<dots> = ?doe" using \<open>0 \<le> ?doe\<close> \<open>?doe < 146097\<close> by simp
  finally have e: "(?z + 719468) mod 146097 = ?doe" .
  have "?doe - year_start (year_of doe) = q" by (simp add: doy_def)
  then have "day_of_month ?z = q - (153 * ((5 * q + 2) div 153) + 2) div 5 + 1"
    using day_of_month_eq [of ?z] by (simp only: Let_def e same)
  also have "\<dots> = q - q + 1" by (simp only: mp' q_def [symmetric])
  finally show ?thesis by simp
qed

section \<open>Months in order\<close>

definition first_day :: "int \<Rightarrow> bool" where
  "first_day t \<longleftrightarrow> day_of_month (t div DAY) = 1"

lemma shift_days: "(t + k * DAY) div DAY = t div DAY + k" "(t + k * DAY) mod MINUTE = t mod MINUTE"
proof -
  show "(t + k * DAY) div DAY = t div DAY + k" by (simp add: DAY_def)
  have "DAY = 1440 * MINUTE" by (simp add: DAY_def MINUTE_def)
  then have "t + k * DAY = t + (k * 1440) * MINUTE" by simp
  then show "(t + k * DAY) mod MINUTE = t mod MINUTE" by (simp only: mod_mult_self1)
qed

lemma first_day_at: "first_day (at_day 1 t)"
proof -
  have "t div DAY + (1 - day_of_month (t div DAY)) = t div DAY - (day_of_month (t div DAY) - 1)" by simp
  then show ?thesis unfolding first_day_def at_day_def shift_days using first_of_month [of "t div DAY"] by (simp only:)
qed

lemma next_month_days: "first_day (next_month month)" "month + 2 * DAY \<le> next_month month"
  using first_day_at [of "month + 32 * DAY"] day_of_month_range [of "(month + 32 * DAY) div DAY"]
  by (simp_all add: next_month_def at_day_def DAY_def)

lemma month_starts_spaced:
  "first_day month \<Longrightarrow> list_all first_day (month_starts till month)
     \<and> sorted_wrt (\<lambda>a b. a + 2 * DAY \<le> b) (month_starts till month) \<and> list_all (\<lambda>m. month \<le> m) (month_starts till month)"
proof (induction till month rule: month_starts.induct)
  case (1 till month)
  show ?case
  proof (cases "month < till")
    case False
    then show ?thesis by (simp add: month_starts.simps)
  next
    case True
    let ?ms = "month_starts till (next_month month)"
    have d: "0 < DAY" by (simp add: DAY_def)
    have ms: "month_starts till month = month # ?ms" using True by (simp add: month_starts.simps)
    have ih: "list_all first_day ?ms" "sorted_wrt (\<lambda>a b. a + 2 * DAY \<le> b) ?ms" "\<forall>m \<in> set ?ms. next_month month \<le> m"
      using 1 True next_month_days by (auto simp: list_all_iff)
    then have "\<forall>m \<in> set ?ms. month + 2 * DAY \<le> m" using next_month_days(2) order_trans by blast
    moreover from this have "\<forall>m \<in> set ?ms. month \<le> m" using d by fastforce
    ultimately show ?thesis using ih(1,2) 1(2) by (simp add: ms list_all_iff)
  qed
qed

lemma due_dates_sorted: "sorted (due_dates start till)"
proof -
  let ?ms = "month_starts till (at_day 1 start)" and ?due = "\<lambda>month. at_time 8 0 (at_day 15 month)"
  have ms: "list_all first_day ?ms" "sorted_wrt (\<lambda>a b. a + 2 * DAY \<le> b) ?ms"
    using month_starts_spaced [OF first_day_at] by blast+
  have "?due a \<le> ?due b" if "first_day a" "first_day b" "a + 2 * DAY \<le> b" for a b
  proof -
    have due: "?due m = (m div DAY + 14) * DAY + 480 * MINUTE + m mod MINUTE" if "first_day m" for m
      using that by (simp add: at_time_def at_day_def first_day_def shift_days)
    have "a div DAY + 2 \<le> b div DAY"
      using zdiv_mono1 [OF that(3), of DAY] by (simp add: shift_days DAY_def)
    then have "(a div DAY + 14) * DAY + 2 * DAY \<le> (b div DAY + 14) * DAY" by (simp add: DAY_def)
    moreover have "a mod MINUTE < MINUTE" "0 \<le> b mod MINUTE" by (simp_all add: MINUTE_def)
    ultimately show ?thesis unfolding due [OF that(1)] due [OF that(2)] by (simp add: DAY_def MINUTE_def)
  qed
  then have "sorted_wrt (\<lambda>a b. ?due a \<le> ?due b) ?ms"
    using sorted_wrt_mono_rel [of ?ms "\<lambda>a b. a + 2 * DAY \<le> b"] ms by (auto simp: list_all_iff)
  then have "sorted (map ?due ?ms)" by (simp add: sorted_wrt_map)
  then show ?thesis unfolding due_dates_def by (intro sorted_wrt_filter)
qed

section \<open>The checking account\<close>

definition checking_effect :: "event \<Rightarrow> int \<Rightarrow> int" where
  "checking_effect e balance =
     (if into_checking e then balance + ev_amount e
      else if spends_checking e then balance - ev_amount e else balance)"

text \<open>Along a list of events, from a balance: everything but rent leaves the cushion.\<close>

fun keeps_cushion :: "int \<Rightarrow> event list \<Rightarrow> bool" where
  "keeps_cushion balance [] = True"
| "keeps_cushion balance (e # es) =
     ((if spends_checking e \<and> \<not> into_checking e \<and> dget (ev_accounts e) ''expense'' \<noteq> Some ''rent''
       then BUFFER \<le> checking_effect e balance else True) \<and> keeps_cushion (checking_effect e balance) es)"

lemma purchase_form:
  assumes "postable e" "spends_checking e" "ev_kind e \<noteq> ''transfer''"
  shows "ev_kind e = ''card_purchase'' \<and> (\<exists>x. ev_accounts e = [(''expense'', x), (''funding'', ''checking'')]
     \<and> role_ok (''expense'', x)) \<and> 0 < ev_amount e"
  using assms by (auto simp: postable_def KIND_ROLES_def spends_checking_def map_eq_Cons_conv)

lemma transfer_form:
  assumes "postable e" "ev_kind e = ''transfer''"
  shows "\<exists>x y. ev_accounts e = [(''source'', x), (''destination'', y)] \<and> x \<noteq> y" "0 < ev_amount e"
  using assms by (auto simp: postable_def KIND_ROLES_def map_eq_Cons_conv)

lemma card_effect_mono: "owed \<le> owed' \<Longrightarrow> card_effect e owed \<le> card_effect e owed'"
  by (simp add: card_effect_def)

text \<open>A transfer made smaller, or left out, leaves at least as much owed.\<close>

lemma trimmed_effect:
  assumes "postable e" "ev_kind e = ''transfer''" "owed \<le> owed'" "0 < k" "k \<le> ev_amount e"
  shows "card_effect e owed \<le> owed'" "card_effect e owed \<le> card_effect (e\<lparr>ev_amount := k\<rparr>) owed'"
    "postable (e\<lparr>ev_amount := k\<rparr>)" "is_payment (e\<lparr>ev_amount := k\<rparr>) = is_payment e"
    "spends_checking (e\<lparr>ev_amount := k\<rparr>) = spends_checking e" "into_checking (e\<lparr>ev_amount := k\<rparr>) = into_checking e"
proof -
  obtain x y where a: "ev_accounts e = [(''source'', x), (''destination'', y)]" using transfer_form(1) [OF assms(1,2)] by blast
  show "card_effect e owed \<le> owed'" "card_effect e owed \<le> card_effect (e\<lparr>ev_amount := k\<rparr>) owed'"
    using a assms(2-5) transfer_form(2) [OF assms(1,2)] by (auto simp: card_effect_def)
  show "postable (e\<lparr>ev_amount := k\<rparr>)" using assms(1,4) by (simp add: postable_def)
  show "is_payment (e\<lparr>ev_amount := k\<rparr>) = is_payment e" "spends_checking (e\<lparr>ev_amount := k\<rparr>) = spends_checking e"
    "into_checking (e\<lparr>ev_amount := k\<rparr>) = into_checking e"
    by (simp_all add: is_payment_def spends_checking_def into_checking_def)
qed

text \<open>A purchase moved to the card.\<close>

lemma moved_effect:
  assumes "postable e" "spends_checking e" "ev_kind e \<noteq> ''transfer''" "owed \<le> owed'"
  defines "e' \<equiv> e\<lparr>ev_accounts := dset ''funding'' ''card'' (ev_accounts e)\<rparr>"
  shows "card_effect e owed \<le> card_effect e' owed'" "postable e'" "\<not> is_payment e'" "\<not> spends_checking e'" "\<not> into_checking e'"
    "ev_at e' = ev_at e"
proof -
  from purchase_form [OF assms(1-3)] obtain x where k: "ev_kind e = ''card_purchase''"
    and a: "ev_accounts e = [(''expense'', x), (''funding'', ''checking'')]" and x: "role_ok (''expense'', x)"
    and pos: "0 < ev_amount e" by blast
  have a': "ev_accounts e' = [(''expense'', x), (''funding'', ''card'')]" "ev_kind e' = ''card_purchase''" "ev_amount e' = ev_amount e"
    using a k by (simp_all add: e'_def)
  show "card_effect e owed \<le> card_effect e' owed'" using a a' k pos assms(4) by (simp add: card_effect_def)
  have "x \<noteq> ''card''" using chart_types_differ [OF x role_ok_accounts(2)] by auto
  then show "postable e'" using a' x pos role_ok_accounts(2) by (simp add: postable_def KIND_ROLES_def)
  show "\<not> is_payment e'" "\<not> spends_checking e'" "\<not> into_checking e'"
    using a' by (simp_all add: is_payment_def spends_checking_def into_checking_def)
  show "ev_at e' = ev_at e" by (simp add: e'_def)
qed

definition fitted :: "int \<Rightarrow> event list \<Rightarrow> event list \<Rightarrow> bool" where
  "fitted balance events out \<longleftrightarrow>
     list_all postable out \<and> keeps_cushion balance out \<and> (sorted (map ev_at events) \<longrightarrow> sorted (map ev_at out))
     \<and> ev_at ` set out \<subseteq> ev_at ` set events
     \<and> (\<forall>owed owed'. owed \<le> owed' \<longrightarrow> never_overpays owed events \<longrightarrow> never_overpays owed' out)"

lemma fitted_skip:
  assumes "fitted balance events out" "\<And>owed owed'. owed \<le> owed' \<Longrightarrow> card_effect e owed \<le> owed'"
  shows "fitted balance (e # events) out"
proof -
  have "never_overpays owed' out" if "owed \<le> owed'" "never_overpays owed (e # events)" for owed owed'
    using assms(1) assms(2) [OF that(1)] that(2) unfolding fitted_def never_overpays.simps by blast
  with assms(1) show ?thesis unfolding fitted_def by auto
qed

lemma fitted_step:
  assumes "fitted (checking_effect e' balance) events out" "postable e'" "ev_at e' = ev_at e"
    and "if spends_checking e' \<and> \<not> into_checking e' \<and> dget (ev_accounts e') ''expense'' \<noteq> Some ''rent''
         then BUFFER \<le> checking_effect e' balance else True"
    and "\<And>owed owed'. owed \<le> owed' \<Longrightarrow> card_effect e owed \<le> card_effect e' owed'"
    and "is_payment e' \<Longrightarrow> is_payment e \<and> 1 \<le> ev_amount e' \<and> ev_amount e' \<le> ev_amount e"
  shows "fitted balance (e # events) (e' # out)"
proof -
  have "sorted (map ev_at (e # events)) \<longrightarrow> sorted (map ev_at (e' # out))"
    using assms(1,3) by (auto simp: fitted_def)
  moreover have "never_overpays owed' (e' # out)" if "owed \<le> owed'" "never_overpays owed (e # events)" for owed owed'
    using that assms(1,5,6) by (fastforce simp: fitted_def split: if_splits)
  ultimately show ?thesis using assms(1-4) by (auto simp: fitted_def)
qed

lemma if_trueI: "Q \<Longrightarrow> if P then Q else True"
  by simp

lemma fit_fitted: "list_all postable events \<Longrightarrow> fit balance events a = (out, a') \<Longrightarrow> fitted balance events out"
proof (induction events arbitrary: balance a out a')
  case Nil
  then show ?case by (simp add: fitted_def)
next
  case (Cons e events)
  have post: "postable e" "list_all postable events" using Cons.prems(1) by simp_all
  note ih = Cons.IH [OF post(2)]
  have keep: "fitted balance (e # events) (e # fs)"
    if "fit (checking_effect e balance) events b = (fs, b')"
      "if spends_checking e \<and> \<not> into_checking e \<and> dget (ev_accounts e) ''expense'' \<noteq> Some ''rent''
       then BUFFER \<le> checking_effect e balance else True" for b fs b'
    using fitted_step [OF ih [OF that(1)] post(1) refl that(2)] card_effect_mono post(1) by (simp add: postable_def)
  consider (into) "into_checking e" | (other) "\<not> into_checking e" "\<not> spends_checking e"
    | (enough) "\<not> into_checking e" "spends_checking e" "ev_amount e \<le> balance - BUFFER"
    | (transfer) "\<not> into_checking e" "spends_checking e" "\<not> ev_amount e \<le> balance - BUFFER" "ev_kind e = ''transfer''"
    | (rent) "\<not> into_checking e" "spends_checking e" "\<not> ev_amount e \<le> balance - BUFFER" "ev_kind e \<noteq> ''transfer''"
        "dget (ev_accounts e) ''expense'' = Some ''rent''"
    | (purchase) "\<not> into_checking e" "spends_checking e" "\<not> ev_amount e \<le> balance - BUFFER" "ev_kind e \<noteq> ''transfer''"
        "dget (ev_accounts e) ''expense'' \<noteq> Some ''rent''" by blast
  then show ?case
  proof cases
    case transfer
    let ?k = "max 0 ((balance - BUFFER) div 10000 * 10000)"
    show ?thesis
    proof (cases "?k \<le> 0")
      case True
      then have "fit balance events (a\<lparr>transfers_skipped := transfers_skipped a + 1\<rparr>) = (out, a')"
        using Cons.prems(2) transfer by (simp add: Let_def)
      from fitted_skip [OF ih [OF this]] show ?thesis
        using trimmed_effect(1) [OF post(1) transfer(4) _ transfer_form(2) [OF post(1) transfer(4)] order_refl] by blast
    next
      case False
      have k: "0 < ?k" "?k \<le> ev_amount e" "?k \<le> balance - BUFFER"
        using False transfer(3) div_mult_mod_eq [of "balance - BUFFER" 10000] pos_mod_sign [of 10000 "balance - BUFFER"] by linarith+
      obtain fs where fs: "fit (balance - ?k) events (a\<lparr>transfers_reduced := transfers_reduced a + 1\<rparr>) = (fs, a')"
        and out: "out = e\<lparr>ev_amount := ?k\<rparr> # fs"
        using Cons.prems(2) transfer False by (auto simp: Let_def split: prod.splits)
      note te = trimmed_effect [OF post(1) transfer(4) _ k(1,2)]
      have eff: "checking_effect (e\<lparr>ev_amount := ?k\<rparr>) balance = balance - ?k"
        using te(5,6) [OF order_refl] transfer(1,2) by (simp add: checking_effect_def)
      show ?thesis unfolding out
      proof (rule fitted_step)
        show "fitted (checking_effect (e\<lparr>ev_amount := ?k\<rparr>) balance) events fs" unfolding eff by (rule ih [OF fs])
        show "if spends_checking (e\<lparr>ev_amount := ?k\<rparr>) \<and> \<not> into_checking (e\<lparr>ev_amount := ?k\<rparr>)
            \<and> dget (ev_accounts (e\<lparr>ev_amount := ?k\<rparr>)) ''expense'' \<noteq> Some ''rent''
          then BUFFER \<le> checking_effect (e\<lparr>ev_amount := ?k\<rparr>) balance else True"
          unfolding eff by (rule if_trueI) (use k(3) in linarith)
        show "is_payment (e\<lparr>ev_amount := ?k\<rparr>) \<Longrightarrow>
            is_payment e \<and> 1 \<le> ev_amount (e\<lparr>ev_amount := ?k\<rparr>) \<and> ev_amount (e\<lparr>ev_amount := ?k\<rparr>) \<le> ev_amount e"
          using te(4) [OF order_refl] k(1,2) by simp
      qed (use te(2,3) in auto)
    qed
  next
    case purchase
    let ?e = "e\<lparr>ev_accounts := dset ''funding'' ''card'' (ev_accounts e)\<rparr>"
    obtain fs where fs: "fit balance events (a\<lparr>moved_to_card := moved_to_card a + 1\<rparr>) = (fs, a')" and out: "out = ?e # fs"
      using Cons.prems(2) purchase by (auto simp: Let_def split: prod.splits)
    note me = moved_effect [OF post(1) purchase(2,4)]
    have eff: "checking_effect ?e balance = balance"
      using me(4,5) [OF order_refl] by (simp add: checking_effect_def)
    show ?thesis unfolding out
    proof (rule fitted_step)
      show "fitted (checking_effect ?e balance) events fs" unfolding eff by (rule ih [OF fs])
      show "postable ?e" by (rule me(2) [OF order_refl])
      show "card_effect e owed \<le> card_effect ?e owed'" if "owed \<le> owed'" for owed owed'
        by (rule me(1) [OF that])
    qed (use me(3,4) [OF order_refl] in simp_all)
  qed (use Cons.prems(2) in \<open>auto intro!: keep simp: checking_effect_def Let_def split: prod.splits\<close>)
qed

end
