(* ===== verification/Loadgen_Properties.thy ===== *)
theory Loadgen_Properties
  imports Loadgen_Fit
begin

text \<open>
  The properties of \<open>loadgen.py\<close>: the plan of a run is postable, in order, within the card's balance and above the
  checking account's cushion; every event of it builds a journal; and \<open>generate\<close> accounts for every event it posts.
\<close>

section \<open>The plan\<close>

lemma low_bound: "\<exists>low. (\<forall>t \<in> set ts. low \<le> t) \<and> (\<forall>e \<in> set es. low \<le> ev_at e)" for ts :: "int list"
proof -
  let ?S = "set ts \<union> ev_at ` set es"
  have "Min (insert 0 ?S) \<le> x" if "x \<in> ?S" for x using that by simp
  then show ?thesis by (intro exI [of _ "Min (insert 0 ?S)"]) auto
qed

lemma payoffs_sound:
  assumes "unit_ok rng" "list_all planned events" "with_card_payoffs rng events start days n = (out, n')"
  shows "list_all postable out \<and> sorted (map ev_at out) \<and> never_overpays 0 out"
proof -
  let ?es = "sort_key ev_at events" and ?dues = "due_dates start (start + days * DAY)"
  obtain walked n1 where w: "card_walk rng ?es ?dues 0 n = (walked, n1)" by fastforce
  obtain low where low: "\<forall>t \<in> set ?dues. low \<le> t" "\<forall>e \<in> set ?es. low \<le> ev_at e"
    using low_bound [of ?dues ?es] by blast
  have pl: "list_all (\<lambda>e. \<not> is_payment e) ?es" "list_all postable ?es"
    using assms(2) by (auto simp: list_all_iff planned_def)
  have "never_overpays 0 walked \<and> sorted (map ev_at walked) \<and> list_all postable walked"
    using card_walk_Inr [OF assms(1) w due_dates_sorted _ pl(1), of low] low pl(2) by (simp add: list_all_iff)
  moreover from this have "out = walked"
    using assms(3) w by (simp add: with_card_payoffs_def sort_key_id_if_sorted)
  ultimately show ?thesis by blast
qed

lemma plan_sound:
  assumes "unit_ok rng" "plan rng start days = (out, a)"
  shows "list_all postable out \<and> sorted (map ev_at out) \<and> never_overpays 0 out \<and> keeps_cushion 0 out"
proof -
  obtain es n1 where t: "timeline rng start days 0 = (es, n1)" by fastforce
  obtain fs n2 where p: "with_card_payoffs rng es start days n1 = (fs, n2)" by fastforce
  have f: "fit_to_checking fs = (out, a)" using assms(2) t p by (simp add: plan_def)
  have s: "list_all postable fs \<and> sorted (map ev_at fs) \<and> never_overpays 0 fs"
    using payoffs_sound [OF assms(1) _ p] timeline_planned [of rng start days 0] t by simp
  then have "fitted 0 fs out" using fit_fitted f by (simp add: fit_to_checking_def)
  with s show ?thesis unfolding fitted_def by blast
qed

text \<open>
  C33. The plan of a load run is sound: whatever the draws, every event is one the posting rules take over the default
  chart of accounts, the events come in order of time, no card payment exceeds what is owed on the card at its moment,
  and everything paid from checking other than rent leaves the cushion of 120 dollars there.
\<close>

theorem plan_is_sound:
  assumes "unit_ok rng"
  shows "list_all postable (fst (plan rng start days)) \<and> sorted (map ev_at (fst (plan rng start days)))
     \<and> never_overpays 0 (fst (plan rng start days)) \<and> keeps_cushion 0 (fst (plan rng start days))"
  using plan_sound [OF assms, of start days] by (metis prod.collapse)

definition steady :: random where
  "steady = \<lparr>rg_below = (\<lambda>n k. 7 * n), rg_unit = (\<lambda>n. of_nat (n mod 8) / 8), rg_gauss = (\<lambda>n mu sigma. mu),
             rg_percent = (\<lambda>x. [])\<rparr>"

lemma steady_ok: "unit_ok steady"
proof -
  have "n mod 8 < 8" for n :: nat by simp
  then have "(of_nat (n mod 8) :: real) < of_nat 8" for n by (simp only: of_nat_less_iff)
  then show ?thesis by (simp add: unit_ok_def steady_def)
qed

theorem plan_is_sound_witness:
  "unit_ok steady \<and> sorted (map ev_at (fst (plan steady 1700000000000000 40)))
   \<and> never_overpays 0 (fst (plan steady 1700000000000000 40)) \<and> keeps_cushion 0 (fst (plan steady 1700000000000000 40))"
  using steady_ok plan_is_sound [OF steady_ok, of 1700000000000000 40] by blast

section \<open>Every event builds a journal\<close>

definition event_request :: "(string \<Rightarrow> string) \<Rightarrow> event \<Rightarrow> posting_request" where
  "event_request accts e =
     \<lparr>pr_amount = \<lparr>minor = ev_amount e, currency = ''usd''\<rparr>, pr_effective = Aware (ev_at e),
      pr_accounts = map (\<lambda>(role, x). (role, accts x)) (ev_accounts e), pr_metadata = event_metadata e\<rparr>"

definition is_Inr :: "'a + 'b \<Rightarrow> bool" where
  "is_Inr r = (case r of Inl _ \<Rightarrow> False | Inr _ \<Rightarrow> True)"

lemma REGISTRY_get:
  "dget REGISTRY ''card_purchase'' = Some CardPurchase" "dget REGISTRY ''deposit'' = Some Deposit"
  "dget REGISTRY ''opening_balance'' = Some OpeningBalance" "dget REGISTRY ''transfer'' = Some Transfer"
  "dget REGISTRY ''refund'' = Some Refund"
  using registered [of CardPurchase] registered [of Deposit] registered [of OpeningBalance] registered [of Transfer]
    registered [of Refund]
  by (simp_all add: posting_rules_def) (simp_all add: CardPurchase_def Deposit_def OpeningBalance_def Transfer_def Refund_def)

lemma two_legs_build:
  assumes "dget REGISTRY kind = Some rule" "rule_build rule r = simple_posting debit credit r" "is_positive (pr_amount r)"
    "tz_aware (pr_effective r)" "dget (pr_accounts r) debit = Some x" "dget (pr_accounts r) credit = Some y"
  shows "is_Inr (build_transaction i kind r)"
proof -
  obtain es where es: "simple_posting debit credit r = Inr es"
    using assms(3,5,6) by (simp add: simple_posting_Inr_iff)
  then have "2 \<le> length es" "balanced es" by (auto simp: simple_posting_Inr_iff balanced_def)
  then show ?thesis using assms(1,2,4) es by (simp add: build_transaction_def mk_journal_eq is_Inr_def)
qed

lemma KIND_ROLES_cases:
  "(k, rs) \<in> set KIND_ROLES \<longleftrightarrow>
     k = ''opening_balance'' \<and> rs = [''destination'', ''equity''] \<or> k = ''deposit'' \<and> rs = [''destination'', ''income''] \<or>
     k = ''card_purchase'' \<and> rs = [''expense'', ''funding''] \<or> k = ''transfer'' \<and> rs = [''source'', ''destination''] \<or>
     k = ''refund'' \<and> rs = [''expense'', ''funding'']"
  by (simp only: KIND_ROLES_def list.set insert_iff empty_iff prod.inject simp_thms)

lemma postable_builds:
  assumes "postable e" "inj accts"
  shows "is_Inr (build_transaction i (ev_kind e) (event_request accts e))"
proof -
  have roles: "(ev_kind e, map fst (ev_accounts e)) \<in> set KIND_ROLES" "distinct (map snd (ev_accounts e))"
    using assms(1) by (simp_all add: postable_def)
  have two_roles: "list_all (\<lambda>q. length (snd q) = 2) KIND_ROLES" by (simp add: KIND_ROLES_def)
  have "length (snd (ev_kind e, map fst (ev_accounts e))) = 2"
    by (rule bspec [OF two_roles [unfolded list_all_iff] roles(1)])
  then have "length (ev_accounts e) = 2" by simp
  then obtain r x r' y where a: "ev_accounts e = [(r, x), (r', y)]"
    by (auto simp: numeral_2_eq_2 length_Suc_conv)
  with roles have ne: "x \<noteq> y" and k: "(ev_kind e, [r, r']) \<in> set KIND_ROLES" by simp_all
  have ne': "accts x \<noteq> accts y" using ne assms(2) by (auto dest: injD)
  let ?r = "event_request accts e"
  have r: "is_positive (pr_amount ?r)" "tz_aware (pr_effective ?r)"
    and accts: "pr_accounts ?r = [(r, accts x), (r', accts y)]"
    using assms(1) a by (simp_all add: event_request_def is_positive_def postable_def)
  note two = two_legs_build [OF _ _ r]
  from k [unfolded KIND_ROLES_cases] show ?thesis
  proof (elim disjE)
    assume o: "ev_kind e = ''opening_balance'' \<and> [r, r'] = [''destination'', ''equity'']"
    then show ?thesis using two [of _ OpeningBalance "''destination''" "''equity''"] REGISTRY_get accts
      by (simp add: OpeningBalance_def)
  next
    assume d: "ev_kind e = ''deposit'' \<and> [r, r'] = [''destination'', ''income'']"
    then show ?thesis using two [of _ Deposit "''destination''" "''income''"] REGISTRY_get accts
      by (simp add: Deposit_def)
  next
    assume p: "ev_kind e = ''card_purchase'' \<and> [r, r'] = [''expense'', ''funding'']"
    then show ?thesis using two [of _ CardPurchase "''expense''" "''funding''"] REGISTRY_get accts
      by (simp add: CardPurchase_def)
  next
    assume t: "ev_kind e = ''transfer'' \<and> [r, r'] = [''source'', ''destination'']"
    have "build_transfer ?r = simple_posting ''destination'' ''source'' ?r"
      using t accts ne' by (simp add: build_transfer_def request_account_def raise_if_def)
    then show ?thesis using two [of _ Transfer "''destination''" "''source''"] REGISTRY_get accts t
      by (simp add: Transfer_def)
  next
    assume f: "ev_kind e = ''refund'' \<and> [r, r'] = [''expense'', ''funding'']"
    then show ?thesis using two [of _ Refund "''funding''" "''expense''"] REGISTRY_get accts
      by (simp add: Refund_def)
  qed
qed

text \<open>
  Every event of the plan is a business event the ledger accepts: whatever ids the chart's accounts have, as long as
  they differ, the posting rule of its kind builds a balanced journal from it.
\<close>

theorem planned_events_build:
  assumes "unit_ok rng" "inj accts"
  shows "list_all (\<lambda>e. is_Inr (build_transaction i (ev_kind e) (event_request accts e))) (fst (plan rng start days))"
proof -
  obtain out a where p: "plan rng start days = (out, a)" by fastforce
  have "list_all postable out" using plan_sound [OF assms(1) p] by blast
  then show ?thesis using postable_builds [OF _ assms(2)] by (simp add: p list_all_iff)
qed

theorem planned_events_build_witness:
  "list_all (\<lambda>e. is_Inr (build_transaction ''txn_1'' (ev_kind e) (event_request ((@) ''acc_'') e)))
     (fst (plan steady 1700000000000000 40))"
  by (rule planned_events_build [OF steady_ok]) (simp add: inj_def)

section \<open>Posting the plan\<close>

text \<open>A body that writes nothing to the ledger before it can be declined.\<close>

definition is_decline :: "exn \<Rightarrow> bool" where
  "is_decline x = (case x of AppExn (TransactionDeclined _) \<Rightarrow> True | _ \<Rightarrow> False)"

definition leaves_ledger :: "'a m \<Rightarrow> bool" where
  "leaves_ledger m \<longleftrightarrow> (\<forall>s x s'. m s = (Inl x, s') \<longrightarrow> is_decline x \<longrightarrow> led s' = led s)"

definition never_declines :: "'a m \<Rightarrow> bool" where
  "never_declines m \<longleftrightarrow> (\<forall>s x s'. m s = (Inl x, s') \<longrightarrow> \<not> is_decline x)"

named_theorems decline_intros

lemma leaves_ledger_bind [decline_intros]:
  assumes "\<And>l. keeps (\<lambda>s. led s = l) m" "\<And>x. leaves_ledger (f x)"
  shows "leaves_ledger (bind_op m f)"
proof -
  have "led s' = led s" if r: "bind_op m f s = (Inl x, s')" and x: "is_decline x" for s x s'
  proof -
    from r consider "m s = (Inl x, s')" | y s1 where "m s = (Inr y, s1)" "f y s1 = (Inl x, s')"
      by (auto simp: bind_op_Inl_iff)
    then show ?thesis
    proof cases
      case 1
      then show ?thesis using keepsD [OF assms(1) refl] by blast
    next
      case 2
      then have "led s1 = led s" using keepsD [OF assms(1) refl] by blast
      moreover have "led s' = led s1" using assms(2) 2(2) x unfolding leaves_ledger_def by blast
      ultimately show ?thesis by simp
    qed
  qed
  then show ?thesis by (simp add: leaves_ledger_def)
qed

lemma leaves_ledger_never: "never_declines m \<Longrightarrow> leaves_ledger m"
  unfolding leaves_ledger_def never_declines_def by blast

lemma never_declines_bind [decline_intros]:
  "never_declines m \<Longrightarrow> (\<And>x. never_declines (f x)) \<Longrightarrow> never_declines (bind_op m f)"
  by (fastforce simp: never_declines_def bind_op_Inl_iff)

lemma never_declines_basic [decline_intros]:
  "never_declines (ret_op x)" "never_declines (reads h)" "never_declines (fresh_id g)"
  "never_declines (raise_op (DbExn d))" "never_declines (raise_op (PyExn y))"
  by (auto simp: never_declines_def result_simps is_decline_def fresh_id_def split: prod.splits)

lemma never_declines_option [decline_intros]:
  "never_declines a \<Longrightarrow> (\<And>y. never_declines (b y)) \<Longrightarrow> never_declines (case d of None \<Rightarrow> a | Some y \<Rightarrow> b y)"
  "never_declines a \<Longrightarrow> never_declines c \<Longrightarrow> never_declines (if q then a else c)"
  "(\<And>x. never_declines (f x)) \<Longrightarrow> never_declines (Let v f)"
  by (simp_all split: option.split)

lemma never_declines_from_option [decline_intros]: "never_declines (lift_op (from_option (PyExn y) v))"
  by (auto simp: never_declines_def result_simps is_decline_def from_option_def split: option.splits)

lemma never_declines_tables [decline_intros]:
  "never_declines (on_led (txn_insert now j tenant mode))" "never_declines (on_led (entries_insert_many now j recorded))"
  "never_declines (on_nrm (insert_raw l now i tenant mode acct txn payload d amount cur occurred))"
  "never_declines (on_evt (append_outbox ts now i tenant mode key ty payload))"
proof -
  have one: "entry_insert now j recorded e t = (Inl x, t') \<Longrightarrow> \<not> is_decline x" for e t x t'
    by (auto simp: entry_insert_def Let_def result_simps is_decline_def)
  have "map_op (entry_insert now j recorded) es t = (Inl x, t') \<Longrightarrow> \<not> is_decline x" for es t x t'
    by (induction es arbitrary: t t') (auto simp: result_simps dest: one)
  then show "never_declines (on_led (entries_insert_many now j recorded))"
    by (auto simp: never_declines_def result_simps entries_insert_many_def)
  show "never_declines (on_led (txn_insert now j tenant mode))"
    "never_declines (on_nrm (insert_raw l now i tenant mode acct txn payload d amount cur occurred))"
    "never_declines (on_evt (append_outbox ts now i tenant mode key ty payload))"
    by (auto simp: never_declines_def result_simps txn_insert_def insert_raw_def append_outbox_def Let_def is_decline_def)
qed

lemma never_declines_parts [decline_intros]:
  "never_declines (insert_descriptor ctx rs txn kind amount md d)" "never_declines (emit ctx ty key payload)"
  unfolding insert_descriptor_def emit_def by (intro decline_intros)+

lemma post_leaves_ledger: "leaves_ledger (post_transaction ctx kind accts amount effective descriptor md)"
  unfolding post_transaction_def post_resolved_def
  by (intro leaves_ledger_bind keeps_intros leaves_ledger_never decline_intros)

lemma post_event_leaves_ledger: "leaves_ledger (post_event ctx e)"
  unfolding post_event_def by (intro leaves_ledger_bind keeps_intros post_leaves_ledger)


text \<open>What the loop has done: one transaction for each event that was not declined, of the event's time.\<close>

lemma post_event_Inr:
  assumes "post_event ctx e s = (Inr out, s')"
  shows "\<exists>row. transactions (led s') = transactions (led s) @ [row] \<and> t_effective row = ev_at e \<and> t_kind row = ev_kind e"
proof -
  obtain amount where run: "post_transaction ctx (ev_kind e) (ev_accounts e) amount (Some (Aware (ev_at e)))
      (ev_descriptor e) (event_metadata e) s = (Inr out, s')"
    using assms by (auto simp: post_event_def result_simps simp del: op_run)
  from post_transaction_Inr [OF run] obtain rs where
    p: "post_resolved ctx (ev_kind e) rs amount (Aware (ev_at e)) (ev_descriptor e) (event_metadata e) s = (Inr out, s')"
    by auto
  obtain i txn row l1 es where
    b: "build_transaction i (ev_kind e) \<lparr>pr_amount = amount, pr_effective = Aware (ev_at e),
         pr_accounts = map (\<lambda>(role, row). (role, a_id row)) rs, pr_metadata = event_metadata e\<rparr> = Inr txn"
    and t: "txn_insert (tx_now s) txn (c_tenant ctx) (c_mode ctx) (led s) = (Inr row, l1)"
    and e: "entries_insert_many (tx_now s) txn None l1 = (Inr es, led s')"
    by (rule post_resolved_Inr [OF p])
  have j: "j_effective txn = Aware (ev_at e)" "j_kind txn = ev_kind e"
    using b by (auto simp: build_transaction_def result_simps mk_journal_Inr_iff split: option.splits)
  show ?thesis using txn_insert_Inr [OF t] entries_insert_many_Inr [OF e] j by simp
qed

definition accounted :: "event list \<Rightarrow> nat \<Rightarrow> st \<Rightarrow> st \<Rightarrow> bool" where
  "accounted es declines s s' \<longleftrightarrow>
     (\<exists>rows. transactions (led s') = transactions (led s) @ rows \<and> length rows + declines = length es
        \<and> t_effective ` set rows \<subseteq> ev_at ` set es)"

lemma accounted_Cons:
  "transactions (led s1) = transactions (led s) @ [row] \<Longrightarrow> t_effective row = ev_at e \<Longrightarrow> accounted es n s1 s' \<Longrightarrow>
   accounted (e # es) n s s'"
  "led s1 = led s \<Longrightarrow> accounted es n s1 s' \<Longrightarrow> accounted (e # es) (Suc n) s s'"
  unfolding accounted_def by (fastforce, fastforce)

lemma total_bump: "sum_list (map snd (dbump k n d)) = sum_list (map snd d) + n"
  by (induction d) (auto simp: dbump_def)

lemma post_events_Inr:
  "post_events ctx es (declined, tally) s = (Inr (declined', tally'), s') \<Longrightarrow>
   \<exists>more. declined' = declined @ more \<and> accounted es (length more) s s'
     \<and> sum_list (map snd tally') + int (length more) = sum_list (map snd tally) + int (length es)
     \<and> fst ` set tally' \<subseteq> fst ` set tally \<union> ev_kind ` set es"
proof (induction es arbitrary: declined tally s)
  case Nil
  then show ?case by (simp add: accounted_def)
next
  case (Cons e es)
  obtain r s1 where one: "post_event ctx e s = (r, s1)" by fastforce
  show ?case
  proof (cases r)
    case (Inr out)
    have rest: "post_events ctx es (declined, dbump (ev_kind e) 1 tally) s1 = (Inr (declined', tally'), s')"
      using Cons.prems one Inr by simp
    from Cons.IH [OF rest] obtain more where m: "declined' = declined @ more" "accounted es (length more) s1 s'"
      "sum_list (map snd tally') + int (length more) = sum_list (map snd tally) + 1 + int (length es)"
      "fst ` set tally' \<subseteq> insert (ev_kind e) (fst ` set tally) \<union> ev_kind ` set es"
      by (auto simp: total_bump dbump_keys)
    obtain row where "transactions (led s1) = transactions (led s) @ [row]" "t_effective row = ev_at e"
      using post_event_Inr one Inr by blast
    from accounted_Cons(1) [OF this m(2)] m show ?thesis by (intro exI [of _ more]) auto
  next
    case (Inl x)
    with Cons.prems one obtain d where x: "x = AppExn (TransactionDeclined d)"
      and rest: "post_events ctx es (declined @ [d], tally) s1 = (Inr (declined', tally'), s')"
      by (auto split: exn.splits app_error.splits)
    have "led s1 = led s" using post_event_leaves_ledger one Inl x unfolding leaves_ledger_def is_decline_def by fastforce
    moreover from Cons.IH [OF rest] obtain more where m: "declined' = (declined @ [d]) @ more" "accounted es (length more) s1 s'"
      "sum_list (map snd tally') + int (length more) = sum_list (map snd tally) + int (length es)"
      "fst ` set tally' \<subseteq> fst ` set tally \<union> ev_kind ` set es"
      by blast
    ultimately have "accounted (e # es) (length (d # more)) s s'" using accounted_Cons(2) by simp
    with m show ?thesis by (intro exI [of _ "d # more"]) auto
  qed
qed

lemma keeps_post_event [keeps_intros]:
  assumes "\<And>kind accts amount effective descriptor md. keeps P (post_transaction ctx kind accts amount effective descriptor md)"
  shows "keeps P (post_event ctx e)"
  unfolding post_event_def by (intro keeps_intros assms)

lemma keeps_post_events:
  assumes "\<And>e. keeps P (post_event ctx e)"
  shows "keeps P (post_events ctx es acc)"
proof (rule keepsI)
  fix s r s'
  show "P s \<Longrightarrow> post_events ctx es acc s = (r, s') \<Longrightarrow> P s'"
  proof (induction es arbitrary: acc s)
    case Nil
    then show ?case by simp
  next
    case (Cons e es)
    obtain declined tally where acc: "acc = (declined, tally)" by fastforce
    obtain q s1 where one: "post_event ctx e s = (q, s1)" by fastforce
    have "P s1" using keepsD [OF assms Cons.prems(1) one] .
    with Cons one acc show ?case by (auto split: sum.splits exn.splits app_error.splits)
  qed
qed

lemma well_behaved_post_events: "well_behaved (post_events ctx es acc)"
  using well_behaved_post unfolding well_behaved_def by (intro conjI allI keeps_post_events keeps_post_event) blast+

lemma record_declines_ledger: "keeps (\<lambda>s. transactions (led s) = ts) (each_op (record_decline ctx) ds)"
proof -
  have body: "keeps (\<lambda>s. transactions (led s) = ts)
      (bind_op (fresh_id (new_id ''sig'')) (\<lambda>i. bind_op (reads tx_now) (\<lambda>now. bind_op (reads led) (\<lambda>l.
        on_rsk (decline_insert l now i (c_tenant ctx) (dc_account d) (dc_rule d) (dc_score d)
          (dc_amount d) (dc_message d)
          (JObj [(''txn_count_1h'', JInt (dc_txn_count d)), (''max_amount_1h'', JInt (dc_max_amount d))]))))))" for d
    by (intro keeps_intros)
  have "keeps (\<lambda>s. transactions (led s) = ts) (record_decline ctx d)" for d
  proof (rule keepsI)
    fix s r s'
    assume s: "transactions (led s) = ts" and run: "record_decline ctx d s = (r, s')"
    show "transactions (led s') = ts"
    proof (cases r)
      case (Inl x)
      with run show ?thesis using s unfolding record_decline_def by (auto dest!: unit_of_work_Inl simp: rollback_def)
    next
      case (Inr u)
      with run s show ?thesis unfolding record_decline_def
        by (auto simp only: unit_of_work_Inr_iff dest!: keepsD [OF body, rotated]) simp
    qed
  qed
  then show ?thesis by (intro keeps_each)
qed

lemma postable_kind: "postable e \<Longrightarrow> ev_kind e \<noteq> ''declined''"
  unfolding postable_def KIND_ROLES_cases by (elim conjE disjE) simp_all

lemma total_set: "k \<notin> fst ` set d \<Longrightarrow> sum_list (map snd (dset k n d)) = sum_list (map snd d) + n" for n :: int
  by (induction d) auto

lemma prefix_set: "set (prefix_to n xs) \<subseteq> set xs"
  by (simp add: prefix_to_def set_take_subset)

lemma generate_Inr:
  assumes "generate rng tenant count days mode s = (Inr g, s')"
  obtains es declined tally s1 where
    "es = prefix_to count (filter (\<lambda>e. ev_at e \<le> wall s) (fst (plan rng (wall s - days * DAY) days)))"
    "unit_of_work (post_events \<lparr>c_tenant = tenant, c_api_key = ''loadgen'', c_mode = mode\<rparr> es ([], [])) s
       = (Inr (declined, tally), s1)"
    "each_op (record_decline \<lparr>c_tenant = tenant, c_api_key = ''loadgen'', c_mode = mode\<rparr>) declined s1 = (Inr (), s')"
    "gn_transactions g = length es"
    "gn_tally g = (if declined = [] then tally else dset ''declined'' (int (length declined)) tally)"
  using assms that
  by (auto simp: generate_def Let_def result_simps simp del: op_run split: prod.splits)

text \<open>
  C34. \<open>generate\<close> accounts for every event it counts: a run that returns has added one transaction for each of them that
  the screening did not decline, dated no later than the moment of the run, its tally adds up to that count with the
  declined ones under their own key, and the database is left well formed and balanced.
\<close>

theorem generate_accounts_for_every_event:
  assumes "unit_ok rng" "db_ok s" "generate rng tenant count days mode s = (Inr g, s')"
  shows "db_ok s' \<and> sum_list (map snd (gn_tally g)) = int (gn_transactions g)
     \<and> (\<exists>rows. transactions (led s') = transactions (led s) @ rows
          \<and> int (length rows) + dval (gn_tally g) ''declined'' = int (gn_transactions g)
          \<and> list_all (\<lambda>t. t_effective t \<le> wall s) rows)"
proof -
  let ?ctx = "\<lparr>c_tenant = tenant, c_api_key = ''loadgen'', c_mode = mode\<rparr>"
  obtain es declined tally s1 where
    es: "es = prefix_to count (filter (\<lambda>e. ev_at e \<le> wall s) (fst (plan rng (wall s - days * DAY) days)))"
    and post: "unit_of_work (post_events ?ctx es ([], [])) s = (Inr (declined, tally), s1)"
    and rec: "each_op (record_decline ?ctx) declined s1 = (Inr (), s')"
    and g: "gn_transactions g = length es"
      "gn_tally g = (if declined = [] then tally else dset ''declined'' (int (length declined)) tally)"
    using generate_Inr [OF assms(3)] by blast
  have sub: "set es \<subseteq> set (fst (plan rng (wall s - days * DAY) days))" "\<forall>e \<in> set es. ev_at e \<le> wall s"
    using prefix_set [of count] unfolding es by fastforce+
  have "list_all postable (fst (plan rng (wall s - days * DAY) days))"
    using plan_sound [OF assms(1)] by (metis prod.collapse)
  with sub(1) have "\<forall>e \<in> set es. ev_kind e \<noteq> ''declined''"
    using postable_kind by (auto simp: list_all_iff)
  moreover have run: "post_events ?ctx es ([], []) (s\<lparr>tx_now := wall s\<rparr>) = (Inr (declined, tally), s1)"
    using post by (simp only: unit_of_work_Inr_iff)
  from post_events_Inr [OF run] have acc: "accounted es (length declined) (s\<lparr>tx_now := wall s\<rparr>) s1"
    and sum: "sum_list (map snd tally) + int (length declined) = int (length es)"
    and keys: "fst ` set tally \<subseteq> ev_kind ` set es" by auto
  ultimately have fresh: "''declined'' \<notin> fst ` set tally" by auto
  then have "dget tally ''declined'' = None" by (simp add: map_of_eq_None_iff)
  then have none: "dval tally ''declined'' = 0" by (simp add: dval_def)
  have ok: "db_ok s'"
    using keepsD [OF unit_of_work_db_ok [OF well_behaved_post_events] assms(2) post]
      keepsD [OF keeps_each [OF keeps_record_decline] _ rec] by blast
  have same: "transactions (led s') = transactions (led s1)"
    using keepsD [OF record_declines_ledger refl rec] .
  obtain rows where rows: "transactions (led s1) = transactions (led s) @ rows" "length rows + length declined = length es"
    "t_effective ` set rows \<subseteq> ev_at ` set es" using acc by (auto simp: accounted_def)
  have "list_all (\<lambda>t. t_effective t \<le> wall s) rows" using rows(3) sub(2) by (auto simp: list_all_iff)
  moreover have "sum_list (map snd (gn_tally g)) = int (gn_transactions g)"
    using sum g total_set [OF fresh] by auto
  moreover have "dval (gn_tally g) ''declined'' = int (length declined)"
    using g(2) none by (simp add: dval_def update_conv')
  moreover have "transactions (led s') = transactions (led s) @ rows" using same rows(1) by simp
  moreover have "int (length rows) + int (length declined) = int (gn_transactions g)" using rows(2) g(1) by linarith
  ultimately show ?thesis using ok by (intro conjI exI [of _ rows]) simp_all
qed

text \<open>A run of one event: the opening balance of checking, which a plan of no days begins with.\<close>

lemma sort_key_first: "list_all (\<lambda>y. f x \<le> f y) ys \<Longrightarrow> sort_key f (x # ys) = x # sort_key f ys" for f :: "'a \<Rightarrow> int"
  by (simp add: list_all_iff insort_is_Cons)

definition dawn :: int where "dawn = 1000000000"

lemma dawn_months: "month_starts dawn (at_day 1 dawn) = []"
  by (subst month_starts.simps) (simp add: dawn_def at_day_def day_of_month_def DAY_def Let_def)

lemma unknown_dawn: "unknown_events steady dawn 0 k n = (es, n') \<Longrightarrow> list_all (\<lambda>e. dawn \<le> ev_at e) es"
  by (induction k arbitrary: n es n') (auto simp: uniform_def span_def round_even_def split: prod.splits)

lemma refund_dawn: "refund_events steady dawn 0 k n = (es, n') \<Longrightarrow> list_all (\<lambda>e. dawn \<le> ev_at e) es"
proof -
  have "0 \<le> span (5 + (0 - 5) * rg_unit steady m)" for m
    using steady_ok [unfolded unit_ok_def, rule_format, of m]
    unfolding span_def by (intro round_even_mono) (simp add: DAY_def)
  then show "refund_events steady dawn 0 k n = (es, n') \<Longrightarrow> list_all (\<lambda>e. dawn \<le> ev_at e) es"
    by (induction k arbitrary: n es n') (auto simp: uniform_def split: prod.splits)
qed

lemma burst_dawn: "dawn \<le> t \<Longrightarrow> 0 \<le> i \<Longrightarrow> burst_events steady t i k n = (es, n') \<Longrightarrow> list_all (\<lambda>e. dawn \<le> ev_at e) es"
proof (induction k arbitrary: i n es n')
  case (Suc k)
  show ?case using Suc.prems Suc.IH [of "i + 1"] by (auto split: prod.splits)
qed simp

lemma span_zero: "span 0 = 0"
  by (simp add: span_def round_even_def)

definition first_event :: event where
  "first_event = \<lparr>ev_at = 700000000, ev_kind = ''opening_balance'',
     ev_accounts = [(''destination'', ''checking''), (''equity'', ''opening'')], ev_amount = 384000,
     ev_descriptor = None, ev_note = ''opening balance''\<rparr>"

lemma dawn_subscriptions: "fst (subscription_events steady dawn dawn items n) = []"
proof (induction items arbitrary: n)
  case (Cons item items)
  obtain template account amount where item: "item = (template, account, amount)" by (cases item)
  obtain d n1 where d: "randint steady 0 27 n = (d, n1)" by fastforce
  have "\<not> dawn + d * DAY < dawn" using randint_range [of 0 27 steady n] d by (simp add: DAY_def)
  then have c: "charges steady dawn item (dawn + d * DAY) n1 = ([], n1)" unfolding item by (subst charges.simps) simp
  show ?case using Cons [of n1] d c by (simp split: prod.splits)
qed simp

lemma dawn_everyday: "fst (everyday_events steady dawn dawn habits n) = []"
proof (induction habits arbitrary: n)
  case (Cons habit habits)
  obtain template account low high cadence where h: "habit = (template, account, low, high, cadence)" by (cases habit)
  have c: "habit_events steady dawn habit dawn n = ([], n)" unfolding h by (subst habit_events.simps) simp
  show ?case using Cons [of n] c by (simp split: prod.splits)
qed simp

lemma dawn_timeline:
  "\<exists>es n. timeline steady dawn 0 0 = (first_event # es, n)"
proof -
  have op: "opening_events dawn = first_event # tl (opening_events dawn)"
    "list_all (\<lambda>e. ev_at first_event \<le> ev_at e) (tl (opening_events dawn))"
    by (simp_all add: opening_events_def OPENING_def dawn_def MINUTE_def first_event_def)
  have pay: "paychecks steady dawn dawn n = ([], n)" for n by (subst paychecks.simps) simp
  have cash: "fst (cash_events steady dawn (dawn + fst (randint steady 1 9 n) * DAY) m) = []" for n m
    using randint_range [of 1 9 steady n] by (subst cash_events.simps) (simp add: DAY_def)
  have rent: "fst (rent_events steady dawn dawn n) = []" for n
    by (simp add: rent_events_def dawn_months split: prod.splits)
  have late: "list_all (\<lambda>e. ev_at first_event \<le> ev_at e) es" if "list_all (\<lambda>e. dawn \<le> ev_at e) es" for es
    using that by (auto simp: list_all_iff dawn_def first_event_def)
  obtain rest n where t: "timeline steady dawn 0 0 = (sort_key ev_at (opening_events dawn @ rest), n)"
    and rest: "list_all (\<lambda>e. dawn \<le> ev_at e) rest"
  proof -
    obtain a n1 where 1: "rent_events steady dawn dawn 0 = (a, n1)" by fastforce
    obtain b n2 where 2: "subscription_events steady dawn dawn SUBSCRIPTIONS n1 = (b, n2)" by fastforce
    obtain c n3 where 3: "everyday_events steady dawn dawn HABITS n2 = (c, n3)" by fastforce
    obtain d n4 where 4: "randint steady 1 9 n3 = (d, n4)" by fastforce
    obtain e n5 where 5: "cash_events steady dawn (dawn + d * DAY) n4 = (e, n5)" by fastforce
    obtain f n6 where 6: "unknown_events steady dawn 0 2 n5 = (f, n6)" by fastforce
    obtain g n7 where 7: "refund_events steady dawn 0 1 n6 = (g, n7)" by fastforce
    obtain h n8 where 8: "burst_events steady dawn 0 16 n7 = (h, n8)" by fastforce
    obtain i n9 where 9: "outlier_event steady dawn 0 n8 = (i, n9)" by fastforce
    have nil: "a = []" "b = []" "c = []" "e = []"
      using rent [of 0] dawn_subscriptions [of SUBSCRIPTIONS n1] dawn_everyday [of HABITS n2] cash [of n3 n4] 1 2 3 4 5 by simp_all
    have l: "list_all (\<lambda>e. dawn \<le> ev_at e) f" "list_all (\<lambda>e. dawn \<le> ev_at e) g" "list_all (\<lambda>e. dawn \<le> ev_at e) h"
      using unknown_dawn [OF 6] refund_dawn [OF 7] burst_dawn [OF _ _ 8] by simp_all
    have o: "list_all (\<lambda>e. dawn \<le> ev_at e) i"
      using 9 by (auto simp: outlier_event_def span_zero split: prod.splits)
    have "timeline steady dawn 0 0 = (sort_key ev_at (opening_events dawn @ f @ g @ h @ i), n9)"
      using 1 2 3 4 5 6 7 8 9 nil
      by (simp add: timeline_def Let_def dawn_months pay span_zero)
    with l o that show thesis by simp
  qed
  have "sort_key ev_at (opening_events dawn @ rest) = first_event # sort_key ev_at (tl (opening_events dawn) @ rest)"
    using sort_key_first [of ev_at first_event "tl (opening_events dawn) @ rest"] op(2) late [OF rest]
    by (subst op(1)) (simp only: append_Cons list_all_append)
  with t show ?thesis by simp
qed

lemma dawn_plan: "\<exists>es. fst (plan steady dawn 0) = first_event # es"
proof -
  obtain es n where t: "timeline steady dawn 0 0 = (first_event # es, n)" using dawn_timeline by blast
  have dues: "due_dates dawn dawn = []" by (simp add: due_dates_def dawn_months)
  have walk: "card_walk rng xs [] owed m = (xs, m)" for rng xs owed m
    by (induction xs arbitrary: owed) simp_all
  have "sorted (map ev_at (fst (timeline steady dawn 0 0)))" by (simp add: timeline_def Let_def split: prod.split)
  then have "sorted (map ev_at (first_event # es))" unfolding t by (simp only: fst_conv)
  then have s: "sort_key ev_at (first_event # es) = first_event # es" by (rule sort_key_id_if_sorted)
  have "with_card_payoffs steady (first_event # es) dawn 0 n = (first_event # es, n)"
    by (simp add: with_card_payoffs_def dues walk s del: sort_key_simps)
  moreover have "into_checking first_event" by (simp add: into_checking_def first_event_def)
  ultimately show ?thesis
    by (simp add: plan_def t fit_to_checking_def split: prod.splits)
qed

text \<open>Books with nothing in them but the two accounts that event needs.\<close>

definition dawn_account :: "string \<Rightarrow> string \<Rightarrow> account_type \<Rightarrow> account_row" where
  "dawn_account i external ty =
     (demo_accounts ! 0)\<lparr>a_id := i, a_external := Some external, a_type := ty, a_normal := normal_balance ty, a_minimum := None\<rparr>"

definition dawn_state :: st where
  "dawn_state = (new_database [''t''] demo_clock dawn)\<lparr>led :=
     \<lparr>tenants = [''t''], accounts = [dawn_account ''acct_1'' ''checking'' ASSET, dawn_account ''acct_2'' ''opening'' EQUITY],
      transactions = [], entries = [], snapshots = [], entry_seq = 1\<rparr>\<rparr>"


lemma dawn_state_ok: "db_ok dawn_state"
  by (simp add: db_ok_def dawn_state_def new_database_def demo_accounts_def dawn_account_def ledger_ok_def
      all_balanced_def transaction_balanced_def outbox_ok_def normal_balance_def)

abbreviation dawn_ctx :: tenant_ctx where
  "dawn_ctx \<equiv> \<lparr>c_tenant = ''t'', c_api_key = ''loadgen'', c_mode = TEST\<rparr>"

definition dawn_roles :: "(string, account_row) dict" where
  "dawn_roles = [(''destination'', dawn_account ''acct_1'' ''checking'' ASSET), (''equity'', dawn_account ''acct_2'' ''opening'' EQUITY)]"

definition dawn_amount :: money where "dawn_amount = \<lparr>minor = 384000, currency = ''usd''\<rparr>"

definition dawn_txn :: "string \<Rightarrow> journal" where
  "dawn_txn i =
     \<lparr>j_id = i, j_kind = ''opening_balance'', j_effective = Aware 700000000,
      j_entries =
        [\<lparr>ent_account = ''acct_1'', ent_direction = DEBIT, ent_amount = dawn_amount\<rparr>,
         \<lparr>ent_account = ''acct_2'', ent_direction = CREDIT, ent_amount = dawn_amount\<rparr>],
      j_metadata = event_metadata first_event, j_reverses = None\<rparr>"

lemma dawn_built:
  "build_transaction i ''opening_balance''
     \<lparr>pr_amount = dawn_amount, pr_effective = Aware 700000000,
      pr_accounts = map (\<lambda>(role, row). (role, a_id row)) dawn_roles, pr_metadata = event_metadata first_event\<rparr>
   = Inr (dawn_txn i)"
  by (simp add: build_transaction_def REGISTRY_get OpeningBalance_def simple_posting_def request_account_def dawn_roles_def
      dawn_account_def mk_entry_def dawn_amount_def is_positive_def mk_journal_def drift_of_def dbump_def entry_sign_def dawn_txn_def)

lemma dawn_post_resolved:
  "\<exists>out s'. post_resolved dawn_ctx ''opening_balance'' dawn_roles dawn_amount (Aware 700000000) None (event_metadata first_event)
      (dawn_state\<lparr>tx_now := dawn\<rparr>) = (Inr out, s')"
proof -
  let ?s = "dawn_state\<lparr>tx_now := dawn\<rparr>"
  obtain i g where tid: "transaction_id (idg ?s) = (i, g)" by fastforce
  obtain ev g' where eid: "event_id g = (ev, g')" by fastforce
  let ?s1 = "?s\<lparr>idg := g\<rparr>"
  have fl: "check_floors (dawn_txn i) (rows_by_id dawn_roles) ?s1 = (Inr (), ?s1)"
    by (simp add: check_floors_def dawn_txn_def rows_by_id_def dawn_roles_def dawn_account_def bind_op_def check_floor_def
        dbump_def normal_balance_def)
  have role: "funding_role dawn_roles = None" by (simp add: funding_role_def dawn_roles_def)
  obtain row l1 where t: "txn_insert dawn (dawn_txn i) ''t'' TEST (led dawn_state) = (Inr row, l1)"
    and l1: "l1 = (led dawn_state)\<lparr>transactions := [row]\<rparr>" "t_id row = i"
    by (simp add: txn_insert_def bind_op_def guard_op_def Let_def dawn_txn_def dawn_state_def)
  obtain es l2 where e: "entries_insert_many dawn (dawn_txn i) None l1 = (Inr es, l2)"
    and l2: "tenants l2 = [''t'']"
    by (simp add: entries_insert_many_def entry_insert_def bind_op_def guard_op_def Let_def
        dawn_txn_def dawn_state_def dawn_account_def in_bigint_def l1 dawn_amount_def)
  show ?thesis
    using tid eid fl role t e l1 l2
    by (simp add: post_resolved_def bind_op_def fresh_id_def dawn_built on_led_def zoom_def
        emit_def on_evt_def append_outbox_def guard_op_def Let_def)
      (simp add: dawn_state_def new_database_def)
qed

lemma dawn_post: "\<exists>out s'. post_event dawn_ctx first_event (dawn_state\<lparr>tx_now := dawn\<rparr>) = (Inr out, s')"
proof -
  let ?s = "dawn_state\<lparr>tx_now := dawn\<rparr>"
  have res: "map_op (resolve_role dawn_ctx) (ev_accounts first_event) ?s = (Inr dawn_roles, ?s)"
    by (simp add: first_event_def dawn_roles_def resolve_role_def resolve_account_def account_resolve_def
        dawn_state_def dawn_account_def demo_accounts_def bind_op_def from_option_def)
  have chk: "each_op (check_account dawn_amount) dawn_roles ?s = (Inr (), ?s)"
    by (simp add: dawn_roles_def check_account_def bind_op_def guard_op_def dawn_account_def demo_accounts_def dawn_amount_def)
  have m: "mk_money (ev_amount first_event) ''usd'' = Inr dawn_amount"
    by (simp add: mk_money_def first_event_def dawn_amount_def EXPONENTS_def py_lower_def lower_char_def)
  show ?thesis
    using dawn_post_resolved res chk m
    by (auto simp: post_event_def post_transaction_def bind_op_def first_event_def)
qed

text \<open>One event, posted.\<close>

theorem generate_accounts_for_every_event_witness:
  "\<exists>g s'. generate steady ''t'' 1 0 TEST dawn_state = (Inr g, s') \<and> gn_transactions g = 1 \<and> db_ok s'
     \<and> length (transactions (led s')) = 1"
proof -
  have wall: "wall dawn_state = dawn" by (simp add: dawn_state_def new_database_def)
  obtain es adapted where plan: "plan steady dawn 0 = (first_event # es, adapted)" using dawn_plan by (metis prod.collapse)
  have one: "prefix_to 1 (filter (\<lambda>e. ev_at e \<le> dawn) (first_event # es)) = [first_event]"
    by (simp add: prefix_to_def first_event_def dawn_def)
  obtain out s1 where p: "post_event dawn_ctx first_event (dawn_state\<lparr>tx_now := dawn\<rparr>) = (Inr out, s1)"
    using dawn_post by blast
  have loop: "post_events dawn_ctx [first_event] ([], []) (dawn_state\<lparr>tx_now := dawn\<rparr>)
      = (Inr ([], dbump ''opening_balance'' 1 []), s1)"
    using p by (simp add: first_event_def)
  have "unit_of_work (post_events dawn_ctx [first_event] ([], [])) dawn_state = (Inr ([], dbump ''opening_balance'' 1 []), s1)"
  proof -
    obtain amount where m: "Inr amount = mk_money (ev_amount first_event) ''usd''"
      and run: "post_transaction dawn_ctx (ev_kind first_event) (ev_accounts first_event) amount
        (Some (Aware (ev_at first_event))) (ev_descriptor first_event) (event_metadata first_event)
        (dawn_state\<lparr>tx_now := dawn\<rparr>) = (Inr out, s1)"
      using p by (auto simp: post_event_def result_simps simp del: op_run)
    have "money_ok amount" using m [symmetric] by (rule mk_money_ok)
    then have "all_balanced (led s1)"
      using posting_balanced [OF _ _ _ run] dawn_state_ok by (simp add: db_ok_def)
    with loop wall show ?thesis by (simp add: unit_of_work_Inr_iff deferred_checks_def all_balanced_def list_all_iff)
  qed
  with wall one have g: "generate steady ''t'' 1 0 TEST dawn_state =
      (Inr \<lparr>gn_transactions = 1, gn_tally = dbump ''opening_balance'' 1 [], gn_adapted = adapted\<rparr>, s1)"
    by (simp add: generate_def bind_op_def Let_def plan del: filter.simps)
  from generate_accounts_for_every_event [OF steady_ok dawn_state_ok this] show ?thesis
    using g by (auto simp: dbump_def dval_def dawn_state_def)
qed

end
