(* ===== verification/Kafka.thy ===== *)
theory Kafka
  imports Event_Stream
begin

text \<open>
  \<open>stream/kafka.py\<close>, the transport over a Kafka broker, and \<open>stream/__init__.py\<close>, which chooses a transport. The client
  library and the broker are not part of the repository: their operations are the record \<open>kafka_client\<close>, over a
  state \<open>'k\<close> of their own and handles \<open>'c\<close> of opened consumers. \<open>json.loads\<close> and the text of a float are parameters;
  text and its UTF-8 bytes are the same string. A record whose id or type is not a string, which \<open>publish\<close> never
  writes, is refused here, where Python would pass it on.
\<close>

record kafka_record =
  kr_error :: bool
  kr_offset :: nat
  kr_topic :: string
  kr_key :: "string option"
  kr_value :: string

record ('k, 'c) kafka_client =
  kc_produce :: "string \<Rightarrow> string \<Rightarrow> string \<Rightarrow> (string \<times> string) list \<Rightarrow> 'k \<Rightarrow> 'k"  \<comment> \<open>topic, key, value, headers\<close>
  kc_flush :: "'k \<Rightarrow> 'k"
  kc_open :: "string \<Rightarrow> string \<Rightarrow> 'k \<Rightarrow> 'c \<times> 'k"  \<comment> \<open>group, topic: \<open>Consumer(...)\<close> and \<open>subscribe\<close>\<close>
  kc_consume :: "'c \<Rightarrow> nat \<Rightarrow> 'k \<Rightarrow> kafka_record list \<times> 'k"
  kc_commit :: "'c \<Rightarrow> 'k \<Rightarrow> 'k"  \<comment> \<open>\<open>commit()\<close> with no message and no offsets\<close>
  kc_seek :: "'c \<Rightarrow> string \<Rightarrow> nat \<Rightarrow> nat \<Rightarrow> 'k \<Rightarrow> 'k"  \<comment> \<open>topic, partition, offset\<close>

record ('k, 'c) kafka_stream =
  ks_broker :: 'k
  ks_consumers :: "((string \<times> string) \<times> 'c) list"

text \<open>\<open>get_stream\<close>: what \<open>settings.stream_backend\<close> selects.\<close>

datatype transport = KafkaStream | PostgresStream

definition get_stream :: "string \<Rightarrow> transport option \<Rightarrow> transport" where
  "get_stream backend cached =
     (case cached of Some t \<Rightarrow> t | None \<Rightarrow> if backend = ''kafka'' then KafkaStream else PostgresStream)"

definition new_kafka :: "'k \<Rightarrow> ('k, 'c) kafka_stream" where
  "new_kafka k = \<lparr>ks_broker = k, ks_consumers = []\<rparr>"

definition envelope_of :: "string \<Rightarrow> string \<Rightarrow> json \<Rightarrow> json" where
  "envelope_of event ty payload = JObj [(''event_id'', JStr event), (''event_type'', JStr ty), (''payload'', payload)]"

definition kafka_publish ::
  "('k, 'c) kafka_client \<Rightarrow> (json \<Rightarrow> string) \<Rightarrow> string \<Rightarrow> string \<Rightarrow> string \<Rightarrow> string \<Rightarrow> json
   \<Rightarrow> ('k, 'c) kafka_stream \<Rightarrow> ('k, 'c) kafka_stream" where
  "kafka_publish client dump topic key event ty payload s =
     s\<lparr>ks_broker := kc_flush client (kc_produce client topic key (dump (envelope_of event ty payload))
        [(''event-id'', event), (''event-type'', ty)] (ks_broker s))\<rparr>"

definition kafka_consumer ::
  "('k, 'c) kafka_client \<Rightarrow> string \<Rightarrow> string \<Rightarrow> ('k, 'c) kafka_stream \<Rightarrow> 'c \<times> ('k, 'c) kafka_stream" where
  "kafka_consumer client topic grp s =
     (case dget (ks_consumers s) (topic, grp) of
        Some c \<Rightarrow> (c, s)
      | None \<Rightarrow>
          let (c, k) = kc_open client grp topic (ks_broker s) in
          (c, s\<lparr>ks_broker := k, ks_consumers := dset (topic, grp) c (ks_consumers s)\<rparr>))"

definition member_of :: "json \<Rightarrow> string \<Rightarrow> exn + json" where
  "member_of body key =
     (case body of
        JObj d \<Rightarrow> (case dget d key of None \<Rightarrow> Inl (PyExn KeyError) | Some v \<Rightarrow> Inr v)
      | _ \<Rightarrow> Inl (PyExn TypeError))"

definition text_member :: "json \<Rightarrow> string \<Rightarrow> exn + string" where
  "text_member body key =
     bind_r (member_of body key) (\<lambda>v. case v of JStr t \<Rightarrow> Inr t | _ \<Rightarrow> Inl (PyExn TypeError))"

definition record_message :: "(string \<Rightarrow> exn + json) \<Rightarrow> int \<Rightarrow> kafka_record \<Rightarrow> exn + message" where
  "record_message loads now r =
     bind_r (loads (kr_value r)) (\<lambda>body.
     bind_r (text_member body ''event_id'') (\<lambda>event.
     bind_r (text_member body ''event_type'') (\<lambda>ty.
     bind_r (member_of body ''payload'') (\<lambda>payload.
     Inr \<lparr>msg_offset = kr_offset r, msg_topic = kr_topic r, msg_key = (case kr_key r of None \<Rightarrow> [] | Some k \<Rightarrow> k),
          msg_event = event, msg_type = ty, msg_payload = payload, msg_published = now\<rparr>))))"

text \<open>The records are consumed also when one of them does not parse.\<close>

definition kafka_poll ::
  "('k, 'c) kafka_client \<Rightarrow> (string \<Rightarrow> exn + json) \<Rightarrow> int \<Rightarrow> string \<Rightarrow> string \<Rightarrow> nat
   \<Rightarrow> ('k, 'c) kafka_stream \<Rightarrow> (exn + message list) \<times> ('k, 'c) kafka_stream" where
  "kafka_poll client loads now topic grp limit s =
     (let (c, s1) = kafka_consumer client topic grp s;
          (rs, k) = kc_consume client c limit (ks_broker s1) in
      (map_r (record_message loads now) (filter (\<lambda>r. \<not> kr_error r) rs), s1\<lparr>ks_broker := k\<rparr>))"

text \<open>The offset passed in is not used.\<close>

definition kafka_commit ::
  "('k, 'c) kafka_client \<Rightarrow> string \<Rightarrow> string \<Rightarrow> nat \<Rightarrow> ('k, 'c) kafka_stream \<Rightarrow> ('k, 'c) kafka_stream" where
  "kafka_commit client topic grp offset s =
     (let (c, s1) = kafka_consumer client topic grp s in s1\<lparr>ks_broker := kc_commit client c (ks_broker s1)\<rparr>)"

definition kafka_offset :: "string \<Rightarrow> string \<Rightarrow> ('k, 'c) kafka_stream \<Rightarrow> nat" where
  "kafka_offset topic grp s = 0"

definition kafka_seek ::
  "('k, 'c) kafka_client \<Rightarrow> string \<Rightarrow> string \<Rightarrow> nat \<Rightarrow> ('k, 'c) kafka_stream \<Rightarrow> ('k, 'c) kafka_stream" where
  "kafka_seek client topic grp offset s =
     (let (c, s1) = kafka_consumer client topic grp s in
      s1\<lparr>ks_broker := kc_seek client c topic 0 offset (ks_broker s1)\<rparr>)"

definition kafka_head :: "string \<Rightarrow> ('k, 'c) kafka_stream \<Rightarrow> nat" where
  "kafka_head topic s = 0"

definition kafka_lag :: "string \<Rightarrow> string \<Rightarrow> ('k, 'c) kafka_stream \<Rightarrow> int" where
  "kafka_lag topic grp s = max 0 (int (kafka_head topic s) - int (kafka_offset topic grp s))"

end
