(* ===== verification/Kafka_Laws.thy ===== *)
theory Kafka_Laws
  imports Kafka
begin

text \<open>
  What the Kafka transport does to the promise of at-least-once delivery, over any client library that behaves as
  \<open>client_ok\<close> says its documentation says.
\<close>

section \<open>What the client documents\<close>

text \<open>
  One partition to a topic, the offset of a record its place in it. \<open>held\<close> is what the broker holds, \<open>position\<close> where an opened consumer reads next and
  \<open>committed\<close> where the next consumer of the group will start: reading moves the position, a commit without arguments
  stores the position, and nothing else changes either.
\<close>

definition client_ok ::
  "('k, 'c) kafka_client \<Rightarrow> (string \<Rightarrow> 'k \<Rightarrow> kafka_record list) \<Rightarrow> ('c \<Rightarrow> 'k \<Rightarrow> nat) \<Rightarrow> (string \<Rightarrow> string \<Rightarrow> 'k \<Rightarrow> nat)
   \<Rightarrow> ('c \<Rightarrow> string \<times> string) \<Rightarrow> bool" where
  "client_ok client held position committed home \<longleftrightarrow>
     (\<forall>t k. map kr_offset (held t k) = [0 ..< length (held t k)])
     \<and> (\<forall>g t k c k'. kc_open client g t k = (c, k') \<longrightarrow>
        home c = (t, g) \<and> position c k' = committed t g k \<and> (\<forall>x. held x k' = held x k) \<and> (\<forall>x y. committed x y k' = committed x y k))
     \<and> (\<forall>c n k rs k'. kc_consume client c n k = (rs, k') \<longrightarrow>
        length rs \<le> n \<and> rs = take (length rs) (drop (position c k) (held (fst (home c)) k))
        \<and> position c k' = position c k + length rs
        \<and> (\<forall>x. held x k' = held x k) \<and> (\<forall>x y. committed x y k' = committed x y k))
     \<and> (\<forall>c k. position c (kc_commit client c k) = position c k \<and> (\<forall>x. held x (kc_commit client c k) = held x k)
        \<and> (\<forall>x y. committed x y (kc_commit client c k) = (if (x, y) = home c then position c k else committed x y k)))"

definition handles_ok :: "('c \<Rightarrow> string \<times> string) \<Rightarrow> ('k, 'c) kafka_stream \<Rightarrow> bool" where
  "handles_ok home s \<longleftrightarrow> (\<forall>(key, c) \<in> set (ks_consumers s). home c = key)"

text \<open>The consumer opened after a restart of the process: the handles are gone, the broker is as it was.\<close>

definition restarted :: "('k, 'c) kafka_stream \<Rightarrow> ('k, 'c) kafka_stream" where
  "restarted s = s\<lparr>ks_consumers := []\<rparr>"

lemma consumer_Some:
  assumes "client_ok client held position committed home" "handles_ok home s" "kafka_consumer client topic grp s = (c, s1)"
  shows "home c = (topic, grp)" "handles_ok home s1" "dget (ks_consumers s1) (topic, grp) = Some c"
    "held x (ks_broker s1) = held x (ks_broker s)" "committed x y (ks_broker s1) = committed x y (ks_broker s)"
proof -
  have "home c = (topic, grp) \<and> handles_ok home s1 \<and> dget (ks_consumers s1) (topic, grp) = Some c
     \<and> held x (ks_broker s1) = held x (ks_broker s) \<and> committed x y (ks_broker s1) = committed x y (ks_broker s)"
  proof (cases "dget (ks_consumers s) (topic, grp)")
    case (Some d)
    then have "d = c" "s1 = s" using assms(3) by (simp_all add: kafka_consumer_def)
    then show ?thesis using assms(2) Some by (auto simp: handles_ok_def dest!: map_of_SomeD)
  next
    case None
    obtain d k where o: "kc_open client grp topic (ks_broker s) = (d, k)" by fastforce
    with None assms(3) have s1: "d = c" "s1 = s\<lparr>ks_broker := k, ks_consumers := dset (topic, grp) c (ks_consumers s)\<rparr>"
      by (auto simp: kafka_consumer_def)
    have "home c = (topic, grp) \<and> held x k = held x (ks_broker s) \<and> committed x y k = committed x y (ks_broker s)"
      using assms(1) o s1(1) unfolding client_ok_def by blast
    moreover have "set (dset (topic, grp) c d') \<subseteq> insert ((topic, grp), c) (set d')" for d'
      by (induction d') auto
    ultimately show ?thesis using assms(2) s1(2) unfolding handles_ok_def by (fastforce simp: update_conv')
  qed
  then show "home c = (topic, grp)" "handles_ok home s1" "dget (ks_consumers s1) (topic, grp) = Some c"
    "held x (ks_broker s1) = held x (ks_broker s)" "committed x y (ks_broker s1) = committed x y (ks_broker s)" by blast+
qed

lemma record_message_offset: "record_message loads now r = Inr m \<Longrightarrow> msg_offset m = kr_offset r"
  by (auto simp: record_message_def result_simps)

lemma polled_offsets:
  "map_r (record_message loads now) (filter (\<lambda>r. \<not> kr_error r) rs) = Inr batch \<Longrightarrow> msg_offset ` set batch \<subseteq> kr_offset ` set rs"
  by (induction rs arbitrary: batch) (fastforce simp: bind_r_Inr_iff dest: record_message_offset split: if_splits)+

lemma slice_offsets:
  assumes "map kr_offset rows = [0 ..< length rows]"
  shows "kr_offset ` set (take n (drop k rows)) \<subseteq> {k ..< k + n}"
proof -
  have "map kr_offset (take n (drop k rows)) = take n (drop k [0 ..< length rows])"
    using assms by (metis drop_map take_map)
  then have "kr_offset ` set (take n (drop k rows)) = set (take n (drop k [0 ..< length rows]))"
    by (metis list.set_map)
  then show ?thesis by (cases "k + n \<le> length rows") (auto simp: take_upt dest: in_set_takeD)
qed

lemma kafka_poll_Inr:
  assumes "client_ok client held position committed home" "handles_ok home s"
    and "kafka_poll client loads now topic grp limit s = (Inr batch, s')"
  obtains c s1 n where "kafka_consumer client topic grp s = (c, s1)" "ks_consumers s' = ks_consumers s1"
    "msg_offset ` set batch \<subseteq> {position c (ks_broker s1) ..< position c (ks_broker s1) + n}"
    "position c (ks_broker s') = position c (ks_broker s1) + n"
proof -
  obtain c s1 where c: "kafka_consumer client topic grp s = (c, s1)" by fastforce
  obtain rs k where r: "kc_consume client c limit (ks_broker s1) = (rs, k)" by fastforce
  have batch: "map_r (record_message loads now) (filter (\<lambda>r. \<not> kr_error r) rs) = Inr batch" "s' = s1\<lparr>ks_broker := k\<rparr>"
    using assms(3) c r by (simp_all add: kafka_poll_def)
  have law: "rs = take (length rs) (drop (position c (ks_broker s1)) (held (fst (home c)) (ks_broker s1)))"
    "position c k = position c (ks_broker s1) + length rs"
    "map kr_offset (held (fst (home c)) (ks_broker s1)) = [0 ..< length (held (fst (home c)) (ks_broker s1))]"
    using assms(1) r unfolding client_ok_def by blast+
  have "kr_offset ` set rs \<subseteq> {position c (ks_broker s1) ..< position c (ks_broker s1) + length rs}"
    using slice_offsets [OF law(3), of "length rs" "position c (ks_broker s1)"] law(1) by simp
  with polled_offsets [OF batch(1)] that [OF c, of "length rs"] batch(2) law(2) show thesis by auto
qed

text \<open>
  C35. A commit covers the whole batch: on a client that behaves as documented, when a poll has returned records and the
  runner commits one of them, whatever offset it passes, a process that starts again reads only what lies past every
  record of the batch, so those not yet processed are never read again; and the lag reported is zero throughout.
\<close>

theorem kafka_commit_covers_the_batch:
  assumes "client_ok client held position committed home" "handles_ok home s"
    and "kafka_poll client loads now topic grp limit s = (Inr batch, s1)"
    and "kafka_poll client loads later topic grp limit' (restarted (kafka_commit client topic grp offset s1)) = (Inr batch', s2)"
  shows "(\<forall>m \<in> set batch. \<forall>m' \<in> set batch'. msg_offset m < msg_offset m') \<and> kafka_lag topic grp s2 = 0"
proof -
  obtain c s0 n where c: "kafka_consumer client topic grp s = (c, s0)" "ks_consumers s1 = ks_consumers s0"
    and b: "msg_offset ` set batch \<subseteq> {position c (ks_broker s0) ..< position c (ks_broker s0) + n}"
      "position c (ks_broker s1) = position c (ks_broker s0) + n"
    by (rule kafka_poll_Inr [OF assms(1-3)])
  note home = consumer_Some [OF assms(1,2) c(1)]
  let ?done = "kafka_commit client topic grp offset s1"
  have broker: "ks_broker ?done = kc_commit client c (ks_broker s1)"
    using home(3) c(2) by (simp add: kafka_commit_def kafka_consumer_def)
  have at: "committed topic grp (ks_broker ?done) = position c (ks_broker s1)"
    using assms(1) home(1) unfolding broker client_ok_def by simp
  have fresh: "handles_ok home (restarted ?done)" by (simp add: handles_ok_def restarted_def)
  obtain c' s0' n' where c': "kafka_consumer client topic grp (restarted ?done) = (c', s0')"
    and b': "msg_offset ` set batch' \<subseteq> {position c' (ks_broker s0') ..< position c' (ks_broker s0') + n'}"
    by (rule kafka_poll_Inr [OF assms(1) fresh assms(4)])
  obtain d k where o: "kc_open client grp topic (ks_broker ?done) = (d, k)" by fastforce
  then have "d = c'" "ks_broker s0' = k" using c' by (auto simp: kafka_consumer_def restarted_def)
  then have "position c' (ks_broker s0') = committed topic grp (ks_broker ?done)"
    using assms(1) o unfolding client_ok_def by blast
  with at b b' show ?thesis by (fastforce simp: kafka_lag_def kafka_head_def)
qed

text \<open>A client and a broker with a log of two records; a handle is its topic, its group and a number.\<close>

record demo_broker =
  db_log :: "kafka_record list"
  db_committed :: "((string \<times> string) \<times> nat) list"
  db_positions :: "nat \<Rightarrow> nat"
  db_handles :: nat

definition db_at :: "string \<Rightarrow> string \<Rightarrow> demo_broker \<Rightarrow> nat" where
  "db_at t g k = (case dget (db_committed k) (t, g) of None \<Rightarrow> 0 | Some n \<Rightarrow> n)"

definition demo_client :: "(demo_broker, (string \<times> string) \<times> nat) kafka_client" where
  "demo_client =
     \<lparr>kc_produce = (\<lambda>t key v h k. k\<lparr>db_log := db_log k
          @ [\<lparr>kr_error = False, kr_offset = length (db_log k), kr_topic = t, kr_key = Some key, kr_value = v\<rparr>]\<rparr>),
      kc_flush = id,
      kc_open = (\<lambda>g t k. (((t, g), db_handles k),
          k\<lparr>db_handles := db_handles k + 1, db_positions := (db_positions k)(db_handles k := db_at t g k)\<rparr>)),
      kc_consume = (\<lambda>c n k. let rs = take n (drop (db_positions k (snd c)) (map (\<lambda>(i, r). r\<lparr>kr_offset := i\<rparr>) (enumerate 0 (db_log k)))) in
          (rs, k\<lparr>db_positions := (db_positions k)(snd c := db_positions k (snd c) + length rs)\<rparr>)),
      kc_commit = (\<lambda>c k. k\<lparr>db_committed := dset (fst c) (db_positions k (snd c)) (db_committed k)\<rparr>),
      kc_seek = (\<lambda>c t p n k. k\<lparr>db_positions := (db_positions k)(snd c := n)\<rparr>)\<rparr>"

definition demo_held :: "string \<Rightarrow> demo_broker \<Rightarrow> kafka_record list" where
  "demo_held t k = map (\<lambda>(i, r). r\<lparr>kr_offset := i\<rparr>) (enumerate 0 (db_log k))"

lemma take_clipped: "take n xs = take (min (length xs) n) xs"
  by (simp add: min_def)

lemma demo_client_ok: "client_ok demo_client demo_held (\<lambda>c k. db_positions k (snd c)) db_at fst"
proof -
  have "kr_offset \<circ> (\<lambda>(i, r :: kafka_record). r\<lparr>kr_offset := i\<rparr>) = fst" by (simp add: fun_eq_iff split_beta)
  then have "map kr_offset (demo_held t k) = [0 ..< length (demo_held t k)]" for t k
    by (simp add: demo_held_def)
  then show ?thesis
    by (auto simp: client_ok_def demo_client_def demo_held_def db_at_def Let_def update_conv'
        intro: trans [OF take_clipped])
qed

definition demo_record :: "string \<Rightarrow> kafka_record" where
  "demo_record v = \<lparr>kr_error = False, kr_offset = 0, kr_topic = ''t'', kr_key = None, kr_value = v\<rparr>"

definition demo_loads :: "string \<Rightarrow> exn + json" where
  "demo_loads v = Inr (envelope_of v ''ty'' JNull)"

definition demo_kafka :: "(demo_broker, (string \<times> string) \<times> nat) kafka_stream" where
  "demo_kafka = new_kafka \<lparr>db_log = [demo_record ''evt_1'', demo_record ''evt_2''], db_committed = [], db_positions = (\<lambda>n. 0),
     db_handles = 0\<rparr>"

text \<open>Two records polled, the first one's offset committed, a restart: the second is not read again.\<close>

theorem kafka_commit_covers_the_batch_witness:
  "\<exists>batch s1. kafka_poll demo_client demo_loads 0 ''t'' ''g'' 10 demo_kafka = (Inr batch, s1)
     \<and> map msg_event batch = [''evt_1'', ''evt_2'']
     \<and> (\<exists>s2. kafka_poll demo_client demo_loads 1 ''t'' ''g'' 10 (restarted (kafka_commit demo_client ''t'' ''g'' 0 s1)) = (Inr [], s2)
          \<and> kafka_lag ''t'' ''g'' s2 = 0)"
proof -
  obtain batch s1 where one: "kafka_poll demo_client demo_loads 0 ''t'' ''g'' 10 demo_kafka = (Inr batch, s1)"
    "map msg_event batch = [''evt_1'', ''evt_2'']"
    "kafka_poll demo_client demo_loads 1 ''t'' ''g'' 10 (restarted (kafka_commit demo_client ''t'' ''g'' 0 s1))
       = (Inr [], snd (kafka_poll demo_client demo_loads 1 ''t'' ''g'' 10 (restarted (kafka_commit demo_client ''t'' ''g'' 0 s1))))"
    by (simp add: kafka_poll_def kafka_consumer_def kafka_commit_def restarted_def demo_kafka_def new_kafka_def demo_client_def
        db_at_def record_message_def text_member_def member_of_def demo_loads_def envelope_of_def demo_record_def Let_def
        enumerate_eq_zip)
  have "handles_ok fst demo_kafka" by (simp add: handles_ok_def demo_kafka_def new_kafka_def)
  from kafka_commit_covers_the_batch [OF demo_client_ok this one(1) one(3)] have lag: "kafka_lag ''t'' ''g''
    (snd (kafka_poll demo_client demo_loads 1 ''t'' ''g'' 10 (restarted (kafka_commit demo_client ''t'' ''g'' 0 s1)))) = 0"
    by (rule conjunct2)
  show ?thesis by (intro exI conjI, rule one(1), rule one(2), rule one(3), rule lag)
qed

end
