(* ===== verification/Spark.thy ===== *)
theory Spark
  imports Features
begin

text \<open>
  \<open>spark/features.py\<close>, \<open>spark/jobs.py\<close>, \<open>spark/export.py\<close> and the table format of \<open>spark/session.py\<close>: the
  offline side of the features. A DataFrame is the list of its rows, a query over it the function the query
  expresses, as with the SQL of the repositories. What the engine decides is the record \<open>engine\<close>: how it reads an
  interval, which sliding windows a time falls in, the sum of a \<open>LongType\<close> column and the approximate count. Rows are
  those of the declared schema with the columns that are \<open>NOT NULL\<close> in the database filled; \<open>double\<close> columns are
  real numbers. Readers, writers and the session are the engine's; a table is the list of its rows.
\<close>

section \<open>The engine\<close>

record engine =
  en_interval :: "string \<Rightarrow> int"  \<comment> \<open>microseconds\<close>
  en_windows :: "int \<Rightarrow> int \<Rightarrow> int \<Rightarrow> int list"  \<comment> \<open>the starts, for a duration, a slide and a time\<close>
  en_sum :: "int list \<Rightarrow> int"
  en_distinct :: "string list \<Rightarrow> int"
  en_round4 :: "real \<Rightarrow> real"

text \<open>\<open>session.delta_available\<close> and \<open>session.table_format\<close>, from the environment and the presence of the jars.\<close>

definition delta_available :: "string option \<Rightarrow> bool \<Rightarrow> bool" where
  "delta_available env jars \<longleftrightarrow> py_lower (case env of None \<Rightarrow> ''delta'' | Some f \<Rightarrow> f) = ''delta'' \<and> jars"

definition table_format :: "string option \<Rightarrow> bool \<Rightarrow> string" where
  "table_format env jars = (if delta_available env jars then ''delta'' else ''parquet'')"

section \<open>Rows\<close>

datatype column_type = StringType | LongType | DoubleType | IntegerType

definition NORMALIZED_SCHEMA :: "(string \<times> column_type) list" where
  "NORMALIZED_SCHEMA =
     [(''transaction_id'', StringType), (''raw_transaction_id'', StringType), (''tenant_id'', StringType),
      (''account_id'', StringType), (''amount_minor'', LongType), (''currency'', StringType),
      (''occurred_at'', StringType), (''descriptor'', StringType), (''cleaned'', StringType),
      (''merchant_id'', StringType), (''merchant_name'', StringType), (''category'', StringType),
      (''confidence'', DoubleType), (''normalizer_version'', IntegerType)]"

record norm_event =
  ne_txn :: "string option"
  ne_raw :: string
  ne_tenant :: string
  ne_account :: string
  ne_amount :: int
  ne_currency :: string
  ne_effective :: int
  ne_descriptor :: string
  ne_merchant :: "string option"
  ne_name :: "string option"
  ne_category :: "string option"
  ne_confidence :: "real option"
  ne_version :: int

section \<open>\<open>export_normalized\<close>\<close>

text \<open>The rows of the query, oldest first; \<open>float(c) if c else None\<close> makes a confidence of zero a null.\<close>

definition export_row :: "norm_row \<Rightarrow> raw_row \<Rightarrow> norm_event" where
  "export_row n r =
     \<lparr>ne_txn = rw_txn r, ne_raw = n_raw n, ne_tenant = n_tenant n, ne_account = n_account n, ne_amount = rw_amount r,
      ne_currency = rw_currency r, ne_effective = rw_occurred r, ne_descriptor = rw_descriptor r,
      ne_merchant = n_merchant n, ne_name = n_name n, ne_category = n_category n,
      ne_confidence = (case n_confidence n of None \<Rightarrow> None | Some c \<Rightarrow> if c = 0 then None else Some c),
      ne_version = n_version n\<rparr>"

definition export_normalized :: "norm_tables \<Rightarrow> norm_event list" where
  "export_normalized t =
     sort_key ne_effective
       (concat (map (\<lambda>n. map (export_row n) (filter (\<lambda>r. rw_id r = n_raw n) (raws t))) (norms t)))"

section \<open>Features\<close>

text \<open>\<open>_interval\<close>, of a time span in microseconds.\<close>

definition interval :: "int \<Rightarrow> string" where
  "interval delta =
     (let total = (if delta < 0 then - ((- delta) div 1000000) else delta div 1000000) in
      if total mod 3600 = 0 then show_int (total div 3600) @ '' hours''
      else if total mod 60 = 0 then show_int (total div 60) @ '' minutes''
      else show_int total @ '' seconds'')"

record feature_window =
  fw_account :: string
  fw_start :: int
  fw_end :: int
  fw_spend :: int
  fw_count :: int
  fw_max :: int
  fw_merchants :: int
  fw_avg :: real
  fw_stddev :: real

text \<open>One group: the account, the start of its window and the rows in it.\<close>

definition window_row :: "engine \<Rightarrow> int \<Rightarrow> string \<times> int \<Rightarrow> norm_event list \<Rightarrow> feature_window" where
  "window_row sp duration g rows =
     (let amounts = map ne_amount rows in
      \<lparr>fw_account = fst g, fw_start = snd g, fw_end = snd g + duration,
       fw_spend = en_sum sp amounts, fw_count = int (length rows), fw_max = max_or_zero amounts,
       fw_merchants = en_distinct sp (List.map_filter ne_merchant rows),
       fw_avg = mean amounts, fw_stddev = stddev_pop amounts\<rparr>)"

definition window_groups :: "(int \<Rightarrow> int list) \<Rightarrow> norm_event list \<Rightarrow> (string \<times> int) list" where
  "window_groups starts txns = remdups (concat (map (\<lambda>t. map (Pair (ne_account t)) (starts (ne_effective t))) txns))"

definition in_group :: "(int \<Rightarrow> int list) \<Rightarrow> string \<times> int \<Rightarrow> norm_event \<Rightarrow> bool" where
  "in_group starts g t \<longleftrightarrow> ne_account t = fst g \<and> snd g \<in> set (starts (ne_effective t))"

text \<open>On the bounded frames of the batch jobs \<open>withWatermark\<close> changes nothing.\<close>

definition spark_features :: "engine \<Rightarrow> norm_event list \<Rightarrow> feature_window list" where
  "spark_features sp txns =
     (let (duration, slide) = spark_window SPEND_1H;
          d = en_interval sp duration;
          starts = en_windows sp d (case slide of None \<Rightarrow> d | Some x \<Rightarrow> en_interval sp x) in
      map (\<lambda>g. window_row sp d g (filter (in_group starts g) txns)) (window_groups starts txns))"

record merchant_rollup =
  mr_tenant :: string
  mr_merchant :: "string option"
  mr_name :: "string option"
  mr_category :: "string option"
  mr_spend :: int
  mr_count :: int
  mr_confidence :: "real option"

text \<open>\<open>avg\<close> of a nullable column.\<close>

definition avg_known :: "real option list \<Rightarrow> real option" where
  "avg_known xs = (let ys = List.map_filter id xs in if ys = [] then None else Some (sum_list ys / of_nat (length ys)))"

definition merchant_features :: "engine \<Rightarrow> norm_event list \<Rightarrow> merchant_rollup list" where
  "merchant_features sp txns =
     (let known = filter (\<lambda>t. ne_merchant t \<noteq> None) txns;
          key = (\<lambda>t. (ne_tenant t, ne_merchant t, ne_name t, ne_category t)) in
      map (\<lambda>g. let rows = filter (\<lambda>t. key t = g) known in
             \<lparr>mr_tenant = fst g, mr_merchant = fst (snd g), mr_name = fst (snd (snd g)), mr_category = snd (snd (snd g)),
              mr_spend = en_sum sp (map ne_amount rows), mr_count = int (length rows),
              mr_confidence = avg_known (map ne_confidence rows)\<rparr>)
        (remdups (map key known)))"

record coverage_row =
  cv_version :: int
  cv_total :: int
  cv_resolved :: int
  cv_confidence :: "real option"
  cv_coverage :: real

definition normalization_coverage :: "engine \<Rightarrow> norm_event list \<Rightarrow> coverage_row list" where
  "normalization_coverage sp txns =
     map (\<lambda>v. let rows = filter (\<lambda>t. ne_version t = v) txns; known = filter (\<lambda>t. ne_merchant t \<noteq> None) rows in
            \<lparr>cv_version = v, cv_total = int (length rows), cv_resolved = int (length known),
             cv_confidence = avg_known (map ne_confidence known),
             cv_coverage = en_round4 sp (of_nat (length known) / of_nat (length rows))\<rparr>)
       (remdups (map ne_version txns))"

section \<open>Jobs\<close>

text \<open>The gold table: its rows and whether it is a Delta table; \<open>None\<close> when there is nothing at the path.\<close>

type_synonym gold = "(feature_window list \<times> bool) option"

definition same_key :: "feature_window \<Rightarrow> feature_window \<Rightarrow> bool" where
  "same_key t s \<longleftrightarrow> fw_account t = fw_account s \<and> fw_end t = fw_end s"

text \<open>Delta's \<open>MERGE\<close> refuses a target row that several source rows match (\<open>None\<close>).\<close>

definition delta_merge :: "feature_window list \<Rightarrow> feature_window list \<Rightarrow> feature_window list option" where
  "delta_merge target batch =
     (if list_all (\<lambda>t. length (filter (same_key t) batch) \<le> 1) target then
        Some (map (\<lambda>t. case List.find (same_key t) batch of None \<Rightarrow> t | Some s \<Rightarrow> s) target
              @ filter (\<lambda>s. list_all (\<lambda>t. \<not> same_key t s) target) batch)
      else None)"

text \<open>A dynamic partition overwrite replaces the partitions the batch has rows for.\<close>

definition overwrite_partitions :: "feature_window list \<Rightarrow> feature_window list \<Rightarrow> feature_window list" where
  "overwrite_partitions target batch = filter (\<lambda>t. fw_end t \<notin> fw_end ` set batch) target @ batch"

definition upsert_gold :: "bool \<Rightarrow> feature_window list \<Rightarrow> gold \<Rightarrow> gold option" where
  "upsert_gold delta batch table =
     (if delta then
        (case table of
           Some (rows, True) \<Rightarrow> map_option (\<lambda>rows'. Some (rows', True)) (delta_merge rows batch)
         | _ \<Rightarrow> Some (Some (batch, True)))
      else Some (Some (overwrite_partitions (case table of None \<Rightarrow> [] | Some (rows, _) \<Rightarrow> rows) batch, False)))"

text \<open>
  \<open>run_streaming\<close>: the engine cuts the stream into micro-batches and runs \<open>account_features\<close> incrementally; in update mode
  \<open>emit\<close> is what it hands to \<open>foreachBatch\<close> of a micro-batch, after those it has seen. \<open>None\<close> is a query that ended in
  an exception.
\<close>

fun micro_batches ::
  "(norm_event list \<Rightarrow> norm_event list \<Rightarrow> feature_window list) \<Rightarrow> bool \<Rightarrow> norm_event list \<Rightarrow> norm_event list list \<Rightarrow> gold
   \<Rightarrow> gold option" where
  "micro_batches emit delta seen [] table = Some table"
| "micro_batches emit delta seen (batch # batches) table =
     (case upsert_gold delta (emit seen batch) table of
        None \<Rightarrow> None
      | Some table' \<Rightarrow> micro_batches emit delta (seen @ batch) batches table')"

definition run_streaming ::
  "(norm_event list \<Rightarrow> norm_event list \<Rightarrow> feature_window list) \<Rightarrow> bool \<Rightarrow> norm_event list list \<Rightarrow> gold \<Rightarrow> gold option" where
  "run_streaming emit delta batches table = micro_batches emit delta [] batches table"

definition run_backfill :: "engine \<Rightarrow> string option \<Rightarrow> bool \<Rightarrow> norm_event list \<Rightarrow> feature_window list \<times> gold" where
  "run_backfill sp env jars bronze =
     (let computed = spark_features sp bronze in (computed, Some (computed, delta_available env jars)))"

record label =
  lb_id :: string
  lb_account :: string
  lb_decision :: int

text \<open>\<open>row_number() = 1\<close> over the newest window first: the first row of the greatest end.\<close>

fun newest :: "(label \<times> feature_window) list \<Rightarrow> (label \<times> feature_window) option" where
  "newest [] = None"
| "newest (p # ps) =
     (case newest ps of
        None \<Rightarrow> Some p
      | Some q \<Rightarrow> if fw_end (snd p) < fw_end (snd q) then Some q else Some p)"

definition point_in_time_join :: "label list \<Rightarrow> feature_window list \<Rightarrow> (label \<times> feature_window) list" where
  "point_in_time_join labels rows =
     (let joined = concat (map (\<lambda>l. map (Pair l)
                     (filter (\<lambda>f. fw_account f = lb_account l \<and> fw_end f \<le> lb_decision l) rows)) labels) in
      List.map_filter (\<lambda>i. newest (filter (\<lambda>p. lb_id (fst p) = i) joined)) (remdups (map (lb_id \<circ> fst) joined)))"

definition run_training :: "label list \<Rightarrow> feature_window list \<Rightarrow> (label \<times> feature_window) list" where
  "run_training labels features = point_in_time_join labels features"

end
