(* ===== verification/Spark_Parity.thy ===== *)
theory Spark_Parity
  imports Spark Serializers Unit_Of_Work "HOL-Library.Product_Lexorder"
begin

text \<open>
  \<open>spark/parity.py\<close>: the audit that asks Postgres for each window the Spark job produced and reports those that
  disagree. How numbers, percentages and times are printed in the report is a parameter; the arguments of
  the command and the reading of the gold table are left out.
\<close>

record disagreement =
  ds_account :: string
  ds_name :: string
  ds_type :: string
  ds_start :: int
  ds_end :: int
  ds_offline_spend :: int
  ds_online_spend :: int
  ds_offline_txns :: int
  ds_online_txns :: int

definition direction_of :: "disagreement \<Rightarrow> string" where
  "direction_of d = (if ds_online_spend d < ds_offline_spend d then ''offline>online'' else ''online>offline'')"

definition account_names :: "ledger_tables \<Rightarrow> (string, string \<times> string) dict" where
  "account_names l = foldl (\<lambda>d a. dset (a_id a) (a_name a, type_value (a_type a)) d) [] (accounts l)"

fun compare_rows :: "ledger_tables \<Rightarrow> feature_window list \<Rightarrow> exn + disagreement list" where
  "compare_rows l [] = Inr []"
| "compare_rows l (row # rows) =
     bind_r (spend_window (fw_account row) (fw_start row) (fw_end row) l) (\<lambda>online.
     bind_r (compare_rows l rows) (\<lambda>out.
     if sv_spend online = fw_spend row \<and> sv_count online = fw_count row then Inr out
     else
       let (name, ty) = (case dget (account_names l) (fw_account row) of None \<Rightarrow> (''(unknown)'', ''?'') | Some p \<Rightarrow> p) in
       Inr (\<lparr>ds_account = fw_account row, ds_name = name, ds_type = ty, ds_start = fw_start row, ds_end = fw_end row,
             ds_offline_spend = fw_spend row, ds_online_spend = sv_spend online,
             ds_offline_txns = fw_count row, ds_online_txns = sv_count online\<rparr> # out)))"

definition compare :: "feature_window list \<Rightarrow> disagreement list m" where
  "compare gold_rows = read_only (reads_r (\<lambda>s. compare_rows (led s) gold_rows))"

record missing_row =
  ms_id :: string
  ms_name :: string
  ms_type :: string
  ms_credits :: int
  ms_spend :: int

definition active_account :: "ledger_tables \<Rightarrow> account_row \<Rightarrow> exn + missing_row" where
  "active_account l a =
     (let amounts = map e_amount (filter (\<lambda>e. e_account e = a_id a \<and> e_direction e = CREDIT) (entries l)) in
      bind_r (to_bigint (sum_list amounts)) (\<lambda>spend.
      Inr \<lparr>ms_id = a_id a, ms_name = a_name a, ms_type = type_value (a_type a), ms_credits = int (length amounts),
           ms_spend = spend\<rparr>))"

definition missing_accounts :: "feature_window list \<Rightarrow> missing_row list m" where
  "missing_accounts gold_rows =
     bind_op (read_only (reads_r (\<lambda>s. map_r (active_account (led s))
       (filter (\<lambda>a. (a_type a = ASSET \<or> a_type a = LIABILITY)
                  \<and> (\<exists>e \<in> set (entries (led s)). e_account e = a_id a \<and> e_direction e = CREDIT)) (accounts (led s))))))
       (\<lambda>active. ret_op (filter (\<lambda>r. ms_id r \<notin> fw_account ` set gold_rows) active))"

section \<open>The report\<close>

record printing =
  pt_percent :: "int \<Rightarrow> int \<Rightarrow> string"  \<comment> \<open>\<open>f"{a / b:.1%}"\<close>\<close>
  pt_wide :: "int \<Rightarrow> string"  \<comment> \<open>\<open>f"{n:>9}"\<close>\<close>
  pt_time :: "int \<Rightarrow> string"

definition bucket_key :: "disagreement \<Rightarrow> string \<times> string \<times> string" where
  "bucket_key d = (ds_name d, ds_type d, direction_of d)"

text \<open>\<open>max(items, key=...)\<close>: the first of the greatest.\<close>

definition gap :: "disagreement \<Rightarrow> int" where
  "gap d = \<bar>ds_offline_spend d - ds_online_spend d\<bar>"

fun worst :: "disagreement list \<Rightarrow> disagreement option" where
  "worst [] = None"
| "worst (d # ds) =
     (case worst ds of None \<Rightarrow> Some d | Some w \<Rightarrow> if gap d < gap w then Some w else Some d)"

definition bucket_lines :: "printing \<Rightarrow> disagreement list \<Rightarrow> string \<times> string \<times> string \<Rightarrow> string list" where
  "bucket_lines p ds g =
     (let items = filter (\<lambda>d. bucket_key d = g) ds in
      case worst items of
        None \<Rightarrow> []
      | Some w \<Rightarrow>
          [[],
           ''  '' @ fst g @ '' ('' @ fst (snd g) @ '') -- '' @ snd (snd g) @ '': '' @ show_int (int (length items)) @ '' windows'',
           ''    worst: '' @ pt_time p (ds_start w) @ '' -> '' @ pt_time p (ds_end w),
           ''      offline spend='' @ pt_wide p (ds_offline_spend w) @ '' txns='' @ show_int (ds_offline_txns w),
           ''      online  spend='' @ pt_wide p (ds_online_spend w) @ '' txns='' @ show_int (ds_online_txns w)])"

definition missing_lines :: "missing_row \<Rightarrow> string list" where
  "missing_lines r =
     [[], ''  '' @ ms_name r @ '' ('' @ ms_type r @ '') -- NO offline rows at all'',
      ''    online: '' @ show_int (ms_credits r) @ '' credit entries, spend='' @ show_int (ms_spend r)]"

definition report :: "printing \<Rightarrow> nat \<Rightarrow> disagreement list \<Rightarrow> missing_row list \<Rightarrow> string" where
  "report p compared ds missing =
     py_join [CHR 10]
       ((if compared \<noteq> 0 then ''compared '' @ show_int (int compared) @ '' windows; '' @ show_int (int (length ds))
             @ '' disagree ('' @ pt_percent p (int (length ds)) (int compared) @ '')''
         else ''no windows to compare'')
        # concat (map (bucket_lines p ds) (sort (remdups (map bucket_key ds))))
        @ concat (map missing_lines missing))"

text \<open>The command: the report and the exit code.\<close>

definition parity_main :: "printing \<Rightarrow> feature_window list \<Rightarrow> (string \<times> int) m" where
  "parity_main p rows =
     bind_op (compare rows) (\<lambda>ds.
     bind_op (missing_accounts rows) (\<lambda>missing.
     ret_op (report p (length rows) ds missing, if ds \<noteq> [] \<or> missing \<noteq> [] then 1 else 0)))"

end
