(* ===== verification/Spark_Laws.thy ===== *)
theory Spark_Laws
  imports Spark_Parity "HOL-Library.Multiset"
begin

text \<open>
  What the offline side promises and what it keeps: the audit finds skew exactly when an event falls on a window
  boundary, a training set never sees past its label's decision, a streaming run leaves what a backfill leaves, and writing a micro-batch twice is writing it
  once, though without Delta a batch also drops rows it does not replace.
\<close>

text \<open>What Spark documents of the operators: sliding windows aligned to the epoch, half open, and exact sums in range.\<close>

definition engine_ok :: "engine \<Rightarrow> bool" where
  "engine_ok sp \<longleftrightarrow>
     en_interval sp ''1 hours'' = seconds 3600 \<and> en_interval sp ''5 minutes'' = seconds 300
     \<and> (\<forall>d sl t w. 0 < sl \<longrightarrow> w \<in> set (en_windows sp d sl t) \<longleftrightarrow> sl dvd w \<and> w \<le> t \<and> t < w + d)
     \<and> (\<forall>xs. in_bigint (sum_list xs) \<longrightarrow> en_sum sp xs = sum_list xs)"

definition starts_1h :: "engine \<Rightarrow> int \<Rightarrow> int list" where
  "starts_1h sp = en_windows sp (seconds 3600) (seconds 300)"

lemma spark_window_1h: "spark_window SPEND_1H = (''1 hours'', Some ''5 minutes'')"
  by code_simp

lemma spark_features_eq:
  "engine_ok sp \<Longrightarrow> spark_features sp txns =
     map (\<lambda>g. window_row sp (seconds 3600) g (filter (in_group (starts_1h sp) g) txns)) (window_groups (starts_1h sp) txns)"
  by (simp add: spark_features_def spark_window_1h engine_ok_def starts_1h_def Let_def)

lemma starts_iff: "engine_ok sp \<Longrightarrow> w \<in> set (starts_1h sp t) \<longleftrightarrow> seconds 300 dvd w \<and> w \<le> t \<and> t < w + seconds 3600"
  by (simp add: engine_ok_def starts_1h_def seconds_def)

lemma groups_iff: "g \<in> set (window_groups starts txns) \<longleftrightarrow> (\<exists>t \<in> set txns. in_group starts g t)"
  by (cases g) (auto simp: window_groups_def in_group_def)

section \<open>Training sets\<close>

text \<open>The windows that close by a time are those of the events before it.\<close>

lemma closed_windows:
  assumes "engine_ok sp"
  shows "filter (\<lambda>f. fw_end f \<le> d) (spark_features sp txns)
       = filter (\<lambda>f. fw_end f \<le> d) (spark_features sp (filter (\<lambda>t. ne_effective t < d) txns))"
proof -
  let ?st = "starts_1h sp" and ?before = "filter (\<lambda>t. ne_effective t < d) txns"
  let ?closed = "\<lambda>g. snd g + seconds 3600 \<le> d"
  have grp: "in_group ?st g t \<and> ?closed g \<longrightarrow> ne_effective t < d" for g t
    using starts_iff [OF assms, of "snd g" "ne_effective t"] by (auto simp: in_group_def)
  have "filter ?closed (concat (map (\<lambda>t. map (Pair (ne_account t)) (?st (ne_effective t))) txns))
      = filter ?closed (concat (map (\<lambda>t. map (Pair (ne_account t)) (?st (ne_effective t))) ?before))"
  proof (induction txns)
    case (Cons t ts)
    have "ne_effective t < d \<or> filter ?closed (map (Pair (ne_account t)) (?st (ne_effective t))) = []"
      using grp [of _ t] by (fastforce simp: filter_empty_conv in_group_def)
    with Cons show ?case by auto
  qed simp
  then have keys: "filter ?closed (window_groups ?st txns) = filter ?closed (window_groups ?st ?before)"
    by (simp add: window_groups_def remdups_filter [symmetric])
  have rows: "filter (in_group ?st g) txns = filter (in_group ?st g) ?before" if "?closed g" for g
    using grp [of g] that by (auto intro!: filter_cong)
  have "map (\<lambda>g. window_row sp (seconds 3600) g (filter (in_group ?st g) txns)) (filter ?closed (window_groups ?st txns))
      = map (\<lambda>g. window_row sp (seconds 3600) g (filter (in_group ?st g) ?before)) (filter ?closed (window_groups ?st ?before))"
    unfolding keys using rows by (intro map_cong) auto
  then show ?thesis
    unfolding spark_features_eq [OF assms] filter_map by (simp add: comp_def window_row_def Let_def)
qed

lemma newest_None: "newest ps = None \<longleftrightarrow> ps = []"
proof (cases ps)
  case (Cons p qs)
  then show ?thesis by (cases "newest qs") (simp_all split: if_splits)
qed simp

lemma newest_max:
  "newest ps = Some p \<Longrightarrow> p \<in> set ps \<and> (\<forall>q \<in> set ps. fw_end (snd q) \<le> fw_end (snd p))"
proof (induction ps arbitrary: p)
  case (Cons q ps)
  show ?case
  proof (cases "newest ps")
    case None
    then have "ps = []" by (simp add: newest_None)
    then show ?thesis using Cons.prems by simp
  next
    case (Some r)
    with Cons.IH [OF this] Cons.prems show ?thesis by (auto split: if_splits intro: order_trans less_imp_le)
  qed
qed simp

definition window_candidates :: "feature_window list \<Rightarrow> label \<Rightarrow> feature_window list" where
  "window_candidates rows l = filter (\<lambda>f. fw_account f = lb_account l \<and> fw_end f \<le> lb_decision l) rows"

definition joined_with :: "feature_window list \<Rightarrow> label \<Rightarrow> (label \<times> feature_window) option" where
  "joined_with rows l = newest (map (Pair l) (window_candidates rows l))"

lemma joined_with_Some:
  assumes "joined_with rows l = Some p"
  shows "fst p = l \<and> snd p \<in> set (window_candidates rows l) \<and> (\<forall>f \<in> set (window_candidates rows l). fw_end f \<le> fw_end (snd p))"
  using newest_max [OF assms [unfolded joined_with_def]] by auto

lemma remdups_runs:
  "x \<notin> set ys \<Longrightarrow> remdups (map (\<lambda>_. x) c @ ys) = (if c = [] then remdups ys else x # remdups ys)"
proof (induction c)
  case (Cons a c)
  then show ?case by (cases c) simp_all
qed simp

text \<open>With an id to each label, the join goes label by label.\<close>

lemma join_by_label:
  assumes "distinct (map lb_id labels)"
  shows "point_in_time_join labels rows = List.map_filter (joined_with rows) labels"
proof -
  let ?c = "window_candidates rows" and ?joined = "concat (map (\<lambda>l. map (Pair l) (window_candidates rows l)) labels)"
  have one: "filter (\<lambda>p. lb_id (fst p) = lb_id l) ?joined = map (Pair l) (?c l)" if "l \<in> set labels" for l
    using assms that
  proof (induction labels)
    case (Cons k ks)
    have other: "filter (\<lambda>p. lb_id (fst p) = i) (concat (map (\<lambda>l. map (Pair l) (?c l)) ks)) = []" if "i \<notin> lb_id ` set ks" for i
      using that by (auto simp: filter_empty_conv)
    show ?case
    proof (cases "l = k")
      case True
      then show ?thesis using Cons.prems(1) other by (simp add: comp_def)
    next
      case False
      then have "l \<in> set ks" "lb_id l \<noteq> lb_id k" using Cons.prems by (auto, metis imageI)
      then show ?thesis using Cons by (simp add: comp_def)
    qed
  qed simp
  have ids: "remdups (map (lb_id \<circ> fst) ?joined) = map lb_id (filter (\<lambda>l. ?c l \<noteq> []) labels)"
    using assms
  proof (induction labels)
    case (Cons k ks)
    have "lb_id k \<notin> set (map (lb_id \<circ> fst) (concat (map (\<lambda>l. map (Pair l) (?c l)) ks)))" using Cons.prems by auto
    from remdups_runs [OF this, of "?c k"] Cons show ?case by (simp add: comp_def)
  qed simp
  have "point_in_time_join labels rows
      = List.map_filter (\<lambda>i. newest (filter (\<lambda>p. lb_id (fst p) = i) ?joined)) (map lb_id (filter (\<lambda>l. ?c l \<noteq> []) labels))"
    unfolding ids [symmetric] by (simp add: point_in_time_join_def window_candidates_def Let_def)
  also have "\<dots> = List.map_filter (joined_with rows) (filter (\<lambda>l. ?c l \<noteq> []) labels)"
    using one by (auto simp: List.map_filter_def joined_with_def filter_map comp_def intro!: map_cong filter_cong)
  also have "\<dots> = List.map_filter (joined_with rows) labels"
    by (induction labels) (auto simp: List.map_filter_def joined_with_def newest_None)
  finally show ?thesis .
qed

text \<open>
  C36. A training set never reads the future: for labels each with its own id, every label is joined to at most one row,
  a window of its account that had closed by the decision and than which none newer had, and leaving out every event
  from the moment of the decision on changes nothing of what a label is given.
\<close>

theorem training_sees_no_future:
  assumes "engine_ok sp" "distinct (map lb_id labels)"
  shows "let rows = spark_features sp txns; out = run_training labels rows in
     distinct (map (lb_id \<circ> fst) out)
     \<and> list_all (\<lambda>(l, f). f \<in> set (window_candidates rows l) \<and> list_all (\<lambda>g. fw_end g \<le> fw_end f) (window_candidates rows l)) out
     \<and> list_all (\<lambda>l. filter (\<lambda>p. fst p = l) out
          = run_training [l] (spark_features sp (filter (\<lambda>t. ne_effective t < lb_decision l) txns))) labels"
proof -
  let ?rows = "spark_features sp txns"
  let ?out = "List.map_filter (joined_with ?rows) labels"
  have out: "run_training labels ?rows = ?out" by (simp add: run_training_def join_by_label [OF assms(2)])
  have ids: "map (lb_id \<circ> fst) ?out = map lb_id (filter (\<lambda>l. joined_with ?rows l \<noteq> None) labels)"
    using joined_with_Some by (fastforce simp: List.map_filter_def comp_def intro!: map_cong)
  have "distinct (map (lb_id \<circ> fst) ?out)" unfolding ids using assms(2) by (simp add: distinct_map distinct_filter inj_on_def)
  moreover have "list_all (\<lambda>(l, f). f \<in> set (window_candidates ?rows l) \<and> list_all (\<lambda>g. fw_end g \<le> fw_end f) (window_candidates ?rows l)) ?out"
    using joined_with_Some by (fastforce simp: List.map_filter_def list_all_iff)
  moreover have "filter (\<lambda>p. fst p = l) ?out = run_training [l] (spark_features sp (filter (\<lambda>t. ne_effective t < lb_decision l) txns))"
    if "l \<in> set labels" for l
  proof -
    let ?past = "spark_features sp (filter (\<lambda>t. ne_effective t < lb_decision l) txns)"
    have "window_candidates ?rows l = window_candidates ?past l"
    proof -
      have split: "window_candidates rows l = filter (\<lambda>f. fw_account f = lb_account l) (filter (\<lambda>f. fw_end f \<le> lb_decision l) rows)" for rows
        by (auto simp: window_candidates_def intro!: filter_cong)
      show ?thesis unfolding split closed_windows [OF assms(1), of "lb_decision l" txns] ..
    qed
    then have "joined_with ?past l = joined_with ?rows l" by (simp add: joined_with_def)
    moreover have "filter (\<lambda>p. fst p = l) (List.map_filter (joined_with ?rows) ls) = List.map_filter (joined_with ?rows) [l]"
      if "l \<in> set ls" "distinct (map lb_id ls)" for ls
      using that
    proof (induction ls)
      case (Cons k ks)
      have none: "filter (\<lambda>p. fst p = l) (List.map_filter (joined_with ?rows) js) = []" if "l \<notin> set js" for js
        using that joined_with_Some by (fastforce simp: List.map_filter_def filter_empty_conv)
      show ?case
      proof (cases "l = k")
        case True
        then have "l \<notin> set ks" using Cons.prems(2) by auto
        then show ?thesis using True none joined_with_Some [of ?rows k]
          by (cases "joined_with ?rows k") (auto simp: List.map_filter_simps)
      next
        case False
        then show ?thesis using Cons joined_with_Some [of ?rows k]
          by (cases "joined_with ?rows k") (auto simp: List.map_filter_simps)
      qed
    qed simp
    ultimately show ?thesis using that assms(2)
      by (simp add: run_training_def join_by_label List.map_filter_def)
  qed
  ultimately show ?thesis unfolding Let_def out by (simp add: list_all_iff)
qed

section \<open>The audit\<close>

text \<open>What each side knows of an account: when and how much.\<close>

definition offline_events :: "string \<Rightarrow> norm_event list \<Rightarrow> (int \<times> int) list" where
  "offline_events a txns = map (\<lambda>t. (ne_effective t, ne_amount t)) (filter (\<lambda>t. ne_account t = a) txns)"

definition online_events :: "string \<Rightarrow> ledger_tables \<Rightarrow> (int \<times> int) list" where
  "online_events a l =
     map (\<lambda>e. (e_effective e, e_amount e)) (filter (\<lambda>e. e_account e = a \<and> e_direction e = CREDIT) (entries l))"

definition amounts_when :: "(int \<Rightarrow> bool) \<Rightarrow> (int \<times> int) list \<Rightarrow> int list" where
  "amounts_when P xs = map snd (filter (P \<circ> fst) xs)"

lemma outflows_when: "outflows a w u l = amounts_when (\<lambda>t. w < t \<and> t \<le> u) (online_events a l)"
  by (auto simp: outflows_def amounts_when_def online_events_def filter_map comp_def intro!: arg_cong [of _ _ "map e_amount"] filter_cong)

lemma grouped_when:
  assumes "engine_ok sp" "seconds 300 dvd w"
  shows "map ne_amount (filter (in_group (starts_1h sp) (a, w)) txns)
       = amounts_when (\<lambda>t. w \<le> t \<and> t < w + seconds 3600) (offline_events a txns)"
  using assms(2) by (auto simp: in_group_def starts_iff [OF assms(1)] amounts_when_def offline_events_def filter_map comp_def
      intro!: arg_cong [of _ _ "map ne_amount"] filter_cong)

lemma amounts_mset: "mset (amounts_when P xs) = image_mset snd (filter_mset (P \<circ> fst) (mset xs))"
  by (simp add: amounts_when_def mset_filter comp_def)

lemma amounts_when_cong:
  assumes "mset xs = mset ys" "\<And>p. p \<in> set ys \<Longrightarrow> P (fst p) = Q (fst p)"
  shows "sum_list (amounts_when P xs) = sum_list (amounts_when Q ys)"
    "length (amounts_when P xs) = length (amounts_when Q ys)"
proof -
  have "mset (amounts_when P xs) = mset (amounts_when Q ys)"
    unfolding amounts_mset assms(1) using assms(2) by (intro arg_cong [of _ _ "image_mset snd"] filter_mset_cong) auto
  then show "sum_list (amounts_when P xs) = sum_list (amounts_when Q ys)"
    "length (amounts_when P xs) = length (amounts_when Q ys)"
    by (metis sum_mset_sum_list) (metis \<open>mset (amounts_when P xs) = _\<close> size_mset)
qed

lemma compare_rows_clean:
  "compare_rows l rows = Inr ds \<Longrightarrow> ds = [] \<longleftrightarrow>
     (\<forall>f \<in> set rows. \<forall>v. spend_window (fw_account f) (fw_start f) (fw_end f) l = Inr v \<longrightarrow>
        sv_spend v = fw_spend f \<and> sv_count v = fw_count f)"
  by (induction rows arbitrary: ds) (auto simp: result_simps Let_def split: if_splits prod.splits option.splits)

lemma compare_rows_ran:
  "compare_rows l rows = Inr ds \<Longrightarrow> f \<in> set rows \<Longrightarrow> \<exists>v. spend_window (fw_account f) (fw_start f) (fw_end f) l = Inr v"
  by (induction rows arbitrary: ds) (auto simp: result_simps)

lemma seconds_dvd: "seconds 300 dvd seconds 3600" "0 < seconds 300" "0 < seconds 3600"
  by (simp_all add: seconds_def)

text \<open>Off the grid the two half-open windows hold the same times.\<close>

lemma off_grid_same:
  assumes "seconds 300 dvd w" "\<not> seconds 300 dvd t"
  shows "w \<le> t \<and> t < w + seconds 3600 \<longleftrightarrow> w < t \<and> t \<le> w + seconds 3600"
proof -
  have "t \<noteq> w" "t \<noteq> w + seconds 3600" using assms seconds_dvd(1) by auto
  then show ?thesis by linarith
qed

text \<open>The newest event of an account on the grid is in an offline window whose online count is smaller.\<close>

lemma on_grid_differs:
  assumes "mset (offline_events a txns) = mset (online_events a l)" "seconds 300 dvd w"
    and "(w, x) \<in> set (offline_events a txns)" "\<forall>(t, y) \<in> set (offline_events a txns). seconds 300 dvd t \<longrightarrow> t \<le> w"
  shows "length (amounts_when (\<lambda>t. w < t \<and> t \<le> w + seconds 3600) (online_events a l))
       < length (amounts_when (\<lambda>t. w \<le> t \<and> t < w + seconds 3600) (offline_events a txns))"
proof -
  let ?xs = "offline_events a txns" and ?P = "\<lambda>t. w \<le> t \<and> t < w + seconds 3600" and ?Q = "\<lambda>t. w < t \<and> t \<le> w + seconds 3600"
  have "?Q (fst p) \<longleftrightarrow> ?P (fst p) \<and> fst p \<noteq> w" if "p \<in> set ?xs" for p
  proof -
    have "fst p \<noteq> w + seconds 3600" using that assms(2,4) seconds_dvd by fastforce
    then show ?thesis by linarith
  qed
  then have "filter (?Q \<circ> fst) ?xs = filter (\<lambda>p. fst p \<noteq> w) (filter (?P \<circ> fst) ?xs)"
    by (auto simp: comp_def intro!: filter_cong)
  moreover have "(w, x) \<in> set (filter (?P \<circ> fst) ?xs)" using assms(3) seconds_dvd(3) by simp
  ultimately have "length (filter (?Q \<circ> fst) ?xs) < length (filter (?P \<circ> fst) ?xs)"
    using length_filter_less [of "(w, x)" "filter (?P \<circ> fst) ?xs" "\<lambda>p. fst p \<noteq> w"] by simp
  moreover have "length (amounts_when ?Q (online_events a l)) = length (amounts_when ?Q ?xs)"
    by (rule amounts_when_cong(2)) (simp_all add: assms(1))
  ultimately show ?thesis by (simp add: amounts_when_def)
qed

lemma spark_row:
  assumes "engine_ok sp" "f \<in> set (spark_features sp txns)"
  shows "\<exists>a w. seconds 300 dvd w \<and> fw_account f = a \<and> fw_start f = w \<and> fw_end f = w + seconds 3600
     \<and> fw_spend f = en_sum sp (amounts_when (\<lambda>t. w \<le> t \<and> t < w + seconds 3600) (offline_events a txns))
     \<and> fw_count f = int (length (amounts_when (\<lambda>t. w \<le> t \<and> t < w + seconds 3600) (offline_events a txns)))"
proof -
  from assms(2) obtain a w where g: "(a, w) \<in> set (window_groups (starts_1h sp) txns)"
    and f: "f = window_row sp (seconds 3600) (a, w) (filter (in_group (starts_1h sp) (a, w)) txns)"
    by (auto simp: spark_features_eq [OF assms(1)])
  from g obtain t where "in_group (starts_1h sp) (a, w) t" by (auto simp: groups_iff)
  then have dvd: "seconds 300 dvd w" by (simp add: in_group_def starts_iff [OF assms(1)])
  have "length (filter (in_group (starts_1h sp) (a, w)) txns)
      = length (amounts_when (\<lambda>t. w \<le> t \<and> t < w + seconds 3600) (offline_events a txns))"
    using arg_cong [OF grouped_when [OF assms(1) dvd, of a txns], of length] by simp
  then show ?thesis using dvd by (intro exI [of _ a] exI [of _ w])
      (simp add: f window_row_def Let_def grouped_when [OF assms(1) dvd])
qed

lemma spend_window_Inr:
  "spend_window a w u l = Inr v \<Longrightarrow>
   (let xs = amounts_when (\<lambda>t. w < t \<and> t \<le> u) (online_events a l) in
    in_bigint (sum_list xs) \<and> sv_spend v = sum_list xs \<and> sv_count v = int (length xs))"
  by (auto simp: spend_window_def outflows_when to_bigint_def Let_def result_simps split: if_splits)

lemma off_grid_row_agrees:
  assumes "engine_ok sp" "\<forall>a. mset (offline_events a txns) = mset (online_events a l)"
    and off: "list_all (\<lambda>t. \<not> seconds 300 dvd ne_effective t) txns"
    and f: "f \<in> set (spark_features sp txns)" and v: "spend_window (fw_account f) (fw_start f) (fw_end f) l = Inr v"
  shows "sv_spend v = fw_spend f \<and> sv_count v = fw_count f"
proof -
  from spark_row [OF assms(1) f] obtain a w where w: "seconds 300 dvd w"
    and row: "fw_account f = a" "fw_start f = w" "fw_end f = w + seconds 3600"
      "fw_spend f = en_sum sp (amounts_when (\<lambda>t. w \<le> t \<and> t < w + seconds 3600) (offline_events a txns))"
      "fw_count f = int (length (amounts_when (\<lambda>t. w \<le> t \<and> t < w + seconds 3600) (offline_events a txns)))"
    by blast
  let ?on = "amounts_when (\<lambda>t. w < t \<and> t \<le> w + seconds 3600) (online_events a l)"
  let ?off = "amounts_when (\<lambda>t. w \<le> t \<and> t < w + seconds 3600) (offline_events a txns)"
  have "\<not> seconds 300 dvd fst p" if "p \<in> set (offline_events a txns)" for p
    using that off by (auto simp: offline_events_def list_all_iff)
  moreover have "set (online_events a l) = set (offline_events a txns)"
    using assms(2) by (metis set_mset_mset)
  ultimately have eq: "(w \<le> fst p \<and> fst p < w + seconds 3600) = (w < fst p \<and> fst p \<le> w + seconds 3600)"
    if "p \<in> set (online_events a l)" for p
    using that off_grid_same [OF w] by blast
  have same: "sum_list ?off = sum_list ?on" "length ?off = length ?on"
    by (rule amounts_when_cong [OF assms(2) [rule_format]], erule eq)+
  have "in_bigint (sum_list ?on)" "sv_spend v = sum_list ?on" "sv_count v = int (length ?on)"
    using spend_window_Inr [OF v] by (simp_all add: row Let_def)
  moreover from this have "en_sum sp ?off = sum_list ?off" using assms(1) same(1) by (simp add: engine_ok_def)
  ultimately show ?thesis using row(4,5) same by simp
qed

lemma on_grid_row_differs:
  assumes "engine_ok sp" "\<forall>a. mset (offline_events a txns) = mset (online_events a l)"
    and t: "t \<in> set txns" "seconds 300 dvd ne_effective t"
  shows "\<exists>f \<in> set (spark_features sp txns). \<forall>v.
     spend_window (fw_account f) (fw_start f) (fw_end f) l = Inr v \<longrightarrow> sv_count v \<noteq> fw_count f"
proof -
  let ?a = "ne_account t" and ?S = "{u \<in> set txns. ne_account u = ne_account t \<and> seconds 300 dvd ne_effective u}"
  obtain u where u: "u \<in> ?S" "\<forall>x \<in> ?S. ne_effective x \<le> ne_effective u"
  proof -
    have fin: "finite (ne_effective ` ?S)" "ne_effective ` ?S \<noteq> {}" using t by auto
    from Max_in [OF this] obtain u where "u \<in> ?S" "ne_effective u = Max (ne_effective ` ?S)" by auto
    with Max_ge [OF fin(1)] show thesis by (intro that) auto
  qed
  let ?w = "ne_effective u"
  have w: "seconds 300 dvd ?w" using u(1) by simp
  have max: "\<forall>(t', y) \<in> set (offline_events ?a txns). seconds 300 dvd t' \<longrightarrow> t' \<le> ?w"
    using u(2) by (auto simp: offline_events_def)
  have mem: "(?w, ne_amount u) \<in> set (offline_events ?a txns)" using u(1) by (auto simp: offline_events_def)
  note less = on_grid_differs [OF assms(2) [rule_format] w mem max]
  have "in_group (starts_1h sp) (?a, ?w) u"
    using u(1) w seconds_dvd(3) by (simp add: in_group_def starts_iff [OF assms(1)])
  then have g: "(?a, ?w) \<in> set (window_groups (starts_1h sp) txns)" using u(1) by (auto simp: groups_iff)
  let ?f = "window_row sp (seconds 3600) (?a, ?w) (filter (in_group (starts_1h sp) (?a, ?w)) txns)"
  have f: "?f \<in> set (spark_features sp txns)" using g by (simp add: spark_features_eq [OF assms(1)])
  have sel: "fw_account ?f = ?a" "fw_start ?f = ?w" "fw_end ?f = ?w + seconds 3600"
    "fw_count ?f = int (length (amounts_when (\<lambda>t. ?w \<le> t \<and> t < ?w + seconds 3600) (offline_events ?a txns)))"
    using arg_cong [OF grouped_when [OF assms(1) w, of ?a txns], of length] by (simp_all add: window_row_def Let_def)
  have "sv_count v \<noteq> fw_count ?f" if "spend_window ?a ?w (?w + seconds 3600) l = Inr v" for v
    using spend_window_Inr [OF that] less sel(4) by (simp add: Let_def)
  with f sel show ?thesis by (intro bexI [of _ ?f]) simp_all
qed

text \<open>
  C37. The audit finds skew exactly on the grid: when both sides hold the same events, account by account, and the audit
  runs to its end, it reports no disagreement if and only if no event falls on a five-minute boundary, where the
  windows of the Spark job (which include their start) and those of the online query (which include their end) part.
\<close>

theorem audit_finds_the_boundary_skew:
  assumes "engine_ok sp" "\<forall>a. mset (offline_events a txns) = mset (online_events a (led s))"
    and "compare (spark_features sp txns) s = (Inr ds, s')"
  shows "ds = [] \<longleftrightarrow> list_all (\<lambda>t. \<not> seconds 300 dvd ne_effective t) txns"
proof -
  have run: "compare_rows (led s) (spark_features sp txns) = Inr ds"
    using assms(3) by (simp add: compare_def read_only_def result_simps)
  note clean = compare_rows_clean [OF run]
  show ?thesis
  proof
    assume "list_all (\<lambda>t. \<not> seconds 300 dvd ne_effective t) txns"
    from off_grid_row_agrees [OF assms(1,2) this] show "ds = []" using clean by blast
  next
    assume "ds = []"
    then show "list_all (\<lambda>t. \<not> seconds 300 dvd ne_effective t) txns"
      using on_grid_row_differs [OF assms(1,2)] clean compare_rows_ran [OF run] unfolding list_all_iff by blast
  qed
qed

section \<open>The gold table\<close>

definition window_key :: "feature_window \<Rightarrow> string \<times> int" where
  "window_key f = (fw_account f, fw_end f)"

lemma same_key_iff: "same_key t s \<longleftrightarrow> window_key t = window_key s"
  by (simp add: same_key_def window_key_def)

lemma keyed_once:
  "distinct (map window_key batch) \<Longrightarrow> length (filter (same_key t) batch) \<le> 1"
proof (induction batch)
  case (Cons b batch)
  then show ?case
    by (cases "same_key t b") (auto simp: same_key_iff filter_empty_conv image_iff)
qed simp

text \<open>What the table holds under a key.\<close>

definition row_at :: "feature_window list \<Rightarrow> string \<times> int \<Rightarrow> feature_window option" where
  "row_at rows k = List.find (\<lambda>f. window_key f = k) rows"

lemma row_at_simps [simp]:
  "row_at [] k = None" "row_at (f # fs) k = (if window_key f = k then Some f else row_at fs k)"
  by (simp_all add: row_at_def)

lemma row_at_append: "row_at (xs @ ys) k = (case row_at xs k of None \<Rightarrow> row_at ys k | Some f \<Rightarrow> Some f)"
  by (induction xs) auto

lemma row_at_None: "row_at rows k = None \<longleftrightarrow> k \<notin> window_key ` set rows"
  by (auto simp: row_at_def find_None_iff)

lemma row_at_key: "row_at rows k = Some f \<Longrightarrow> window_key f = k"
  by (auto simp: row_at_def find_Some_iff)

lemma row_at_merged:
  "row_at (map (\<lambda>t. case List.find (same_key t) batch of None \<Rightarrow> t | Some s \<Rightarrow> s) target) k
   = (if row_at target k = None then None else case row_at batch k of None \<Rightarrow> row_at target k | Some s \<Rightarrow> Some s)"
proof (induction target)
  case (Cons t target)
  have find: "List.find (same_key t) batch = row_at batch (window_key t)"
    by (simp add: row_at_def same_key_iff [abs_def] eq_commute)
  show ?case
    using Cons.IH by (cases "row_at batch (window_key t)") (auto simp: find dest: row_at_key split: option.splits)
qed simp

lemma row_at_filter:
  "row_at (filter (\<lambda>s. P (window_key s)) batch) k = (if P k then row_at batch k else None)"
  by (induction batch) auto

lemma delta_merge_row_at:
  assumes "distinct (map window_key batch)"
  shows "\<exists>rows. delta_merge target batch = Some rows \<and>
     (\<forall>k. row_at rows k = (case row_at batch k of None \<Rightarrow> row_at target k | Some s \<Rightarrow> Some s))"
proof -
  let ?new = "filter (\<lambda>s. list_all (\<lambda>t. \<not> same_key t s) target) batch"
  let ?rows = "map (\<lambda>t. case List.find (same_key t) batch of None \<Rightarrow> t | Some s \<Rightarrow> s) target @ ?new"
  have "list_all (\<lambda>t. length (filter (same_key t) batch) \<le> 1) target"
    using keyed_once [OF assms] by (simp add: list_all_iff)
  then have m: "delta_merge target batch = Some ?rows" by (simp add: delta_merge_def)
  have "?new = filter (\<lambda>s. window_key s \<notin> window_key ` set target) batch"
    by (intro filter_cong) (auto simp: list_all_iff same_key_iff image_iff)
  then have new: "row_at ?new k = (if k \<notin> window_key ` set target then row_at batch k else None)" for k
    using row_at_filter [of "\<lambda>k. k \<notin> window_key ` set target" batch k] by simp
  have "row_at ?rows k = (case row_at batch k of None \<Rightarrow> row_at target k | Some s \<Rightarrow> Some s)" for k
    unfolding row_at_append row_at_merged new
    using row_at_None [of target k] by (cases "row_at target k") (auto split: option.splits)
  with m show ?thesis by blast
qed

lemma overwrite_row_at:
  "row_at (overwrite_partitions target batch) k =
     (if snd k \<in> fw_end ` set batch then row_at batch k else row_at target k)"
proof -
  have "filter (\<lambda>t. fw_end t \<notin> fw_end ` set batch) target = filter (\<lambda>t. snd (window_key t) \<notin> fw_end ` set batch) target"
    by (simp add: window_key_def)
  moreover have "snd k \<notin> fw_end ` set batch \<Longrightarrow> row_at batch k = None"
    by (auto simp: row_at_None window_key_def)
  ultimately show ?thesis
    unfolding overwrite_partitions_def row_at_append
    by (simp add: row_at_filter [of "\<lambda>k. snd k \<notin> fw_end ` set batch"] split: option.split)
qed

definition gold_row :: "gold \<Rightarrow> string \<times> int \<Rightarrow> feature_window option" where
  "gold_row table k = (case table of None \<Rightarrow> None | Some (rows, _) \<Rightarrow> row_at rows k)"

text \<open>
  C38. Writing a micro-batch is safe to repeat, and on Delta it is an upsert: a batch with one row a window and account is
  always written; written again it leaves the same row under every key; into a Delta table it replaces the rows of its keys
  and no others. Without Delta it also removes every other account's row of any window it touches.
\<close>

theorem gold_upsert:
  assumes "distinct (map window_key batch)" "if delta then \<exists>rows. table = Some (rows, True) else True"
  shows "\<exists>once twice. upsert_gold delta batch table = Some once \<and> upsert_gold delta batch once = Some twice
     \<and> (\<forall>k. gold_row twice k = gold_row once k)
     \<and> (\<forall>k. gold_row once k =
          (case row_at batch k of
             Some f \<Rightarrow> Some f
           | None \<Rightarrow> if \<not> delta \<and> snd k \<in> fw_end ` set batch then None else gold_row table k))"
proof (cases delta)
  case True
  then obtain rows where t: "table = Some (rows, True)" using assms(2) by auto
  obtain rows1 where r1: "delta_merge rows batch = Some rows1"
    "\<forall>k. row_at rows1 k = (case row_at batch k of None \<Rightarrow> row_at rows k | Some s \<Rightarrow> Some s)"
    using delta_merge_row_at [OF assms(1)] by blast
  obtain rows2 where r2: "delta_merge rows1 batch = Some rows2"
    "\<forall>k. row_at rows2 k = (case row_at batch k of None \<Rightarrow> row_at rows1 k | Some s \<Rightarrow> Some s)"
    using delta_merge_row_at [OF assms(1)] by blast
  show ?thesis
    using True t r1 r2
    by (intro exI [of _ "Some (rows1, True)"] exI [of _ "Some (rows2, True)"])
      (auto simp: upsert_gold_def gold_row_def split: option.splits)
next
  case False
  let ?rows = "case table of None \<Rightarrow> [] | Some (rows, _) \<Rightarrow> rows"
  let ?once = "overwrite_partitions ?rows batch"
  have none: "snd k \<notin> fw_end ` set batch \<Longrightarrow> row_at batch k = None" for k
    by (auto simp: row_at_None window_key_def)
  have table: "gold_row table k = row_at ?rows k" for k
    by (simp add: gold_row_def row_at_def split: option.split)
  show ?thesis
    using False none
    by (intro exI [of _ "Some (?once, False)"] exI [of _ "Some (overwrite_partitions ?once batch, False)"])
      (auto simp: upsert_gold_def gold_row_def [of "Some _"] table overwrite_row_at split: option.split)
qed

section \<open>Streaming and backfill\<close>

lemma row_at_Some: "distinct (map window_key rows) \<Longrightarrow> row_at rows k = Some f \<longleftrightarrow> f \<in> set rows \<and> window_key f = k"
  by (induction rows) (auto simp: image_iff)

lemma window_row_key: "window_key (window_row sp d g rows) = (fst g, snd g + d)"
  by (simp add: window_key_def window_row_def Let_def)

lemma features_keys: "engine_ok sp \<Longrightarrow> distinct (map window_key (spark_features sp txns))"
  by (auto simp: spark_features_eq distinct_map window_groups_def comp_def window_row_key intro!: inj_onI prod_eqI)

text \<open>The window before a key, and what the query computes under it.\<close>

definition group_of :: "string \<times> int \<Rightarrow> string \<times> int" where
  "group_of k = (fst k, snd k - seconds 3600)"

definition touched :: "engine \<Rightarrow> norm_event list \<Rightarrow> string \<times> int \<Rightarrow> bool" where
  "touched sp txns k \<longleftrightarrow> list_ex (in_group (starts_1h sp) (group_of k)) txns"

lemma option_by_Some: "(\<And>f. x = Some f \<longleftrightarrow> y = Some f) \<Longrightarrow> x = y"
  by (cases x; cases y) auto

lemma features_row_at:
  assumes "engine_ok sp"
  shows "row_at (spark_features sp txns) k =
     (if touched sp txns k
      then Some (window_row sp (seconds 3600) (group_of k) (filter (in_group (starts_1h sp) (group_of k)) txns)) else None)"
proof -
  let ?row = "\<lambda>g. window_row sp (seconds 3600) g (filter (in_group (starts_1h sp) g) txns)"
  have touch: "touched sp txns (fst g, snd g + seconds 3600) \<longleftrightarrow> g \<in> set (window_groups (starts_1h sp) txns)" for g
    by (simp add: groups_iff touched_def group_of_def list_ex_iff)
  have rows: "f \<in> set (spark_features sp txns) \<longleftrightarrow> (\<exists>g. touched sp txns (fst g, snd g + seconds 3600) \<and> f = ?row g)" for f
    unfolding touch spark_features_eq [OF assms] set_map by blast
  have key: "window_key (?row g) = k \<longleftrightarrow> g = group_of k" for g
    by (auto simp: window_row_key group_of_def prod_eq_iff)
  have shift: "(fst (group_of k), snd (group_of k) + seconds 3600) = k" by (simp add: group_of_def)
  have "row_at (spark_features sp txns) k = Some f \<longleftrightarrow> touched sp txns k \<and> f = ?row (group_of k)" for f
    unfolding row_at_Some [OF features_keys [OF assms]] rows using key shift by metis
  then show ?thesis by (intro option_by_Some) auto
qed

text \<open>
  What Spark documents of update mode, on a stream none of whose events is late: of a micro-batch come the rows, each
  once, that the query over everything so far has for the windows the batch changed.
\<close>

definition updates_ok :: "engine \<Rightarrow> (norm_event list \<Rightarrow> norm_event list \<Rightarrow> feature_window list) \<Rightarrow> bool" where
  "updates_ok sp emit \<longleftrightarrow>
     (\<forall>seen batch. distinct (map window_key (emit seen batch))
        \<and> set (emit seen batch) = {f \<in> set (spark_features sp (seen @ batch)). touched sp batch (window_key f)})"

lemma emitted_row_at:
  assumes "engine_ok sp" "updates_ok sp emit"
  shows "row_at (emit seen batch) k = (if touched sp batch k then row_at (spark_features sp (seen @ batch)) k else None)"
proof -
  have "distinct (map window_key (emit seen batch))"
    "set (emit seen batch) = {f \<in> set (spark_features sp (seen @ batch)). touched sp batch (window_key f)}"
    using assms(2) by (simp_all add: updates_ok_def)
  then have "row_at (emit seen batch) k = Some f \<longleftrightarrow> touched sp batch k \<and> row_at (spark_features sp (seen @ batch)) k = Some f" for f
    using row_at_Some [OF features_keys [OF assms(1)]] by (auto simp: row_at_Some)
  then show ?thesis by (intro option_by_Some) auto
qed

lemma untouched_row_at:
  assumes "engine_ok sp" "\<not> touched sp batch k"
  shows "row_at (spark_features sp (seen @ batch)) k = row_at (spark_features sp seen) k"
proof -
  have "filter (in_group (starts_1h sp) (group_of k)) batch = []"
    using assms(2) by (simp add: touched_def filter_empty_conv list_ex_iff)
  then show ?thesis using assms(2) by (simp add: features_row_at [OF assms(1)] touched_def)
qed

lemma delta_upsert_row:
  assumes "distinct (map window_key batch)" "table = None \<or> (\<exists>rows. table = Some (rows, True))"
  obtains rows where "upsert_gold True batch table = Some (Some (rows, True))"
    "\<forall>k. row_at rows k = (case row_at batch k of None \<Rightarrow> gold_row table k | Some f \<Rightarrow> Some f)"
proof (cases table)
  case None
  then show thesis by (intro that [of batch]) (auto simp: upsert_gold_def gold_row_def split: option.split)
next
  case (Some p)
  then obtain rows where t: "table = Some (rows, True)" using assms(2) by auto
  obtain rows' where "delta_merge rows batch = Some rows'"
    "\<forall>k. row_at rows' k = (case row_at batch k of None \<Rightarrow> row_at rows k | Some s \<Rightarrow> Some s)"
    using delta_merge_row_at [OF assms(1)] by blast
  then show thesis by (intro that [of rows']) (auto simp: upsert_gold_def gold_row_def t split: option.split)
qed

lemma micro_batches_row:
  assumes "engine_ok sp" "updates_ok sp emit"
  shows "table = None \<or> (\<exists>rows. table = Some (rows, True)) \<Longrightarrow> \<forall>k. gold_row table k = row_at (spark_features sp seen) k
    \<Longrightarrow> \<exists>table'. micro_batches emit True seen batches table = Some table'
       \<and> (\<forall>k. gold_row table' k = row_at (spark_features sp (seen @ concat batches)) k)"
proof (induction batches arbitrary: seen table)
  case (Cons batch batches)
  have "distinct (map window_key (emit seen batch))" using assms(2) by (simp add: updates_ok_def)
  then obtain rows where rows: "upsert_gold True (emit seen batch) table = Some (Some (rows, True))"
    "\<forall>k. row_at rows k = (case row_at (emit seen batch) k of None \<Rightarrow> gold_row table k | Some f \<Rightarrow> Some f)"
    by (rule delta_upsert_row [OF _ Cons.prems(1)])
  have "gold_row (Some (rows, True)) k = row_at (spark_features sp (seen @ batch)) k" for k
  proof (cases "touched sp batch k")
    case True
    then have "row_at (spark_features sp (seen @ batch)) k \<noteq> None"
      by (simp add: features_row_at [OF assms(1)] touched_def)
    with True rows(2) [rule_format, of k] show ?thesis by (auto simp: gold_row_def emitted_row_at [OF assms])
  next
    case False
    with rows(2) [rule_format, of k] Cons.prems(2) [rule_format, of k] show ?thesis
      by (simp add: gold_row_def [of "Some _"] emitted_row_at [OF assms] untouched_row_at [OF assms(1)])
  qed
  then show ?case using Cons.IH [of "Some (rows, True)" "seen @ batch"] rows(1) by simp
qed simp

text \<open>
  C39. The two readers of the one feature function agree: on a stream without late events, however it is cut into
  micro-batches, the streaming job over an empty Delta table runs through and leaves under every account and window end
  the row that a backfill over all the events leaves.
\<close>

theorem streaming_is_backfill:
  assumes "engine_ok sp" "updates_ok sp emit"
  shows "\<exists>table. run_streaming emit True batches None = Some table
     \<and> (\<forall>k. gold_row table k = gold_row (snd (run_backfill sp env jars (concat batches))) k)"
proof -
  have "gold_row None k = row_at (spark_features sp []) k" for k
    by (simp add: gold_row_def features_row_at [OF assms(1)] touched_def)
  then show ?thesis
    using micro_batches_row [OF assms, of None "[]" batches]
    by (simp add: run_streaming_def run_backfill_def gold_row_def [of "Some _"] Let_def)
qed

section \<open>Witnesses\<close>

text \<open>An engine with the documented behaviour.\<close>

definition demo_windows :: "int \<Rightarrow> int \<Rightarrow> int \<Rightarrow> int list" where
  "demo_windows d sl t =
     filter (\<lambda>w. t < w + d) (map (\<lambda>k. (t div sl - int k) * sl) [0 ..< nat (d div sl + 1)])"

definition demo_engine :: engine where
  "demo_engine = \<lparr>en_interval = (\<lambda>t. if t = ''1 hours'' then seconds 3600 else seconds 300), en_windows = demo_windows,
     en_sum = sum_list, en_distinct = (\<lambda>xs. int (length (remdups xs))), en_round4 = id\<rparr>"

lemma demo_windows_iff:
  assumes "0 < sl"
  shows "w \<in> set (demo_windows d sl t) \<longleftrightarrow> sl dvd w \<and> w \<le> t \<and> t < w + d"
proof
  assume "w \<in> set (demo_windows d sl t)"
  then obtain k where k: "w = (t div sl - int k) * sl" "t < w + d" by (auto simp: demo_windows_def)
  have "int k * sl \<ge> 0" using assms by simp
  moreover have "t div sl * sl \<le> t" using pos_mod_sign [OF assms, of t] by (simp add: minus_mod_eq_div_mult [symmetric])
  ultimately have "w \<le> t" using k(1) by (simp add: left_diff_distrib)
  with k show "sl dvd w \<and> w \<le> t \<and> t < w + d" by simp
next
  assume w: "sl dvd w \<and> w \<le> t \<and> t < w + d"
  then obtain m where m: "w = m * sl" by (metis dvd_def mult.commute)
  have "m \<le> t div sl" using zdiv_mono1 [of w t sl] w assms by (simp add: m)
  moreover have "t div sl - m \<le> d div sl"
  proof -
    have "(t div sl - m) * sl \<le> t - w"
      using pos_mod_sign [OF assms, of t] by (simp add: m left_diff_distrib minus_mod_eq_div_mult [symmetric])
    then have "(t div sl - m) * sl \<le> d" using w by linarith
    then show ?thesis using zdiv_mono1 [of "(t div sl - m) * sl" d sl] assms by simp
  qed
  ultimately have "nat (t div sl - m) \<in> set [0 ..< nat (d div sl + 1)]" "w = (t div sl - int (nat (t div sl - m))) * sl"
    by (auto simp: m)
  then show "w \<in> set (demo_windows d sl t)" using w unfolding demo_windows_def set_filter set_map by blast
qed

lemma demo_engine_ok: "engine_ok demo_engine"
  by (simp add: engine_ok_def demo_engine_def demo_windows_iff)

definition spent :: "int \<Rightarrow> int \<Rightarrow> norm_event" where
  "spent t amount =
     \<lparr>ne_txn = None, ne_raw = ''raw_1'', ne_tenant = ''t'', ne_account = ''acct_1'', ne_amount = amount,
      ne_currency = ''usd'', ne_effective = t, ne_descriptor = [], ne_merchant = None, ne_name = None,
      ne_category = None, ne_confidence = None, ne_version = 1\<rparr>"

text \<open>An update mode with the documented behaviour, and two micro-batches that touch the same window.\<close>

definition demo_emit :: "norm_event list \<Rightarrow> norm_event list \<Rightarrow> feature_window list" where
  "demo_emit seen batch =
     filter (\<lambda>f. touched demo_engine batch (window_key f)) (spark_features demo_engine (seen @ batch))"

lemma demo_emit_ok: "updates_ok demo_engine demo_emit"
  by (simp add: updates_ok_def demo_emit_def distinct_map_filter features_keys [OF demo_engine_ok])

theorem streaming_is_backfill_witness:
  "\<exists>table f. run_streaming demo_emit True [[spent (seconds 600) 5], [spent (seconds 900) 7]] None = Some table
     \<and> gold_row table (''acct_1'', seconds 3600) = Some f \<and> fw_spend f = 12"
proof -
  let ?all = "[spent (seconds 600) 5, spent (seconds 900) 7]" and ?k = "(''acct_1'', seconds 3600)"
  obtain table where run: "run_streaming demo_emit True [[spent (seconds 600) 5], [spent (seconds 900) 7]] None = Some table"
    and rows: "gold_row table ?k = gold_row (snd (run_backfill demo_engine None True ?all)) ?k"
    using streaming_is_backfill [OF demo_engine_ok demo_emit_ok, of "[[spent (seconds 600) 5], [spent (seconds 900) 7]]" None True]
    by auto
  have "in_group (starts_1h demo_engine) (group_of ?k) (spent (seconds 600) 5)"
    "in_group (starts_1h demo_engine) (group_of ?k) (spent (seconds 900) 7)"
    by (simp_all add: in_group_def starts_iff [OF demo_engine_ok] group_of_def spent_def seconds_def)
  then have "gold_row table ?k = Some (window_row demo_engine (seconds 3600) (group_of ?k) ?all)"
    unfolding rows by (simp add: run_backfill_def gold_row_def features_row_at [OF demo_engine_ok] touched_def Let_def)
  moreover have "fw_spend (window_row demo_engine (seconds 3600) (group_of ?k) ?all) = 12"
    by (simp add: window_row_def demo_engine_def spent_def Let_def)
  ultimately show ?thesis using run by blast
qed

theorem training_sees_no_future_witness:
  "filter (\<lambda>p. fst p = \<lparr>lb_id = ''l'', lb_account = ''acct_1'', lb_decision = seconds 3900\<rparr>)
     (run_training [\<lparr>lb_id = ''l'', lb_account = ''acct_1'', lb_decision = seconds 3900\<rparr>]
       (spark_features demo_engine [spent (seconds 600) 5, spent (seconds 4200) 7]))
   = run_training [\<lparr>lb_id = ''l'', lb_account = ''acct_1'', lb_decision = seconds 3900\<rparr>]
       (spark_features demo_engine [spent (seconds 600) 5])
   \<and> run_training [\<lparr>lb_id = ''l'', lb_account = ''acct_1'', lb_decision = seconds 3900\<rparr>]
       (spark_features demo_engine [spent (seconds 600) 5]) \<noteq> []"
proof
  let ?l = "\<lparr>lb_id = ''l'', lb_account = ''acct_1'', lb_decision = seconds 3900\<rparr>"
  have "distinct (map lb_id [?l])" by simp
  from training_sees_no_future [OF demo_engine_ok this, of "[spent (seconds 600) 5, spent (seconds 4200) 7]"]
  show "filter (\<lambda>p. fst p = ?l) (run_training [?l] (spark_features demo_engine [spent (seconds 600) 5, spent (seconds 4200) 7]))
      = run_training [?l] (spark_features demo_engine [spent (seconds 600) 5])"
    by (simp add: Let_def spent_def seconds_def)
  let ?rows = "spark_features demo_engine [spent (seconds 600) 5]" and ?st = "starts_1h demo_engine"
  have "(''acct_1'', seconds 300) \<in> set (window_groups ?st [spent (seconds 600) 5])"
    by (simp add: groups_iff in_group_def starts_iff [OF demo_engine_ok] spent_def seconds_def)
  then have "window_row demo_engine (seconds 3600) (''acct_1'', seconds 300)
      (filter (in_group ?st (''acct_1'', seconds 300)) [spent (seconds 600) 5]) \<in> set ?rows"
    unfolding spark_features_eq [OF demo_engine_ok] set_map by (rule imageI)
  then have "window_candidates ?rows ?l \<noteq> []"
    by (fastforce simp: window_candidates_def filter_empty_conv window_row_def Let_def seconds_def)
  then show "run_training [?l] ?rows \<noteq> []"
    by (simp add: run_training_def join_by_label List.map_filter_def joined_with_def newest_None)
qed

text \<open>One charge, a second after midnight on both sides.\<close>

definition quiet_state :: st where
  "quiet_state = \<lparr>led = \<lparr>tenants = [''t''], accounts = [], transactions = [],
       entries = [\<lparr>e_id = 1, e_txn = ''txn_1'', e_account = ''acct_1'', e_direction = CREDIT, e_amount = 5,
                   e_currency = ''usd'', e_effective = 1000000, e_recorded = 1000000\<rparr>], snapshots = [], entry_seq = 2\<rparr>,
     evt = \<lparr>outbox = [], outbox_seq = 1, processed = [], dead_letters = []\<rparr>,
     nrm = \<lparr>raws = [], merchants = [], aliases = [], norms = []\<rparr>,
     rsk = \<lparr>signals = [], late_arrivals = [], account_features = []\<rparr>,
     hks = \<lparr>endpoints = [], deliveries = []\<rparr>, idm = [], sid = no_side_tables,
     strm = \<lparr>messages = [], message_seq = 1, offsets = [], stream_clock = 0\<rparr>,
     idg = \<lparr>last_ms = 0, last_random = 0, ig_calls = 0, ig_env = (\<lambda>n. (0, 0))\<rparr>,
     redis = None, newest_event = None, wall = 0, tx_now = 0\<rparr>"

theorem audit_finds_the_boundary_skew_witness:
  "\<exists>s'. compare (spark_features demo_engine [spent 1000000 5]) quiet_state = (Inr [], s')"
proof -
  have one: "\<exists>v. spend_window a w u (led quiet_state) = Inr v" for a w u
    by (simp add: spend_window_def outflows_def quiet_state_def to_bigint_def in_bigint_def Let_def)
  have all: "\<exists>ds. compare_rows (led quiet_state) rows = Inr ds" for rows
  proof (induction rows)
    case (Cons f rows)
    then show ?case using one [of "fw_account f" "fw_start f" "fw_end f"]
      by (auto simp: Let_def split: prod.split option.split)
  qed simp
  from all obtain ds where "compare_rows (led quiet_state) (spark_features demo_engine [spent 1000000 5]) = Inr ds" by blast
  then obtain s' where run: "compare (spark_features demo_engine [spent 1000000 5]) quiet_state = (Inr ds, s')"
    by (simp add: compare_def read_only_def unit_of_work_def reads_r_def deferred_checks_def)
  have "\<forall>a. mset (offline_events a [spent 1000000 5]) = mset (online_events a (led quiet_state))"
    by (simp add: offline_events_def online_events_def spent_def quiet_state_def)
  from audit_finds_the_boundary_skew [OF demo_engine_ok this run] have "ds = []"
    by (simp add: spent_def seconds_def)
  with run show ?thesis by blast
qed

definition demo_window :: "string \<Rightarrow> int \<Rightarrow> feature_window" where
  "demo_window a n = \<lparr>fw_account = a, fw_start = 0, fw_end = seconds 3600, fw_spend = n, fw_count = 1, fw_max = n,
     fw_merchants = 0, fw_avg = of_int n, fw_stddev = 0\<rparr>"

text \<open>Another account's row of the same window: kept by Delta, lost without it.\<close>

theorem gold_upsert_witness:
  "(\<exists>once. upsert_gold True [demo_window ''a'' 2] (Some ([demo_window ''b'' 1], True)) = Some once
      \<and> gold_row once (''b'', seconds 3600) = Some (demo_window ''b'' 1))
   \<and> (\<exists>once. upsert_gold False [demo_window ''a'' 2] (Some ([demo_window ''b'' 1], False)) = Some once
      \<and> gold_row once (''b'', seconds 3600) = None)"
proof -
  have d: "distinct (map window_key [demo_window ''a'' 2])" by simp
  have row: "row_at [demo_window ''a'' 2] (''b'', seconds 3600) = None"
    "gold_row (Some ([demo_window ''b'' 1], c)) (''b'', seconds 3600) = Some (demo_window ''b'' 1)" for c
    by (simp_all add: demo_window_def window_key_def gold_row_def)
  have "if True then \<exists>rows. Some ([demo_window ''b'' 1], True) = Some (rows, True) else True" by simp
  from gold_upsert [OF d this] row have
    "\<exists>once. upsert_gold True [demo_window ''a'' 2] (Some ([demo_window ''b'' 1], True)) = Some once
      \<and> gold_row once (''b'', seconds 3600) = Some (demo_window ''b'' 1)"
    by fastforce
  moreover have "if False then \<exists>rows. Some ([demo_window ''b'' 1], False) = Some (rows, True) else True" by simp
  from gold_upsert [OF d this] row have
    "\<exists>once. upsert_gold False [demo_window ''a'' 2] (Some ([demo_window ''b'' 1], False)) = Some once
      \<and> gold_row once (''b'', seconds 3600) = None"
    by (fastforce simp: demo_window_def)
  ultimately show ?thesis by blast
qed

end
