(* ===== verification/Bench.thy ===== *)
theory Bench
  imports Loadgen
begin

text \<open>
  \<open>bench.py\<close>: the load test. The server, the HTTP client and the clocks are the record \<open>http\<close> over a state \<open>'w\<close> of
  their own, called with the paths, bodies and idempotency keys of the code. Each worker of the pool is a thread whose
  atomic steps are one request, one \<open>record\<close> and one \<open>fail\<close> (the two that take the lock); a schedule, a list of thread
  numbers, interleaves them, and the pool then waits for every thread. Durations are real numbers, and how a float is
  printed is a parameter.
\<close>

record 'w http =
  h_post :: "string \<Rightarrow> json \<Rightarrow> string \<Rightarrow> 'w \<Rightarrow> (string + nat \<times> string) \<times> 'w"
    \<comment> \<open>path, body, \<open>Idempotency-Key\<close>; \<open>type(exc).__name__: exc\<close>, or status and text\<close>
  h_get :: "string \<Rightarrow> 'w \<Rightarrow> (string + nat) \<times> 'w"
  h_clock :: "'w \<Rightarrow> real \<times> 'w"  \<comment> \<open>\<open>time.perf_counter()\<close>\<close>
  h_millis :: "'w \<Rightarrow> int"  \<comment> \<open>\<open>int(time.time() * 1000)\<close>\<close>

datatype bench_error = ZeroDivisionError | InvalidWorkers | SystemExit string | HttpError string

definition DESCRIPTORS :: "string list" where
  "DESCRIPTORS =
     [''SQ *TST* STARBUCKS 800-782-7282 CA'',
      ''WHOLEFDS MKT #10234 AUSTIN TX'',
      ''AMZN Mktp US*2K4LM9XY3'',
      ''UBER   *TRIP HELP.UBER.COM CA'',
      ''POS DEBIT CHIPOTLE 1234 03/14'']"

section \<open>\<open>Results\<close>\<close>

record results =
  rs_latencies :: "real list"
  rs_statuses :: "(nat, int) dict"
  rs_errors :: "string list"

definition no_results :: results where
  "no_results = \<lparr>rs_latencies = [], rs_statuses = [], rs_errors = []\<rparr>"

definition record_result :: "real \<Rightarrow> nat \<Rightarrow> results \<Rightarrow> results" where
  "record_result ms status r =
     r\<lparr>rs_latencies := rs_latencies r @ [ms], rs_statuses := dbump status 1 (rs_statuses r)\<rparr>"

definition fail_result :: "string \<Rightarrow> results \<Rightarrow> results" where
  "fail_result message r = r\<lparr>rs_errors := rs_errors r @ [message]\<rparr>"

definition rank_index :: "real \<Rightarrow> nat \<Rightarrow> int" where
  "rank_index p n = max 0 (min (int n - 1) (round_even (p / 100 * of_nat n) - 1))"

definition percentile :: "real \<Rightarrow> results \<Rightarrow> real" where
  "percentile p r =
     (if rs_latencies r = [] then 0
      else sort (rs_latencies r) ! nat (rank_index p (length (rs_latencies r))))"

section \<open>\<open>_worker\<close>\<close>

definition purchase_body :: "string list \<Rightarrow> int \<Rightarrow> json" where
  "purchase_body funding index =
     JObj [(''kind'', JStr ''card_purchase''),
           (''amount'', JInt (100 + index mod 9900)),
           (''accounts'', JObj [(''expense'', JStr ''groceries''),
                               (''funding'', JStr (funding ! nat (index mod int (length funding))))]),
           (''descriptor'', JStr (DESCRIPTORS ! nat (index mod int (length DESCRIPTORS))))]"

definition request_key :: "string \<Rightarrow> int \<Rightarrow> string" where
  "request_key run_id index = run_id @ ''_'' @ show_int index"

text \<open>What a thread does next: send the first of its indices, record an answer, or record its failure.\<close>

datatype phase = Sending | Recording real nat "string option" | Failing string

record worker =
  wk_todo :: "int list"
  wk_phase :: phase

record 'w bench =
  be_world :: 'w
  be_results :: results
  be_workers :: "worker list"
  be_sent :: "(string \<times> json) list"  \<comment> \<open>the requests made, in order\<close>

definition answered :: "string + nat \<times> string \<Rightarrow> nat \<times> string option" where
  "answered a =
     (case a of
        Inl e \<Rightarrow> (0, Some e)
      | Inr (status, body) \<Rightarrow>
          (status, if status \<ge> 400 then Some (show_int (int status) @ '': '' @ take 160 body) else None))"

text \<open>Without a funding account the modulus raises outside the \<open>try\<close>: the worker ends and its future keeps the error.\<close>

definition send :: "'w http \<Rightarrow> string \<Rightarrow> string list \<Rightarrow> nat \<Rightarrow> 'w bench \<Rightarrow> 'w bench" where
  "send h run_id funding t b =
     (case wk_todo (be_workers b ! t) of
        [] \<Rightarrow> b
      | index # rest \<Rightarrow>
          if funding = [] then b\<lparr>be_workers := (be_workers b)[t := \<lparr>wk_todo = [], wk_phase = Sending\<rparr>]\<rparr>
          else
            let body = purchase_body funding index;
                key = request_key run_id index;
                (started, w1) = h_clock h (be_world b);
                (answer, w2) = h_post h ''/v1/transactions'' body key w1;
                (ended, w3) = h_clock h w2;
                (status, failure) = answered answer
            in b\<lparr>be_world := w3,
                 be_workers := (be_workers b)[t := \<lparr>wk_todo = rest,
                    wk_phase = Recording ((ended - started) * 1000) status failure\<rparr>],
                 be_sent := be_sent b @ [(key, body)]\<rparr>)"

definition thread_step :: "'w http \<Rightarrow> string \<Rightarrow> string list \<Rightarrow> nat \<Rightarrow> 'w bench \<Rightarrow> 'w bench" where
  "thread_step h run_id funding t b =
     (if t < length (be_workers b) then
        case wk_phase (be_workers b ! t) of
          Sending \<Rightarrow> send h run_id funding t b
        | Recording ms status failure \<Rightarrow>
            b\<lparr>be_results := record_result ms status (be_results b),
              be_workers := (be_workers b)[t := (be_workers b ! t)\<lparr>wk_phase :=
                 (case failure of None \<Rightarrow> Sending | Some m \<Rightarrow> Failing m)\<rparr>]\<rparr>
        | Failing m \<Rightarrow>
            b\<lparr>be_results := fail_result m (be_results b),
              be_workers := (be_workers b)[t := (be_workers b ! t)\<lparr>wk_phase := Sending\<rparr>]\<rparr>
      else b)"

section \<open>\<open>run\<close>\<close>

record figures =
  rp_label :: string
  rp_concurrency :: int
  rp_funding_accounts :: nat
  rp_requests :: nat
  rp_succeeded :: int
  rp_seconds :: real
  rp_throughput :: int
  rp_p50 :: real
  rp_p95 :: real
  rp_p99 :: real
  rp_max :: real
  rp_statuses :: "(nat, int) dict"
  rp_sample_errors :: "string list"

definition round_to :: "nat \<Rightarrow> real \<Rightarrow> real" where
  "round_to k x = of_int (round_even (x * 10 ^ k)) / 10 ^ k"

definition bench_report :: "string \<Rightarrow> int \<Rightarrow> string list \<Rightarrow> real \<Rightarrow> results \<Rightarrow> figures" where
  "bench_report label concurrency funding elapsed r =
     (let ok = dval (rs_statuses r) 201 in
      \<lparr>rp_label = label, rp_concurrency = concurrency, rp_funding_accounts = length funding,
       rp_requests = length (rs_latencies r), rp_succeeded = ok, rp_seconds = round_to 2 elapsed,
       rp_throughput = (if elapsed \<noteq> 0 then round_even (of_int ok / elapsed) else 0),
       rp_p50 = round_to 1 (percentile 50 r), rp_p95 = round_to 1 (percentile 95 r), rp_p99 = round_to 1 (percentile 99 r),
       rp_max = (if rs_latencies r \<noteq> [] then round_to 1 (Max (set (rs_latencies r))) else 0),
       rp_statuses = rs_statuses r, rp_sample_errors = take 3 (rs_errors r)\<rparr>)"

definition start_workers :: "int \<Rightarrow> int \<Rightarrow> worker list" where
  "start_workers concurrency per_worker =
     map (\<lambda>w. \<lparr>wk_todo = [w * per_worker .. w * per_worker + per_worker - 1], wk_phase = Sending\<rparr>) [0 .. concurrency - 1]"

text \<open>
  \<open>with ThreadPoolExecutor(...)\<close>: the workers run as the schedule says, and the block ends when every one has
  finished; a request takes three steps at most, so after \<open>3 * per_worker\<close> steps of its own each has.
\<close>

definition waits :: "int \<Rightarrow> int \<Rightarrow> nat list" where
  "waits concurrency per_worker = concat (map (\<lambda>t. replicate (nat (3 * per_worker)) t) [0 ..< nat concurrency])"

definition bench_run ::
  "'w http \<Rightarrow> nat list \<Rightarrow> int \<Rightarrow> int \<Rightarrow> string list \<Rightarrow> string \<Rightarrow> 'w \<Rightarrow> bench_error + figures \<times> 'w bench" where
  "bench_run h schedule requests concurrency funding label w =
     (if concurrency = 0 then Inl ZeroDivisionError
      else if concurrency < 0 then Inl InvalidWorkers
      else
        let run_id = ''bench'' @ show_int (h_millis h w);
            per_worker = requests div concurrency;
            (started, w1) = h_clock h w;
            b = fold (thread_step h run_id funding) (schedule @ waits concurrency per_worker)
                  \<lparr>be_world = w1, be_results = no_results, be_workers = start_workers concurrency per_worker, be_sent = []\<rparr>;
            (ended, w2) = h_clock h (be_world b)
        in Inr (bench_report label concurrency funding (ended - started) (be_results b), b\<lparr>be_world := w2\<rparr>))"

section \<open>\<open>ensure_funding_accounts\<close>\<close>

definition bench_account_body :: "bool \<Rightarrow> nat \<Rightarrow> string \<Rightarrow> json" where
  "bench_account_body floored i external =
     JObj [(''name'', JStr (''Assets:Bench'' @ (if floored then ''Floor'' else ''Nofloor'') @ show_int (int i))),
           (''type'', JStr ''asset''), (''currency'', JStr ''usd''), (''external_id'', JStr external),
           (''minimum_balance'', if floored then JInt 0 else JNull)]"

definition deposit_body :: "string \<Rightarrow> json" where
  "deposit_body external =
     JObj [(''kind'', JStr ''deposit''), (''amount'', JInt 50000000),
           (''accounts'', JObj [(''destination'', JStr external), (''income'', JStr ''income'')])]"

text \<open>The statuses of the two POSTs are not looked at; an exception of the client ends the command.\<close>

definition fund_account :: "'w http \<Rightarrow> bool \<Rightarrow> nat \<Rightarrow> 'w \<Rightarrow> (bench_error + string) \<times> 'w" where
  "fund_account h floored i w =
     (let external = ''bench_'' @ (if floored then ''floor'' else ''nofloor'') @ ''_'' @ show_int (int i) in
      case h_post h ''/v1/accounts'' (bench_account_body floored i external) (''mkacct_'' @ external) w of
        (Inl e, w1) \<Rightarrow> (Inl (HttpError e), w1)
      | (Inr _, w1) \<Rightarrow>
          (case h_get h (''/v1/accounts/'' @ external) w1 of
             (Inl e, w2) \<Rightarrow> (Inl (HttpError e), w2)
           | (Inr status, w2) \<Rightarrow>
               if status \<noteq> 200 then (Inl (SystemExit (''could not create or find '' @ external)), w2)
               else if floored then
                 (case h_post h ''/v1/transactions'' (deposit_body external) (''fund_'' @ external) w2 of
                    (Inl e, w3) \<Rightarrow> (Inl (HttpError e), w3)
                  | (Inr _, w3) \<Rightarrow> (Inr external, w3))
               else (Inr external, w2)))"

fun fund_accounts :: "'w http \<Rightarrow> bool \<Rightarrow> nat list \<Rightarrow> 'w \<Rightarrow> (bench_error + string list) \<times> 'w" where
  "fund_accounts h floored [] w = (Inr [], w)"
| "fund_accounts h floored (i # rest) w =
     (case fund_account h floored i w of
        (Inl e, w1) \<Rightarrow> (Inl e, w1)
      | (Inr external, w1) \<Rightarrow>
          (case fund_accounts h floored rest w1 of
             (Inl e, w2) \<Rightarrow> (Inl e, w2)
           | (Inr externals, w2) \<Rightarrow> (Inr (external # externals), w2)))"

definition ensure_funding_accounts :: "'w http \<Rightarrow> int \<Rightarrow> bool \<Rightarrow> 'w \<Rightarrow> (bench_error + string list) \<times> 'w" where
  "ensure_funding_accounts h count floored = fund_accounts h floored [0 ..< nat count]"

section \<open>\<open>main\<close>\<close>

record bench_args =
  ba_requests :: int
  ba_concurrency :: int
  ba_funding_accounts :: int
  ba_sweep :: bool
  ba_no_floor :: bool

text \<open>What is printed: the report (as JSON), or the lines of the table.\<close>

datatype bench_output = Report figures | Table "string list"

definition rjust :: "nat \<Rightarrow> string \<Rightarrow> string" where
  "rjust n s = replicate (n - length s) (CHR '' '') @ s"

fun sweep ::
  "'w http \<Rightarrow> (int \<Rightarrow> nat list) \<Rightarrow> int \<Rightarrow> string list \<Rightarrow> int list \<Rightarrow> 'w \<Rightarrow> bench_error + figures list \<times> 'w" where
  "sweep h schedule requests funding [] w = Inr ([], w)"
| "sweep h schedule requests funding (c # cs) w =
     bind_r (bench_run h (schedule c) requests c funding [] w) (\<lambda>(r, b).
     bind_r (sweep h schedule requests funding cs (be_world b)) (\<lambda>(rs, w'). Inr (r # rs, w')))"

definition table_lines :: "(real \<Rightarrow> string) \<Rightarrow> figures \<Rightarrow> string list" where
  "table_lines shown r =
     (rjust 5 (show_int (rp_concurrency r)) @ '' '' @ rjust 8 (show_int (rp_throughput r)) @ '' '' @ rjust 8 (shown (rp_p50 r))
        @ '' '' @ rjust 8 (shown (rp_p95 r)) @ '' '' @ rjust 8 (shown (rp_p99 r)) @ '' ''
        @ rjust 7 (show_int (int (rp_requests r) - rp_succeeded r)))
     # (case rp_sample_errors r of [] \<Rightarrow> [] | e # _ \<Rightarrow> [''      ! '' @ take 100 e])"

definition table :: "(real \<Rightarrow> string) \<Rightarrow> bool \<Rightarrow> string list \<Rightarrow> figures list \<Rightarrow> string list" where
  "table shown no_floor funding rows =
     [[], show_int (int (length funding)) @ '' funding account(s), ''
            @ (if no_floor then ''no balance floor (no row lock)'' else ''each with a balance floor''),
      rjust 5 ''conc'' @ '' '' @ rjust 8 ''txn/s'' @ '' '' @ rjust 8 ''p50'' @ '' '' @ rjust 8 ''p95'' @ '' '' @ rjust 8 ''p99''
        @ '' '' @ rjust 7 ''errors'']
     @ concat (map (table_lines shown) rows)"

definition bench_main ::
  "'w http \<Rightarrow> (int \<Rightarrow> nat list) \<Rightarrow> (real \<Rightarrow> string) \<Rightarrow> bench_args \<Rightarrow> 'w \<Rightarrow> bench_error + bench_output" where
  "bench_main h schedule shown args w =
     (case (if ba_no_floor args \<or> ba_funding_accounts args > 1
            then ensure_funding_accounts h (max 1 (ba_funding_accounts args)) (\<not> ba_no_floor args) w
            else (Inr [''checking''], w)) of
        (Inl e, w1) \<Rightarrow> Inl e
      | (Inr funding, w1) \<Rightarrow>
          if \<not> ba_sweep args then
            bind_r (bench_run h (schedule (ba_concurrency args)) (ba_requests args) (ba_concurrency args) funding [] w1)
              (\<lambda>(r, _). Inr (Report r))
          else
            bind_r (sweep h schedule (ba_requests args) funding [1, 2, 4, 8, 16, 32] w1)
              (\<lambda>(rows, _). Inr (Table (table shown (ba_no_floor args) funding rows))))"

end
