(* ===== verification/Bench_Laws.thy ===== *)
theory Bench_Laws
  imports Bench "HOL-Library.Multiset"
begin

text \<open>
  Laws of \<open>bench.py\<close>: what a run counts, whatever the interleaving of its threads, and which samples its percentiles are.
\<close>

section \<open>Idempotency keys differ\<close>

lemma digit_char_inject: "digit_char m = digit_char n \<Longrightarrow> m mod 10 = n mod 10"
proof -
  assume "digit_char m = digit_char n"
  moreover have "of_char (digit_char k) = 48 + k mod 10" for k
  proof -
    have "48 + k mod 10 < 256" using mod_less_divisor [of 10 k] by linarith
    then show ?thesis by (simp add: digit_char_def of_char_of)
  qed
  ultimately have "48 + m mod 10 = 48 + n mod 10" by metis
  then show ?thesis by simp
qed

lemma show_nat_inject: "show_nat m = show_nat n \<Longrightarrow> m = n"
proof (induction m arbitrary: n rule: show_nat.induct)
  case (1 m)
  have nonempty: "show_nat k \<noteq> []" for k by (subst show_nat.simps) simp
  have last: "last (show_nat k) = digit_char k" for k by (subst show_nat.simps) simp
  have "m mod 10 = n mod 10" by (rule digit_char_inject) (metis last "1.prems")
  moreover have "m div 10 = n div 10"
  proof (cases "m < 10 \<or> n < 10")
    case True
    have "show_nat k = [c] \<longleftrightarrow> k < 10 \<and> digit_char k = c" for k c
      by (subst show_nat.simps) (simp add: nonempty)
    then have "m < 10 \<and> n < 10" using True "1.prems"
      by (metis show_nat.simps)
    then show ?thesis by simp
  next
    case False
    then have "show_nat (m div 10) @ [digit_char m] = show_nat (n div 10) @ [digit_char n]"
      using "1.prems" show_nat.simps [of m] show_nat.simps [of n] by simp
    then show ?thesis using "1.IH" False by simp
  qed
  ultimately show ?case by (metis div_mult_mod_eq)
qed

lemma request_keys_differ: "0 \<le> i \<Longrightarrow> 0 \<le> j \<Longrightarrow> request_key run_id i = request_key run_id j \<longleftrightarrow> i = j"
  by (auto simp: request_key_def show_int_def dest: show_nat_inject)

section \<open>The steps of a thread\<close>

definition pending :: "worker \<Rightarrow> nat" where
  "pending x = (case wk_phase x of Recording _ _ _ \<Rightarrow> 1 | _ \<Rightarrow> 0)"

definition work :: "worker \<Rightarrow> nat" where
  "work x = 3 * length (wk_todo x) + (case wk_phase x of Sending \<Rightarrow> 0 | Recording _ _ _ \<Rightarrow> 2 | Failing _ \<Rightarrow> 1)"

lemma work_zero: "work x = 0 \<Longrightarrow> wk_todo x = [] \<and> pending x = 0"
  by (simp add: work_def pending_def split: phase.splits)

lemma thread_step_cases:
  assumes "funding \<noteq> []"
  obtains (idle) "thread_step h run_id funding t b = b" "t < length (be_workers b) \<Longrightarrow> work (be_workers b ! t) = 0"
  | (sent) us x vs index rest ms status failure w where
      "be_workers b = us @ x # vs" "length us = t" "wk_phase x = Sending" "wk_todo x = index # rest"
      "thread_step h run_id funding t b =
         b\<lparr>be_world := w, be_workers := us @ \<lparr>wk_todo = rest, wk_phase = Recording ms status failure\<rparr> # vs,
           be_sent := be_sent b @ [(request_key run_id index, purchase_body funding index)]\<rparr>"
  | (recorded) us x vs ms status failure p where
      "be_workers b = us @ x # vs" "length us = t" "wk_phase x = Recording ms status failure" "\<forall>a b c. p \<noteq> Recording a b c"
      "thread_step h run_id funding t b =
         b\<lparr>be_results := record_result ms status (be_results b), be_workers := us @ x\<lparr>wk_phase := p\<rparr> # vs\<rparr>"
  | (failed) us x vs m where
      "be_workers b = us @ x # vs" "length us = t" "wk_phase x = Failing m"
      "thread_step h run_id funding t b =
         b\<lparr>be_results := fail_result m (be_results b), be_workers := us @ x\<lparr>wk_phase := Sending\<rparr> # vs\<rparr>"
proof (cases "t < length (be_workers b)")
  case False
  then show thesis using idle by (simp add: thread_step_def)
next
  case True
  obtain us x vs where ws: "be_workers b = us @ x # vs" and t: "length us = t"
    using id_take_nth_drop [OF True] True by (metis length_take min.absorb4)
  have step: "thread_step h run_id funding t b =
      (case wk_phase x of
         Sending \<Rightarrow> send h run_id funding t b
       | Recording ms status failure \<Rightarrow>
           b\<lparr>be_results := record_result ms status (be_results b),
             be_workers := us @ x\<lparr>wk_phase := case failure of None \<Rightarrow> Sending | Some m \<Rightarrow> Failing m\<rparr> # vs\<rparr>
       | Failing m \<Rightarrow> b\<lparr>be_results := fail_result m (be_results b), be_workers := us @ x\<lparr>wk_phase := Sending\<rparr> # vs\<rparr>)"
    using t by (auto simp: thread_step_def ws split: phase.splits)
  show thesis
  proof (cases "wk_phase x")
    case Sending
    show thesis
    proof (cases "wk_todo x")
      case Nil
      with Sending t show thesis by (intro idle) (auto simp: step ws work_def send_def)
    next
      case (Cons index rest)
      obtain w1 started where 1: "h_clock h (be_world b) = (started, w1)" by fastforce
      obtain w2 answer where 2: "h_post h ''/v1/transactions'' (purchase_body funding index) (request_key run_id index) w1 = (answer, w2)"
        by fastforce
      obtain w3 ended where 3: "h_clock h w2 = (ended, w3)" by fastforce
      obtain status failure where 4: "answered answer = (status, failure)" by fastforce
      have x: "be_workers b ! t = x" and upd: "(be_workers b)[t := x'] = us @ x' # vs" for x' using t by (auto simp: ws)
      have "thread_step h run_id funding t b =
         b\<lparr>be_world := w3, be_workers := us @ \<lparr>wk_todo = rest, wk_phase = Recording ((ended - started) * 1000) status failure\<rparr> # vs,
           be_sent := be_sent b @ [(request_key run_id index, purchase_body funding index)]\<rparr>"
        using assms by (simp add: step Sending send_def x upd Cons 1 2 3 4 Let_def)
      then show thesis by (rule sent [OF ws t Sending Cons])
    qed
  next
    case (Recording ms status failure)
    then show thesis
      by (intro recorded [OF ws t Recording]) (auto simp: step split: option.splits)
  next
    case (Failing m)
    then show thesis by (intro failed [OF ws t Failing]) (simp add: step)
  qed
qed

section \<open>What is counted\<close>

text \<open>The requests of a list of indices, and what every step keeps: each request was made or is still to be made, and each
  one made was recorded or is about to be.\<close>

definition requests_of :: "string \<Rightarrow> string list \<Rightarrow> int list \<Rightarrow> (string \<times> json) list" where
  "requests_of run_id funding = map (\<lambda>i. (request_key run_id i, purchase_body funding i))"

definition tallied :: "string \<Rightarrow> string list \<Rightarrow> int list \<Rightarrow> 'w bench \<Rightarrow> bool" where
  "tallied run_id funding indices b \<longleftrightarrow>
     mset (be_sent b) + mset (requests_of run_id funding (concat (map wk_todo (be_workers b)))) = mset (requests_of run_id funding indices)
     \<and> length (rs_latencies (be_results b)) + sum_list (map pending (be_workers b)) = length (be_sent b)
     \<and> sum_list (map snd (rs_statuses (be_results b))) = int (length (rs_latencies (be_results b)))"

lemma sum_dset: "sum_list (map snd (dset k v d)) = sum_list (map snd d) - dval d k + v" for v :: int
  by (induction d) (auto simp: dval_def)

lemma sum_dbump: "sum_list (map snd (dbump k n d)) = sum_list (map snd d) + n"
  by (simp add: dbump_def sum_dset) (simp add: dval_def)

lemma thread_step_tallied:
  assumes "funding \<noteq> []" "tallied run_id funding indices b"
  shows "tallied run_id funding indices (thread_step h run_id funding t b)"
  using assms(1)
proof (cases rule: thread_step_cases [of funding h run_id t b, consumes 1])
  case idle
  then show ?thesis using assms(2) by simp
next
  case (sent us x vs index rest ms status failure w)
  then show ?thesis using assms(2)
    by (simp add: tallied_def requests_of_def pending_def)
next
  case (recorded us x vs ms status failure p)
  then have "pending (x\<lparr>wk_phase := p\<rparr>) = 0" "pending x = 1" by (auto simp: pending_def split: phase.splits)
  with recorded assms(2) show ?thesis
    by (simp add: tallied_def record_result_def sum_dbump)
next
  case (failed us x vs m)
  then show ?thesis using assms(2)
    by (simp add: tallied_def fail_result_def pending_def)
qed

lemma threads_tallied:
  assumes "funding \<noteq> []" "tallied run_id funding indices b"
  shows "tallied run_id funding indices (fold (thread_step h run_id funding) ts b)"
  using assms(2) by (induction ts arbitrary: b) (simp_all add: thread_step_tallied [OF assms(1)])

lemma thread_step_work:
  assumes "funding \<noteq> []" "u < length (be_workers b)"
  shows "length (be_workers (thread_step h run_id funding t b)) = length (be_workers b)"
    and "work (be_workers (thread_step h run_id funding t b) ! u) \<le> work (be_workers b ! u) - (if u = t then 1 else 0)"
proof -
  have phase: "work (x\<lparr>wk_phase := p\<rparr>) \<le> work x - 1" if "wk_phase x = Recording ms status failure" "\<forall>a b c. p \<noteq> Recording a b c"
    for x p ms status failure using that by (auto simp: work_def split: phase.splits)
  have "length (be_workers (thread_step h run_id funding t b)) = length (be_workers b)
    \<and> work (be_workers (thread_step h run_id funding t b) ! u) \<le> work (be_workers b ! u) - (if u = t then 1 else 0)"
    using assms(1)
  proof (cases rule: thread_step_cases [of funding h run_id t b, consumes 1])
    case idle
    then show ?thesis using assms(2) by auto
  next
    case (sent us x vs index rest ms status failure w)
    then show ?thesis by (auto simp: work_def nth_append nth_Cons')
  next
    case (recorded us x vs ms status failure p)
    then show ?thesis using phase [OF recorded(3,4)] by (auto simp: nth_append nth_Cons')
  next
    case (failed us x vs m)
    then show ?thesis by (auto simp: work_def nth_append nth_Cons')
  qed
  then show "length (be_workers (thread_step h run_id funding t b)) = length (be_workers b)"
    and "work (be_workers (thread_step h run_id funding t b) ! u) \<le> work (be_workers b ! u) - (if u = t then 1 else 0)" by blast+
qed

lemma threads_work:
  assumes "funding \<noteq> []" "u < length (be_workers b)"
  shows "length (be_workers (fold (thread_step h run_id funding) ts b)) = length (be_workers b)
    \<and> work (be_workers (fold (thread_step h run_id funding) ts b) ! u) \<le> work (be_workers b ! u) - count_list ts u"
  using assms(2)
proof (induction ts arbitrary: b)
  case (Cons t ts)
  let ?b = "thread_step h run_id funding t b"
  have "length (be_workers ?b) = length (be_workers b)"
    "work (be_workers ?b ! u) \<le> work (be_workers b ! u) - (if u = t then 1 else 0)"
    by (rule thread_step_work [OF assms(1) Cons.prems])+
  then show ?case using Cons.IH [of ?b] Cons.prems by (auto split: if_splits)
qed simp

section \<open>A run\<close>

lemma indices_of_workers: "concat (map (\<lambda>w. [w * p .. w * p + p - 1]) [0 .. int c - 1]) = [0 .. int c * p - 1]" if "0 \<le> p"
proof (induction c)
  case (Suc c)
  have "[0 .. int (Suc c) - 1] = [0 .. int c - 1] @ [int c]" by (simp add: upto_rec2)
  moreover have "[0 .. int (Suc c) * p - 1] = [0 .. int c * p - 1] @ [int c * p .. int c * p + p - 1]"
  proof (cases "p = 0 \<or> c = 0")
    case False
    then have "1 \<le> int c * p" using that by (simp add: int_one_le_iff_zero_less)
    then show ?thesis using that upto_split2 [of 0 "int c * p - 1" "int c * p + p - 1"] by (simp add: algebra_simps)
  qed auto
  ultimately show ?case using Suc by simp
qed simp

lemma count_waits: "u < nat c \<Longrightarrow> count_list (waits c p) u = nat (3 * p)"
proof -
  have same: "count_list (replicate k t) u = (if t = u then k else 0)" for k t by (induction k) auto
  have "count_list (concat (map (replicate k) [0 ..< n])) u = (if u < n then k else 0)" for k n
    by (induction n) (auto simp: same less_Suc_eq)
  then show "u < nat c \<Longrightarrow> count_list (waits c p) u = nat (3 * p)"
    by (simp add: waits_def)
qed

definition started_bench :: "int \<Rightarrow> int \<Rightarrow> 'w \<Rightarrow> 'w bench" where
  "started_bench concurrency per_worker w =
     \<lparr>be_world = w, be_results = no_results, be_workers = start_workers concurrency per_worker, be_sent = []\<rparr>"

lemma threads_all_run:
  assumes "0 < c" "0 \<le> p" "funding \<noteq> []"
    and b_def: "b = fold (thread_step h run_id funding) (schedule @ waits c p) (started_bench c p w)"
  shows "mset (be_sent b) = mset (requests_of run_id funding [0 .. c * p - 1])"
    and "length (rs_latencies (be_results b)) = nat (c * p)"
    and "sum_list (map snd (rs_statuses (be_results b))) = c * p"
proof -
  let ?b = "started_bench c p w"
  have length: "length (be_workers ?b) = nat c" using assms(1) by (simp add: started_bench_def start_workers_def)
  have "concat (map wk_todo (be_workers ?b)) = [0 .. c * p - 1]"
    using indices_of_workers [of p "nat c"] assms(1,2) by (simp add: started_bench_def start_workers_def o_def)
  then have "tallied run_id funding [0 .. c * p - 1] ?b"
    using assms(1) by (simp add: tallied_def started_bench_def no_results_def start_workers_def pending_def o_def)
  then have tallied: "tallied run_id funding [0 .. c * p - 1] b"
    unfolding b_def by (rule threads_tallied [OF assms(3)])
  have "work (be_workers ?b ! u) = nat (3 * p)" if "u < nat c" for u
    using that assms(2) by (simp add: started_bench_def start_workers_def work_def)
  then have "length (be_workers b) = nat c \<and> work (be_workers b ! u) = 0" if "u < nat c" for u
    using threads_work [OF assms(3), of u ?b h run_id "schedule @ waits c p"] that length
    by (simp add: b_def count_waits)
  moreover have "length (be_workers b) = nat c"
    using threads_work [OF assms(3), of 0 ?b h run_id "schedule @ waits c p"] length assms(1) by (simp add: b_def)
  ultimately have "\<forall>x \<in> set (be_workers b). work x = 0" by (auto simp: in_set_conv_nth)
  then have idle: "\<forall>x \<in> set (be_workers b). wk_todo x = [] \<and> pending x = 0" by (blast dest: work_zero)
  then have "concat (map wk_todo (be_workers b)) = []" "sum_list (map pending (be_workers b)) = 0" by auto
  with tallied have sent: "mset (be_sent b) = mset (requests_of run_id funding [0 .. c * p - 1])"
    and latencies: "length (rs_latencies (be_results b)) = length (be_sent b)"
    and statuses: "sum_list (map snd (rs_statuses (be_results b))) = int (length (rs_latencies (be_results b)))"
    by (simp_all add: tallied_def requests_of_def)
  show "mset (be_sent b) = mset (requests_of run_id funding [0 .. c * p - 1])" by (rule sent)
  have "length (be_sent b) = nat (c * p)" using mset_eq_length [OF sent] by (simp add: requests_of_def)
  with latencies show "length (rs_latencies (be_results b)) = nat (c * p)" by simp
  with statuses assms(1,2) show "sum_list (map snd (rs_statuses (be_results b))) = c * p" by simp
qed

lemma bench_run_returns: "0 < concurrency \<Longrightarrow> \<exists>r b. bench_run h schedule requests concurrency funding label w = Inr (r, b)"
  by (simp add: bench_run_def Let_def split_beta)

lemma bench_run_Inr:
  assumes "bench_run h schedule requests concurrency funding label w = Inr (r, b)"
  obtains w1 elapsed final where "0 < concurrency"
    "final = fold (thread_step h (''bench'' @ show_int (h_millis h w)) funding) (schedule @ waits concurrency (requests div concurrency))
       (started_bench concurrency (requests div concurrency) w1)"
    "r = bench_report label concurrency funding elapsed (be_results final)"
    "be_sent b = be_sent final" "be_results b = be_results final"
  using assms by (auto simp: bench_run_def started_bench_def Let_def split: if_splits prod.splits)

text \<open>
  C40. However the workers are interleaved, a run with at least one worker and one funding account ends with a report,
  and made exactly the requests of the indices below \<open>concurrency * (requests // concurrency)\<close>, each once, no two of
  them with the same idempotency key; the report counts all of them, and its statuses sum to their number. (The
  remainder of the division is not sent.)
\<close>

theorem bench_counts_every_request:
  assumes "0 < concurrency" "0 \<le> requests" "funding \<noteq> []"
  shows "\<exists>r b. bench_run h schedule requests concurrency funding label w = Inr (r, b)
     \<and> mset (be_sent b) = mset (map (\<lambda>i. (request_key (''bench'' @ show_int (h_millis h w)) i, purchase_body funding i))
          [0 .. concurrency * (requests div concurrency) - 1])
     \<and> distinct (map fst (be_sent b))
     \<and> int (rp_requests r) = concurrency * (requests div concurrency)
     \<and> sum_list (map snd (rp_statuses r)) = int (rp_requests r)"
proof -
  let ?id = "''bench'' @ show_int (h_millis h w)" and ?p = "requests div concurrency"
  have p: "0 \<le> ?p" using assms(1,2) by (simp add: pos_imp_zdiv_nonneg_iff)
  obtain r b where run: "bench_run h schedule requests concurrency funding label w = Inr (r, b)"
    using bench_run_returns [OF assms(1), of h schedule requests funding label w] by blast
  obtain w1 elapsed final where f: "final = fold (thread_step h ?id funding) (schedule @ waits concurrency ?p) (started_bench concurrency ?p w1)"
    "r = bench_report label concurrency funding elapsed (be_results final)" "be_sent b = be_sent final"
    by (rule bench_run_Inr [OF run])
  note all = threads_all_run [OF assms(1) p assms(3) f(1)]
  have "distinct (map fst (requests_of ?id funding [0 .. n]))" for n
    by (simp add: requests_of_def distinct_map o_def inj_on_def request_keys_differ)
  moreover have "mset (map fst (be_sent b)) = mset (map fst (requests_of ?id funding [0 .. concurrency * ?p - 1]))"
    using all(1) f(3) by (metis mset_map)
  ultimately have "distinct (map fst (be_sent b))" by (metis mset_eq_imp_distinct_iff)
  moreover have "int (rp_requests r) = concurrency * ?p" "sum_list (map snd (rp_statuses r)) = int (rp_requests r)"
    using all(2,3) f(2) assms(1) p by (simp_all add: bench_report_def Let_def)
  ultimately show ?thesis using run all(1) f(3) by (auto simp: requests_of_def)
qed

text \<open>A server that answers 201 to a purchase but every third time 409, and a clock that ticks with each reading.\<close>

definition demo_http :: "nat http" where
  "demo_http =
     \<lparr>h_post = (\<lambda>path body key w. (Inr (if w mod 3 = 0 then (409, ''conflict'') else (201, [])), w)),
      h_get = (\<lambda>path w. (Inr 200, w)),
      h_clock = (\<lambda>w. (of_nat w, w + 1)),
      h_millis = (\<lambda>w. int w)\<rparr>"

theorem bench_counts_every_request_witness:
  "\<exists>r b. bench_run demo_http [1, 0, 1] 5 2 [''checking''] [] 0 = Inr (r, b)
     \<and> distinct (map fst (be_sent b)) \<and> rp_requests r = 4 \<and> sum_list (map snd (rp_statuses r)) = 4"
proof -
  obtain r b where "bench_run demo_http [1, 0, 1] 5 2 [''checking''] [] 0 = Inr (r, b)" "distinct (map fst (be_sent b))"
    "int (rp_requests r) = 2 * (5 div 2)" "sum_list (map snd (rp_statuses r)) = int (rp_requests r)"
    using bench_counts_every_request [of 2 5 "[''checking'']" demo_http "[1, 0, 1]" "[]" 0] by auto
  then show ?thesis by auto
qed

section \<open>Percentiles\<close>

lemma round_even_floor: "round_even x = \<lfloor>x\<rfloor> \<or> round_even x = \<lfloor>x\<rfloor> + 1 \<and> of_int \<lfloor>x\<rfloor> < x"
  by (auto simp: round_even_def Let_def)

lemma round_even_ceiling: "round_even x = \<lceil>x\<rceil> \<or> round_even x = \<lceil>x\<rceil> - 1"
  using round_even_floor [of x] by (cases "of_int \<lfloor>x\<rfloor> = x") (auto simp: ceiling_altdef)

lemma round_even_le: "x \<le> y \<Longrightarrow> round_even x \<le> round_even y"
proof (cases "\<lfloor>x\<rfloor> = \<lfloor>y\<rfloor>")
  case True
  moreover assume "x \<le> y"
  ultimately show ?thesis by (auto simp: round_even_def Let_def)
next
  case False
  moreover assume "x \<le> y"
  ultimately have "\<lfloor>x\<rfloor> + 1 \<le> \<lfloor>y\<rfloor>" using floor_mono [of x y] by linarith
  then show ?thesis using round_even_floor [of x] round_even_floor [of y] by linarith
qed

lemma round_to_mono: "x \<le> y \<Longrightarrow> round_to k x \<le> round_to k y"
  by (simp add: round_to_def divide_right_mono round_even_le)

lemma rank_index_range: "0 < n \<Longrightarrow> 0 \<le> rank_index p n \<and> rank_index p n < int n"
  by (simp add: rank_index_def)

lemma rank_index_mono: "p \<le> q \<Longrightarrow> rank_index p n \<le> rank_index q n"
proof -
  assume "p \<le> q"
  then have "round_even (p / 100 * of_nat n) \<le> round_even (q / 100 * of_nat n)"
    by (intro round_even_le) (simp add: mult_right_mono divide_right_mono)
  then show ?thesis by (simp add: rank_index_def)
qed

lemma percentile_mono: "p \<le> q \<Longrightarrow> percentile p r \<le> percentile q r"
  using rank_index_range [of "length (rs_latencies r)" q] rank_index_mono [of p q "length (rs_latencies r)"]
  by (auto simp: percentile_def intro!: sorted_nth_mono)

lemma percentile_sample: "rs_latencies r \<noteq> [] \<Longrightarrow> percentile p r \<in> set (rs_latencies r)"
  using rank_index_range [of "length (rs_latencies r)" p] nth_mem [of _ "sort (rs_latencies r)"]
  by (simp add: percentile_def nat_less_iff)

lemma rank_index_nearest:
  assumes "0 \<le> p" "p \<le> 100" "0 < n"
  shows "rank_index p n = max 0 (\<lceil>p / 100 * of_nat n\<rceil> - 1) \<or> rank_index p n = \<lceil>p / 100 * of_nat n\<rceil> - 2"
proof -
  have "p / 100 * of_nat n \<le> of_nat n" using assms by (simp add: mult_left_le_one_le)
  then have "\<lceil>p / 100 * of_nat n\<rceil> \<le> int n" by (simp add: ceiling_le_iff)
  then show ?thesis using round_even_ceiling [of "p / 100 * of_nat n"] by (auto simp: rank_index_def)
qed

text \<open>
  Of every report the median is at most the 95th, this at most the 99th percentile and this at most the maximum; and
  each percentile of a run that recorded a latency is the sample of nearest rank, the one at
  \<open>ceil(p / 100 * n)\<close>, or the sample just below it.
\<close>

theorem latency_percentiles:
  assumes "bench_run h schedule requests concurrency funding label w = Inr (r, b)"
  shows "rp_p50 r \<le> rp_p95 r \<and> rp_p95 r \<le> rp_p99 r \<and> rp_p99 r \<le> rp_max r
     \<and> (\<forall>p. rs_latencies (be_results b) \<noteq> [] \<and> 0 \<le> p \<and> p \<le> 100 \<longrightarrow>
          (let ordered = sort (rs_latencies (be_results b)); nearest = \<lceil>p / 100 * of_nat (length ordered)\<rceil> in
           percentile p (be_results b) = ordered ! nat (max 0 (nearest - 1))
           \<or> 2 \<le> nearest \<and> percentile p (be_results b) = ordered ! nat (nearest - 2)))"
proof -
  let ?r = "be_results b"
  obtain elapsed where f: "r = bench_report label concurrency funding elapsed ?r"
    by (rule bench_run_Inr [OF assms]) metis
  have "percentile 99 ?r \<le> Max (set (rs_latencies ?r))" if "rs_latencies ?r \<noteq> []"
    using percentile_sample [OF that] by simp
  then have "rp_p99 r \<le> rp_max r"
    by (auto simp: f bench_report_def Let_def intro: round_to_mono) (simp add: percentile_def round_to_def round_even_def)
  moreover have "rp_p50 r \<le> rp_p95 r" "rp_p95 r \<le> rp_p99 r"
    by (simp_all add: f bench_report_def Let_def round_to_mono percentile_mono)
  moreover have "percentile p ?r = ordered ! nat (max 0 (nearest - 1)) \<or> 2 \<le> nearest \<and> percentile p ?r = ordered ! nat (nearest - 2)"
    if "rs_latencies ?r \<noteq> [] \<and> 0 \<le> p \<and> p \<le> 100" "ordered = sort (rs_latencies ?r)" "nearest = \<lceil>p / 100 * of_nat (length ordered)\<rceil>"
    for p ordered nearest
    using rank_index_nearest [of p "length ordered"] rank_index_range [of "length ordered" p] that
    by (auto simp: percentile_def)
  ultimately show ?thesis unfolding Let_def by blast
qed

text \<open>Of five samples the code's median is the second smallest; the nearest rank is the third.\<close>

lemma median_of_five: "percentile 50 (fold (\<lambda>ms. record_result ms 201) [1, 2, 3, 4, 5] no_results) = 2"
  by (simp add: percentile_def record_result_def no_results_def rank_index_def round_even_def)

theorem latency_percentiles_witness:
  "\<exists>r b. bench_run demo_http [1, 0, 1] 5 2 [''checking''] [] 0 = Inr (r, b)
     \<and> rp_p50 r \<le> rp_p95 r \<and> rp_p99 r \<le> rp_max r"
proof -
  obtain r b where run: "bench_run demo_http [1, 0, 1] 5 2 [''checking''] [] 0 = Inr (r, b)"
    using bench_run_returns [of 2 demo_http "[1, 0, 1]" 5 "[''checking'']" "[]" 0] by auto
  with latency_percentiles [OF this] show ?thesis by blast
qed

end
