(* ===== verification/Shutdown.thy ===== *)
theory Shutdown
  imports Workers
begin

text \<open>
  A stop of \<open>workers/runner.py\<close> by a signal: the loop finishes the message at hand and ends in the middle of the batch.
\<close>

text \<open>The loop over a batch when \<open>_shutdown\<close> is set while the message after the first \<open>stop\<close> of them is processed.\<close>

fun batch_until :: "nat \<Rightarrow> consumer \<Rightarrow> worker_env \<Rightarrow> message list \<Rightarrow> nat m" where
  "batch_until stop c env [] = ret_op 0"
| "batch_until stop c env (msg # msgs) =
     bind_op (process_one c env msg) (\<lambda>advance.
     bind_op (if advance then commit_offset c msg else ret_op ()) (\<lambda>_.
     bind_op (case stop of 0 \<Rightarrow> ret_op 0 | Suc stop' \<Rightarrow> batch_until stop' c env msgs) (\<lambda>n.
     ret_op (if advance then n + 1 else n))))"

lemma process_one_advances: "process_one c env msg s = (Inr b, s') \<Longrightarrow> b"
  by (auto simp: process_one_def ret_op_def bind_op_def split: prod.splits option.splits sum.splits)

lemma batch_until_prefix: "batch_until stop c env msgs = run_batch c env (take (Suc stop) msgs)"
proof (induction msgs arbitrary: stop)
  case (Cons msg msgs)
  have rest: "(case stop of 0 \<Rightarrow> ret_op 0 | Suc stop' \<Rightarrow> batch_until stop' c env msgs) = run_batch c env (take stop msgs)"
    by (cases stop) (simp_all add: Cons.IH)
  show ?case
  proof
    fix s
    show "batch_until stop c env (msg # msgs) s = run_batch c env (take (Suc stop) (msg # msgs)) s"
    proof (cases "process_one c env msg s")
      case (Pair q s1)
      then show ?thesis
        using process_one_advances [of c env msg s _ s1] by (cases q) (auto simp: rest bind_op_def intro!: prod.case_cong sum.case_cong)
    qed
  qed
qed simp

lemma run_batch_append:
  "run_batch c env (xs @ ys) s =
     (case run_batch c env xs s of
        (Inl e, s') \<Rightarrow> (Inl e, s')
      | (Inr n, s') \<Rightarrow> (case run_batch c env ys s' of (Inl e, s'') \<Rightarrow> (Inl e, s'') | (Inr k, s'') \<Rightarrow> (Inr (n + k), s'')))"
proof (induction xs arbitrary: s)
  case Nil
  show ?case by (auto simp: ret_op_def split: prod.splits sum.splits)
next
  case (Cons msg xs)
  show ?case
  proof (cases "process_one c env msg s")
    case (Pair q s1)
    then show ?thesis
      using process_one_advances [of c env msg s _ s1]
      by (cases q) (auto simp: Cons.IH bind_op_def commit_offset_def writes_def ret_op_def split: prod.splits sum.splits)
  qed
qed

context consumer_contract
begin

text \<open>
  Stopping and starting again is never having stopped, on the Postgres transport: a worker stopped after any message of a
  batch that would have gone through has worked off exactly the messages up to that one, finds the next one first when
  it starts again, and working those off leaves the state that no stop would have left. (On Kafka a commit covers the
  whole batch, so the same stop loses the rest of it: \<open>Kafka_Laws\<close>.)
\<close>

theorem stop_and_resume:
  assumes "run_batch c env msgs s = (Inr n, s')" "backlog c s = msgs @ rest" "stream_ok (strm s)"
  shows "\<exists>s1. batch_until stop c env msgs s = (Inr (min (Suc stop) (length msgs)), s1)
     \<and> stream_ok (strm s1) \<and> backlog c s1 = drop (Suc stop) msgs @ rest
     \<and> run_batch c env (drop (Suc stop) msgs) s1 = (Inr (length msgs - Suc stop), s')"
proof -
  let ?before = "take (Suc stop) msgs" and ?after = "drop (Suc stop) msgs"
  have split: "run_batch c env (?before @ ?after) s = (Inr n, s')" using assms(1) by simp
  obtain k s1 where one: "run_batch c env ?before s = (Inr k, s1)"
    and two: "\<exists>m. run_batch c env ?after s1 = (Inr m, s')"
    using split unfolding run_batch_append by (auto split: prod.splits sum.splits)
  have "backlog c s = ?before @ (?after @ rest)" using assms(2) by simp
  from run_batch_drains [OF one this assms(3)]
  have d1: "stream_ok (strm s1)" "k = length ?before" "backlog c s1 = ?after @ rest" by auto
  from two obtain m where m: "run_batch c env ?after s1 = (Inr m, s')" by blast
  from run_batch_drains [OF m d1(3,1)] have "m = length ?after" by auto
  with one m d1 show ?thesis by (auto simp: batch_until_prefix min.commute)
qed

end

end
