(* ===== verification/Config.thy ===== *)
theory Config
  imports Kafka RateLimit
begin

text \<open>\<open>config.py\<close>: the settings as they are read from the environment. Those that are constants stand where they are used.\<close>

record settings =
  set_database_url :: string
  set_redis_url :: "string option"
  set_stream_backend :: string
  set_kafka_brokers :: string
  set_rate_limit :: int

definition env_or :: "(string \<Rightarrow> string option) \<Rightarrow> string \<Rightarrow> string \<Rightarrow> string" where
  "env_or environ key def = (case environ key of None \<Rightarrow> def | Some v \<Rightarrow> v)"

text \<open>\<open>Settings\<close>, whose fields from the environment are read when the module is loaded; the others are constants.\<close>

definition load_settings :: "(string \<Rightarrow> string option) \<Rightarrow> exn + settings" where
  "load_settings environ =
     (case py_int (env_or environ ''LEDGERFLOW_RATE_LIMIT'' ''600'') of
        None \<Rightarrow> Inl (PyExn ValueError)
      | Some rate \<Rightarrow>
          Inr \<lparr>set_database_url = env_or environ ''LEDGERFLOW_DATABASE_URL'' ''postgresql://localhost/ledgerflow'',
               set_redis_url = (case environ ''LEDGERFLOW_REDIS_URL'' of None \<Rightarrow> None | Some u \<Rightarrow> if u = [] then None else Some u),
               set_stream_backend = env_or environ ''LEDGERFLOW_STREAM'' ''pg'',
               set_kafka_brokers = env_or environ ''LEDGERFLOW_KAFKA_BROKERS'' ''localhost:9092'',
               set_rate_limit = rate\<rparr>)"

text \<open>With nothing set the transport is Postgres and the limit the one of \<open>default_limiter\<close>.\<close>

lemma load_settings_default:
  "\<exists>s. load_settings (\<lambda>_. None) = Inr s \<and> get_stream (set_stream_backend s) None = PostgresStream
     \<and> set_rate_limit s = rate_limit_per_minute \<and> set_redis_url s = None"
proof -
  have "py_int ''600'' = Some 600" by code_simp
  then show ?thesis by (simp add: load_settings_def env_or_def get_stream_def rate_limit_per_minute_def)
qed

end
