(* ===== verification/Spec2Isabelle.thy ===== *)
theory Spec2Isabelle
  imports Api_Properties Worker_Laws Cli_Laws Migrations Loadgen_Properties Kafka_Laws Spark_Laws Bench_Laws Shutdown Config
begin

text \<open>
  Verification of ledgerflow, a double-entry ledger with an event pipeline (Python, under \<open>src/src/ledgerflow\<close>; the
  schema is under \<open>src/migrations\<close>).

  \<^bold>\<open>The program.\<close> A client posts a business event (a purchase, a transfer, a refund) to the HTTP API under an
  idempotency key. In one database transaction the service screens it, builds a balanced journal transaction with the
  rule of its kind, checks the floors of the accounts, writes the rows and an event into the outbox. A relay copies
  the outbox to a stream. Consumers read the stream, each with an offset of its own and a table of the events it has
  claimed: the normalizer resolves the descriptor to a merchant and publishes the result, the risk worker computes
  features as of the event's own time and raises signals, the webhook worker queues deliveries, which a dispatcher
  attempts. Beside this run the operator's commands, a generator of histories, a load test, and Spark jobs that
  compute the features offline, with an audit of one side against the other.

  \<^bold>\<open>State.\<close> One record \<open>st\<close> (\<open>Unit_Of_Work\<close>) holds everything that outlives a call: the tables of the database, one list of
  typed rows each (\<open>led\<close>, \<open>evt\<close>, \<open>nrm\<close> and so on, by the repository that owns them), the stream, the generator of ids,
  Redis, the risk worker's watermark and the clocks. A statement is a function of the tables it touches that returns
  its result or its constraint violation (\<open>Op_Monad\<close>); \<open>unit_of_work\<close> runs a body, checks the deferred constraints and
  rolls the tables back on failure. So a request, a pass of a worker or a command is a function from a state to a
  result and a state, and interleavings of transactions are sequences of such steps.

  \<^bold>\<open>Theories, by the part they model.\<close>

  \<^item> \<open>LF_Prelude\<close>, \<open>Op_Monad\<close>: results that may raise, dicts as association lists, state and exceptions, and the collections of
    facts the proofs share. \<open>Py_String\<close>, \<open>Py_Decimal\<close>, \<open>Regex\<close>, \<open>Json\<close>: what the code uses of Python's library.
    \<open>Errors\<close>: \<open>application/errors.py\<close> and every other exception. \<open>Config\<close>: \<open>config.py\<close>.
  \<^item> \<open>Money\<close>, \<open>Ledger\<close>, \<open>Posting\<close>: \<open>domain/\<close>. Amounts, journal transactions and the rules, which share the locale
    \<open>posting_contract\<close>. Theorems: inside the range of the decimal context parsing is exact or refused, a journal can be constructed exactly when it balances, a
    posting that is built moves the amount asked for. \<open>Ids\<close>: \<open>ids.py\<close>, whose ULIDs increase.
  \<^item> \<open>Repo_Ledger\<close>, \<open>Repo_Events\<close>, \<open>Repo_Normalization\<close>, \<open>Features\<close> (with \<open>features/\<close>), \<open>Repo_Webhooks\<close>, \<open>Side_Tables\<close>:
    \<open>adapters/repositories.py\<close> and the statements other files send themselves. \<open>Ledger_Store\<close>: the invariant \<open>ledger_ok\<close>,
    the exact snapshot cache, conservation. \<open>Unit_Of_Work\<close>, \<open>Migrations\<close>: \<open>adapters/db.py\<close>.
  \<^item> \<open>Serializers\<close>, \<open>Services\<close>, with \<open>Service_Laws\<close> and \<open>Tenancy\<close>: \<open>application/\<close>. From any state reachable by the services the
    books balance and reconcile, floors hold, tenants and modes never mix; an accepted posting leaves exactly its rows
    and its event, a refused one nothing, a declined one is exactly one in a card-testing burst, a reversal restores the balances.
  \<^item> \<open>Event_Stream\<close>: \<open>stream/base.py\<close> as the locale \<open>event_stream\<close> and \<open>stream/pg.py\<close>, its interpretation. \<open>Kafka\<close>, \<open>Kafka_Laws\<close>:
    \<open>stream/kafka.py\<close>, which is not one: its commit ignores the offset, and its lag is always zero.
  \<^item> \<open>Relay\<close>, \<open>Runner\<close>, \<open>Shutdown\<close>, \<open>Webhooks\<close>, \<open>Normalizer\<close>, \<open>Risk\<close>, \<open>Workers\<close>, with \<open>Worker_Laws\<close>; \<open>Clean\<close>, \<open>Resolve\<close>: \<open>workers/\<close> and
    \<open>normalization/\<close>. What every handler promises is the locale \<open>consumer_contract\<close>, interpreted on the three handlers.
    Delivery at least once and in order, effects at most once, bounded attempts, dead letters, draining to
    quiescence, stop and resume, the life of a delivery as an abstract machine.
  \<^item> \<open>Auth\<close>, \<open>RateLimit\<close>, \<open>Versioning\<close>, \<open>Idempotency\<close>, \<open>Deps\<close>, \<open>Schemas\<close>, \<open>Resources\<close>, \<open>Analytics\<close>, \<open>Api\<close>, with \<open>Api_Laws\<close> and
    \<open>Api_Properties\<close>: \<open>api/\<close>. The locale \<open>idempotent_work\<close> is what the protocol asks of an endpoint's work, and
    \<open>token_bucket\<close> what both back ends of the limiter promise. \<open>serve\<close> is a whole request: a retry is replayed, a failure
    changes no row but for the recorded evidence of a decline, the key table implements an abstract map from keys to answers, responses are well formed.
  \<^item> \<open>Cli\<close>, \<open>Cli_Laws\<close>: \<open>cli.py\<close>. \<open>Loadgen\<close>, \<open>Loadgen_Plan\<close>, \<open>Loadgen_Laws\<close>, \<open>Loadgen_Fit\<close>, \<open>Loadgen_Properties\<close>: \<open>loadgen.py\<close>.
    \<open>Bench\<close>, \<open>Bench_Laws\<close>: \<open>bench.py\<close>, its threads under any schedule.
  \<^item> \<open>Spark\<close>, \<open>Spark_Parity\<close>, \<open>Spark_Laws\<close>: \<open>spark/\<close>. No training row sees past its label's decision, a streaming run leaves
    what a backfill leaves, and the audit reports skew exactly when an event lies on a window boundary.

  \<^bold>\<open>Parameters.\<close> Code that is not under \<open>src\<close> is an argument: SHA-256 and HMAC, random tokens, the similarity of \<open>pg_trgm\<close>, the
  HTTP clients, the Kafka client and broker, the Spark engine, \<open>json.loads\<close>, ISO 8601 parsing and printing, the printing of
  floats, pydantic's coercion of integers, the psycopg driver's treatment of a JSON value in a statement, and what a
  migration's SQL does. Where a theorem relies on one, its documented behaviour is a named
  hypothesis (\<open>engine_ok\<close>, \<open>updates_ok\<close>, \<open>client_ok\<close>), with an instance that satisfies it. What the
  environment decides (failing publishes, crashes, clocks, draws of random numbers, the order of a set, schedules of
  threads, whether a lock wait times out) is universally quantified.

  \<^bold>\<open>Bounds and fuel.\<close> Loops that poll until there is nothing to do take fuel: \<open>relay_run\<close> (passes), \<open>run_consumer\<close> (polls) and
  \<open>drain_all\<close> (each worker's). Their theorems say that they return: fuel above the number of unpublished or unread rows
  is enough (\<open>relay_run_drains\<close>, \<open>run_consumer_total\<close>), more changes nothing, and \<open>drain_all_reaches_quiescence\<close> gives enough
  fuel for the whole pipeline. The pool of the load test runs every worker for three steps a request, as many as one
  can take. All other recursion is structural or has its termination proved. Machine integers: \<open>bigint\<close> and \<open>integer\<close>
  columns raise outside their range, random parts of ids are words; Python's integers are \<open>int\<close>.

  \<^bold>\<open>Idealisations.\<close> Text is ASCII. Floats, \<open>REAL\<close> and \<open>float8\<close> are real numbers. Times are microseconds. An SQL statement is the
  function it computes, transactions are serial except where locks and skipped rows are arguments.

  \<^bold>\<open>Not modelled.\<close> Logging, message texts and tracebacks; routing, validation and documentation pages by FastAPI, \<open>/healthz\<close>,
  \<open>/favicon.ico\<close> and the mounting of the dashboard's static files, which is HTML and JavaScript; \<open>argparse\<close>, the start of uvicorn
  and the installation of signal handlers; the connection pool; the session, the readers and writers and \<open>parse_events\<close> of
  the Spark jobs, which only configure PySpark. Performance is outside the model.
\<close>

end
